(* ===== verification/Go_Base.thy ===== *)
theory Go_Base
  imports Complex_Main "HOL-Library.Word" "HOL-Library.Char_ord" "HOL-Library.List_Lexorder"
begin

text \<open>
  The base of the library: the types every component shares and the parts of the Go language
  they rest on.

  \<^item> Byte strings (\<open>string\<close> and \<open>[]byte\<close> in Go) are HOL strings: a character is a byte.
  \<^item> An instant (\<open>time.Time\<close>) is the number of nanoseconds since Go's zero time, so \<open>IsZero\<close> is
    a comparison with 0; a duration is a signed 64-bit number of nanoseconds, kept as an integer
    with its saturation (\<open>Time.Sub\<close>) and its wrap-around (multiplication) written out.
  \<^item> Errors are values of \<open>go_error\<close>; \<open>fmt.Errorf ("...: %w", err)\<close> is \<open>Wrapped\<close>, and
    \<open>errors.Is\<close> walks the chain.
  \<^item> A \<open>float64\<close> that is only carried (a JSON number) is its bit pattern; one that is compared
    (a policy threshold, a rate) is a \<open>flt\<close>: a finite real, an infinity or NaN, with the IEEE
    comparisons, under which every comparison with NaN is false.
\<close>

section \<open>Named collections of the development\<close>

named_theorems go_time \<open>instants, durations and 64-bit integers\<close>
named_theorems flt_simps \<open>IEEE comparisons\<close>

section \<open>Bytes, instants, durations\<close>

type_synonym bytes = string
type_synonym time = int
type_synonym duration = int

definition int64_min :: int where "int64_min = - (2 ^ 63)"
definition int64_max :: int where "int64_max = 2 ^ 63 - 1"

text \<open>Two's complement reading of an integer reduced to 64 bits: Go's \<open>int\<close>, \<open>int64\<close> and
  \<open>time.Duration\<close> arithmetic.\<close>

definition int64_wrap :: "int \<Rightarrow> int" where
  "int64_wrap n = (n + 2 ^ 63) mod 2 ^ 64 - 2 ^ 63"

definition in_int64 :: "int \<Rightarrow> bool" where
  "in_int64 n \<longleftrightarrow> int64_min \<le> n \<and> n \<le> int64_max"

lemmas int64_defs [go_time] = int64_min_def int64_max_def in_int64_def

lemma int64_wrap_range [simp, intro]: "in_int64 (int64_wrap n)"
proof -
  have "0 \<le> (n + 2 ^ 63) mod (2 ^ 64 :: int)" "(n + 2 ^ 63) mod (2 ^ 64 :: int) < 2 ^ 64"
    by simp_all
  then show ?thesis by (simp add: int64_wrap_def int64_defs)
qed

lemma int64_wrap_id [simp]: "in_int64 n \<Longrightarrow> int64_wrap n = n"
  by (simp add: int64_wrap_def int64_defs)

text \<open>The reduction is the one of 64-bit machine words.\<close>

lemma int64_wrap_word: "int64_wrap n = sint (word_of_int n :: 64 word)"
  by (simp add: int64_wrap_def sint_sbintrunc' signed_take_bit_eq_take_bit_shift take_bit_eq_mod)

text \<open>\<open>Time.Sub\<close> saturates at the bounds of a duration.\<close>

definition Sub :: "time \<Rightarrow> time \<Rightarrow> duration" where
  "Sub t u = max int64_min (min int64_max (t - u))"

definition IsZero :: "time \<Rightarrow> bool" where
  "IsZero t \<longleftrightarrow> t = 0"

lemma Sub_range [simp, intro]: "in_int64 (Sub t u)"
  by (simp add: Sub_def int64_defs)

lemma Sub_mono: "t \<le> t' \<Longrightarrow> Sub t u \<le> Sub t' u"
  by (auto simp: Sub_def max_def min_def)

lemma Sub_exact [go_time]: "in_int64 (t - u) \<Longrightarrow> Sub t u = t - u"
  by (simp add: Sub_def int64_defs)

lemma Sub_self [simp]: "Sub t t = 0"
  by (simp add: Sub_def int64_defs)

text \<open>The units of the \<open>time\<close> package.\<close>

definition Nanosecond :: duration where "Nanosecond = 1"
definition Microsecond :: duration where "Microsecond = 1000"
definition Millisecond :: duration where "Millisecond = 1000000"
definition Second :: duration where "Second = 1000000000"
definition Minute :: duration where "Minute = 60000000000"
definition Hour :: duration where "Hour = 3600000000000"

lemmas unit_defs [go_time] =
  Nanosecond_def Microsecond_def Millisecond_def Second_def Minute_def Hour_def

text \<open>Go's integer division truncates towards zero.\<close>

definition go_div :: "int \<Rightarrow> int \<Rightarrow> int" where
  "go_div a b = (if a < 0 then - ((- a) div b) else a div b)"

lemma go_div_nonneg [simp]: "0 \<le> a \<Longrightarrow> go_div a b = a div b"
  by (simp add: go_div_def)

section \<open>Errors\<close>

datatype go_error =
    ErrNotFound
  | ErrCtx                        \<comment> \<open>what \<open>ctx.Err()\<close> returns once the context is done\<close>
  | ErrMsg string
  | Wrapped string go_error       \<comment> \<open>\<open>fmt.Errorf("...: %w", err)\<close>\<close>

type_synonym 'a result = "go_error + 'a"

fun errors_Is :: "go_error \<Rightarrow> go_error \<Rightarrow> bool" where
  "errors_Is (Wrapped m e) target = (Wrapped m e = target \<or> errors_Is e target)"
| "errors_Is e target = (e = target)"

lemma errors_Is_refl [simp]: "errors_Is e e"
  by (cases e) auto

fun is_ok :: "'a result \<Rightarrow> bool" where
  "is_ok (Inr _) = True"
| "is_ok (Inl _) = False"

section \<open>Floating-point values that are compared\<close>

datatype flt = Fin real | PInf | NInf | NaN

fun flt_less :: "flt \<Rightarrow> flt \<Rightarrow> bool" where
  "flt_less (Fin a) (Fin b) = (a < b)"
| "flt_less (Fin _) PInf = True"
| "flt_less NInf (Fin _) = True"
| "flt_less NInf PInf = True"
| "flt_less _ _ = False"

fun flt_eq :: "flt \<Rightarrow> flt \<Rightarrow> bool" where
  "flt_eq (Fin a) (Fin b) = (a = b)"
| "flt_eq PInf PInf = True"
| "flt_eq NInf NInf = True"
| "flt_eq _ _ = False"

definition flt_le :: "flt \<Rightarrow> flt \<Rightarrow> bool" where
  "flt_le a b \<longleftrightarrow> flt_less a b \<or> flt_eq a b"

lemma flt_le_simps [simp, flt_simps]:
  "flt_le (Fin a) (Fin b) \<longleftrightarrow> a \<le> b"
  "flt_le (Fin a) PInf" "flt_le NInf (Fin a)" "flt_le NInf PInf"
  "\<not> flt_le PInf (Fin a)" "\<not> flt_le (Fin a) NInf" "\<not> flt_le PInf NInf"
  "flt_le PInf PInf" "flt_le NInf NInf"
  by (auto simp: flt_le_def)

lemma flt_le_NaN [simp, flt_simps]: "\<not> flt_le x NaN" "\<not> flt_le NaN x"
  by (cases x; simp add: flt_le_def)+

lemma flt_le_trans: "flt_le a b \<Longrightarrow> flt_le b c \<Longrightarrow> flt_le a c"
  by (cases a; cases b; cases c) auto

lemma flt_less_NaN [simp]: "\<not> flt_less a NaN" "\<not> flt_less NaN a"
  by (cases a; simp)+

lemma flt_eq_Fin [simp]: "flt_eq x (Fin a) \<longleftrightarrow> x = Fin a"
  by (cases x) auto

text \<open>The conversion \<open>int64(x)\<close>.\<close>

fun trunc_int :: "flt \<Rightarrow> int" where
  "trunc_int (Fin x) = (if x < 0 then - \<lfloor>- x\<rfloor> else \<lfloor>x\<rfloor>)"
| "trunc_int _ = int64_min"

text \<open>The bit pattern of a finite \<open>float64\<close>: the exponent field is not all ones.\<close>

type_synonym f64 = "64 word"

definition f64_finite :: "f64 \<Rightarrow> bool" where
  "f64_finite w \<longleftrightarrow> take_bit 11 (drop_bit 52 w) \<noteq> 2047"

section \<open>Generic lemmas on lists and maps\<close>

text \<open>Go strings and slices: the prefix test that \<open>internal/store\<close> and \<open>internal/auth\<close> write out.\<close>

lemma take_eq_iff_prefix: "take (length p) s = p \<longleftrightarrow> (\<exists>r. s = p @ r)"
  by (metis append_eq_conv_conj append_take_drop_id)

text \<open>Splitting at a separator is unambiguous when the separator does not occur before it, or,
  reading from the end, after it.\<close>

lemma sep_append_inject:
  "c \<notin> set a \<Longrightarrow> c \<notin> set a' \<Longrightarrow> a @ c # b = a' @ c # b' \<Longrightarrow> a = a' \<and> b = b'"
proof (induction a arbitrary: a')
  case Nil
  then show ?case by (cases a') auto
next
  case (Cons x xs)
  then show ?case by (cases a') auto
qed

lemma append_sep_inject:
  assumes "c \<notin> set b" "c \<notin> set b'" "a @ c # b = a' @ c # b'"
  shows "a = a' \<and> b = b'"
proof -
  from assms(3) have "rev (a @ c # b) = rev (a' @ c # b')" by simp
  then have "rev b @ c # rev a = rev b' @ c # rev a'" by simp
  from sep_append_inject [OF _ _ this] assms(1,2) show ?thesis by simp
qed

lemma map_of_eq_Some_mem: "distinct (map fst xs) \<Longrightarrow> map_of xs k = Some v \<longleftrightarrow> (k, v) \<in> set xs"
  by (metis map_of_SomeD map_of_is_SomeI)

end
