(* ===== verification/Go_Strings.thy ===== *)
theory Go_Strings
  imports Go_Base
begin

text \<open>
  What the repository uses of Go's \<open>strings\<close>, \<open>unicode\<close> and \<open>unicode/utf8\<close> packages, on byte
  strings. Iterating over a string (\<open>for _, r := range s\<close>) decodes UTF-8: an invalid byte gives
  the rune U+FFFD and one byte of progress. \<open>unicode.IsSpace\<close> is written out in full; the case
  tables of \<open>unicode\<close> beyond ASCII are generated data and enter as the two fields of \<open>unicode\<close>.
\<close>

section \<open>UTF-8\<close>

type_synonym rune = nat

definition RuneError :: rune where "RuneError = 0xFFFD"

definition scalar :: "rune \<Rightarrow> bool" where
  "scalar r \<longleftrightarrow> r < 0xD800 \<or> (0xDFFF < r \<and> r \<le> 0x10FFFF)"

definition is_cont :: "nat \<Rightarrow> bool" where
  "is_cont b \<longleftrightarrow> 128 \<le> b \<and> b \<le> 191"

text \<open>The accepted range of the second byte of a three- and of a four-byte sequence.\<close>

definition snd3_ok :: "nat \<Rightarrow> nat \<Rightarrow> bool" where
  "snd3_ok b0 b1 \<longleftrightarrow>
     (if b0 = 0xE0 then 0xA0 else 128) \<le> b1 \<and> b1 \<le> (if b0 = 0xED then 0x9F else 191)"

definition snd4_ok :: "nat \<Rightarrow> nat \<Rightarrow> bool" where
  "snd4_ok b0 b1 \<longleftrightarrow>
     (if b0 = 0xF0 then 0x90 else 128) \<le> b1 \<and> b1 \<le> (if b0 = 0xF4 then 0x8F else 191)"

fun decode_codes :: "nat list \<Rightarrow> rune \<times> nat" where
  "decode_codes [] = (RuneError, 0)"
| "decode_codes (b0 # t) =
     (if b0 < 128 then (b0, 1)
      else if 0xC2 \<le> b0 \<and> b0 \<le> 0xDF then
        (case t of b1 # _ \<Rightarrow>
           if is_cont b1 then ((b0 - 0xC0) * 64 + (b1 - 128), 2) else (RuneError, 1)
         | _ \<Rightarrow> (RuneError, 1))
      else if 0xE0 \<le> b0 \<and> b0 \<le> 0xEF then
        (case t of b1 # b2 # _ \<Rightarrow>
           if snd3_ok b0 b1 \<and> is_cont b2
           then ((b0 - 0xE0) * 4096 + (b1 - 128) * 64 + (b2 - 128), 3) else (RuneError, 1)
         | _ \<Rightarrow> (RuneError, 1))
      else if 0xF0 \<le> b0 \<and> b0 \<le> 0xF4 then
        (case t of b1 # b2 # b3 # _ \<Rightarrow>
           if snd4_ok b0 b1 \<and> is_cont b2 \<and> is_cont b3
           then ((b0 - 0xF0) * 262144 + (b1 - 128) * 4096 + (b2 - 128) * 64 + (b3 - 128), 4)
           else (RuneError, 1)
         | _ \<Rightarrow> (RuneError, 1))
      else (RuneError, 1))"

definition decode_rune :: "bytes \<Rightarrow> rune \<times> nat" where
  "decode_rune s = decode_codes (map of_char s)"

definition encode_codes :: "rune \<Rightarrow> nat list" where
  "encode_codes r =
     (if r < 128 then [r]
      else if r < 2048 then [0xC0 + r div 64, 128 + r mod 64]
      else if \<not> scalar r then [0xEF, 0xBF, 0xBD]
      else if r < 65536 then [0xE0 + r div 4096, 128 + r div 64 mod 64, 128 + r mod 64]
      else [0xF0 + r div 262144, 128 + r div 4096 mod 64, 128 + r div 64 mod 64, 128 + r mod 64])"

definition encode_rune :: "rune \<Rightarrow> bytes" where
  "encode_rune r = map char_of (encode_codes r)"

definition utf8_encode :: "rune list \<Rightarrow> bytes" where
  "utf8_encode rs = concat (map encode_rune rs)"

lemma decode_codes_progress: "s \<noteq> [] \<Longrightarrow> 1 \<le> snd (decode_codes s)"
  by (cases s) (auto split: list.split)

lemma decode_codes_le: "snd (decode_codes s) \<le> length s"
  by (cases s) (auto split: list.split)

lemma decode_rune_progress [simp]: "s \<noteq> [] \<Longrightarrow> 0 < snd (decode_rune s)"
  using decode_codes_progress [of "map of_char s"] by (simp add: decode_rune_def)

lemma decode_rune_le [simp]: "snd (decode_rune s) \<le> length s"
  using decode_codes_le [of "map of_char s"] by (simp add: decode_rune_def)

function utf8_runes :: "bytes \<Rightarrow> rune list" where
  "utf8_runes s =
     (if s = [] then [] else fst (decode_rune s) # utf8_runes (drop (snd (decode_rune s)) s))"
  by pat_completeness auto
termination
  by (relation "measure length") auto

declare utf8_runes.simps [simp del]

lemma utf8_runes_Nil [simp]: "utf8_runes [] = []"
  by (simp add: utf8_runes.simps)

subsection \<open>Decoding inverts encoding\<close>

text \<open>The base-64 digits of a rune.\<close>

lemma rune_digits:
  fixes r :: nat
  shows "r div 4096 = r div 64 div 64" "r div 262144 = r div 64 div 64 div 64"
    "64 * (r div 64) + r mod 64 = r"
    "64 * (r div 64 div 64) + r div 64 mod 64 = r div 64"
    "64 * (r div 64 div 64 div 64) + r div 64 div 64 mod 64 = r div 64 div 64"
    "r mod 64 < 64" "r div 64 mod 64 < 64" "r div 64 div 64 mod 64 < 64"
proof -
  show "r div 4096 = r div 64 div 64" "r div 262144 = r div 64 div 64 div 64"
    by (simp_all flip: div_mult2_eq)
qed (simp_all only: mult_div_mod_eq mod_less_divisor zero_less_numeral)

lemma mod64_le [simp]: "(x::nat) mod 64 \<le> 63"
  using mod_less_divisor [of 64 x] by simp

lemma decode_encode_codes:
  assumes "scalar r"
  shows "decode_codes (encode_codes r @ t) = (r, length (encode_codes r))"
proof -
  note d = rune_digits [of r]
  consider "r < 128" | "128 \<le> r" "r < 2048" | "2048 \<le> r" "r < 65536" | "65536 \<le> r" "r \<le> 0x10FFFF"
    using assms unfolding scalar_def by linarith
  then show ?thesis
  proof cases
    case 1
    then show ?thesis by (simp add: encode_codes_def)
  next
    case 2
    then have "2 \<le> r div 64" "r div 64 < 32" by simp_all
    with 2 show ?thesis by (simp add: encode_codes_def is_cont_def)
  next
    case 3
    define q1 q2 where "q1 = r div 64" and "q2 = q1 div 64"
    have lo: "q2 = 0 \<Longrightarrow> 32 \<le> q1 mod 64" and q2: "q2 < 16"
      using 3 d unfolding q1_def q2_def by linarith+
    have hi: "q2 = 13 \<Longrightarrow> q1 mod 64 \<le> 31"
      using assms 3 d unfolding scalar_def q1_def q2_def by linarith
    have r: "q2 * 4096 + q1 mod 64 * 64 + r mod 64 = r"
      using d unfolding q1_def q2_def by linarith
    have "encode_codes r = [0xE0 + q2, 128 + q1 mod 64, 128 + r mod 64]"
      using 3 assms d unfolding q1_def q2_def by (simp add: encode_codes_def)
    with lo hi q2 r show ?thesis
      by (simp add: is_cont_def snd3_ok_def)
  next
    case 4
    define q1 q2 q3 where "q1 = r div 64" and "q2 = q1 div 64" and "q3 = q2 div 64"
    have lo: "q3 = 0 \<Longrightarrow> 16 \<le> q2 mod 64" and q3: "q3 < 5" and hi: "q3 = 4 \<Longrightarrow> q2 mod 64 \<le> 15"
      using 4 d unfolding q1_def q2_def q3_def by linarith+
    have r: "q3 * 262144 + q2 mod 64 * 4096 + q1 mod 64 * 64 + r mod 64 = r"
      using d unfolding q1_def q2_def q3_def by linarith
    have "encode_codes r = [0xF0 + q3, 128 + q2 mod 64, 128 + q1 mod 64, 128 + r mod 64]"
      using 4 assms d unfolding q1_def q2_def q3_def by (simp add: encode_codes_def)
    with lo hi q3 r show ?thesis
      by (simp add: is_cont_def snd4_ok_def)
  qed
qed

lemma encode_codes_lt:
  assumes "x \<in> set (encode_codes r)"
  shows "x < 256"
proof -
  have m: "y mod 64 < 64" for y :: nat by simp
  have q: "r < 2048 \<Longrightarrow> r div 64 < 32" "r < 65536 \<Longrightarrow> r div 4096 < 16"
    "r \<le> 0x10FFFF \<Longrightarrow> r div 262144 < 5"
    by simp_all
  show ?thesis
    using assms q m [of r] m [of "r div 64"] m [of "r div 4096"]
    by (auto simp: encode_codes_def scalar_def split: if_splits)
qed

lemma codes_encode_rune [simp]: "map of_char (encode_rune r) = encode_codes r"
  by (auto simp: encode_rune_def comp_def encode_codes_lt intro!: map_idI)

lemma length_encode_rune [simp]: "length (encode_rune r) = length (encode_codes r)"
  by (simp add: encode_rune_def)

lemma decode_encode_rune:
  "scalar r \<Longrightarrow> decode_rune (encode_rune r @ s) = (r, length (encode_rune r))"
  using decode_encode_codes [of r "map of_char s"] by (simp add: decode_rune_def)

lemma encode_rune_neq_Nil [simp]: "encode_rune r \<noteq> []"
  by (simp add: encode_rune_def encode_codes_def)

lemma utf8_runes_encode: "\<forall>r \<in> set rs. scalar r \<Longrightarrow> utf8_runes (utf8_encode rs) = rs"
proof (induction rs)
  case Nil
  then show ?case by (simp add: utf8_encode_def)
next
  case (Cons r rs)
  then show ?case
    by (subst utf8_runes.simps) (simp add: utf8_encode_def decode_encode_rune)
qed

subsection \<open>Every decoded rune is a scalar value\<close>

lemma scalar_RuneError [simp]: "scalar RuneError"
  by (simp add: scalar_def RuneError_def)

lemma scalar_two: "b0 \<le> 0xDF \<Longrightarrow> is_cont b1 \<Longrightarrow> scalar ((b0 - 0xC0) * 64 + (b1 - 128))"
  unfolding scalar_def is_cont_def by linarith

lemma scalar_three:
  assumes "b0 \<le> 0xEF" "snd3_ok b0 b1" "is_cont b2"
  shows "scalar ((b0 - 0xE0) * 4096 + (b1 - 128) * 64 + (b2 - 128))"
proof -
  have b1: "b1 - 128 \<le> 63" "b0 = 0xED \<Longrightarrow> b1 - 128 \<le> 31" and b2: "b2 - 128 \<le> 63"
    using assms by (auto simp: snd3_ok_def is_cont_def split: if_splits)
  consider "b0 - 0xE0 \<le> 12" | "b0 - 0xE0 = 13" "b0 = 0xED" | "14 \<le> b0 - 0xE0"
    by linarith
  then show ?thesis using assms(1) b1 b2 unfolding scalar_def by cases linarith+
qed

lemma scalar_four:
  assumes "0xF0 \<le> b0" "b0 \<le> 0xF4" "snd4_ok b0 b1" "is_cont b2" "is_cont b3"
  shows "scalar ((b0 - 0xF0) * 262144 + (b1 - 128) * 4096 + (b2 - 128) * 64 + (b3 - 128))"
proof -
  have b1: "b1 - 128 \<le> 63" "b0 = 0xF4 \<Longrightarrow> b1 - 128 \<le> 15" "b0 = 0xF0 \<Longrightarrow> 16 \<le> b1 - 128"
    and b: "b2 - 128 \<le> 63" "b3 - 128 \<le> 63"
    using assms by (auto simp: snd4_ok_def is_cont_def split: if_splits)
  consider "b0 - 0xF0 = 0" "b0 = 0xF0" | "1 \<le> b0 - 0xF0" "b0 - 0xF0 \<le> 3" | "b0 - 0xF0 = 4" "b0 = 0xF4"
    using assms(1,2) by linarith
  then show ?thesis using b1 b unfolding scalar_def by cases linarith+
qed

lemma decode_codes_scalar: "scalar (fst (decode_codes s))"
proof (cases s)
  case (Cons b0 t)
  have "b0 < 128 \<Longrightarrow> scalar b0" by (simp add: scalar_def)
  with Cons show ?thesis
    by (auto simp: scalar_two scalar_three scalar_four split: list.split)
qed simp

lemma decode_rune_scalar [simp]: "scalar (fst (decode_rune s))"
  by (simp add: decode_rune_def decode_codes_scalar)

lemma utf8_runes_scalar: "r \<in> set (utf8_runes s) \<Longrightarrow> scalar r"
proof (induction s rule: utf8_runes.induct)
  case (1 s)
  then show ?case by (cases "s = []") (auto simp: utf8_runes.simps [of s])
qed

text \<open>A rune that decodes from a prefix decodes from the whole string.\<close>

lemma decode_codes_append:
  "fst (decode_codes u) \<noteq> RuneError \<Longrightarrow> decode_codes (u @ v) = decode_codes u"
  by (cases u) (auto split: list.splits if_splits)

lemma decode_rune_append:
  "fst (decode_rune u) \<noteq> RuneError \<Longrightarrow> decode_rune (u @ v) = decode_rune u"
  by (simp add: decode_rune_def decode_codes_append)

section \<open>White space\<close>

definition IsSpace :: "rune \<Rightarrow> bool" where
  "IsSpace r \<longleftrightarrow>
     (9 \<le> r \<and> r \<le> 13) \<or> r = 32 \<or> r = 0x85 \<or> r = 0xA0 \<or> r = 0x1680 \<or>
     (0x2000 \<le> r \<and> r \<le> 0x200A) \<or> r = 0x2028 \<or> r = 0x2029 \<or> r = 0x202F \<or>
     r = 0x205F \<or> r = 0x3000"

lemma IsSpace_not_RuneError [simp]: "\<not> IsSpace RuneError"
  by (simp add: IsSpace_def RuneError_def)

function trim_left :: "bytes \<Rightarrow> bytes" where
  "trim_left s =
     (if s \<noteq> [] \<and> IsSpace (fst (decode_rune s)) then trim_left (drop (snd (decode_rune s)) s) else s)"
  by pat_completeness auto
termination
  by (relation "measure length") auto

definition rune_start :: "char \<Rightarrow> bool" where
  "rune_start c \<longleftrightarrow> \<not> is_cont (of_char c)"

text \<open>\<open>utf8.DecodeLastRuneInString\<close>: look back at most four bytes for the start of a rune.\<close>

definition decode_last_rune :: "bytes \<Rightarrow> rune \<times> nat" where
  "decode_last_rune s =
     (if s = [] then (RuneError, 0)
      else if of_char (last s) < (128::nat) then (of_char (last s), 1)
      else case find (\<lambda>k. k \<le> length s \<and> rune_start (s ! (length s - k))) [2, 3, 4] of
             Some k \<Rightarrow> (let (r, n) = decode_rune (drop (length s - k) s)
                        in if n = k then (r, n) else (RuneError, 1))
           | None \<Rightarrow> (RuneError, 1))"

lemma decode_last_rune_progress [simp]: "s \<noteq> [] \<Longrightarrow> 0 < snd (decode_last_rune s)"
  by (auto simp: decode_last_rune_def split: option.split prod.split)

function trim_right :: "bytes \<Rightarrow> bytes" where
  "trim_right s =
     (if s \<noteq> [] \<and> IsSpace (fst (decode_last_rune s))
      then trim_right (take (length s - snd (decode_last_rune s)) s) else s)"
  by pat_completeness auto
termination
  by (relation "measure length") auto

declare trim_left.simps [simp del] trim_right.simps [simp del]

definition TrimSpace :: "bytes \<Rightarrow> bytes" where
  "TrimSpace s = trim_right (trim_left s)"

lemma trim_Nil [simp]: "trim_left [] = []" "trim_right [] = []"
  by (simp_all add: trim_left.simps trim_right.simps)

lemma TrimSpace_Nil [simp]: "TrimSpace [] = []"
  by (simp add: TrimSpace_def)

lemma trim_left_fix: "trim_left s = s \<longleftrightarrow> s = [] \<or> \<not> IsSpace (fst (decode_rune s))"
proof
  have "length (trim_left t) \<le> length t" for t
    by (induction t rule: trim_left.induct) (subst trim_left.simps, auto intro: le_trans)
  then have "trim_left (drop n s) \<noteq> s" if "0 < n" "s \<noteq> []" for n
    using that by (metis diff_less length_drop length_greater_0_conv not_less)
  then show "trim_left s = s \<Longrightarrow> s = [] \<or> \<not> IsSpace (fst (decode_rune s))"
    by (metis decode_rune_progress trim_left.simps)
qed (subst trim_left.simps, auto)

lemma trim_left_idem [simp]: "trim_left (trim_left s) = trim_left s"
  by (induction s rule: trim_left.induct) (metis trim_left.simps)

lemma trim_right_idem [simp]: "trim_right (trim_right s) = trim_right s"
  by (induction s rule: trim_right.induct) (metis trim_right.simps)

lemma trim_right_prefix: "\<exists>v. s = trim_right s @ v"
proof (induction s rule: trim_right.induct)
  case (1 s)
  then show ?case
    by (subst trim_right.simps) (auto, metis append.assoc append_take_drop_id)
qed

lemma trim_left_trim_right:
  assumes "trim_left s = s"
  shows "trim_left (trim_right s) = trim_right s"
proof (rule ccontr)
  assume "\<not> ?thesis"
  then have ne: "trim_right s \<noteq> []" and sp: "IsSpace (fst (decode_rune (trim_right s)))"
    by (auto simp: trim_left_fix)
  then have "fst (decode_rune (trim_right s)) \<noteq> RuneError" by auto
  moreover obtain v where v: "s = trim_right s @ v" using trim_right_prefix by blast
  ultimately have "decode_rune s = decode_rune (trim_right s)"
    using decode_rune_append [of "trim_right s" v] by simp
  with assms sp ne v show False by (auto simp: trim_left_fix)
qed

theorem TrimSpace_idem [simp]: "TrimSpace (TrimSpace s) = TrimSpace s"
  by (simp add: TrimSpace_def trim_left_trim_right)

lemma TrimSpace_nonblank:
  "TrimSpace s = [] \<or> (\<not> IsSpace (fst (decode_rune (TrimSpace s))) \<and>
     \<not> IsSpace (fst (decode_last_rune (TrimSpace s))))"
proof -
  have "trim_left (TrimSpace s) = TrimSpace s" "trim_right (TrimSpace s) = TrimSpace s"
    by (simp_all add: TrimSpace_def trim_left_trim_right)
  moreover have "length (trim_right t) \<le> length t" for t
    by (metis length_append le_add1 trim_right_prefix)
  then have "trim_right (take (length t - n) t) \<noteq> t" if "0 < n" "t \<noteq> []" for n t
    using that by (metis diff_less length_greater_0_conv length_take min_less_iff_disj not_less)
  ultimately show ?thesis
    by (metis decode_last_rune_progress trim_left_fix trim_right.simps)
qed

subsection \<open>Trimming on runes\<close>

lemma encode_codes_tail: "x \<in> set (tl (encode_codes r)) \<Longrightarrow> is_cont x"
  by (auto simp: encode_codes_def is_cont_def split: if_splits)

lemma encode_codes_head: "2 \<le> length (encode_codes r) \<Longrightarrow> 192 \<le> encode_codes r ! 0"
  by (auto simp: encode_codes_def split: if_splits)

lemma encode_codes_single: "length (encode_codes r) = 1 \<Longrightarrow> encode_codes r = [r] \<and> r < 128"
  by (auto simp: encode_codes_def split: if_splits)

lemma encode_codes_length: "length (encode_codes r) \<in> {1, 2, 3, 4}"
  by (auto simp: encode_codes_def)

lemma of_char_encode_nth:
  "i < length (encode_codes r) \<Longrightarrow> of_char (encode_rune r ! i) = encode_codes r ! i"
  using codes_encode_rune [of r] by (metis length_encode_rune nth_map)

lemma find_2_3_4:
  fixes k :: nat
  assumes "P k" "\<And>j. 2 \<le> j \<Longrightarrow> j < k \<Longrightarrow> \<not> P j" "2 \<le> k" "k \<le> 4"
  shows "find P [2, 3, 4] = Some k"
proof -
  consider "k = 2" | "k = 3" | "k = 4" using assms(3,4) by linarith
  then show ?thesis using assms(1) assms(2) [of 2] assms(2) [of 3] by cases auto
qed

lemma decode_last_encode:
  assumes "scalar r"
  shows "decode_last_rune (p @ encode_rune r) = (r, length (encode_rune r))"
proof -
  let ?s = "p @ encode_rune r" and ?k = "length (encode_codes r)"
  have last: "last ?s = encode_rune r ! (?k - 1)"
    by (metis last_appendR last_conv_nth encode_rune_neq_Nil length_encode_rune)
  consider "?k = 1" | "2 \<le> ?k" "?k \<le> 4" using encode_codes_length [of r] by auto
  then show ?thesis
  proof cases
    case 1
    then have "of_char (last ?s) = r" "r < 128"
      using encode_codes_single [of r] of_char_encode_nth [of 0 r] last by simp_all
    with 1 show ?thesis by (simp add: decode_last_rune_def)
  next
    case 2
    have cont: "is_cont (of_char (?s ! (length ?s - j)))" if "1 \<le> j" "j < ?k" for j
    proof -
      have "encode_codes r ! (?k - j) = tl (encode_codes r) ! (?k - j - 1)"
        using that by (simp add: nth_tl Suc_diff_Suc)
      also have "\<dots> \<in> set (tl (encode_codes r))" using that by (intro nth_mem) simp
      finally show ?thesis
        using that encode_codes_tail by (simp add: nth_append of_char_encode_nth)
    qed
    have "0 < ?k" using 2 by linarith
    then have "rune_start (?s ! (length ?s - ?k))"
      using encode_codes_head [of r] 2 of_char_encode_nth [of 0 r]
      by (simp add: nth_append rune_start_def is_cont_def)
    with cont 2 have "find (\<lambda>j. j \<le> length ?s \<and> rune_start (?s ! (length ?s - j))) [2, 3, 4] = Some ?k"
      by (intro find_2_3_4) (simp_all add: rune_start_def)
    moreover have "last ?s = ?s ! (length ?s - 1)" by (rule last_conv_nth) simp
    then have "128 \<le> (of_char (last ?s) :: nat)"
      using cont [of 1] 2 unfolding is_cont_def by (simp del: last_appendR)
    moreover have "decode_rune (encode_rune r) = (r, ?k)"
      using decode_encode_rune [OF assms, of "[]"] by simp
    ultimately show ?thesis by (simp add: decode_last_rune_def)
  qed
qed

definition strip_runes :: "rune list \<Rightarrow> rune list" where
  "strip_runes rs = rev (dropWhile IsSpace (rev (dropWhile IsSpace rs)))"

lemma utf8_encode_append [simp]: "utf8_encode (xs @ ys) = utf8_encode xs @ utf8_encode ys"
  by (simp add: utf8_encode_def)

lemma utf8_encode_simps [simp]:
  "utf8_encode [] = []" "utf8_encode (r # rs) = encode_rune r @ utf8_encode rs"
  by (simp_all add: utf8_encode_def)

lemma trim_left_encode:
  "\<forall>r \<in> set rs. scalar r \<Longrightarrow> trim_left (utf8_encode rs) = utf8_encode (dropWhile IsSpace rs)"
  by (induction rs) (simp, subst trim_left.simps, simp add: decode_encode_rune)

lemma trim_right_encode:
  "\<forall>r \<in> set rs. scalar r \<Longrightarrow>
     trim_right (utf8_encode rs) = utf8_encode (rev (dropWhile IsSpace (rev rs)))"
  by (induction rs rule: rev_induct) (simp, subst trim_right.simps, simp add: decode_last_encode)

lemma TrimSpace_encode:
  assumes "\<forall>r \<in> set rs. scalar r"
  shows "TrimSpace (utf8_encode rs) = utf8_encode (strip_runes rs)"
proof -
  have "\<forall>r \<in> set (dropWhile IsSpace rs). scalar r"
    using assms by (auto dest: set_dropWhileD)
  with assms show ?thesis
    by (simp add: TrimSpace_def trim_left_encode trim_right_encode strip_runes_def)
qed

lemma strip_runes_infix: "\<exists>a b. rs = a @ strip_runes rs @ b"
proof -
  have "\<exists>a. xs = a @ dropWhile P xs" for P and xs :: "rune list"
    by (metis takeWhile_dropWhile_id)
  then obtain a b where "rs = a @ dropWhile IsSpace rs"
    "rev (dropWhile IsSpace rs) = b @ dropWhile IsSpace (rev (dropWhile IsSpace rs))"
    by metis
  then have "dropWhile IsSpace rs = strip_runes rs @ rev b"
    unfolding strip_runes_def by (metis rev_append rev_rev_ident)
  with \<open>rs = a @ dropWhile IsSpace rs\<close> show ?thesis by metis
qed

section \<open>Case mapping\<close>

record unicode =
  uni_lower :: "rune \<Rightarrow> rune"   \<comment> \<open>\<open>unicode.ToLower\<close> beyond ASCII\<close>
  uni_upper :: "rune \<Rightarrow> rune"   \<comment> \<open>\<open>unicode.ToUpper\<close> beyond ASCII\<close>

definition rune_lower :: "unicode \<Rightarrow> rune \<Rightarrow> rune" where
  "rune_lower U r = (if r < 128 then (if 65 \<le> r \<and> r \<le> 90 then r + 32 else r) else uni_lower U r)"

definition rune_upper :: "unicode \<Rightarrow> rune \<Rightarrow> rune" where
  "rune_upper U r = (if r < 128 then (if 97 \<le> r \<and> r \<le> 122 then r - 32 else r) else uni_upper U r)"

definition ToLower :: "unicode \<Rightarrow> bytes \<Rightarrow> bytes" where
  "ToLower U s = utf8_encode (map (rune_lower U) (utf8_runes s))"

definition ToUpper :: "unicode \<Rightarrow> bytes \<Rightarrow> bytes" where
  "ToUpper U s = utf8_encode (map (rune_upper U) (utf8_runes s))"

text \<open>What the case tables promise: they map scalar values to scalar values, and mapping twice
  is mapping once.\<close>

definition case_ok :: "(rune \<Rightarrow> rune) \<Rightarrow> bool" where
  "case_ok f \<longleftrightarrow> (\<forall>r. scalar r \<longrightarrow> scalar (f r)) \<and> (\<forall>r. f (f r) = f r)"

lemma case_map_idem:
  assumes "case_ok f"
  shows "utf8_encode (map f (utf8_runes (utf8_encode (map f (utf8_runes s))))) =
    utf8_encode (map f (utf8_runes s))"
proof -
  have "\<forall>r \<in> set (map f (utf8_runes s)). scalar r"
    using assms utf8_runes_scalar by (auto simp: case_ok_def)
  then have "utf8_runes (utf8_encode (map f (utf8_runes s))) = map f (utf8_runes s)"
    by (rule utf8_runes_encode)
  then show ?thesis using assms by (simp add: case_ok_def comp_def)
qed

lemma ToLower_idem: "case_ok (rune_lower U) \<Longrightarrow> ToLower U (ToLower U s) = ToLower U s"
  unfolding ToLower_def by (rule case_map_idem)

lemma ToUpper_idem: "case_ok (rune_upper U) \<Longrightarrow> ToUpper U (ToUpper U s) = ToUpper U s"
  unfolding ToUpper_def by (rule case_map_idem)

lemma trim_left_ascii:
  "of_char c < (128 :: nat) \<Longrightarrow> trim_left (c # s) = (if IsSpace (of_char c) then trim_left s else c # s)"
  by (subst trim_left.simps) (simp add: decode_rune_def)

lemma trim_right_ascii:
  "of_char c < (128 :: nat) \<Longrightarrow> trim_right (s @ [c]) = (if IsSpace (of_char c) then trim_right s else s @ [c])"
  by (subst trim_right.simps) (simp add: decode_last_rune_def)

lemma trim_left_dropWhile:
  "\<forall>c \<in> set s. of_char c < (128 :: nat) \<Longrightarrow> trim_left s = dropWhile (\<lambda>c. IsSpace (of_char c)) s"
  by (induction s) (simp_all add: trim_left_ascii)

lemma trim_right_dropWhile:
  "\<forall>c \<in> set s. of_char c < (128 :: nat) \<Longrightarrow> trim_right s = rev (dropWhile (\<lambda>c. IsSpace (of_char c)) (rev s))"
  by (induction s rule: rev_induct) (simp_all add: trim_right_ascii)

lemma TrimSpace_dropWhile:
  assumes "\<forall>c \<in> set s. of_char c < (128 :: nat)"
  shows "TrimSpace s = rev (dropWhile (\<lambda>c. IsSpace (of_char c)) (rev (dropWhile (\<lambda>c. IsSpace (of_char c)) s)))"
proof -
  have "\<forall>c \<in> set (trim_left s). of_char c < (128 :: nat)"
    using assms trim_left_dropWhile [OF assms] by (auto dest: set_dropWhileD)
  then show ?thesis by (simp add: TrimSpace_def trim_right_dropWhile trim_left_dropWhile [OF assms])
qed

section \<open>Searching and splitting\<close>

definition HasPrefix :: "bytes \<Rightarrow> bytes \<Rightarrow> bool" where
  "HasPrefix s p \<longleftrightarrow> length p \<le> length s \<and> take (length p) s = p"

definition HasSuffix :: "bytes \<Rightarrow> bytes \<Rightarrow> bool" where
  "HasSuffix s p \<longleftrightarrow> length p \<le> length s \<and> drop (length s - length p) s = p"

definition TrimPrefix :: "bytes \<Rightarrow> bytes \<Rightarrow> bytes" where
  "TrimPrefix s p = (if HasPrefix s p then drop (length p) s else s)"

definition TrimSuffix :: "bytes \<Rightarrow> bytes \<Rightarrow> bytes" where
  "TrimSuffix s p = (if HasSuffix s p then take (length s - length p) s else s)"

text \<open>\<open>strings.Index\<close> and \<open>strings.LastIndex\<close> of a one-byte separator; \<open>None\<close> for -1.\<close>

definition Index :: "bytes \<Rightarrow> char \<Rightarrow> nat option" where
  "Index s c = (if c \<in> set s then Some (length (takeWhile (\<lambda>x. x \<noteq> c) s)) else None)"

definition LastIndex :: "bytes \<Rightarrow> char \<Rightarrow> nat option" where
  "LastIndex s c =
     (if c \<in> set s then Some (length s - Suc (length (takeWhile (\<lambda>x. x \<noteq> c) (rev s)))) else None)"

fun Split :: "char \<Rightarrow> bytes \<Rightarrow> bytes list" where
  "Split c [] = [[]]"
| "Split c (x # xs) =
     (if x = c then [] # Split c xs
      else (case Split c xs of [] \<Rightarrow> [[x]] | w # ws \<Rightarrow> (x # w) # ws))"

text \<open>\<open>strings.Trim(s, cutset)\<close> for an ASCII cutset.\<close>

definition TrimCut :: "char set \<Rightarrow> bytes \<Rightarrow> bytes" where
  "TrimCut cs s = rev (dropWhile (\<lambda>x. x \<in> cs) (rev (dropWhile (\<lambda>x. x \<in> cs) s)))"

fun Join :: "bytes \<Rightarrow> bytes list \<Rightarrow> bytes" where
  "Join sep [] = []"
| "Join sep [w] = w"
| "Join sep (w # v # ws) = w @ sep @ Join sep (v # ws)"

lemma HasPrefix_iff: "HasPrefix s p \<longleftrightarrow> (\<exists>r. s = p @ r)"
  unfolding HasPrefix_def using take_eq_iff_prefix by (metis le_add1 length_append)

lemma HasPrefix_append [simp]: "HasPrefix (p @ r) p"
  by (simp add: HasPrefix_def)

lemma Split_neq_Nil [simp]: "Split c s \<noteq> []"
  by (induction s) (auto split: list.split)

lemma Split_no_sep [simp]: "c \<notin> set a \<Longrightarrow> Split c a = [a]"
  by (induction a) auto

lemma Split_append [simp]: "c \<notin> set a \<Longrightarrow> Split c (a @ c # b) = a # Split c b"
  by (induction a) auto

lemma Join_Split: "Join [c] (Split c s) = s"
proof (induction s)
  case (Cons x xs)
  then show ?case
    by (cases "Split c xs" rule: list.exhaust) (auto split: list.splits, (metis Join.simps append_Cons list.exhaust)+)
qed simp

lemma Split_parts: "w \<in> set (Split c s) \<Longrightarrow> c \<notin> set w"
  by (induction s arbitrary: w) (fastforce split: list.splits if_splits)+

lemma Index_None [simp]: "Index s c = None \<longleftrightarrow> c \<notin> set s"
  by (simp add: Index_def)

lemma Index_split [simp]: "c \<notin> set a \<Longrightarrow> Index (a @ c # b) c = Some (length a)"
  by (auto simp: Index_def takeWhile_append)

lemma LastIndex_split [simp]: "c \<notin> set b \<Longrightarrow> LastIndex (a @ c # b) c = Some (length a)"
  by (auto simp: LastIndex_def takeWhile_append)

lemma Index_SomeE:
  assumes "Index s c = Some i"
  obtains a b where "s = a @ c # b" "c \<notin> set a" "i = length a"
proof -
  from assms have "c \<in> set s" by (metis Index_None option.distinct(1))
  then obtain a b where ab: "s = a @ c # b" "c \<notin> set a" by (meson split_list_first)
  with assms show thesis by (intro that [OF ab]) simp
qed

lemma LastIndex_SomeE:
  assumes "LastIndex s c = Some i"
  obtains a b where "s = a @ c # b" "c \<notin> set b" "i = length a"
proof -
  from assms have "c \<in> set s" by (auto simp: LastIndex_def split: if_splits)
  then obtain a b where ab: "s = a @ c # b" "c \<notin> set b" by (meson split_list_last)
  with assms show thesis by (intro that [OF ab]) simp
qed

end
