(* ===== verification/Store.thy ===== *)
theory Store
  imports Go_Strings
begin

text \<open>
  \<open>internal/store/store.go\<close>: cached entries and their expiry, the persistence port (the Go interface
  \<open>Store\<close>, here the record \<open>store_ops\<close> of its methods) and the in-memory adapter. The locale
  \<open>store_port\<close> states what the port promises to its clients; \<open>Memory\<close> is interpreted here, the
  BoltDB and PostgreSQL adapters in their own theories.

  A context is what \<open>ctx.Err()\<close> returns when the operation asks. The clock of a store is the
  instant passed to the operation. \<open>Scan\<close> is split in two: the entries it offers, in order, and the
  loop that calls the visitor until it returns false (\<open>visit_loop\<close>). Go leaves the iteration order
  of a map open: the in-memory adapter takes it as an argument.
\<close>

section \<open>Entries\<close>

type_synonym ctx = "go_error option"
type_synonym f32 = "32 word"

record Entry =
  Tool :: bytes
  Hash :: bytes
  Request :: bytes
  Response :: bytes
  StatusCode :: int
  CreatedAt :: time
  ReplayCount :: int
  TTL :: duration
  Embedding :: "f32 list"

definition Expired :: "Entry \<Rightarrow> time \<Rightarrow> bool" where
  "Expired e now = (if TTL e = 0 then False else TTL e < Sub now (CreatedAt e))"

definition NUL :: char where "NUL = CHR 0x00"

definition key :: "bytes \<Rightarrow> bytes \<Rightarrow> bytes" where
  "key tool hash = tool @ [NUL] @ hash"

definition startsWith :: "bytes \<Rightarrow> bytes \<Rightarrow> bool" where
  "startsWith s prefix \<longleftrightarrow> length prefix \<le> length s \<and> take (length prefix) s = prefix"

text \<open>What \<open>Put\<close> does to an entry without a creation time.\<close>

definition stamp :: "time \<Rightarrow> Entry \<Rightarrow> Entry" where
  "stamp now e = (if IsZero (CreatedAt e) then e\<lparr>CreatedAt := now\<rparr> else e)"

definition ErrRequired :: go_error where
  "ErrRequired = ErrMsg ''store: Entry.Tool and Entry.Hash are required''"

lemma stamp_simps [simp]:
  "Tool (stamp now e) = Tool e" "Hash (stamp now e) = Hash e" "TTL (stamp now e) = TTL e"
  "Response (stamp now e) = Response e" "StatusCode (stamp now e) = StatusCode e"
  "Request (stamp now e) = Request e" "Embedding (stamp now e) = Embedding e"
  "ReplayCount (stamp now e) = ReplayCount e"
  by (simp_all add: stamp_def)

lemma Expired_mono: "Expired e now \<Longrightarrow> now \<le> now' \<Longrightarrow> Expired e now'"
  using Sub_mono [of now now' "CreatedAt e"] by (auto simp: Expired_def split: if_splits)

lemma Expired_iff:
  "in_int64 (now - CreatedAt e) \<Longrightarrow> Expired e now \<longleftrightarrow> TTL e \<noteq> 0 \<and> CreatedAt e + TTL e < now"
  by (auto simp: Expired_def Sub_exact)

section \<open>The port\<close>

record 's store_ops =
  s_Get :: "'s \<Rightarrow> ctx \<Rightarrow> time \<Rightarrow> bytes \<Rightarrow> bytes \<Rightarrow> Entry result \<times> 's"
  s_Put :: "'s \<Rightarrow> ctx \<Rightarrow> time \<Rightarrow> Entry \<Rightarrow> unit result \<times> 's"
  s_IncrementReplay :: "'s \<Rightarrow> ctx \<Rightarrow> bytes \<Rightarrow> bytes \<Rightarrow> unit result \<times> 's"
  s_Scan :: "'s \<Rightarrow> ctx \<Rightarrow> time \<Rightarrow> bytes list \<Rightarrow> bytes \<Rightarrow> Entry list result"
  s_Delete :: "'s \<Rightarrow> ctx \<Rightarrow> bytes \<Rightarrow> bytes \<Rightarrow> unit result \<times> 's"

text \<open>The loop around a visitor: it runs over the entries until the visitor returns false.\<close>

fun visit_loop :: "('a \<Rightarrow> Entry \<Rightarrow> 'a \<times> bool) \<Rightarrow> 'a \<Rightarrow> Entry list \<Rightarrow> 'a" where
  "visit_loop visit acc [] = acc"
| "visit_loop visit acc (e # es) =
     (let (acc', go) = visit acc e in if go then visit_loop visit acc' es else acc')"

lemma visit_loop_all: "(\<And>acc e. snd (visit acc e)) \<Longrightarrow> visit_loop visit acc es = foldl (\<lambda>a e. fst (visit a e)) acc es"
  by (induction es arbitrary: acc) (auto simp: Let_def split: prod.splits dest: arg_cong [of _ _ snd])

text \<open>
  The contract. \<open>view\<close> is what the store holds, by tool and hash, expired or not; \<open>norm\<close> what
  storing does to an entry (the identity in memory, the loss of precision of a database column);
  \<open>okkey\<close> the keys and \<open>storable\<close> the entries the adapter can represent; \<open>ready\<close> says that the
  engine below does not fail.
\<close>

locale store_port =
  fixes S :: "'s store_ops"
    and inv :: "'s \<Rightarrow> bool"
    and ready :: "'s \<Rightarrow> bool"
    and view :: "'s \<Rightarrow> bytes \<times> bytes \<Rightarrow> Entry option"
    and norm :: "Entry \<Rightarrow> Entry"
    and okkey :: "bytes \<Rightarrow> bytes \<Rightarrow> bool"
    and storable :: "Entry \<Rightarrow> bool"
    and order_ok :: "'s \<Rightarrow> bytes list \<Rightarrow> bool"
  assumes cancelled:
      "s_Get S s (Some err) now t h = (Inl err, s)"
      "s_Put S s (Some err) now e = (Inl err, s)"
      "s_IncrementReplay S s (Some err) t h = (Inl err, s)"
      "s_Delete S s (Some err) t h = (Inl err, s)"
      "s_Scan S s (Some err) now ord t = Inl err"
    and get_hit: "inv s \<Longrightarrow> ready s \<Longrightarrow> okkey t h \<Longrightarrow> view s (t, h) = Some e \<Longrightarrow> \<not> Expired e now \<Longrightarrow>
      s_Get S s None now t h = (Inr e, s)"
    and get_miss: "inv s \<Longrightarrow> ready s \<Longrightarrow> okkey t h \<Longrightarrow> view s (t, h) = None \<Longrightarrow>
      s_Get S s None now t h = (Inl ErrNotFound, s)"
    and get_expired: "inv s \<Longrightarrow> ready s \<Longrightarrow> okkey t h \<Longrightarrow> view s (t, h) = Some e \<Longrightarrow> Expired e now \<Longrightarrow>
      \<exists>s'. s_Get S s None now t h = (Inl ErrNotFound, s') \<and> inv s' \<and> ready s' \<and>
        (view s' = view s \<or> view s' = (view s)((t, h) := None))"
    and put_required: "Tool e = '''' \<or> Hash e = '''' \<Longrightarrow> s_Put S s None now e = (Inl ErrRequired, s)"
    and put: "inv s \<Longrightarrow> ready s \<Longrightarrow> Tool e \<noteq> '''' \<Longrightarrow> Hash e \<noteq> '''' \<Longrightarrow> okkey (Tool e) (Hash e) \<Longrightarrow>
      storable (stamp now e) \<Longrightarrow>
      \<exists>s'. s_Put S s None now e = (Inr (), s') \<and> inv s' \<and> ready s' \<and>
        view s' = (view s)((Tool e, Hash e) \<mapsto> norm (stamp now e))"
    and incr: "inv s \<Longrightarrow> ready s \<Longrightarrow> okkey t h \<Longrightarrow> view s (t, h) = Some e \<Longrightarrow> 0 \<le> ReplayCount e \<Longrightarrow>
      ReplayCount e < 2147483647 \<Longrightarrow>
      \<exists>s'. s_IncrementReplay S s None t h = (Inr (), s') \<and> inv s' \<and> ready s' \<and>
        view s' = (view s)((t, h) \<mapsto> e\<lparr>ReplayCount := ReplayCount e + 1\<rparr>)"
    and incr_miss: "inv s \<Longrightarrow> ready s \<Longrightarrow> okkey t h \<Longrightarrow> view s (t, h) = None \<Longrightarrow>
      s_IncrementReplay S s None t h = (Inl ErrNotFound, s)"
    and delete: "inv s \<Longrightarrow> ready s \<Longrightarrow> okkey t h \<Longrightarrow> view s (t, h) \<noteq> None \<Longrightarrow>
      \<exists>s'. s_Delete S s None t h = (Inr (), s') \<and> inv s' \<and> ready s' \<and> view s' = (view s)((t, h) := None)"
    and delete_miss: "inv s \<Longrightarrow> ready s \<Longrightarrow> okkey t h \<Longrightarrow> view s (t, h) = None \<Longrightarrow>
      s_Delete S s None t h = (Inl ErrNotFound, s)"
    and scan: "inv s \<Longrightarrow> ready s \<Longrightarrow> okkey t [] \<Longrightarrow> order_ok s ord \<Longrightarrow>
      \<exists>es. s_Scan S s None now ord t = Inr es \<and>
        set es = {e. \<exists>h. view s (t, h) = Some e \<and> \<not> Expired e now}"
    and norm_keeps: "storable e \<Longrightarrow> Tool (norm e) = Tool e \<and> Hash (norm e) = Hash e \<and> Request (norm e) = Request e \<and>
      Response (norm e) = Response e \<and> StatusCode (norm e) = StatusCode e \<and> ReplayCount (norm e) = ReplayCount e \<and>
      Embedding (norm e) = Embedding e"
begin

lemma get_put:
  assumes "inv s" "ready s" "Tool e \<noteq> ''''" "Hash e \<noteq> ''''" "okkey (Tool e) (Hash e)" "storable (stamp now e)"
  shows "\<exists>s'. s_Put S s None now e = (Inr (), s') \<and> inv s' \<and> ready s' \<and>
    fst (s_Get S s' None now' (Tool e) (Hash e)) =
      (if Expired (norm (stamp now e)) now' then Inl ErrNotFound else Inr (norm (stamp now e)))"
proof -
  obtain s' where s': "s_Put S s None now e = (Inr (), s')" "inv s'" "ready s'"
      "view s' = (view s)((Tool e, Hash e) \<mapsto> norm (stamp now e))"
    using put [OF assms] by blast
  have "fst (s_Get S s' None now' (Tool e) (Hash e)) =
      (if Expired (norm (stamp now e)) now' then Inl ErrNotFound else Inr (norm (stamp now e)))"
    using s' assms(5) get_hit [of s' "Tool e" "Hash e"] get_expired [of s' "Tool e" "Hash e"] by fastforce
  with s' show ?thesis by blast
qed

lemma get_put_other:
  assumes "inv s" "ready s" "Tool e \<noteq> ''''" "Hash e \<noteq> ''''" "okkey (Tool e) (Hash e)" "storable (stamp now e)"
    "okkey t h" "(t, h) \<noteq> (Tool e, Hash e)"
  shows "\<exists>s'. s_Put S s None now e = (Inr (), s') \<and>
    fst (s_Get S s' None now' t h) = fst (s_Get S s None now' t h)"
proof -
  obtain s' where s': "s_Put S s None now e = (Inr (), s')" "inv s'" "ready s'"
      "view s' = (view s)((Tool e, Hash e) \<mapsto> norm (stamp now e))"
    using put [OF assms(1-6)] by blast
  then have v: "view s' (t, h) = view s (t, h)" using assms(8) by auto
  have "fst (s_Get S s' None now' t h) = fst (s_Get S s None now' t h)"
  proof (cases "view s (t, h)")
    case None
    with v show ?thesis using assms s' get_miss by simp
  next
    case (Some x)
    with v show ?thesis
      using assms s' get_hit [of s t h x now'] get_hit [of s' t h x now']
        get_expired [of s t h x now'] get_expired [of s' t h x now']
      by (cases "Expired x now'") fastforce+
  qed
  with s' show ?thesis by blast
qed

text \<open>An entry that is gone stays gone until the next \<open>Put\<close>, and is not offered by \<open>Scan\<close>.\<close>

lemma get_delete:
  assumes "inv s" "ready s" "okkey t h"
  shows "fst (s_Get S (snd (s_Delete S s None t h)) None now t h) = Inl ErrNotFound"
proof (cases "view s (t, h)")
  case None
  with assms show ?thesis using delete_miss get_miss by simp
next
  case (Some e)
  then obtain s' where "s_Delete S s None t h = (Inr (), s')" "inv s'" "ready s'" "view s' = (view s)((t, h) := None)"
    using delete [OF assms] by auto
  with assms(3) show ?thesis using get_miss by simp
qed

lemma get_incr:
  assumes "inv s" "ready s" "okkey t h" "s_Get S s None now t h = (Inr e, s1)"
    "0 \<le> ReplayCount e" "ReplayCount e < 2147483647"
  shows "fst (s_Get S (snd (s_IncrementReplay S s1 None t h)) None now t h) =
    Inr (e\<lparr>ReplayCount := ReplayCount e + 1\<rparr>)"
proof -
  obtain x where x: "view s (t, h) = Some x"
    using assms(1-4) get_miss [of s t h now] by (cases "view s (t, h)") auto
  have ex: "\<not> Expired x now"
    using assms(1-4) get_expired [OF assms(1-3) x, of now] by auto
  with x assms have eq: "x = e" "s1 = s" using get_hit [OF assms(1-3) x ex] by auto
  then obtain s' where s': "s_IncrementReplay S s1 None t h = (Inr (), s')" "inv s'" "ready s'"
      "view s' = (view s)((t, h) \<mapsto> e\<lparr>ReplayCount := ReplayCount e + 1\<rparr>)"
    using incr [OF assms(1-3) x] assms(5,6) by blast
  moreover have "\<not> Expired (e\<lparr>ReplayCount := ReplayCount e + 1\<rparr>) now"
    using ex eq by (auto simp: Expired_def split: if_splits)
  ultimately show ?thesis using assms(3) get_hit by simp
qed

text \<open>The life of an entry that was stored: read, counted, deleted.\<close>

lemma put_use:
  assumes "inv s" "ready s" "Tool e \<noteq> ''''" "Hash e \<noteq> ''''" "okkey (Tool e) (Hash e)" "storable (stamp now e)"
    "\<not> Expired (norm (stamp now e)) now'" "0 \<le> ReplayCount (norm (stamp now e))" "ReplayCount (norm (stamp now e)) < 2147483647"
  shows "\<exists>s'. s_Put S s None now e = (Inr (), s') \<and>
    fst (s_Get S s' None now' (Tool e) (Hash e)) = Inr (norm (stamp now e)) \<and>
    fst (s_Get S (snd (s_IncrementReplay S s' None (Tool e) (Hash e))) None now' (Tool e) (Hash e)) =
      Inr ((norm (stamp now e))\<lparr>ReplayCount := ReplayCount (norm (stamp now e)) + 1\<rparr>) \<and>
    fst (s_Get S (snd (s_Delete S s' None (Tool e) (Hash e))) None now' (Tool e) (Hash e)) = Inl ErrNotFound"
proof -
  obtain s' where s': "s_Put S s None now e = (Inr (), s')" "inv s'" "ready s'"
      "view s' = (view s)((Tool e, Hash e) \<mapsto> norm (stamp now e))"
    using put [OF assms(1-6)] by blast
  then have g: "s_Get S s' None now' (Tool e) (Hash e) = (Inr (norm (stamp now e)), s')"
    using get_hit [of s' "Tool e" "Hash e"] assms(5,7) by simp
  show ?thesis
    using s'(1) g get_incr [OF s'(2,3) assms(5) g assms(8,9)] get_delete [OF s'(2,3) assms(5)] by simp
qed

lemma scan_get:
  assumes "inv s" "ready s" "okkey t []" "okkey t h" "order_ok s ord" "fst (s_Get S s None now t h) = Inr e"
  shows "\<exists>es. s_Scan S s None now ord t = Inr es \<and> e \<in> set es"
proof -
  have "view s (t, h) = Some e \<and> \<not> Expired e now"
  proof (cases "view s (t, h)")
    case None
    then show ?thesis using assms get_miss by simp
  next
    case (Some x)
    then show ?thesis
      using assms get_hit [of s t h x now] get_expired [of s t h x now] by (cases "Expired x now") auto
  qed
  then show ?thesis using scan [OF assms(1-3,5), of now] by blast
qed

end

section \<open>The in-memory adapter\<close>

type_synonym Memory = "bytes \<rightharpoonup> Entry"

definition NewMemory :: Memory where
  "NewMemory = Map.empty"

definition mem_Get :: "Memory \<Rightarrow> ctx \<Rightarrow> time \<Rightarrow> bytes \<Rightarrow> bytes \<Rightarrow> Entry result \<times> Memory" where
  "mem_Get m ctx now tool hash =
     (case ctx of
        Some err \<Rightarrow> (Inl err, m)
      | None \<Rightarrow>
          (case m (key tool hash) of
             None \<Rightarrow> (Inl ErrNotFound, m)
           | Some e \<Rightarrow>
               if Expired e now then (Inl ErrNotFound, m(key tool hash := None))
               else (Inr e, m)))"

definition mem_Put :: "Memory \<Rightarrow> ctx \<Rightarrow> time \<Rightarrow> Entry \<Rightarrow> unit result \<times> Memory" where
  "mem_Put m ctx now e =
     (case ctx of
        Some err \<Rightarrow> (Inl err, m)
      | None \<Rightarrow>
          if Tool e = '''' \<or> Hash e = '''' then (Inl ErrRequired, m)
          else let e' = (if IsZero (CreatedAt e) then e\<lparr>CreatedAt := now\<rparr> else e)
               in (Inr (), m(key (Tool e') (Hash e') \<mapsto> e')))"

definition mem_Delete :: "Memory \<Rightarrow> ctx \<Rightarrow> bytes \<Rightarrow> bytes \<Rightarrow> unit result \<times> Memory" where
  "mem_Delete m ctx tool hash =
     (case ctx of
        Some err \<Rightarrow> (Inl err, m)
      | None \<Rightarrow>
          (case m (key tool hash) of
             None \<Rightarrow> (Inl ErrNotFound, m)
           | Some _ \<Rightarrow> (Inr (), m(key tool hash := None))))"

fun mem_scan_loop :: "Memory \<Rightarrow> time \<Rightarrow> bytes \<Rightarrow> bytes list \<Rightarrow> Entry list" where
  "mem_scan_loop m now prefix [] = []"
| "mem_scan_loop m now prefix (k # ks) =
     (if \<not> startsWith k prefix then mem_scan_loop m now prefix ks
      else case m k of
             None \<Rightarrow> mem_scan_loop m now prefix ks
           | Some e \<Rightarrow>
               if Expired e now then mem_scan_loop m now prefix ks
               else e # mem_scan_loop m now prefix ks)"

definition mem_Scan :: "Memory \<Rightarrow> ctx \<Rightarrow> time \<Rightarrow> bytes list \<Rightarrow> bytes \<Rightarrow> Entry list result" where
  "mem_Scan m ctx now order tool =
     (case ctx of
        Some err \<Rightarrow> Inl err
      | None \<Rightarrow> Inr (mem_scan_loop m now (tool @ [NUL]) order))"

definition mem_IncrementReplay :: "Memory \<Rightarrow> ctx \<Rightarrow> bytes \<Rightarrow> bytes \<Rightarrow> unit result \<times> Memory" where
  "mem_IncrementReplay m ctx tool hash =
     (case ctx of
        Some err \<Rightarrow> (Inl err, m)
      | None \<Rightarrow>
          (case m (key tool hash) of
             None \<Rightarrow> (Inl ErrNotFound, m)
           | Some e \<Rightarrow>
               (Inr (), m(key tool hash \<mapsto> e\<lparr>ReplayCount := int64_wrap (ReplayCount e + 1)\<rparr>))))"

definition Memory_ops :: "Memory store_ops" where
  "Memory_ops = \<lparr>s_Get = mem_Get, s_Put = mem_Put, s_IncrementReplay = mem_IncrementReplay,
     s_Scan = mem_Scan, s_Delete = mem_Delete\<rparr>"

subsection \<open>Keys\<close>

definition nul_free :: "bytes \<Rightarrow> bool" where
  "nul_free s \<longleftrightarrow> NUL \<notin> set s"

definition key_ok :: "bytes \<Rightarrow> bytes \<Rightarrow> bool" where
  "key_ok t h \<longleftrightarrow> nul_free t \<and> nul_free h"

lemma startsWith_iff: "startsWith s p \<longleftrightarrow> (\<exists>r. s = p @ r)"
  using take_eq_iff_prefix [of p s] by (auto simp: startsWith_def)

lemma key_inject: "key_ok t h \<Longrightarrow> key_ok t' h' \<Longrightarrow> key t h = key t' h' \<longleftrightarrow> t = t' \<and> h = h'"
  using sep_append_inject [of NUL t t' h h'] by (auto simp: key_def key_ok_def nul_free_def)

lemma key_prefix: "nul_free t \<Longrightarrow> nul_free t' \<Longrightarrow> startsWith (key t' h) (t @ [NUL]) \<longleftrightarrow> t' = t"
  using sep_append_inject [of NUL t' t h] by (auto simp: key_def startsWith_iff nul_free_def)

text \<open>The keys of a store are those of representable tools and hashes, and no entry was filed
  under a key that is not its own.\<close>

definition keys_ok :: "(bytes \<rightharpoonup> 'a) \<Rightarrow> bool" where
  "keys_ok m \<longleftrightarrow> (\<forall>k \<in> dom m. \<exists>t h. k = key t h \<and> key_ok t h)"

definition view_of :: "(bytes \<rightharpoonup> 'a) \<Rightarrow> bytes \<times> bytes \<rightharpoonup> 'a" where
  "view_of m th = (if key_ok (fst th) (snd th) then m (key (fst th) (snd th)) else None)"

lemma view_of_upd: "key_ok t h \<Longrightarrow> view_of (m(key t h := x)) = (view_of m)((t, h) := x)"
  by (auto simp: view_of_def key_inject)

lemma view_of_get [simp]: "key_ok t h \<Longrightarrow> view_of m (t, h) = m (key t h)"
  by (simp add: view_of_def)

lemma keys_ok_upd [simp]: "keys_ok m \<Longrightarrow> key_ok t h \<Longrightarrow> keys_ok (m(key t h := x))"
  by (cases x) (auto simp: keys_ok_def split: if_splits)

lemma mem_scan_loop_set:
  "set (mem_scan_loop m now p ks) = {e. \<exists>k \<in> set ks. startsWith k p \<and> m k = Some e \<and> \<not> Expired e now}"
  by (induction m now p ks rule: mem_scan_loop.induct) (auto split: option.splits)

lemma scan_view:
  assumes "keys_ok m" "nul_free t"
  shows "(\<exists>k. startsWith k (t @ [NUL]) \<and> m k = Some e) \<longleftrightarrow> (\<exists>h. view_of m (t, h) = Some e)"
proof
  assume "\<exists>k. startsWith k (t @ [NUL]) \<and> m k = Some e"
  then obtain k where k: "startsWith k (t @ [NUL])" "m k = Some e" by blast
  then obtain t' h where "k = key t' h" "key_ok t' h" using assms(1) by (force simp: keys_ok_def)
  with k assms(2) show "\<exists>h. view_of m (t, h) = Some e" by (auto simp: key_prefix key_ok_def view_of_def)
next
  assume "\<exists>h. view_of m (t, h) = Some e"
  then obtain h where "m (key t h) = Some e" by (auto simp: view_of_def split: if_splits)
  moreover have "startsWith (key t h) (t @ [NUL])" by (simp add: startsWith_iff key_def)
  ultimately show "\<exists>k. startsWith k (t @ [NUL]) \<and> m k = Some e" by blast
qed

lemma mem_scan_view:
  assumes "keys_ok m" "nul_free t" "set ks = dom m"
  shows "set (mem_scan_loop m now (t @ [NUL]) ks) = {e. \<exists>h. view_of m (t, h) = Some e \<and> \<not> Expired e now}"
proof -
  have "(\<exists>k \<in> set ks. startsWith k (t @ [NUL]) \<and> m k = Some e \<and> \<not> Expired e now) \<longleftrightarrow>
      (\<exists>k. startsWith k (t @ [NUL]) \<and> m k = Some e) \<and> \<not> Expired e now" for e
    using assms(3) by blast
  then show ?thesis unfolding mem_scan_loop_set scan_view [OF assms(1,2)] by blast
qed

definition mem_order_ok :: "Memory \<Rightarrow> bytes list \<Rightarrow> bool" where
  "mem_order_ok m order \<longleftrightarrow> distinct order \<and> set order = dom m"

lemmas mem_defs = Memory_ops_def mem_Get_def mem_Put_def mem_Delete_def mem_IncrementReplay_def mem_Scan_def

interpretation mem: store_port Memory_ops keys_ok "\<lambda>_. True" view_of "\<lambda>e. e" key_ok
  "\<lambda>e. True" mem_order_ok
proof (unfold_locales, goal_cases)
  case (15 s t ord now)
  then have "keys_ok s" "nul_free t" "set ord = dom s" by (auto simp: key_ok_def mem_order_ok_def)
  then show ?case
    by (simp add: mem_defs mem_scan_view)
qed (auto simp: mem_defs view_of_upd stamp_def int64_defs Let_def)

end
