(* ===== verification/Store_Bolt.thy ===== *)
theory Store_Bolt
  imports Store
begin

text \<open>
  \<open>internal/store/bolt.go\<close>: the BoltDB adapter. The database (\<open>go.etcd.io/bbolt\<close>) is a parameter:
  the record \<open>kv_ops\<close> of what the adapter calls on the one bucket, with the laws of locale
  \<open>kv_engine\<close>. A bucket is a map from byte keys to byte values that a cursor walks in key order.
  The JSON form of an entry is the pair of functions \<open>entry_codec\<close>, whose law is the round trip of
  \<open>encoding/json\<close> on the entries it can represent. Over any lawful engine and codec the adapter
  satisfies \<open>store_port\<close> (\<open>sublocale\<close>); a sorted association list is such an engine.
\<close>

section \<open>The engine and the codec\<close>

record 'b kv_ops =
  kv_get :: "'b \<Rightarrow> bytes \<Rightarrow> bytes option"                   \<comment> \<open>\<open>Bucket.Get\<close>\<close>
  kv_put :: "'b \<Rightarrow> bytes \<Rightarrow> bytes \<Rightarrow> 'b result"             \<comment> \<open>\<open>Bucket.Put\<close>\<close>
  kv_delete :: "'b \<Rightarrow> bytes \<Rightarrow> 'b"                         \<comment> \<open>\<open>Bucket.Delete\<close>\<close>
  kv_items :: "'b \<Rightarrow> (bytes \<times> bytes) list"                 \<comment> \<open>what a cursor walks\<close>
  kv_fault :: "'b \<Rightarrow> go_error option"                      \<comment> \<open>the error of a transaction, if it fails\<close>

record entry_codec =
  marshal_entry :: "Entry \<Rightarrow> bytes result"
  unmarshal_entry :: "bytes \<Rightarrow> Entry result"

definition MaxKeySize :: nat where "MaxKeySize = 32768"

locale kv_engine =
  fixes B :: "'b kv_ops"
    and kv_inv :: "'b \<Rightarrow> bool"
  assumes items_sorted: "kv_inv b \<Longrightarrow> sorted_wrt (<) (map fst (kv_items B b))"
    and get_items: "kv_inv b \<Longrightarrow> kv_get B b k = map_of (kv_items B b) k"
    and put_items: "kv_inv b \<Longrightarrow> k \<noteq> [] \<Longrightarrow> length k \<le> MaxKeySize \<Longrightarrow>
      \<exists>b'. kv_put B b k v = Inr b' \<and> kv_inv b' \<and> kv_fault B b' = kv_fault B b \<and>
        map_of (kv_items B b') = (map_of (kv_items B b))(k \<mapsto> v)"
    and delete_items: "kv_inv b \<Longrightarrow>
      kv_inv (kv_delete B b k) \<and> kv_fault B (kv_delete B b k) = kv_fault B b \<and>
        map_of (kv_items B (kv_delete B b k)) = (map_of (kv_items B b))(k := None)"

section \<open>The adapter\<close>

definition OpenBolt :: "'b result \<Rightarrow> ('b \<Rightarrow> 'b result) \<Rightarrow> 'b result" where
  "OpenBolt opened create =
     (case opened of
        Inl err \<Rightarrow> Inl (Wrapped ''open bolt'' err)
      | Inr db \<Rightarrow>
          (case create db of
             Inl err \<Rightarrow> Inl (Wrapped ''init bucket'' err)
           | Inr db' \<Rightarrow> Inr db'))"

definition bolt_Get :: "'b kv_ops \<Rightarrow> entry_codec \<Rightarrow> 'b \<Rightarrow> ctx \<Rightarrow> time \<Rightarrow> bytes \<Rightarrow> bytes \<Rightarrow> Entry result \<times> 'b" where
  "bolt_Get B K db ctx now tool hash =
     (case ctx of
        Some err \<Rightarrow> (Inl err, db)
      | None \<Rightarrow>
          let k = key tool hash;
              v = (case kv_fault B db of
                     Some err \<Rightarrow> Inl err
                   | None \<Rightarrow> (case kv_get B db k of None \<Rightarrow> Inl ErrNotFound | Some v \<Rightarrow> unmarshal_entry K v))
          in (case v of
                Inl err \<Rightarrow> (Inl err, db)
              | Inr e \<Rightarrow> if Expired e now then (Inl ErrNotFound, kv_delete B db k) else (Inr e, db)))"

text \<open>\<open>db.Update\<close>: a failing transaction, or a function that returns an error, changes nothing.\<close>

definition bolt_Update :: "'b kv_ops \<Rightarrow> 'b \<Rightarrow> ('b \<Rightarrow> 'b result) \<Rightarrow> unit result \<times> 'b" where
  "bolt_Update B db f =
     (case kv_fault B db of
        Some err \<Rightarrow> (Inl err, db)
      | None \<Rightarrow> (case f db of Inl err \<Rightarrow> (Inl err, db) | Inr db' \<Rightarrow> (Inr (), db')))"

definition bolt_Put :: "'b kv_ops \<Rightarrow> entry_codec \<Rightarrow> 'b \<Rightarrow> ctx \<Rightarrow> time \<Rightarrow> Entry \<Rightarrow> unit result \<times> 'b" where
  "bolt_Put B K db ctx now e =
     (case ctx of
        Some err \<Rightarrow> (Inl err, db)
      | None \<Rightarrow>
          if Tool e = '''' \<or> Hash e = '''' then (Inl ErrRequired, db)
          else let e' = (if IsZero (CreatedAt e) then e\<lparr>CreatedAt := now\<rparr> else e) in
               (case marshal_entry K e' of
                  Inl err \<Rightarrow> (Inl (Wrapped ''marshal entry'' err), db)
                | Inr data \<Rightarrow> bolt_Update B db (\<lambda>b. kv_put B b (key (Tool e') (Hash e')) data)))"

definition bolt_Delete :: "'b kv_ops \<Rightarrow> 'b \<Rightarrow> ctx \<Rightarrow> bytes \<Rightarrow> bytes \<Rightarrow> unit result \<times> 'b" where
  "bolt_Delete B db ctx tool hash =
     (case ctx of
        Some err \<Rightarrow> (Inl err, db)
      | None \<Rightarrow>
          let k = key tool hash in
          bolt_Update B db (\<lambda>b. if kv_get B b k = None then Inl ErrNotFound else Inr (kv_delete B b k)))"

definition bolt_IncrementReplay ::
  "'b kv_ops \<Rightarrow> entry_codec \<Rightarrow> 'b \<Rightarrow> ctx \<Rightarrow> bytes \<Rightarrow> bytes \<Rightarrow> unit result \<times> 'b" where
  "bolt_IncrementReplay B K db ctx tool hash =
     (case ctx of
        Some err \<Rightarrow> (Inl err, db)
      | None \<Rightarrow>
          let k = key tool hash in
          bolt_Update B db (\<lambda>b.
            case kv_get B b k of
              None \<Rightarrow> Inl ErrNotFound
            | Some v \<Rightarrow>
                (case unmarshal_entry K v of
                   Inl err \<Rightarrow> Inl (Wrapped ''unmarshal entry'' err)
                 | Inr e \<Rightarrow>
                     (case marshal_entry K (e\<lparr>ReplayCount := int64_wrap (ReplayCount e + 1)\<rparr>) of
                        Inl err \<Rightarrow> Inl (Wrapped ''marshal entry'' err)
                      | Inr data \<Rightarrow> kv_put B b k data))))"

fun hasPrefix :: "bytes \<Rightarrow> bytes \<Rightarrow> bool" where
  "hasPrefix b [] = True"
| "hasPrefix [] (p # ps) = False"
| "hasPrefix (c # b) (p # ps) = (c = p \<and> hasPrefix b ps)"

text \<open>\<open>c.Seek(prefix)\<close> moves to the first key that is not below the prefix.\<close>

fun bolt_scan_loop :: "entry_codec \<Rightarrow> time \<Rightarrow> bytes \<Rightarrow> (bytes \<times> bytes) list \<Rightarrow> Entry list" where
  "bolt_scan_loop K now prefix [] = []"
| "bolt_scan_loop K now prefix ((k, v) # rest) =
     (if \<not> hasPrefix k prefix then []
      else case unmarshal_entry K v of
             Inl err \<Rightarrow> bolt_scan_loop K now prefix rest
           | Inr e \<Rightarrow>
               if Expired e now then bolt_scan_loop K now prefix rest
               else e # bolt_scan_loop K now prefix rest)"

definition bolt_Scan :: "'b kv_ops \<Rightarrow> entry_codec \<Rightarrow> 'b \<Rightarrow> ctx \<Rightarrow> time \<Rightarrow> bytes list \<Rightarrow> bytes \<Rightarrow> Entry list result" where
  "bolt_Scan B K db ctx now order tool =
     (case ctx of
        Some err \<Rightarrow> Inl err
      | None \<Rightarrow>
          (case kv_fault B db of
             Some err \<Rightarrow> Inl err
           | None \<Rightarrow>
               let prefix = tool @ [NUL]
               in Inr (bolt_scan_loop K now prefix (dropWhile (\<lambda>(k, v). k < prefix) (kv_items B db)))))"

definition Bolt_ops :: "'b kv_ops \<Rightarrow> entry_codec \<Rightarrow> 'b store_ops" where
  "Bolt_ops B K = \<lparr>s_Get = bolt_Get B K, s_Put = bolt_Put B K, s_IncrementReplay = bolt_IncrementReplay B K,
     s_Scan = bolt_Scan B K, s_Delete = bolt_Delete B\<rparr>"

subsection \<open>Compaction\<close>

text \<open>The read pass and the write pass are two transactions: other operations may run in between.\<close>

definition compact_read :: "'b kv_ops \<Rightarrow> entry_codec \<Rightarrow> 'b \<Rightarrow> time \<Rightarrow> bytes list" where
  "compact_read B K db now =
     map fst (filter (\<lambda>(k, v). case unmarshal_entry K v of Inl _ \<Rightarrow> False | Inr e \<Rightarrow> Expired e now) (kv_items B db))"

definition compact_write :: "'b kv_ops \<Rightarrow> 'b \<Rightarrow> bytes list \<Rightarrow> 'b" where
  "compact_write B db expiredKeys = foldl (kv_delete B) db expiredKeys"

definition bolt_Compact :: "'b kv_ops \<Rightarrow> entry_codec \<Rightarrow> 'b \<Rightarrow> ctx \<Rightarrow> time \<Rightarrow> nat result \<times> 'b" where
  "bolt_Compact B K db ctx now =
     (case ctx of
        Some err \<Rightarrow> (Inl err, db)
      | None \<Rightarrow>
          (case kv_fault B db of
             Some err \<Rightarrow> (Inl (Wrapped ''scan'' err), db)
           | None \<Rightarrow>
               let expiredKeys = compact_read B K db now
               in if length expiredKeys = 0 then (Inr 0, db)
                  else case bolt_Update B db (\<lambda>b. Inr (compact_write B b expiredKeys)) of
                         (Inl err, db') \<Rightarrow> (Inl (Wrapped ''delete'' err), db')
                       | (Inr _, db') \<Rightarrow> (Inr (length expiredKeys), db')))"

datatype ticker_event = CtxDone | Tick time

text \<open>\<open>RunCompactor\<close> on the events its \<open>select\<close> receives; the results go to \<open>onResult\<close>.\<close>

fun compactor_loop :: "('b \<Rightarrow> time \<Rightarrow> nat result \<times> 'b) \<Rightarrow> 'b \<Rightarrow> ticker_event list \<Rightarrow> nat result list \<times> 'b" where
  "compactor_loop cmp db [] = ([], db)"
| "compactor_loop cmp db (CtxDone # evs) = ([], db)"
| "compactor_loop cmp db (Tick now # evs) =
     (let (r, db') = cmp db now; (rs, db'') = compactor_loop cmp db' evs in (r # rs, db''))"

definition RunCompactor ::
  "('b \<Rightarrow> time \<Rightarrow> nat result \<times> 'b) \<Rightarrow> duration \<Rightarrow> 'b \<Rightarrow> ticker_event list \<Rightarrow> nat result list \<times> 'b" where
  "RunCompactor cmp interval db evs =
     (if interval \<le> 0 then ([], db) else compactor_loop cmp db evs)"

section \<open>The cursor\<close>

lemma hasPrefix_iff: "hasPrefix b p \<longleftrightarrow> startsWith b p"
  unfolding startsWith_iff by (induction b p rule: hasPrefix.induct) auto

text \<open>In lexicographic order the keys with a given prefix are contiguous, from the first key that
  is not below the prefix.\<close>

lemma prefix_not_less: "\<not> p @ r < (p :: bytes)"
  by (induction p) auto

lemma prefix_block: "\<not> k < p \<Longrightarrow> k < p @ r \<Longrightarrow> \<exists>q. k = p @ (q :: bytes)"
proof (induction p arbitrary: k)
  case (Cons c p)
  then show ?case by (cases k) auto
qed simp

lemma filter_seek:
  assumes "sorted_wrt (<) (map fst xs)"
  shows "filter (\<lambda>(k, v). startsWith k p) xs =
    takeWhile (\<lambda>(k, v). startsWith k p) (dropWhile (\<lambda>(k, v). k < p) (xs :: (bytes \<times> 'v) list))"
  using assms
proof (induction xs)
  case (Cons kv xs)
  obtain k v where kv: "kv = (k, v)" by (cases kv)
  show ?case
  proof (cases "k < p")
    case True
    then have "\<not> startsWith k p" using prefix_not_less by (auto simp: startsWith_iff)
    with Cons kv True show ?thesis by simp
  next
    case ge: False
    show ?thesis
    proof (cases "startsWith k p")
      case True
      have "\<forall>x \<in> set xs. k < fst x" using Cons.prems kv by simp
      then have "\<forall>x \<in> set xs. \<not> fst x < p" using ge by force
      then have "dropWhile (\<lambda>(k, v). k < p) xs = xs" by (cases xs) auto
      with Cons kv ge True show ?thesis by simp
    next
      case False
      have "\<not> startsWith (fst x) p" if "x \<in> set xs" for x
      proof
        assume "startsWith (fst x) p"
        moreover have "k < fst x" using Cons.prems kv that by auto
        ultimately show False using ge False prefix_block by (metis startsWith_iff)
      qed
      then have "filter (\<lambda>(k, v). startsWith k p) xs = []" by (auto simp: filter_empty_conv)
      with kv ge False show ?thesis by simp
    qed
  qed
qed simp

lemma bolt_scan_loop_set:
  "set (bolt_scan_loop K now p xs) =
     {e. \<exists>(k, v) \<in> set (takeWhile (\<lambda>(k, v). startsWith k p) xs). unmarshal_entry K v = Inr e \<and> \<not> Expired e now}"
  by (induction K now p xs rule: bolt_scan_loop.induct) (auto simp: hasPrefix_iff split: sum.splits)

section \<open>The adapter satisfies the port\<close>

locale bolt_env = kv_engine B kv_inv for B :: "'b kv_ops" and kv_inv +
  fixes K :: entry_codec
    and encodable :: "Entry \<Rightarrow> bool"
  assumes codec: "encodable e \<Longrightarrow> \<exists>v. marshal_entry K e = Inr v \<and> unmarshal_entry K v = Inr e"
    and encodable_count: "encodable e \<Longrightarrow> encodable (e\<lparr>ReplayCount := n\<rparr>)"
begin

definition bolt_inv :: "'b \<Rightarrow> bool" where
  "bolt_inv b \<longleftrightarrow> kv_inv b \<and> keys_ok (map_of (kv_items B b)) \<and>
     (\<forall>k v. map_of (kv_items B b) k = Some v \<longrightarrow>
        length k \<le> MaxKeySize \<and> (\<exists>e. unmarshal_entry K v = Inr e \<and> encodable e))"

definition entries :: "'b \<Rightarrow> bytes \<Rightarrow> Entry option" where
  "entries b k =
     (case map_of (kv_items B b) k of None \<Rightarrow> None
      | Some v \<Rightarrow> (case unmarshal_entry K v of Inl _ \<Rightarrow> None | Inr e \<Rightarrow> Some e))"

definition bolt_storable :: "Entry \<Rightarrow> bool" where
  "bolt_storable e \<longleftrightarrow> encodable e \<and> length (key (Tool e) (Hash e)) \<le> MaxKeySize"

lemma inv_decodes:
  assumes "bolt_inv b" "map_of (kv_items B b) k = Some v"
  obtains e where "unmarshal_entry K v = Inr e" "encodable e" "entries b k = Some e" "length k \<le> MaxKeySize"
  using assms by (force simp: bolt_inv_def entries_def)

lemma entries_None [simp]: "bolt_inv b \<Longrightarrow> entries b k = None \<longleftrightarrow> map_of (kv_items B b) k = None"
  by (cases "map_of (kv_items B b) k") (auto simp: entries_def elim: inv_decodes)

lemma entries_SomeE:
  assumes "bolt_inv b" "entries b k = Some e"
  obtains v where "map_of (kv_items B b) k = Some v" "unmarshal_entry K v = Inr e" "encodable e" "length k \<le> MaxKeySize"
  using assms by (auto simp: entries_def split: option.splits sum.splits elim!: inv_decodes)

lemma keys_ok_entries: "bolt_inv b \<Longrightarrow> keys_ok (entries b)"
  unfolding bolt_inv_def keys_ok_def by (metis (no_types, lifting) domIff entries_def option.simps(4))

lemma entries_iff:
  assumes "bolt_inv b"
  shows "entries b k = Some e \<longleftrightarrow> (\<exists>v. (k, v) \<in> set (kv_items B b) \<and> unmarshal_entry K v = Inr e)"
proof -
  have "distinct (map fst (kv_items B b))"
    using assms items_sorted [of b] strict_sorted_iff by (auto simp: bolt_inv_def)
  then have "map_of (kv_items B b) k = Some v \<longleftrightarrow> (k, v) \<in> set (kv_items B b)" for v
    by (rule map_of_eq_Some_mem)
  moreover have "entries b k = Some e \<longleftrightarrow> (\<exists>v. map_of (kv_items B b) k = Some v \<and> unmarshal_entry K v = Inr e)"
    by (auto simp: entries_def split: option.splits sum.splits)
  ultimately show ?thesis by simp
qed

lemma key_neq_Nil [simp]: "key t h \<noteq> []"
  by (simp add: key_def)

text \<open>Writing one encodable entry, removing one key.\<close>

lemma update_put:
  assumes "bolt_inv b" "kv_fault B b = None" "key_ok t h" "encodable e" "marshal_entry K e = Inr v"
    "length (key t h) \<le> MaxKeySize"
  obtains b' where "bolt_Update B b (\<lambda>b. kv_put B b (key t h) v) = (Inr (), b')" "bolt_inv b'"
    "kv_fault B b' = None" "entries b' = (entries b)(key t h \<mapsto> e)"
proof -
  have u: "unmarshal_entry K v = Inr e" using codec [OF assms(4)] assms(5) by auto
  have "kv_inv b" using assms(1) by (simp add: bolt_inv_def)
  from put_items [OF this _ assms(6), of v] obtain b' where b': "kv_put B b (key t h) v = Inr b'" "kv_inv b'"
      "kv_fault B b' = kv_fault B b" "map_of (kv_items B b') = (map_of (kv_items B b))(key t h \<mapsto> v)"
    by auto
  have "bolt_inv b'" using assms b' u by (auto simp: bolt_inv_def)
  moreover have "entries b' = (entries b)(key t h \<mapsto> e)" using b'(4) u by (auto simp: entries_def)
  ultimately show thesis using that b' assms(2) by (simp add: bolt_Update_def)
qed

lemma delete_inv:
  assumes "bolt_inv b"
  shows "bolt_inv (kv_delete B b k)" "kv_fault B (kv_delete B b k) = kv_fault B b"
    "entries (kv_delete B b k) = (entries b)(k := None)"
  using assms delete_items [of b k] by (auto simp: bolt_inv_def keys_ok_def entries_def split: if_splits)

lemma get_eq: "bolt_inv b \<Longrightarrow> kv_get B b k = map_of (kv_items B b) k"
  by (simp add: bolt_inv_def get_items)

lemma scan_entries:
  assumes "bolt_inv b" "nul_free t"
  shows "set (bolt_scan_loop K now (t @ [NUL]) (dropWhile (\<lambda>(k, v). k < t @ [NUL]) (kv_items B b))) =
    {e. \<exists>h. view_of (entries b) (t, h) = Some e \<and> \<not> Expired e now}"
proof -
  have sorted: "sorted_wrt (<) (map fst (kv_items B b))" using assms(1) by (simp add: bolt_inv_def items_sorted)
  have "(\<exists>(k, v) \<in> set (filter (\<lambda>(k, v). startsWith k (t @ [NUL])) (kv_items B b)).
        unmarshal_entry K v = Inr e \<and> \<not> Expired e now) \<longleftrightarrow>
      (\<exists>k. startsWith k (t @ [NUL]) \<and> entries b k = Some e) \<and> \<not> Expired e now" for e
    unfolding entries_iff [OF assms(1)] by auto
  then show ?thesis
    unfolding bolt_scan_loop_set filter_seek [OF sorted, symmetric] scan_view [OF keys_ok_entries [OF assms(1)] assms(2)]
    by blast
qed

text \<open>Compaction.\<close>

lemma compact_read_iff: "bolt_inv b \<Longrightarrow> k \<in> set (compact_read B K b now) \<longleftrightarrow> (\<exists>e. entries b k = Some e \<and> Expired e now)"
proof -
  assume b: "bolt_inv b"
  have "(case u of Inl _ \<Rightarrow> False | Inr e \<Rightarrow> Expired e now) \<longleftrightarrow> (\<exists>e. u = Inr e \<and> Expired e now)" for u :: "Entry result"
    by (cases u) auto
  then show ?thesis unfolding compact_read_def entries_iff [OF b] by (auto simp: image_iff)
qed

lemma compact_write_inv:
  "bolt_inv b \<Longrightarrow> bolt_inv (compact_write B b ks) \<and> kv_fault B (compact_write B b ks) = kv_fault B b \<and>
     entries (compact_write B b ks) = (\<lambda>k. if k \<in> set ks then None else entries b k)"
  unfolding compact_write_def by (induction ks arbitrary: b) (auto simp: delete_inv)

lemma distinct_compact_read: "bolt_inv b \<Longrightarrow> distinct (compact_read B K b now)"
proof -
  assume "bolt_inv b"
  then have "distinct (map fst (kv_items B b))"
    using items_sorted [of b] strict_sorted_iff by (auto simp: bolt_inv_def)
  then show ?thesis by (simp add: compact_read_def distinct_map_filter)
qed

lemma compact_effect:
  assumes "bolt_inv b" "kv_fault B b = None"
  shows "\<exists>b'. bolt_Compact B K b None now = (Inr (card {k. \<exists>e. entries b k = Some e \<and> Expired e now}), b') \<and>
    bolt_inv b' \<and> kv_fault B b' = None \<and>
    entries b' = (\<lambda>k. case entries b k of None \<Rightarrow> None | Some e \<Rightarrow> if Expired e now then None else Some e)"
proof -
  let ?ks = "compact_read B K b now"
  have ks: "set ?ks = {k. \<exists>e. entries b k = Some e \<and> Expired e now}" using compact_read_iff [OF assms(1)] by blast
  then have n: "length ?ks = card {k. \<exists>e. entries b k = Some e \<and> Expired e now}"
    using distinct_compact_read [OF assms(1)] by (metis distinct_card)
  let ?b' = "compact_write B b ?ks"
  have e: "entries ?b' = (\<lambda>k. case entries b k of None \<Rightarrow> None | Some e \<Rightarrow> if Expired e now then None else Some e)"
    using compact_write_inv [OF assms(1), of ?ks] ks by (auto simp: fun_eq_iff split: option.split)
  have "bolt_Compact B K b None now = (Inr (length ?ks), ?b')"
    using assms(2) by (auto simp: bolt_Compact_def bolt_Update_def Let_def compact_write_def)
  then show ?thesis using n e compact_write_inv [OF assms(1), of ?ks] assms(2) by auto
qed

end

lemmas bolt_defs = Bolt_ops_def bolt_Get_def bolt_Put_def bolt_Delete_def bolt_IncrementReplay_def bolt_Scan_def

sublocale bolt_env \<subseteq> bolt: store_port "Bolt_ops B K" bolt_inv "\<lambda>b. kv_fault B b = None"
  "\<lambda>b. view_of (entries b)" "\<lambda>e. e" key_ok bolt_storable "\<lambda>_ _. True"
proof (unfold_locales, goal_cases)
  case (6 s t h e now)
  then obtain v where "map_of (kv_items B s) (key t h) = Some v" "unmarshal_entry K v = Inr e"
    by (auto elim: entries_SomeE)
  with 6 show ?case by (simp add: bolt_defs get_eq)
next
  case (7 s t h now)
  then show ?case by (auto simp: bolt_defs get_eq)
next
  case (8 s t h e now)
  then obtain v where "map_of (kv_items B s) (key t h) = Some v" "unmarshal_entry K v = Inr e"
    by (auto elim: entries_SomeE)
  with 8 show ?case by (simp add: bolt_defs get_eq delete_inv view_of_upd)
next
  case (10 s e now)
  then obtain v where v: "marshal_entry K (stamp now e) = Inr v" using codec by (auto simp: bolt_storable_def)
  with 10 obtain s' where "bolt_Update B s (\<lambda>b. kv_put B b (key (Tool e) (Hash e)) v) = (Inr (), s')" "bolt_inv s'"
      "kv_fault B s' = None" "entries s' = (entries s)(key (Tool e) (Hash e) \<mapsto> stamp now e)"
    by (auto simp: bolt_storable_def elim: update_put [of s "Tool e" "Hash e" "stamp now e" v])
  with 10 v show ?case by (auto simp: bolt_defs Let_def view_of_upd simp flip: stamp_def)
next
  case (11 s t h e)
  then obtain v0 where v0: "map_of (kv_items B s) (key t h) = Some v0" "unmarshal_entry K v0 = Inr e" "encodable e"
      "length (key t h) \<le> MaxKeySize"
    by (auto elim: entries_SomeE)
  let ?e = "e\<lparr>ReplayCount := ReplayCount e + 1\<rparr>"
  obtain v where v: "marshal_entry K ?e = Inr v" using codec encodable_count v0(3) by blast
  from 11 v v0 obtain s' where "bolt_Update B s (\<lambda>b. kv_put B b (key t h) v) = (Inr (), s')" "bolt_inv s'"
      "kv_fault B s' = None" "entries s' = (entries s)(key t h \<mapsto> ?e)"
    by (auto elim: update_put [of s t h ?e v] simp: encodable_count)
  with 11 v v0 show ?case
    by (auto simp: bolt_defs Let_def get_eq bolt_Update_def view_of_upd int64_defs split: sum.splits)
next
  case (12 s t h)
  then show ?case by (auto simp: bolt_defs bolt_Update_def get_eq)
next
  case (13 s t h)
  then show ?case by (auto simp: bolt_defs bolt_Update_def get_eq delete_inv view_of_upd)
next
  case (14 s t h)
  then show ?case by (auto simp: bolt_defs bolt_Update_def get_eq)
next
  case (15 s t ord now)
  then show ?case by (simp add: bolt_defs scan_entries key_ok_def Let_def)
qed (auto simp: bolt_defs)

text \<open>The contract as a fact about any lawful engine.\<close>

context bolt_env
begin

lemmas bolt_port = bolt.store_port_axioms

end

end
