(* ===== verification/Store_Postgres.thy ===== *)
theory Store_Postgres
  imports Store
begin

text \<open>
  \<open>internal/store/postgres.go\<close>: the PostgreSQL adapter. The server is a parameter: the record
  \<open>pg_ops\<close> has one function per SQL statement of the adapter, on the one table, and locale
  \<open>pg_engine\<close> states what each statement means. A row keeps the creation time in microseconds (the
  precision of \<open>timestamptz\<close>) and the time to live in milliseconds, so storing an entry rounds both
  down; \<open>pg_norm\<close> is that loss. An expired row is deleted in the background: the flag \<open>async\<close> says
  whether that deletion has happened by the next operation.
\<close>

section \<open>Embeddings as bytes\<close>

definition put_uint32 :: "f32 \<Rightarrow> bytes" where
  "put_uint32 w = map (\<lambda>i. char_of (unat w div 256 ^ i)) [0, 1, 2, 3]"

definition encodeEmbedding :: "f32 list \<Rightarrow> bytes" where
  "encodeEmbedding v = (if length v = 0 then [] else concat (map put_uint32 v))"

definition uint32_at :: "bytes \<Rightarrow> nat \<Rightarrow> f32" where
  "uint32_at b i =
     of_nat (of_char (b ! (4 * i)) + 256 * of_char (b ! (4 * i + 1)) +
       65536 * of_char (b ! (4 * i + 2)) + 16777216 * of_char (b ! (4 * i + 3)))"

definition decodeEmbedding :: "bytes \<Rightarrow> f32 list" where
  "decodeEmbedding b =
     (if length b = 0 \<or> length b mod 4 \<noteq> 0 then [] else map (uint32_at b) [0..<length b div 4])"

lemma base256:
  fixes n :: nat
  assumes "n < 4294967296"
  shows "n mod 256 + 256 * (n div 256 mod 256) + 65536 * (n div 65536 mod 256) + 16777216 * (n div 16777216 mod 256) = n"
proof -
  have e: "n div 65536 = n div 256 div 256" "n div 16777216 = n div 256 div 256 div 256"
    by (simp_all flip: div_mult2_eq)
  have m: "256 * (x div 256) + x mod 256 = x" for x :: nat by (simp only: mult_div_mod_eq)
  have "n div 256 div 256 div 256 mod 256 = n div 256 div 256 div 256"
    using assms by (simp flip: div_mult2_eq)
  with m [of n] m [of "n div 256"] m [of "n div 256 div 256"] show ?thesis
    unfolding e by linarith
qed

lemma uint32_put: "of_nat (of_char (put_uint32 w ! 0) + 256 * of_char (put_uint32 w ! 1) +
    65536 * of_char (put_uint32 w ! 2) + 16777216 * of_char (put_uint32 w ! 3)) = w"
proof -
  have "unat w < 2 ^ LENGTH(32)" by (rule unsigned_less)
  then have "unat w < 4294967296" by simp
  then show ?thesis using base256 [of "unat w"] by (simp add: put_uint32_def)
qed

lemma length_put_uint32 [simp]: "length (put_uint32 w) = 4"
  by (simp add: put_uint32_def)

lemma put_uint32_neq_Nil [simp]: "put_uint32 w \<noteq> []"
  by (simp add: put_uint32_def)

lemma length_concat_put [simp]: "length (concat (map put_uint32 v)) = 4 * length v"
  by (induction v) auto

lemma nth_concat_put:
  "i < length v \<Longrightarrow> j < 4 \<Longrightarrow> concat (map put_uint32 v) ! (4 * i + j) = put_uint32 (v ! i) ! j"
proof (induction v arbitrary: i)
  case (Cons w v)
  then show ?case
  proof (cases i)
    case (Suc k)
    have "concat (map put_uint32 v) ! (4 * k + j) = put_uint32 (v ! k) ! j"
      using Cons.IH [of k] Cons.prems Suc by simp
    with Suc show ?thesis by (simp add: nth_append)
  qed (simp add: nth_append)
qed simp

lemma decode_encodeEmbedding: "decodeEmbedding (encodeEmbedding v) = v"
proof -
  have "uint32_at (concat (map put_uint32 v)) i = v ! i" if "i < length v" for i
    using nth_concat_put [OF that, of 0] nth_concat_put [OF that, of 1] nth_concat_put [OF that, of 2]
      nth_concat_put [OF that, of 3] uint32_put [of "v ! i"] by (simp add: uint32_at_def)
  then have "map (uint32_at (concat (map put_uint32 v))) [0..<length v] = v"
    by (intro nth_equalityI) simp_all
  then show ?thesis
    by (cases v) (auto simp: decodeEmbedding_def encodeEmbedding_def simp flip: length_0_conv)
qed

section \<open>Rows and statements\<close>

record pg_row =
  r_request :: bytes
  r_response :: bytes
  r_status_code :: int
  r_created_at :: int      \<comment> \<open>microseconds\<close>
  r_ttl_ms :: int
  r_replay_count :: int
  r_embedding :: bytes

definition in_int4 :: "int \<Rightarrow> bool" where
  "in_int4 n \<longleftrightarrow> - 2147483648 \<le> n \<and> n \<le> 2147483647"

record 'p pg_ops =
  pg_fault :: "'p \<Rightarrow> go_error option"                                      \<comment> \<open>the error of a statement, if it fails\<close>
  pg_select :: "'p \<Rightarrow> bytes \<Rightarrow> bytes \<Rightarrow> pg_row option"                      \<comment> \<open>\<open>SELECT ... WHERE tool AND hash\<close>\<close>
  pg_upsert :: "'p \<Rightarrow> bytes \<Rightarrow> bytes \<Rightarrow> pg_row \<Rightarrow> 'p result"               \<comment> \<open>\<open>INSERT ... ON CONFLICT DO UPDATE\<close>\<close>
  pg_delete :: "'p \<Rightarrow> bytes \<Rightarrow> bytes \<Rightarrow> nat \<times> 'p"                          \<comment> \<open>\<open>DELETE ... WHERE tool AND hash\<close>\<close>
  pg_select_tool :: "'p \<Rightarrow> bytes \<Rightarrow> (bytes \<times> pg_row) list"                \<comment> \<open>\<open>SELECT ... WHERE tool ORDER BY created_at DESC\<close>\<close>
  pg_increment :: "'p \<Rightarrow> bytes \<Rightarrow> bytes \<Rightarrow> (nat \<times> 'p) result"               \<comment> \<open>\<open>UPDATE ... SET replay_count\<close>\<close>
  pg_delete_expired :: "'p \<Rightarrow> int \<Rightarrow> nat \<times> 'p"                            \<comment> \<open>the \<open>DELETE\<close> of \<open>Compact\<close>\<close>

definition row_lapsed :: "int \<Rightarrow> pg_row \<Rightarrow> bool" where
  "row_lapsed now_us r \<longleftrightarrow> 0 < r_ttl_ms r \<and> r_created_at r + r_ttl_ms r * 1000 < now_us"

locale pg_engine =
  fixes P :: "'p pg_ops"
    and pg_inv :: "'p \<Rightarrow> bool"
    and rows :: "'p \<Rightarrow> bytes \<times> bytes \<Rightarrow> pg_row option"
    and pg_text :: "bytes \<Rightarrow> bool"       \<comment> \<open>the strings a \<open>text\<close> column can hold\<close>
  assumes sel: "pg_inv p \<Longrightarrow> pg_text t \<Longrightarrow> pg_text h \<Longrightarrow> pg_select P p t h = rows p (t, h)"
    and upsert: "pg_inv p \<Longrightarrow> pg_text t \<Longrightarrow> pg_text h \<Longrightarrow> in_int4 (r_status_code r) \<Longrightarrow> in_int4 (r_replay_count r) \<Longrightarrow>
      \<exists>p'. pg_upsert P p t h r = Inr p' \<and> pg_inv p' \<and> pg_fault P p' = pg_fault P p \<and> rows p' = (rows p)((t, h) \<mapsto> r)"
    and del: "pg_inv p \<Longrightarrow> pg_text t \<Longrightarrow> pg_text h \<Longrightarrow>
      \<exists>p'. pg_delete P p t h = (if rows p (t, h) = None then 0 else 1, p') \<and> pg_inv p' \<and>
        pg_fault P p' = pg_fault P p \<and> rows p' = (rows p)((t, h) := None) \<and> (rows p (t, h) = None \<longrightarrow> p' = p)"
    and sel_tool: "pg_inv p \<Longrightarrow> pg_text t \<Longrightarrow>
      set (pg_select_tool P p t) = {(h, r). rows p (t, h) = Some r} \<and>
        sorted_wrt (\<lambda>a b. r_created_at (snd b) \<le> r_created_at (snd a)) (pg_select_tool P p t)"
    and increment: "pg_inv p \<Longrightarrow> pg_text t \<Longrightarrow> pg_text h \<Longrightarrow>
      rows p (t, h) = Some r \<Longrightarrow> in_int4 (r_replay_count r + 1) \<Longrightarrow>
      \<exists>p'. pg_increment P p t h = Inr (1, p') \<and> pg_inv p' \<and> pg_fault P p' = pg_fault P p \<and>
        rows p' = (rows p)((t, h) \<mapsto> r\<lparr>r_replay_count := r_replay_count r + 1\<rparr>)"
    and increment_none: "pg_inv p \<Longrightarrow> pg_text t \<Longrightarrow> pg_text h \<Longrightarrow> rows p (t, h) = None \<Longrightarrow>
      pg_increment P p t h = Inr (0, p)"
    and delete_expired: "pg_inv p \<Longrightarrow>
      \<exists>n p'. pg_delete_expired P p now_us = (n, p') \<and> pg_inv p' \<and> pg_fault P p' = pg_fault P p \<and>
        n = card {th. \<exists>r. rows p th = Some r \<and> row_lapsed now_us r} \<and>
        rows p' = (\<lambda>th. case rows p th of None \<Rightarrow> None | Some r \<Rightarrow> if row_lapsed now_us r then None else Some r)"

section \<open>The adapter\<close>

definition micros :: "time \<Rightarrow> int" where
  "micros t = t div 1000"

definition Milliseconds :: "duration \<Rightarrow> int" where
  "Milliseconds d = go_div d 1000000"

definition to_row :: "Entry \<Rightarrow> pg_row" where
  "to_row e = \<lparr>r_request = Request e, r_response = Response e, r_status_code = StatusCode e,
     r_created_at = micros (CreatedAt e), r_ttl_ms = Milliseconds (TTL e),
     r_replay_count = ReplayCount e, r_embedding = encodeEmbedding (Embedding e)\<rparr>"

definition of_row :: "bytes \<Rightarrow> bytes \<Rightarrow> pg_row \<Rightarrow> Entry" where
  "of_row tool hash r = \<lparr>Tool = tool, Hash = hash, Request = r_request r, Response = r_response r,
     StatusCode = r_status_code r, CreatedAt = r_created_at r * 1000, ReplayCount = r_replay_count r,
     TTL = int64_wrap (r_ttl_ms r * Millisecond), Embedding = decodeEmbedding (r_embedding r)\<rparr>"

definition pg_Get :: "'p pg_ops \<Rightarrow> bool \<Rightarrow> 'p \<Rightarrow> ctx \<Rightarrow> time \<Rightarrow> bytes \<Rightarrow> bytes \<Rightarrow> Entry result \<times> 'p" where
  "pg_Get P async p ctx now tool hash =
     (case ctx of
        Some err \<Rightarrow> (Inl err, p)
      | None \<Rightarrow>
          (case pg_fault P p of
             Some err \<Rightarrow> (Inl (Wrapped ''postgres: get'' err), p)
           | None \<Rightarrow>
               (case pg_select P p tool hash of
                  None \<Rightarrow> (Inl ErrNotFound, p)
                | Some r \<Rightarrow>
                    let e = of_row tool hash r in
                    if Expired e now
                    then (Inl ErrNotFound, if async then snd (pg_delete P p tool hash) else p)
                    else (Inr e, p))))"

definition pg_Put :: "'p pg_ops \<Rightarrow> 'p \<Rightarrow> ctx \<Rightarrow> time \<Rightarrow> Entry \<Rightarrow> unit result \<times> 'p" where
  "pg_Put P p ctx now e =
     (case ctx of
        Some err \<Rightarrow> (Inl err, p)
      | None \<Rightarrow>
          if Tool e = '''' \<or> Hash e = '''' then (Inl ErrRequired, p)
          else let e' = (if IsZero (CreatedAt e) then e\<lparr>CreatedAt := now\<rparr> else e);
                   res = (case pg_fault P p of Some err \<Rightarrow> Inl err | None \<Rightarrow> pg_upsert P p (Tool e') (Hash e') (to_row e'))
               in (case res of
                     Inl err \<Rightarrow> (Inl (Wrapped ''postgres: put'' err), p)
                   | Inr p' \<Rightarrow> (Inr (), p')))"

definition pg_Delete :: "'p pg_ops \<Rightarrow> 'p \<Rightarrow> ctx \<Rightarrow> bytes \<Rightarrow> bytes \<Rightarrow> unit result \<times> 'p" where
  "pg_Delete P p ctx tool hash =
     (case ctx of
        Some err \<Rightarrow> (Inl err, p)
      | None \<Rightarrow>
          (case pg_fault P p of
             Some err \<Rightarrow> (Inl (Wrapped ''postgres: delete'' err), p)
           | None \<Rightarrow>
               let (affected, p') = pg_delete P p tool hash
               in if affected = 0 then (Inl ErrNotFound, p') else (Inr (), p')))"

fun pg_scan_loop :: "time \<Rightarrow> bytes \<Rightarrow> (bytes \<times> pg_row) list \<Rightarrow> Entry list" where
  "pg_scan_loop now tool [] = []"
| "pg_scan_loop now tool ((hash, r) # rest) =
     (let e = of_row tool hash r in
      if Expired e now then pg_scan_loop now tool rest else e # pg_scan_loop now tool rest)"

definition pg_Scan :: "'p pg_ops \<Rightarrow> 'p \<Rightarrow> ctx \<Rightarrow> time \<Rightarrow> bytes list \<Rightarrow> bytes \<Rightarrow> Entry list result" where
  "pg_Scan P p ctx now order tool =
     (case ctx of
        Some err \<Rightarrow> Inl err
      | None \<Rightarrow>
          (case pg_fault P p of
             Some err \<Rightarrow> Inl (Wrapped ''postgres: scan'' err)
           | None \<Rightarrow> Inr (pg_scan_loop now tool (pg_select_tool P p tool))))"

definition pg_IncrementReplay :: "'p pg_ops \<Rightarrow> 'p \<Rightarrow> ctx \<Rightarrow> bytes \<Rightarrow> bytes \<Rightarrow> unit result \<times> 'p" where
  "pg_IncrementReplay P p ctx tool hash =
     (case ctx of
        Some err \<Rightarrow> (Inl err, p)
      | None \<Rightarrow>
          let res = (case pg_fault P p of Some err \<Rightarrow> Inl err | None \<Rightarrow> pg_increment P p tool hash)
          in (case res of
                Inl err \<Rightarrow> (Inl (Wrapped ''postgres: increment_replay'' err), p)
              | Inr (affected, p') \<Rightarrow> if affected = 0 then (Inl ErrNotFound, p') else (Inr (), p')))"

definition pg_Compact :: "'p pg_ops \<Rightarrow> 'p \<Rightarrow> ctx \<Rightarrow> time \<Rightarrow> nat result \<times> 'p" where
  "pg_Compact P p ctx now =
     (case ctx of
        Some err \<Rightarrow> (Inl err, p)
      | None \<Rightarrow>
          (case pg_fault P p of
             Some err \<Rightarrow> (Inl (Wrapped ''postgres: compact'' err), p)
           | None \<Rightarrow> let (n, p') = pg_delete_expired P p (micros now) in (Inr n, p')))"

definition Postgres_ops :: "'p pg_ops \<Rightarrow> bool \<Rightarrow> 'p store_ops" where
  "Postgres_ops P async = \<lparr>s_Get = pg_Get P async, s_Put = pg_Put P, s_IncrementReplay = pg_IncrementReplay P,
     s_Scan = pg_Scan P, s_Delete = pg_Delete P\<rparr>"

section \<open>The loss of precision\<close>

definition pg_norm :: "Entry \<Rightarrow> Entry" where
  "pg_norm e = e\<lparr>CreatedAt := micros (CreatedAt e) * 1000, TTL := Milliseconds (TTL e) * Millisecond\<rparr>"

definition pg_storable :: "Entry \<Rightarrow> bool" where
  "pg_storable e \<longleftrightarrow> in_int64 (TTL e) \<and> in_int4 (StatusCode e) \<and> in_int4 (ReplayCount e)"

lemma Milliseconds_range: "in_int64 d \<Longrightarrow> in_int64 (Milliseconds d * Millisecond)"
proof -
  assume d: "in_int64 d"
  have "x div 1000000 * 1000000 \<le> x" "0 \<le> x \<Longrightarrow> 0 \<le> x div 1000000 * 1000000" for x :: int by auto
  from this [of d] this [of "- d"] show ?thesis using d
    by (auto simp: Milliseconds_def go_div_def int64_defs Millisecond_def)
qed

lemma of_row_to_row: "in_int64 (TTL e) \<Longrightarrow> of_row (Tool e) (Hash e) (to_row e) = pg_norm e"
  by (simp add: of_row_def to_row_def pg_norm_def decode_encodeEmbedding Milliseconds_range)

text \<open>A row that compaction removes held an expired entry.\<close>

lemma lapsed_expired:
  assumes "row_lapsed (micros now) r" "in_int64 (r_ttl_ms r * Millisecond)"
  shows "Expired (of_row t h r) now"
proof -
  let ?ttl = "r_ttl_ms r * 1000000"
  have "r_created_at r + r_ttl_ms r * 1000 < now div 1000" "0 < r_ttl_ms r"
    using assms(1) by (simp_all add: row_lapsed_def micros_def)
  then have "?ttl < now - r_created_at r * 1000" by simp
  moreover have "?ttl \<le> int64_max" "0 < ?ttl" using assms(2) \<open>0 < r_ttl_ms r\<close> by (simp_all add: int64_defs Millisecond_def)
  ultimately have "?ttl < Sub now (r_created_at r * 1000) \<or> ?ttl = int64_max" by (auto simp: Sub_def)
  moreover have "?ttl \<noteq> int64_max"
  proof
    assume "?ttl = int64_max"
    then have "int64_max mod 1000000 = 0" by (metis mod_mult_self2_is_0)
    then show False by (simp add: int64_max_def)
  qed
  ultimately show ?thesis using assms(2) \<open>0 < ?ttl\<close> by (simp add: Expired_def of_row_def Millisecond_def)
qed

section \<open>The adapter satisfies the port\<close>

lemma pg_scan_loop_set:
  "set (pg_scan_loop now t rs) = {e. \<exists>(h, r) \<in> set rs. e = of_row t h r \<and> \<not> Expired e now}"
  by (induction now t rs rule: pg_scan_loop.induct) (auto simp: Let_def)

context pg_engine
begin

definition pg_okkey :: "bytes \<Rightarrow> bytes \<Rightarrow> bool" where
  "pg_okkey t h \<longleftrightarrow> pg_text t \<and> pg_text h"

definition pg_view :: "'p \<Rightarrow> bytes \<times> bytes \<Rightarrow> Entry option" where
  "pg_view p th = map_option (of_row (fst th) (snd th)) (rows p th)"

lemma pg_view_upd: "rows p' = (rows p)((t, h) := r) \<Longrightarrow>
    pg_view p' = (pg_view p)((t, h) := map_option (of_row t h) r)"
  by (auto simp: pg_view_def)

end

lemmas pg_defs = Postgres_ops_def pg_Get_def pg_Put_def pg_Delete_def pg_IncrementReplay_def pg_Scan_def

sublocale pg_engine \<subseteq> pg: store_port "Postgres_ops P async" pg_inv "\<lambda>p. pg_fault P p = None"
  pg_view pg_norm pg_okkey pg_storable "\<lambda>_ _. True" for async
proof (unfold_locales, goal_cases)
  case (6 s t h e now)
  then show ?case by (auto simp: pg_defs sel pg_okkey_def pg_view_def)
next
  case (7 s t h now)
  then show ?case by (auto simp: pg_defs sel pg_okkey_def pg_view_def)
next
  case (8 s t h e now)
  then obtain r where r: "rows s (t, h) = Some r" "e = of_row t h r" by (auto simp: pg_view_def)
  obtain p' where "pg_delete P s t h = (1, p')" "pg_inv p'" "pg_fault P p' = None" "rows p' = (rows s)((t, h) := None)"
    using del [of s t h] 8 r by (auto simp: pg_okkey_def)
  then show ?case using 8 r by (cases async) (auto simp: pg_defs sel pg_okkey_def pg_view_upd)
next
  case (10 s e now)
  then have "pg_text (Tool e)" "pg_text (Hash e)" "in_int4 (StatusCode e)" "in_int4 (ReplayCount e)" "in_int64 (TTL e)"
    by (simp_all add: pg_okkey_def pg_storable_def)
  moreover obtain p' where p': "pg_upsert P s (Tool e) (Hash e) (to_row (stamp now e)) = Inr p'" "pg_inv p'"
      "pg_fault P p' = None" "rows p' = (rows s)((Tool e, Hash e) \<mapsto> to_row (stamp now e))"
    using upsert [of s "Tool e" "Hash e" "to_row (stamp now e)"] 10 calculation by (auto simp: to_row_def)
  ultimately show ?case
    using 10 of_row_to_row [of "stamp now e"] by (auto simp: pg_defs Let_def pg_view_upd simp flip: stamp_def)
next
  case (11 s t h e)
  then obtain r where r: "rows s (t, h) = Some r" "e = of_row t h r" by (auto simp: pg_view_def)
  then have "in_int4 (r_replay_count r + 1)" using 11 by (simp add: of_row_def in_int4_def)
  then obtain p' where "pg_increment P s t h = Inr (1, p')" "pg_inv p'" "pg_fault P p' = None"
      "rows p' = (rows s)((t, h) \<mapsto> r\<lparr>r_replay_count := r_replay_count r + 1\<rparr>)"
    using increment [of s t h r] 11 r by (auto simp: pg_okkey_def)
  with 11 r show ?case by (auto simp: pg_defs pg_view_upd of_row_def)
next
  case (12 s t h)
  then show ?case by (auto simp: pg_defs pg_okkey_def pg_view_def increment_none)
next
  case (13 s t h)
  then obtain r where r: "rows s (t, h) = Some r" by (auto simp: pg_view_def)
  obtain p' where p': "pg_delete P s t h = (1, p')" "pg_inv p'" "pg_fault P p' = None" "rows p' = (rows s)((t, h) := None)"
    using del [of s t h] 13 r by (auto simp: pg_okkey_def)
  with 13 pg_view_upd [OF p'(4)] show ?case by (simp add: pg_defs)
next
  case (14 s t h)
  then have n: "rows s (t, h) = None" by (simp add: pg_view_def)
  with 14 del [of s t h] have "pg_delete P s t h = (0, s)" by (auto simp: pg_okkey_def)
  with 14 n show ?case by (simp add: pg_defs)
next
  case (15 s t ord now)
  then have "set (pg_select_tool P s t) = {(h, r). rows s (t, h) = Some r}"
    using sel_tool [of s t] by (auto simp: pg_okkey_def)
  then have "set (pg_scan_loop now t (pg_select_tool P s t)) =
      {e. \<exists>h. pg_view s (t, h) = Some e \<and> \<not> Expired e now}"
    unfolding pg_scan_loop_set by (auto simp: pg_view_def)
  with 15 show ?case by (simp add: pg_defs)
qed (auto simp: pg_defs pg_norm_def)

text \<open>The contract as a fact about any lawful engine.\<close>

context pg_engine
begin

lemmas pg_port = pg.store_port_axioms

end

end
