(* ===== verification/Strconv.thy ===== *)
theory Strconv
  imports Go_Strings
begin

text \<open>
  What the repository uses of \<open>strconv\<close> and of \<open>time.ParseDuration\<close>. Integers are written out in
  full. The conversions from decimal text to \<open>float64\<close>, and the one place where \<open>ParseDuration\<close>
  goes through \<open>float64\<close> (the digits after a point), are the fields of \<open>strconv\<close>.
\<close>

record strconv =
  ParseFloat :: "bytes \<Rightarrow> flt option"           \<comment> \<open>\<open>strconv.ParseFloat(s, 64)\<close>\<close>
  frac_ns :: "bytes \<Rightarrow> nat \<Rightarrow> nat"             \<comment> \<open>fraction digits and unit, in nanoseconds\<close>

section \<open>Decimal integers\<close>

definition is_digit :: "char \<Rightarrow> bool" where
  "is_digit c \<longleftrightarrow> 48 \<le> (of_char c :: nat) \<and> (of_char c :: nat) \<le> 57"

definition digits_val :: "bytes \<Rightarrow> nat" where
  "digits_val ds = foldl (\<lambda>n c. 10 * n + (of_char c - 48)) 0 ds"

fun nat_digits :: "nat \<Rightarrow> bytes" where
  "nat_digits n =
     (if n < 10 then [char_of (48 + n)] else nat_digits (n div 10) @ [char_of (48 + n mod 10)])"

declare nat_digits.simps [simp del]

definition Itoa :: "int \<Rightarrow> bytes" where
  "Itoa n = (if n < 0 then CHR ''-'' # nat_digits (nat (- n)) else nat_digits (nat n))"

definition Atoi :: "bytes \<Rightarrow> int result" where
  "Atoi s =
     (let neg = (s \<noteq> [] \<and> hd s = CHR ''-'');
          ds = (if s \<noteq> [] \<and> (hd s = CHR ''-'' \<or> hd s = CHR ''+'') then tl s else s);
          n = (if neg then - int (digits_val ds) else int (digits_val ds))
      in if ds = [] \<or> \<not> list_all is_digit ds then Inl (ErrMsg ''invalid syntax'')
         else if in_int64 n then Inr n
         else Inl (ErrMsg ''value out of range''))"

lemma digits_val_snoc [simp]: "digits_val (ds @ [c]) = 10 * digits_val ds + (of_char c - 48)"
  by (simp add: digits_val_def)

lemma digit_char [simp]: "n < 10 \<Longrightarrow> is_digit (char_of (48 + n))" "n < 10 \<Longrightarrow> of_char (char_of (48 + n)) = 48 + (n :: nat)"
  by (simp_all add: is_digit_def)

lemma nat_digits_props:
  "list_all is_digit (nat_digits n) \<and> nat_digits n \<noteq> [] \<and> digits_val (nat_digits n) = n"
proof (induction n rule: nat_digits.induct)
  case (1 n)
  show ?case
  proof (cases "n < 10")
    case True
    then show ?thesis by (simp add: nat_digits.simps [of n] digits_val_def del: char_of_nat)
  next
    case False
    then have n: "nat_digits n = nat_digits (n div 10) @ [char_of (48 + n mod 10)]"
      by (simp add: nat_digits.simps [of n])
    have "n mod 10 < 10" by simp
    then have "digits_val (nat_digits n) = 10 * (n div 10) + n mod 10"
      unfolding n digits_val_snoc using 1 [OF False] by simp
    then show ?thesis using 1 [OF False] n by simp
  qed
qed

lemmas nat_digits_val [simp] = nat_digits_props [THEN conjunct2, THEN conjunct2]

lemma nat_digits_Cons: obtains c t where "nat_digits n = c # t" "is_digit c"
  using nat_digits_props [of n] by (cases "nat_digits n") auto

lemma Atoi_Itoa: "in_int64 n \<Longrightarrow> Atoi (Itoa n) = Inr n"
proof -
  assume n: "in_int64 n"
  obtain c t where c: "nat_digits (nat n) = c # t" "is_digit c" by (rule nat_digits_Cons)
  then have "c \<noteq> CHR ''-''" "c \<noteq> CHR ''+''" by (auto simp: is_digit_def)
  with c n show ?thesis
    using nat_digits_props [of "nat n"] nat_digits_props [of "nat (- n)"]
    by (auto simp: Atoi_def Itoa_def Let_def)
qed

lemma Atoi_range: "Atoi s = Inr n \<Longrightarrow> in_int64 n"
  by (auto simp: Atoi_def Let_def split: if_splits)

section \<open>Durations\<close>

definition unitMap :: "bytes \<Rightarrow> nat option" where
  "unitMap u =
     (if u = ''ns'' then Some 1
      else if u = ''us'' \<or> u = [CHR 0xC2, CHR 0xB5, CHR ''s''] \<or> u = [CHR 0xCE, CHR 0xBC, CHR ''s''] then Some 1000
      else if u = ''ms'' then Some 1000000
      else if u = ''s'' then Some 1000000000
      else if u = ''m'' then Some 60000000000
      else if u = ''h'' then Some 3600000000000
      else None)"

definition dur_char :: "char \<Rightarrow> bool" where
  "dur_char c \<longleftrightarrow> c = CHR ''.'' \<or> is_digit c"

text \<open>One group of a number and a unit: its value in nanoseconds and the rest.\<close>

definition dur_group :: "strconv \<Rightarrow> bytes \<Rightarrow> (nat \<times> bytes) option" where
  "dur_group C s =
     (let ds = takeWhile is_digit s; s1 = dropWhile is_digit s;
          point = (s1 \<noteq> [] \<and> hd s1 = CHR ''.'');
          fs = (if point then takeWhile is_digit (tl s1) else []);
          s2 = (if point then dropWhile is_digit (tl s1) else s1);
          u = takeWhile (\<lambda>c. \<not> dur_char c) s2; s3 = dropWhile (\<lambda>c. \<not> dur_char c) s2
      in if 2 ^ 63 < digits_val ds \<or> ds = [] \<and> fs = [] then None
         else case unitMap u of None \<Rightarrow> None
         | Some unit \<Rightarrow>
             let v = digits_val ds * unit + (if digits_val fs > 0 then frac_ns C fs unit else 0)
             in if 2 ^ 63 div unit < digits_val ds \<or> 2 ^ 63 < v then None else Some (v, s3))"

lemma unitMap_Nil [simp]: "unitMap [] = None"
  by (simp add: unitMap_def)

lemma dur_group_shorter: "dur_group C s = Some (v, r) \<Longrightarrow> length r < length s"
proof -
  assume g: "dur_group C s = Some (v, r)"
  define s1 where "s1 = dropWhile is_digit s"
  define s2 where "s2 = (if s1 \<noteq> [] \<and> hd s1 = CHR ''.'' then dropWhile is_digit (tl s1) else s1)"
  have "takeWhile (\<lambda>c. \<not> dur_char c) s2 \<noteq> []" and r: "r = dropWhile (\<lambda>c. \<not> dur_char c) s2"
    using g by (auto simp: dur_group_def Let_def s2_def s1_def split: option.splits if_splits)
  then have "length r < length s2"
    by (metis append_Nil length_dropWhile_le le_neq_implies_less takeWhile_dropWhile_id length_append
        add_cancel_left_left length_0_conv)
  moreover have "length s2 \<le> length (tl s1) \<or> s2 = s1"
    using length_dropWhile_le [of is_digit "tl s1"] by (auto simp: s2_def)
  moreover have "length s1 \<le> length s" by (simp add: s1_def length_dropWhile_le)
  ultimately show ?thesis by auto
qed

function dur_loop :: "strconv \<Rightarrow> nat \<Rightarrow> bytes \<Rightarrow> nat option" where
  "dur_loop C d s =
     (if s = [] then Some d
      else case dur_group C s of None \<Rightarrow> None
      | Some (v, r) \<Rightarrow>
          if 2 ^ 63 < (d + v) mod 2 ^ 64 then None else dur_loop C ((d + v) mod 2 ^ 64) r)"
  by pat_completeness auto
termination
  by (relation "measure (\<lambda>(_, _, s). length s)") (auto dest: dur_group_shorter)

declare dur_loop.simps [simp del]

definition ParseDuration :: "strconv \<Rightarrow> bytes \<Rightarrow> duration result" where
  "ParseDuration C s =
     (let neg = (s \<noteq> [] \<and> hd s = CHR ''-'');
          t = (if s \<noteq> [] \<and> (hd s = CHR ''-'' \<or> hd s = CHR ''+'') then tl s else s)
      in if t = ''0'' then Inr 0
         else if t = [] then Inl (ErrMsg ''time: invalid duration'')
         else case dur_loop C 0 t of
                None \<Rightarrow> Inl (ErrMsg ''time: invalid duration'')
              | Some d \<Rightarrow>
                  if neg then Inr (- int d)
                  else if int64_max < int d then Inl (ErrMsg ''time: invalid duration'')
                  else Inr (int d))"

lemma dur_loop_bound: "dur_loop C d s = Some d' \<Longrightarrow> d \<le> 2 ^ 63 \<Longrightarrow> d' \<le> 2 ^ 63"
proof (induction C d s rule: dur_loop.induct)
  case (1 C d s)
  then show ?case
    by (subst (asm) (2) dur_loop.simps) (auto split: if_splits option.splits)
qed

lemma ParseDuration_range: "ParseDuration C s = Inr d \<Longrightarrow> in_int64 d"
  by (auto simp: ParseDuration_def Let_def int64_defs dest: dur_loop_bound split: if_splits option.splits)

end
