(* ===== verification/Store_Engines.thy ===== *)
theory Store_Engines
  imports Store_Bolt Store_Postgres Strconv "HOL-Library.AList"
begin

text \<open>
  Executable engines that satisfy the laws the two database adapters rely on: a bucket as a sorted
  association list with an entry codec of length-prefixed fields, and a table as an association
  list from primary keys to rows. They show that the laws can hold together, and give the concrete
  instances on which the properties of the adapters are evaluated.
\<close>

section \<open>A bucket\<close>

type_synonym bucket = "(bytes \<times> bytes) list"

fun bucket_insert :: "bytes \<Rightarrow> bytes \<Rightarrow> bucket \<Rightarrow> bucket" where
  "bucket_insert k v [] = [(k, v)]"
| "bucket_insert k v ((k', v') # b) =
     (if k < k' then (k, v) # (k', v') # b
      else if k = k' then (k, v) # b
      else (k', v') # bucket_insert k v b)"

definition bucket_kv :: "bucket kv_ops" where
  "bucket_kv = \<lparr>kv_get = map_of,
     kv_put = (\<lambda>b k v. if k = [] \<or> MaxKeySize < length k then Inl (ErrMsg ''key'') else Inr (bucket_insert k v b)),
     kv_delete = (\<lambda>b k. filter (\<lambda>(k', v). k' \<noteq> k) b), kv_items = (\<lambda>b. b), kv_fault = (\<lambda>_. None)\<rparr>"

definition bucket_inv :: "bucket \<Rightarrow> bool" where
  "bucket_inv b \<longleftrightarrow> sorted_wrt (<) (map fst b)"

lemma bucket_insert_keys: "fst ` set (bucket_insert k v b) = insert k (fst ` set b)"
  by (induction k v b rule: bucket_insert.induct) auto

lemma bucket_insert_inv: "bucket_inv b \<Longrightarrow> bucket_inv (bucket_insert k v b)"
proof (induction b)
  case (Cons kv b)
  obtain k' v' where kv: "kv = (k', v')" by (cases kv)
  have "\<forall>x \<in> fst ` set (bucket_insert k v b). k' < x" if "k' < k"
    using Cons.prems kv that by (auto simp: bucket_insert_keys bucket_inv_def)
  with Cons kv show ?case
    by (auto simp: bucket_inv_def not_less less_le intro: less_trans order.trans)
qed (simp add: bucket_inv_def)

lemma map_of_bucket_insert:
  "bucket_inv b \<Longrightarrow> map_of (bucket_insert k v b) = (map_of b)(k \<mapsto> v)"
  by (induction k v b rule: bucket_insert.induct) (auto simp: bucket_inv_def fun_upd_twist)

lemma map_of_filter_neq: "map_of (filter (\<lambda>(k', v). k' \<noteq> k) b) = (map_of b)(k := None)"
  by (induction b) auto

lemma bucket_filter_inv: "bucket_inv b \<Longrightarrow> bucket_inv (filter P b)"
  by (induction b) (auto simp: bucket_inv_def)

section \<open>A codec\<close>

fun encode_fields :: "bytes list \<Rightarrow> bytes" where
  "encode_fields [] = []"
| "encode_fields (x # xs) = nat_digits (length x) @ CHR '':'' # x @ encode_fields xs"

fun decode_fields :: "nat \<Rightarrow> bytes \<Rightarrow> bytes list" where
  "decode_fields 0 s = []"
| "decode_fields (Suc n) s =
     (let l = digits_val (takeWhile is_digit s); t = tl (dropWhile is_digit s)
      in take l t # decode_fields n (drop l t))"

definition dec_int :: "bytes \<Rightarrow> int" where
  "dec_int s = (if s \<noteq> [] \<and> hd s = CHR ''-'' then - int (digits_val (tl s)) else int (digits_val s))"

definition entry_fields :: "Entry \<Rightarrow> bytes list" where
  "entry_fields e = [Tool e, Hash e, Request e, Response e, Itoa (StatusCode e), Itoa (CreatedAt e),
     Itoa (ReplayCount e), Itoa (TTL e), encodeEmbedding (Embedding e)]"

definition field_codec :: entry_codec where
  "field_codec = \<lparr>marshal_entry = (\<lambda>e. Inr (encode_fields (entry_fields e))),
     unmarshal_entry = (\<lambda>v. case decode_fields 9 v of
        [t, h, rq, rs, sc, ca, rc, td, em] \<Rightarrow>
          Inr \<lparr>Tool = t, Hash = h, Request = rq, Response = rs, StatusCode = dec_int sc, CreatedAt = dec_int ca,
               ReplayCount = dec_int rc, TTL = dec_int td, Embedding = decodeEmbedding em\<rparr>
      | _ \<Rightarrow> Inl (ErrMsg ''malformed''))\<rparr>"

lemma digits_prefix:
  "list_all is_digit ds \<Longrightarrow> \<not> is_digit c \<Longrightarrow>
     takeWhile is_digit (ds @ c # t) = ds \<and> dropWhile is_digit (ds @ c # t) = c # t"
  by (induction ds) auto

lemma decode_encode_fields: "decode_fields (length xs) (encode_fields xs @ r) = xs"
proof (induction xs)
  case (Cons x xs)
  have "\<not> is_digit (CHR '':'')" by (simp add: is_digit_def)
  with digits_prefix [of "nat_digits (length x)" "CHR '':''"] nat_digits_props [of "length x"] Cons
  show ?case by (simp add: Let_def)
qed simp

lemma dec_int_Itoa [simp]: "dec_int (Itoa n) = n"
proof -
  obtain c t where "nat_digits (nat n) = c # t" "is_digit c" by (rule nat_digits_Cons)
  then have "hd (nat_digits (nat n)) \<noteq> CHR ''-''" by (auto simp: is_digit_def)
  then show ?thesis using nat_digits_props [of "nat n"] by (simp add: dec_int_def Itoa_def)
qed

lemma field_codec_roundtrip:
  "\<exists>v. marshal_entry field_codec e = Inr v \<and> unmarshal_entry field_codec v = Inr e"
proof -
  have "decode_fields 9 (encode_fields (entry_fields e)) = entry_fields e"
  proof -
    have "length (entry_fields e) = 9" by (simp add: entry_fields_def)
    then show ?thesis using decode_encode_fields [of "entry_fields e" "[]"] by simp
  qed
  then show ?thesis
    by (simp add: field_codec_def del: decode_fields.simps) (simp add: entry_fields_def decode_encodeEmbedding)
qed

interpretation bucket: bolt_env bucket_kv bucket_inv field_codec "\<lambda>_. True"
proof (unfold_locales, goal_cases)
  case (3 b k v)
  then show ?case by (auto simp: bucket_kv_def bucket_insert_inv map_of_bucket_insert)
next
  case (4 b k)
  then show ?case by (simp add: bucket_kv_def bucket_filter_inv map_of_filter_neq)
next
  case (5 e)
  show ?case by (rule field_codec_roundtrip)
qed (auto simp: bucket_kv_def bucket_inv_def)

section \<open>A table\<close>

type_synonym table = "((bytes \<times> bytes) \<times> pg_row) list"

definition table_inv :: "table \<Rightarrow> bool" where
  "table_inv p \<longleftrightarrow> distinct (map fst p)"

definition table_pg :: "table pg_ops" where
  "table_pg = \<lparr>pg_fault = (\<lambda>_. None), pg_select = (\<lambda>p t h. map_of p (t, h)),
     pg_upsert = (\<lambda>p t h r. if in_int4 (r_status_code r) \<and> in_int4 (r_replay_count r)
        then Inr (AList.update (t, h) r p) else Inl (ErrMsg ''integer out of range'')),
     pg_delete = (\<lambda>p t h. (if map_of p (t, h) = None then 0 else 1, filter (\<lambda>(th, r). th \<noteq> (t, h)) p)),
     pg_select_tool = (\<lambda>p t. sort_key (\<lambda>(h, r). - r_created_at r)
        (map (\<lambda>((t, h), r). (h, r)) (filter (\<lambda>((t', h), r). t' = t) p))),
     pg_increment = (\<lambda>p t h. case map_of p (t, h) of None \<Rightarrow> Inr (0, p)
        | Some r \<Rightarrow> if in_int4 (r_replay_count r + 1)
            then Inr (1, AList.update (t, h) (r\<lparr>r_replay_count := r_replay_count r + 1\<rparr>) p)
            else Inl (ErrMsg ''integer out of range'')),
     pg_delete_expired = (\<lambda>p now. (length (filter (\<lambda>(th, r). row_lapsed now r) p),
        filter (\<lambda>(th, r). \<not> row_lapsed now r) p))\<rparr>"

lemma filter_absent: "map_of p k = None \<Longrightarrow> filter (\<lambda>(k', r). k' \<noteq> k) p = p"
  by (induction p) (auto split: if_splits)

lemma table_filter: "distinct (map fst p) \<Longrightarrow> distinct (map fst (filter P p))"
  by (induction p) auto

lemma map_of_filter_snd:
  "distinct (map fst p) \<Longrightarrow>
     map_of (filter (\<lambda>(th, r). Q r) p) th = (case map_of p th of None \<Rightarrow> None | Some r \<Rightarrow> if Q r then Some r else None)"
proof (induction p)
  case (Cons x p)
  have "map_of p (fst x) = None" using Cons.prems by (auto simp: map_of_eq_None_iff)
  with Cons show ?case by (cases x) (auto split: option.splits)
qed simp

lemma count_filter:
  assumes "distinct (map fst p)"
  shows "length (filter (\<lambda>(th, r). Q r) p) = card {th. \<exists>r. map_of p th = Some r \<and> Q r}"
proof -
  have "{th. \<exists>r. map_of p th = Some r \<and> Q r} = fst ` set (filter (\<lambda>(th, r). Q r) p)"
    using map_of_eq_Some_mem [OF assms] by (auto simp: image_iff) 
  then show ?thesis
    using table_filter [OF assms, of "\<lambda>(th, r). Q r"] by (metis distinct_card length_map set_map)
qed

lemma sort_key_sorted_wrt: "sorted_wrt (\<lambda>a b. f a \<le> f b) (sort_key f xs)"
  using sorted_sort_key [of f xs] by (simp add: sorted_map)

interpretation table: pg_engine table_pg table_inv map_of nul_free
proof (unfold_locales, goal_cases)
  case (4 p t)
  have "set (pg_select_tool table_pg p t) = {(h, r). map_of p (t, h) = Some r}"
    using 4 map_of_eq_Some_mem [of p] by (force simp: table_pg_def table_inv_def image_iff)
  moreover have "sorted_wrt (\<lambda>a b. r_created_at (snd b) \<le> r_created_at (snd a)) (pg_select_tool table_pg p t)"
    using sort_key_sorted_wrt [of "\<lambda>(h, r). - r_created_at r"] by (simp add: table_pg_def split_def)
  ultimately show ?case by blast
next
  case (7 p now)
  then show ?case
    by (auto simp: table_pg_def table_inv_def table_filter map_of_filter_snd count_filter fun_eq_iff split: option.split)
qed (auto simp: table_pg_def table_inv_def distinct_update update_conv' map_of_filter_neq filter_absent table_filter)

end
