(* ===== verification/Sha256.thy ===== *)
theory Sha256
  imports Go_Base
begin

unbundle bit_operations_syntax

text \<open>
  \<open>crypto/sha256\<close> and \<open>encoding/hex\<close>, which \<open>internal/fingerprint\<close> uses: the digest of FIPS 180-4
  on 32-bit words, and its lower-case hexadecimal text. What the other components need of it: a
  digest has 32 bytes, so its text has 64 characters, all of them hexadecimal digits, and the text
  determines the digest. Collision freedom is no theorem; properties that need it say so.
\<close>

type_synonym w32 = "32 word"

section \<open>The compression function\<close>

definition rotr :: "nat \<Rightarrow> w32 \<Rightarrow> w32" where
  "rotr n x = drop_bit n x OR push_bit (32 - n) x"

definition sigma0 :: "w32 \<Rightarrow> w32" where "sigma0 x = rotr 7 x XOR rotr 18 x XOR drop_bit 3 x"
definition sigma1 :: "w32 \<Rightarrow> w32" where "sigma1 x = rotr 17 x XOR rotr 19 x XOR drop_bit 10 x"
definition Sigma0 :: "w32 \<Rightarrow> w32" where "Sigma0 x = rotr 2 x XOR rotr 13 x XOR rotr 22 x"
definition Sigma1 :: "w32 \<Rightarrow> w32" where "Sigma1 x = rotr 6 x XOR rotr 11 x XOR rotr 25 x"

text \<open>The constants, by their definition in the standard: the first 32 bits of the fractional parts of
  the cube roots of the first 64 primes, and of the square roots of the first 8. \<open>iroot k n\<close> is the
  integer part of the \<open>k\<close>-th root, found bit by bit (40 bits are enough here).\<close>

fun root_bits :: "nat \<Rightarrow> nat \<Rightarrow> nat \<Rightarrow> nat \<Rightarrow> nat" where
  "root_bits k n 0 r = r"
| "root_bits k n (Suc b) r = root_bits k n b (if (r + 2 ^ b) ^ k \<le> n then r + 2 ^ b else r)"

definition iroot :: "nat \<Rightarrow> nat \<Rightarrow> nat" where
  "iroot k n = root_bits k n 40 0"

definition primes64 :: "nat list" where
  "primes64 = filter (\<lambda>p. list_all (\<lambda>d. p mod d \<noteq> 0) [2..<p]) [2..<312]"

definition sha_K :: "w32 list" where
  "sha_K = map (\<lambda>p. of_nat (iroot 3 (p * 2 ^ 96))) primes64"

definition sha_init :: "w32 list" where
  "sha_init = map (\<lambda>p. of_nat (iroot 2 (p * 2 ^ 64))) [2, 3, 5, 7, 11, 13, 17, 19]"

text \<open>The message schedule, most recent word first.\<close>

fun schedule :: "nat \<Rightarrow> w32 list \<Rightarrow> w32 list" where
  "schedule 0 ws = ws"
| "schedule (Suc n) ws =
     schedule n ((sigma1 (ws ! 1) + ws ! 6 + sigma0 (ws ! 14) + ws ! 15) # ws)"

fun sha_round :: "w32 list \<Rightarrow> w32 \<times> w32 \<Rightarrow> w32 list" where
  "sha_round [a, b, c, d, e, f, g, h] (k, w) =
     (let t1 = h + Sigma1 e + ((e AND f) XOR (NOT e AND g)) + k + w;
          t2 = Sigma0 a + ((a AND b) XOR (a AND c) XOR (b AND c))
      in [t1 + t2, a, b, c, d + t1, e, f, g])"
| "sha_round st _ = st"

definition sha_block :: "w32 list \<Rightarrow> w32 list \<Rightarrow> w32 list" where
  "sha_block st ws = map2 (+) st (foldl sha_round st (zip sha_K (rev (schedule 48 (rev ws)))))"

section \<open>Padding and the digest\<close>

definition be_bytes :: "nat \<Rightarrow> nat \<Rightarrow> bytes" where
  "be_bytes n x = map (\<lambda>i. char_of (x div 256 ^ i)) (rev [0..<n])"

definition sha_pad :: "bytes \<Rightarrow> bytes" where
  "sha_pad m = m @ CHR 0x80 # replicate ((119 - length m mod 64) mod 64) (CHR 0x00) @ be_bytes 8 (8 * length m)"

fun be_words :: "bytes \<Rightarrow> w32 list" where
  "be_words (a # b # c # d # t) =
     (of_char a * 0x1000000 + of_char b * 0x10000 + of_char c * 0x100 + of_char d) # be_words t"
| "be_words _ = []"

fun sha_blocks :: "w32 list \<Rightarrow> nat \<Rightarrow> w32 list \<Rightarrow> w32 list" where
  "sha_blocks st 0 ws = st"
| "sha_blocks st (Suc n) ws = sha_blocks (sha_block st (take 16 ws)) n (drop 16 ws)"

definition Sum256 :: "bytes \<Rightarrow> bytes" where
  "Sum256 m =
     (let p = sha_pad m
      in concat (map (\<lambda>w. be_bytes 4 (unat w)) (sha_blocks sha_init (length p div 64) (be_words p))))"

section \<open>Hexadecimal text\<close>

definition hex_digit :: "nat \<Rightarrow> char" where
  "hex_digit n = ''0123456789abcdef'' ! (n mod 16)"

definition EncodeToString :: "bytes \<Rightarrow> bytes" where
  "EncodeToString b = concat (map (\<lambda>c. [hex_digit (of_char c div 16), hex_digit (of_char c)]) b)"

definition is_hex :: "char \<Rightarrow> bool" where
  "is_hex c \<longleftrightarrow> c \<in> set ''0123456789abcdef''"

section \<open>The shape of a digest\<close>

lemma length_be_bytes [simp]: "length (be_bytes n x) = n"
  by (simp add: be_bytes_def)

lemma length_sha_round: "length (sha_round st kw) = length st"
  by (induction st kw rule: sha_round.induct) (auto simp: Let_def)

lemma length_foldl_round: "length (foldl sha_round st kws) = length st"
  by (induction kws arbitrary: st) (auto simp: length_sha_round)

lemma length_sha_blocks: "length (sha_blocks st n ws) = length st"
  by (induction st n ws rule: sha_blocks.induct) (auto simp: sha_block_def length_foldl_round)

lemma length_concat_const: "(\<And>x. x \<in> set xs \<Longrightarrow> length (f x) = n) \<Longrightarrow> length (concat (map f xs)) = n * length xs"
  by (induction xs) auto

lemma length_Sum256 [simp]: "length (Sum256 m) = 32"
  by (simp add: Sum256_def Let_def length_concat_const length_sha_blocks sha_init_def)

lemma length_EncodeToString [simp]: "length (EncodeToString b) = 2 * length b"
  by (simp add: EncodeToString_def length_concat_const)

lemma hex_digit_is_hex [simp]: "is_hex (hex_digit n)"
proof -
  have "n mod 16 < length ''0123456789abcdef''" by simp
  then show ?thesis unfolding is_hex_def hex_digit_def by (rule nth_mem)
qed

lemma EncodeToString_hex: "c \<in> set (EncodeToString b) \<Longrightarrow> is_hex c"
  by (auto simp: EncodeToString_def)

lemma hex_digit_inject [simp]: "hex_digit m = hex_digit n \<longleftrightarrow> m mod 16 = n mod 16"
proof -
  have "\<forall>i \<in> set [0..<16]. \<forall>j \<in> set [0..<16]. ''0123456789abcdef'' ! i = ''0123456789abcdef'' ! j \<longrightarrow> i = j"
    by code_simp
  then show ?thesis by (auto simp: hex_digit_def)
qed

lemma char_nibbles:
  "of_char c div 16 mod 16 = (of_char d :: nat) div 16 mod 16 \<Longrightarrow> of_char c mod 16 = (of_char d :: nat) mod 16 \<Longrightarrow> c = d"
proof -
  assume a: "of_char c div 16 mod 16 = (of_char d :: nat) div 16 mod 16" "of_char c mod 16 = (of_char d :: nat) mod 16"
  have "n div 16 mod 16 = n div 16" if "n < 256" for n :: nat using that by simp
  from this [OF nat_of_char_less_256] have "of_char x div 16 mod 16 = (of_char x :: nat) div 16" for x .
  with a have "(of_char c :: nat) = of_char d" by (metis div_mod_decomp)
  then show "c = d" by simp
qed

lemma EncodeToString_inject [simp]: "EncodeToString a = EncodeToString b \<longleftrightarrow> a = b"
proof (induction a arbitrary: b)
  case Nil
  then show ?case by (cases b) (auto simp: EncodeToString_def)
next
  case (Cons c a)
  then show ?case by (cases b) (auto simp: EncodeToString_def dest: char_nibbles)
qed

end
