(* ===== verification/Json.thy ===== *)
theory Json
  imports Strconv Sha256 "HOL-Library.AList"
begin

text \<open>
  What the repository uses of \<open>encoding/json\<close>: the generic value (\<open>any\<close> after \<open>Unmarshal\<close>), the
  decoder and the encoder. A number is the bit pattern of the \<open>float64\<close> it decodes to; the
  conversions between decimal text and \<open>float64\<close> (\<open>strconv\<close>) are the fields of \<open>json_num\<close>. An
  object is an association list without duplicate keys, whose order has no meaning (a Go map).
\<close>

datatype json =
    JNull
  | JBool bool
  | JNum f64
  | JStr bytes
  | JArr "json list"
  | JObj "(bytes \<times> json) list"

record json_num =
  parse_num :: "bytes \<Rightarrow> f64 option"   \<comment> \<open>\<open>strconv.ParseFloat(lit, 64)\<close>, \<open>None\<close> for a range error\<close>
  marshal_num :: "f64 \<Rightarrow> bytes"        \<comment> \<open>how \<open>json.Marshal\<close> writes a finite \<open>float64\<close>\<close>
  format_g :: "f64 \<Rightarrow> bytes"           \<comment> \<open>\<open>strconv.FormatFloat(x, 'g', -1, 64)\<close>\<close>

section \<open>Encoding\<close>

definition bs :: char where "bs = CHR 0x5C"
definition dq :: char where "dq = CHR 0x22"

definition u_escape :: "nat \<Rightarrow> bytes" where
  "u_escape n = [bs, CHR ''u'', hex_digit (n div 4096), hex_digit (n div 256), hex_digit (n div 16), hex_digit n]"

text \<open>One byte below 0x80, with the HTML escaping that \<open>json.Marshal\<close> applies by default.\<close>

definition escape_ascii :: "char \<Rightarrow> bytes" where
  "escape_ascii c =
     (if c = dq \<or> c = bs then [bs, c]
      else if c = CHR 0x08 then [bs, CHR ''b'']
      else if c = CHR 0x0C then [bs, CHR ''f'']
      else if c = CHR 0x0A then [bs, CHR ''n'']
      else if c = CHR 0x0D then [bs, CHR ''r'']
      else if c = CHR 0x09 then [bs, CHR ''t'']
      else if of_char c < (32::nat) \<or> c = CHR ''<'' \<or> c = CHR ''>'' \<or> c = CHR ''&''
           then u_escape (of_char c)
      else [c])"

function escape_string :: "bytes \<Rightarrow> bytes" where
  "escape_string s =
     (if s = [] then []
      else if of_char (hd s) < (128::nat) then escape_ascii (hd s) @ escape_string (tl s)
      else
        (if decode_rune s = (RuneError, 1) then u_escape RuneError
         else if fst (decode_rune s) \<in> {0x2028, 0x2029} then u_escape (fst (decode_rune s))
         else take (snd (decode_rune s)) s)
        @ escape_string (drop (snd (decode_rune s)) s))"
  by pat_completeness auto
termination
  by (relation "measure length") auto

declare escape_string.simps [simp del]

definition marshal_string :: "bytes \<Rightarrow> bytes" where
  "marshal_string s = dq # escape_string s @ [dq]"

definition marshal_bool :: "bool \<Rightarrow> bytes" where
  "marshal_bool b = (if b then ''true'' else ''false'')"

text \<open>\<open>json.Marshal\<close> on generic values: object keys come out sorted. The only error is a number
  that is not finite.\<close>

fun json_marshal :: "json_num \<Rightarrow> json \<Rightarrow> bytes result"
and marshal_list :: "json_num \<Rightarrow> json list \<Rightarrow> bytes list result"
and marshal_members :: "json_num \<Rightarrow> (bytes \<times> json) list \<Rightarrow> (bytes \<times> bytes) list result" where
  "json_marshal N JNull = Inr ''null''"
| "json_marshal N (JBool b) = Inr (marshal_bool b)"
| "json_marshal N (JNum w) =
     (if f64_finite w then Inr (marshal_num N w) else Inl (ErrMsg ''json: unsupported value''))"
| "json_marshal N (JStr s) = Inr (marshal_string s)"
| "json_marshal N (JArr vs) =
     (case marshal_list N vs of Inl e \<Rightarrow> Inl e
      | Inr cs \<Rightarrow> Inr (CHR ''['' # Join '','' cs @ '']''))"
| "json_marshal N (JObj kvs) =
     (case marshal_members N kvs of Inl e \<Rightarrow> Inl e
      | Inr kcs \<Rightarrow> Inr (CHR ''{'' #
          Join '','' (map (\<lambda>(k, c). marshal_string k @ CHR '':'' # c) (sort_key fst kcs)) @ ''}''))"
| "marshal_list N [] = Inr []"
| "marshal_list N (v # vs) =
     (case json_marshal N v of Inl e \<Rightarrow> Inl e
      | Inr c \<Rightarrow> (case marshal_list N vs of Inl e \<Rightarrow> Inl e | Inr cs \<Rightarrow> Inr (c # cs)))"
| "marshal_members N [] = Inr []"
| "marshal_members N ((k, v) # kvs) =
     (case json_marshal N v of Inl e \<Rightarrow> Inl e
      | Inr c \<Rightarrow> (case marshal_members N kvs of Inl e \<Rightarrow> Inl e | Inr kcs \<Rightarrow> Inr ((k, c) # kcs)))"

section \<open>Decoding\<close>

definition is_ws :: "char \<Rightarrow> bool" where
  "is_ws c \<longleftrightarrow> c = CHR '' '' \<or> c = CHR 0x09 \<or> c = CHR 0x0D \<or> c = CHR 0x0A"

definition skip_ws :: "bytes \<Rightarrow> bytes" where
  "skip_ws s = dropWhile is_ws s"

definition hex_val :: "char \<Rightarrow> nat option" where
  "hex_val c =
     (let n = of_char c :: nat in
      if 48 \<le> n \<and> n \<le> 57 then Some (n - 48)
      else if 97 \<le> n \<and> n \<le> 102 then Some (n - 87)
      else if 65 \<le> n \<and> n \<le> 70 then Some (n - 55)
      else None)"

text \<open>\<open>getu4\<close>: four hexadecimal digits.\<close>

fun getu4 :: "bytes \<Rightarrow> (nat \<times> bytes) option" where
  "getu4 (a # b # c # d # t) =
     (case (hex_val a, hex_val b, hex_val c, hex_val d) of
        (Some w, Some x, Some y, Some z) \<Rightarrow> Some (w * 4096 + x * 256 + y * 16 + z, t)
      | _ \<Rightarrow> None)"
| "getu4 _ = None"

text \<open>The rune of a \<open>\\uXXXX\<close> escape; a surrogate pair makes one rune, a lone surrogate U+FFFD.\<close>

definition u_rune :: "nat \<Rightarrow> bytes \<Rightarrow> rune \<times> bytes" where
  "u_rune rr t =
     (if 0xD800 \<le> rr \<and> rr \<le> 0xDFFF then
        (case t of b # u # t' \<Rightarrow>
           (if b = bs \<and> u = CHR ''u'' then
              (case getu4 t' of
                 Some (r2, t'') \<Rightarrow>
                   if rr < 0xDC00 \<and> 0xDC00 \<le> r2 \<and> r2 \<le> 0xDFFF
                   then (0x10000 + (rr - 0xD800) * 1024 + (r2 - 0xDC00), t'')
                   else (RuneError, t)
               | None \<Rightarrow> (RuneError, t))
            else (RuneError, t))
         | _ \<Rightarrow> (RuneError, t))
      else (rr, t))"

definition simple_escape :: "char \<Rightarrow> char option" where
  "simple_escape c =
     (if c = dq \<or> c = bs \<or> c = CHR ''/'' then Some c
      else if c = CHR ''b'' then Some (CHR 0x08)
      else if c = CHR ''f'' then Some (CHR 0x0C)
      else if c = CHR ''n'' then Some (CHR 0x0A)
      else if c = CHR ''r'' then Some (CHR 0x0D)
      else if c = CHR ''t'' then Some (CHR 0x09)
      else None)"

lemma getu4_shorter: "getu4 s = Some (n, t) \<Longrightarrow> length s = length t + 4"
  by (cases s rule: getu4.cases) (auto split: option.splits)

lemma u_rune_shorter: "length (snd (u_rune rr t)) \<le> length t"
  by (auto simp: u_rune_def dest: getu4_shorter split: list.split option.split)

lemma getu4_u_rune: "getu4 s = Some (n, t) \<Longrightarrow> length (snd (u_rune n t)) < length s"
  using u_rune_shorter [of n t] by (auto dest: getu4_shorter)

text \<open>The rest of a string literal after its opening quote: the string's bytes and what follows
  the closing quote. Invalid UTF-8 decodes to U+FFFD.\<close>

function unquote :: "bytes \<Rightarrow> (bytes \<times> bytes) option" where
  "unquote s =
     (case s of
        [] \<Rightarrow> None
      | c # t \<Rightarrow>
          if c = dq then Some ([], t)
          else if c = bs then
            (case t of [] \<Rightarrow> None
             | e # t' \<Rightarrow>
                (case simple_escape e of
                   Some x \<Rightarrow> map_option (\<lambda>(a, r). (x # a, r)) (unquote t')
                 | None \<Rightarrow>
                     if e = CHR ''u'' then
                       (case getu4 t' of None \<Rightarrow> None
                        | Some (rr, t2) \<Rightarrow>
                            map_option (\<lambda>(a, r). (encode_rune (fst (u_rune rr t2)) @ a, r))
                              (unquote (snd (u_rune rr t2))))
                     else None))
          else if of_char c < (32::nat) then None
          else if of_char c < (128::nat) then map_option (\<lambda>(a, r). (c # a, r)) (unquote t)
          else map_option (\<lambda>(a, r). (encode_rune (fst (decode_rune s)) @ a, r))
                 (unquote (drop (snd (decode_rune s)) s)))"
  by pat_completeness auto
termination
  by (relation "measure length") (auto dest!: getu4_u_rune)

declare unquote.simps [simp del]

text \<open>A number literal: the literal and what follows it.\<close>

definition scan_exp :: "bytes \<Rightarrow> bytes \<Rightarrow> (bytes \<times> bytes) option" where
  "scan_exp acc s =
     (case s of
        e # t \<Rightarrow>
          if e = CHR ''e'' \<or> e = CHR ''E'' then
            (let (sg, u) = (case t of c # t' \<Rightarrow> if c = CHR ''+'' \<or> c = CHR ''-'' then ([c], t') else ([], t)
                            | [] \<Rightarrow> ([], t))
             in if takeWhile is_digit u = [] then None
                else Some (acc @ e # sg @ takeWhile is_digit u, dropWhile is_digit u))
          else Some (acc, s)
      | [] \<Rightarrow> Some (acc, s))"

definition scan_frac :: "bytes \<Rightarrow> bytes \<Rightarrow> (bytes \<times> bytes) option" where
  "scan_frac acc s =
     (case s of
        c # t \<Rightarrow>
          if c = CHR ''.'' then
            (if takeWhile is_digit t = [] then None
             else scan_exp (acc @ c # takeWhile is_digit t) (dropWhile is_digit t))
          else scan_exp acc s
      | [] \<Rightarrow> scan_exp acc s)"

definition scan_int :: "bytes \<Rightarrow> bytes \<Rightarrow> (bytes \<times> bytes) option" where
  "scan_int acc s =
     (case s of
        c # t \<Rightarrow>
          if c = CHR ''0'' then scan_frac (acc @ [c]) t
          else if is_digit c then scan_frac (acc @ c # takeWhile is_digit t) (dropWhile is_digit t)
          else None
      | [] \<Rightarrow> None)"

definition scan_number :: "bytes \<Rightarrow> (bytes \<times> bytes) option" where
  "scan_number s =
     (case s of
        c # t \<Rightarrow> if c = CHR ''-'' then scan_int [c] t else scan_int [] s
      | [] \<Rightarrow> None)"

lemma skip_ws_le: "length (skip_ws s) \<le> length s"
  by (simp add: skip_ws_def length_dropWhile_le)

lemma skip_ws_Cons_le: "skip_ws s = c # t \<Longrightarrow> Suc (length t) \<le> length s"
  using skip_ws_le [of s] by simp

text \<open>
  Values, with the nesting depth that is still allowed. A recursive call on the rest of an array
  or object requires that input was consumed; \<open>parse_value_shorter\<close> shows that it always is.
\<close>

function (sequential)
  parse_value :: "json_num \<Rightarrow> nat \<Rightarrow> bytes \<Rightarrow> (json \<times> bytes) option"
and parse_elems :: "json_num \<Rightarrow> nat \<Rightarrow> bytes \<Rightarrow> (json list \<times> bytes) option"
and parse_members :: "json_num \<Rightarrow> nat \<Rightarrow> bytes \<Rightarrow> ((bytes \<times> json) list \<times> bytes) option" where
  "parse_value N d s =
     (case skip_ws s of
        [] \<Rightarrow> None
      | c # t \<Rightarrow>
          if c = dq then map_option (\<lambda>(x, r). (JStr x, r)) (unquote t)
          else if c = CHR ''['' then
            (if d = 0 then None
             else case skip_ws t of
                    [] \<Rightarrow> None
                  | c' # t' \<Rightarrow>
                      if c' = CHR '']'' then Some (JArr [], t')
                      else map_option (\<lambda>(vs, r). (JArr vs, r)) (parse_elems N (d - 1) t))
          else if c = CHR ''{'' then
            (if d = 0 then None
             else case skip_ws t of
                    [] \<Rightarrow> None
                  | c' # t' \<Rightarrow>
                      if c' = CHR ''}'' then Some (JObj [], t')
                      else map_option (\<lambda>(kvs, r). (JObj (fold (\<lambda>(k, v). AList.update k v) kvs []), r))
                             (parse_members N (d - 1) t))
          else if HasPrefix (c # t) ''true'' then Some (JBool True, drop 4 (c # t))
          else if HasPrefix (c # t) ''false'' then Some (JBool False, drop 5 (c # t))
          else if HasPrefix (c # t) ''null'' then Some (JNull, drop 4 (c # t))
          else (case scan_number (c # t) of None \<Rightarrow> None
                | Some (lit, r) \<Rightarrow> map_option (\<lambda>w. (JNum w, r)) (parse_num N lit)))"
| "parse_elems N d s =
     (case parse_value N d s of None \<Rightarrow> None
      | Some (v, r) \<Rightarrow>
          (case skip_ws r of
             [] \<Rightarrow> None
           | c # t \<Rightarrow>
               if c = CHR '']'' then Some ([v], t)
               else if c = CHR '','' \<and> length t < length s
                    then map_option (\<lambda>(vs, r'). (v # vs, r')) (parse_elems N d t)
               else None))"
| "parse_members N d s =
     (case skip_ws s of
        [] \<Rightarrow> None
      | q # s1 \<Rightarrow>
          if q \<noteq> dq then None
          else case unquote s1 of None \<Rightarrow> None
          | Some (k, s2) \<Rightarrow>
              (case skip_ws s2 of
                 [] \<Rightarrow> None
               | c0 # s3 \<Rightarrow>
                   if c0 \<noteq> CHR '':'' \<or> length s \<le> length s3 then None
                   else case parse_value N d s3 of None \<Rightarrow> None
                   | Some (v, r) \<Rightarrow>
                       (case skip_ws r of
                          [] \<Rightarrow> None
                        | c # t \<Rightarrow>
                            if c = CHR ''}'' then Some ([(k, v)], t)
                            else if c = CHR '','' \<and> length t < length s
                                 then map_option (\<lambda>(kvs, r'). ((k, v) # kvs, r')) (parse_members N d t)
                            else None)))"
  by pat_completeness auto

termination
  by (relation "measure (case_sum (\<lambda>(N, d, s). 2 * length s)
        (case_sum (\<lambda>(N, d, s). 2 * length s + 1) (\<lambda>(N, d, s). 2 * length s + 1)))")
    (auto dest!: skip_ws_Cons_le)

declare parse_value.simps [simp del] parse_elems.simps [simp del] parse_members.simps [simp del]

text \<open>\<open>json.Unmarshal\<close> checks that a single value fills the input (nesting at most 10000 deep).\<close>

definition parse_json :: "json_num \<Rightarrow> bytes \<Rightarrow> json option" where
  "parse_json N s =
     (case parse_value N 10000 s of
        Some (v, r) \<Rightarrow> if skip_ws r = [] then Some v else None
      | None \<Rightarrow> None)"

text \<open>\<open>json.Unmarshal(body, &raw)\<close> into a \<open>map[string]any\<close>: an object fills the map, \<open>null\<close> leaves
  it nil (which reads as the empty map), anything else is an error.\<close>

definition unmarshal_object :: "json_num \<Rightarrow> bytes \<Rightarrow> (bytes \<times> json) list result" where
  "unmarshal_object N s =
     (case parse_json N s of
        Some (JObj kvs) \<Rightarrow> Inr kvs
      | Some JNull \<Rightarrow> Inr []
      | Some _ \<Rightarrow> Inl (ErrMsg ''json: cannot unmarshal'')
      | None \<Rightarrow> Inl (ErrMsg ''json: syntax error''))"

section \<open>Decoding a string literal inverts encoding it\<close>

definition valid_utf8 :: "bytes \<Rightarrow> bool" where
  "valid_utf8 s \<longleftrightarrow> utf8_encode (utf8_runes s) = s"

lemma valid_utf8_encode: "\<forall>r \<in> set rs. scalar r \<Longrightarrow> valid_utf8 (utf8_encode rs)"
  by (simp add: valid_utf8_def utf8_runes_encode)

lemma hex_val_digit [simp]: "hex_val (hex_digit n) = Some (n mod 16)"
proof -
  have "\<forall>k \<in> set [0..<16]. hex_val (''0123456789abcdef'' ! k) = Some k" by code_simp
  then show ?thesis by (simp add: hex_digit_def)
qed

lemma hex_digits_sum:
  fixes n :: nat
  assumes "n < 65536"
  shows "n div 4096 mod 16 * 4096 + n div 256 mod 16 * 256 + n div 16 mod 16 * 16 + n mod 16 = n"
proof -
  have e: "n div 256 = n div 16 div 16" "n div 4096 = n div 16 div 16 div 16"
    by (simp_all flip: div_mult2_eq)
  have m: "16 * (x div 16) + x mod 16 = x" for x :: nat by (simp only: mult_div_mod_eq)
  have "n div 16 div 16 div 16 mod 16 = n div 16 div 16 div 16"
    using assms by (simp flip: div_mult2_eq)
  with m [of n] m [of "n div 16"] m [of "n div 16 div 16"] show ?thesis
    unfolding e by linarith
qed

lemma getu4_escape:
  "n < 65536 \<Longrightarrow>
     getu4 (hex_digit (n div 4096) # hex_digit (n div 256) # hex_digit (n div 16) # hex_digit n # t) = Some (n, t)"
  using hex_digits_sum [of n] by simp

text \<open>One step of the two loops.\<close>

lemma unquote_dq [simp]: "unquote (dq # t) = Some ([], t)"
  by (simp add: unquote.simps)

lemma unquote_simple:
  "simple_escape e = Some x \<Longrightarrow> unquote (bs # e # t) = map_option (\<lambda>(a, r). (x # a, r)) (unquote t)"
  by (subst unquote.simps) (simp add: bs_def dq_def)

lemma unquote_u:
  "getu4 t = Some (rr, t2) \<Longrightarrow> unquote (bs # CHR ''u'' # t) =
     map_option (\<lambda>(a, r). (encode_rune (fst (u_rune rr t2)) @ a, r)) (unquote (snd (u_rune rr t2)))"
  by (subst unquote.simps) (simp add: bs_def dq_def simple_escape_def)

lemma unquote_plain:
  "c \<noteq> dq \<Longrightarrow> c \<noteq> bs \<Longrightarrow> \<not> of_char c < (32::nat) \<Longrightarrow> of_char c < (128::nat) \<Longrightarrow>
     unquote (c # t) = map_option (\<lambda>(a, r). (c # a, r)) (unquote t)"
  by (subst unquote.simps) simp

lemma unquote_multi:
  "128 \<le> (of_char c :: nat) \<Longrightarrow>
     unquote (c # t) = map_option (\<lambda>(a, r). (encode_rune (fst (decode_rune (c # t))) @ a, r))
       (unquote (drop (snd (decode_rune (c # t))) (c # t)))"
  by (subst unquote.simps) (auto simp: bs_def dq_def)

lemma escape_string_step:
  "s \<noteq> [] \<Longrightarrow> \<not> of_char (hd s) < (128::nat) \<Longrightarrow> decode_rune s = (r, n) \<Longrightarrow> (r, n) \<noteq> (RuneError, 1) \<Longrightarrow>
     escape_string s = (if r \<in> {0x2028, 0x2029} then u_escape r else take n s) @ escape_string (drop n s)"
  by (subst escape_string.simps) auto

lemma unquote_u_escape:
  "n < 0xD800 \<Longrightarrow>
     unquote (u_escape n @ t) = map_option (\<lambda>(a, r). (encode_rune n @ a, r)) (unquote t)"
  using unquote_u [OF getu4_escape, of n t] by (simp add: u_escape_def u_rune_def)

lemma encode_rune_ascii: "n < 128 \<Longrightarrow> encode_rune n = [char_of n]"
  by (simp add: encode_rune_def encode_codes_def)

lemma unquote_escape_ascii:
  assumes "of_char c < (128::nat)"
  shows "unquote (escape_ascii c @ t) = map_option (\<lambda>(a, r). (c # a, r)) (unquote t)"
proof -
  have "encode_rune (of_char c) = [c]" using assms by (simp add: encode_rune_ascii)
  then have u: "unquote (u_escape (of_char c) @ t) = map_option (\<lambda>(a, r). (c # a, r)) (unquote t)"
    using unquote_u_escape [of "of_char c" t] assms by simp
  have esc: "unquote ([bs, e] @ t) = map_option (\<lambda>(a, r). (c # a, r)) (unquote t)"
    if "simple_escape e = Some c" for e
    using that by (simp add: unquote_simple)
  have se: "simple_escape dq = Some dq" "simple_escape bs = Some bs"
    "simple_escape (CHR ''b'') = Some (CHR 0x08)" "simple_escape (CHR ''f'') = Some (CHR 0x0C)"
    "simple_escape (CHR ''n'') = Some (CHR 0x0A)" "simple_escape (CHR ''r'') = Some (CHR 0x0D)"
    "simple_escape (CHR ''t'') = Some (CHR 0x09)"
    by (simp_all add: simple_escape_def dq_def bs_def)
  show ?thesis
    unfolding escape_ascii_def
    using assms u esc se unquote_plain [of c t] by (simp split: if_split)
qed

lemma encode_rune_Cons:
  assumes "128 \<le> r"
  obtains c u where "encode_rune r = c # u" "128 \<le> (of_char c :: nat)"
proof -
  obtain c u where cu: "encode_rune r = c # u" by (cases "encode_rune r") auto
  have k: "2 \<le> length (encode_codes r)" using assms by (simp add: encode_codes_def)
  then have "0 < length (encode_codes r)" by linarith
  with k have "192 \<le> (of_char c :: nat)"
    using encode_codes_head [of r] of_char_encode_nth [of 0 r] cu by simp
  with cu show thesis by (intro that) auto
qed

lemma escape_string_rune:
  assumes "scalar r" "128 \<le> r"
  shows "escape_string (encode_rune r @ s) =
    (if r \<in> {0x2028, 0x2029} then u_escape r else encode_rune r) @ escape_string s"
proof -
  obtain c u where cu: "encode_rune r = c # u" "128 \<le> (of_char c :: nat)"
    using encode_rune_Cons [OF assms(2)] by blast
  have "2 \<le> length (encode_codes r)" using assms(2) by (simp add: encode_codes_def)
  then have "(r, length (encode_rune r)) \<noteq> (RuneError, 1)" by auto
  from escape_string_step [OF _ _ decode_encode_rune [OF assms(1)] this, of s] cu
  show ?thesis by simp
qed

lemma unquote_rune:
  assumes "scalar r" "128 \<le> r"
  shows "unquote (encode_rune r @ t) = map_option (\<lambda>(a, q). (encode_rune r @ a, q)) (unquote t)"
proof -
  obtain c u where cu: "encode_rune r = c # u" "128 \<le> (of_char c :: nat)"
    using encode_rune_Cons [OF assms(2)] by blast
  from unquote_multi [OF cu(2), of "u @ t"] decode_encode_rune [OF assms(1), of t]
  show ?thesis by (simp flip: append_Cons cu(1))
qed

lemma unquote_escape_runes:
  "\<forall>r \<in> set rs. scalar r \<Longrightarrow>
     unquote (escape_string (utf8_encode rs) @ dq # rest) = Some (utf8_encode rs, rest)"
proof (induction rs)
  case Nil
  then show ?case by (simp add: escape_string.simps unquote.simps)
next
  case (Cons r rs)
  then have IH: "unquote (escape_string (utf8_encode rs) @ dq # rest) = Some (utf8_encode rs, rest)"
    and r: "scalar r" by simp_all
  show ?case
  proof (cases "r < 128")
    case True
    then have e: "encode_rune r = [char_of r]" "of_char (char_of r) < (128::nat)"
      by (simp_all add: encode_rune_ascii)
    then have "escape_string (encode_rune r @ utf8_encode rs) =
        escape_ascii (char_of r) @ escape_string (utf8_encode rs)"
      by (subst escape_string.simps) simp
    then show ?thesis using IH e by (simp add: unquote_escape_ascii)
  next
    case False
    with r IH show ?thesis
      by (auto simp: escape_string_rune unquote_rune unquote_u_escape)
  qed
qed

lemma unquote_marshal:
  assumes "valid_utf8 s"
  shows "unquote (escape_string s @ dq # rest) = Some (s, rest)"
  using unquote_escape_runes [of "utf8_runes s" rest] utf8_runes_scalar assms
  by (simp add: valid_utf8_def)

end
