(* ===== verification/Json_Roundtrip.thy ===== *)
theory Json_Roundtrip
  imports Json
begin

text \<open>
  Decoding what the encoder wrote gives the value back, with object keys in sorted order: the
  encoded form of a value determines the value. Everything is relative to a number codec that is
  right on the numbers that occur (\<open>num_ok\<close>).
\<close>

section \<open>The decoder consumes input\<close>

lemma unquote_shorter: "unquote s = Some (a, r) \<Longrightarrow> length r < length s"
proof (induction s arbitrary: a rule: length_induct)
  case (1 s)
  have IH: "length r < length s" if "unquote t = Some (b, r)" "length t < length s" for t b
    using "1.IH" that by (meson order.strict_trans)
  show ?case
    using "1.prems"
    by (subst (asm) unquote.simps)
      (auto split: if_splits list.splits option.splits dest!: getu4_u_rune, (drule IH; simp)+)
qed

lemma scan_exp_le: "scan_exp acc s = Some (l, r) \<Longrightarrow> length r \<le> length s"
  by (auto simp: scan_exp_def Let_def length_dropWhile_le le_SucI
      split: list.splits if_splits prod.splits)

lemma scan_frac_le: "scan_frac acc s = Some (l, r) \<Longrightarrow> length r \<le> length s"
  by (auto simp: scan_frac_def split: list.splits if_splits
      dest!: scan_exp_le intro: le_SucI order.trans [OF _ length_dropWhile_le])

lemma scan_int_less: "scan_int acc s = Some (l, r) \<Longrightarrow> length r < length s"
  by (auto simp: scan_int_def less_Suc_eq_le split: list.splits if_splits
      dest!: scan_frac_le intro: order.trans [OF _ length_dropWhile_le])

lemma scan_number_less: "scan_number s = Some (l, r) \<Longrightarrow> length r < length s"
  by (auto simp: scan_number_def split: list.splits if_splits dest!: scan_int_less)

lemma parse_value_shorter:
  "parse_value N d s = Some (v, r) \<Longrightarrow> length r < length s"
  "parse_elems N d s = Some (vs, r) \<Longrightarrow> length r < length s"
  "parse_members N d s = Some (kvs, r) \<Longrightarrow> length r < length s"
proof (induction N d s and N d s and N d s arbitrary: v r and vs r and kvs r
    rule: parse_value_parse_elems_parse_members.induct)
  case (1 N d s)
  show ?case
  proof (cases "skip_ws s")
    case Nil
    with "1.prems" show ?thesis by (simp add: parse_value.simps)
  next
    case (Cons c t)
    then have l: "Suc (length t) \<le> length s" by (rule skip_ws_Cons_le)
    have "length r < Suc (length t)"
      using "1.prems" Cons "1.IH" [OF Cons]
      by (subst (asm) parse_value.simps)
        (auto split: if_splits list.splits option.splits
          dest!: unquote_shorter skip_ws_Cons_le scan_number_less intro: less_SucI)
    with l show ?thesis by simp
  qed
next
  case (2 N d s)
  then obtain v r1 c t where v: "parse_value N d s = Some (v, r1)" "skip_ws r1 = c # t"
    by (subst (asm) parse_elems.simps) (auto split: option.splits list.splits)
  then have "length r1 < length s" "Suc (length t) \<le> length r1"
    using "2.IH"(1) skip_ws_Cons_le by blast+
  with v "2.prems" "2.IH"(2) [OF v(1) refl v(2)] show ?case
    by (subst (asm) parse_elems.simps) (auto split: if_splits)
next
  case (3 N d s)
  then obtain q s1 k s2 c0 s3 v r1 c t where h: "skip_ws s = q # s1" "q = dq" "unquote s1 = Some (k, s2)"
      "skip_ws s2 = c0 # s3" "\<not> (c0 \<noteq> CHR '':'' \<or> length s \<le> length s3)"
      "parse_value N d s3 = Some (v, r1)" "skip_ws r1 = c # t"
    by (subst (asm) parse_members.simps) (auto split: option.splits list.splits if_splits)
  have "length r1 < length s3" using "3.IH"(1) [OF h(1) _ h(3) refl h(4,5,6)] h(2) by simp
  moreover have "Suc (length t) \<le> length r1" using h(7) by (rule skip_ws_Cons_le)
  ultimately have "length t < length s" using h(5) by auto
  with h "3.prems" "3.IH"(2) [OF h(1) _ h(3) refl h(4,5,6) refl h(7)] show ?case
    by (subst (asm) parse_members.simps) (auto split: if_splits)
qed

section \<open>Well-formed values and the number codec\<close>

definition num_ok :: "json_num \<Rightarrow> f64 \<Rightarrow> bool" where
  "num_ok N w \<longleftrightarrow> f64_finite w \<and> scan_number (marshal_num N w) = Some (marshal_num N w, []) \<and>
     parse_num N (marshal_num N w) = Some w"

fun wf_json :: "json_num \<Rightarrow> json \<Rightarrow> bool" where
  "wf_json N JNull = True"
| "wf_json N (JBool b) = True"
| "wf_json N (JNum w) = num_ok N w"
| "wf_json N (JStr s) = valid_utf8 s"
| "wf_json N (JArr vs) = (\<forall>v \<in> set vs. wf_json N v)"
| "wf_json N (JObj kvs) =
     (distinct (map fst kvs) \<and> (\<forall>(k, v) \<in> set kvs. valid_utf8 k \<and> wf_json N v))"

fun json_depth :: "json \<Rightarrow> nat" where
  "json_depth (JArr vs) = Suc (Max (insert 0 (set (map json_depth vs))))"
| "json_depth (JObj kvs) = Suc (Max (insert 0 (set (map (\<lambda>(k, v). json_depth v) kvs))))"
| "json_depth _ = 0"

text \<open>The value with object keys sorted at every level: two values are the same Go value when
  their sorted forms are equal.\<close>

fun sort_keys :: "json \<Rightarrow> json" where
  "sort_keys (JArr vs) = JArr (map sort_keys vs)"
| "sort_keys (JObj kvs) = JObj (sort_key fst (map (\<lambda>(k, v). (k, sort_keys v)) kvs))"
| "sort_keys v = v"

text \<open>What may follow a value inside an encoded document.\<close>

definition delim :: "bytes \<Rightarrow> bool" where
  "delim r \<longleftrightarrow> (case r of [] \<Rightarrow> True | c # _ \<Rightarrow> c = CHR '','' \<or> c = CHR '']'' \<or> c = CHR ''}'')"

lemma delim_simps [simp]:
  "delim []" "delim (CHR '','' # r)" "delim (CHR '']'' # r)" "delim (CHR ''}'' # r)"
  by (simp_all add: delim_def)

lemma delim_not_digit [simp]:
  "delim r \<Longrightarrow> takeWhile is_digit r = []" "delim r \<Longrightarrow> dropWhile is_digit r = r"
  by (cases r; auto simp: delim_def is_digit_def)+

lemma all_digits [simp]:
  "\<forall>x \<in> set u. is_digit x \<Longrightarrow> takeWhile is_digit u = u"
  "\<forall>x \<in> set u. is_digit x \<Longrightarrow> dropWhile is_digit u = []"
  by (simp_all add: takeWhile_eq_all_conv)

lemma digits_append [simp]:
  assumes "\<forall>x \<in> set u. is_digit x" "delim r"
  shows "takeWhile is_digit (u @ r) = u" "dropWhile is_digit (u @ r) = r"
  using assms by simp_all

lemma scan_exp_append:
  assumes "scan_exp acc s = Some (l, [])" "delim r"
  shows "scan_exp acc (s @ r) = Some (l, r)"
proof (cases s)
  case Nil
  with assms show ?thesis by (cases r) (auto simp: scan_exp_def delim_def)
next
  case (Cons e t)
  with assms show ?thesis
    by (cases t) (auto simp: scan_exp_def split: if_splits)
qed

lemma scan_frac_append:
  assumes "scan_frac acc s = Some (l, [])" "delim r"
  shows "scan_frac acc (s @ r) = Some (l, r)"
proof (cases s)
  case Nil
  with assms scan_exp_append [of acc "[]" l r] show ?thesis
    by (cases r) (auto simp: scan_frac_def delim_def)
next
  case (Cons c t)
  show ?thesis
  proof (cases "c = CHR ''.'' \<and> (\<forall>x \<in> set t. is_digit x)")
    case True
    with assms Cons scan_exp_append [of "acc @ c # t" "[]" l r] show ?thesis
      by (auto simp: scan_frac_def split: if_splits)
  next
    case False
    then have "c = CHR ''.'' \<Longrightarrow> takeWhile is_digit (t @ r) = takeWhile is_digit t \<and>
        dropWhile is_digit (t @ r) = dropWhile is_digit t @ r"
      by (auto simp: takeWhile_append1 dropWhile_append1)
    with assms Cons False scan_exp_append [of acc s l r] scan_exp_append [of _ "dropWhile is_digit t" l r]
    show ?thesis by (auto simp: scan_frac_def split: if_splits)
  qed
qed

lemma scan_int_append:
  assumes "scan_int acc s = Some (l, [])" "delim r"
  shows "scan_int acc (s @ r) = Some (l, r)"
proof (cases s)
  case Nil
  with assms show ?thesis by (simp add: scan_int_def)
next
  case (Cons c t)
  show ?thesis
  proof (cases "\<forall>x \<in> set t. is_digit x")
    case True
    with assms Cons scan_frac_append [of "acc @ c # t" "[]" l r] scan_frac_append [of "acc @ [c]" t l r]
    show ?thesis by (auto simp: scan_int_def split: if_splits)
  next
    case False
    then have "takeWhile is_digit (t @ r) = takeWhile is_digit t"
        "dropWhile is_digit (t @ r) = dropWhile is_digit t @ r"
      by (auto simp: takeWhile_append1 dropWhile_append1)
    with assms Cons scan_frac_append show ?thesis
      by (auto simp: scan_int_def split: if_splits)
  qed
qed

lemma scan_number_append:
  assumes "scan_number s = Some (l, [])" "delim r"
  shows "scan_number (s @ r) = Some (l, r)"
  using assms scan_int_append [of "[]" s l r] scan_int_append [of "[hd s]" "tl s" l r]
  by (cases s) (auto simp: scan_number_def split: if_splits)

lemma scan_number_hd:
  "scan_number s = Some (l, r) \<Longrightarrow> s \<noteq> [] \<and> (hd s = CHR ''-'' \<or> is_digit (hd s))"
  by (cases s) (auto simp: scan_number_def scan_int_def is_digit_def split: if_splits)

section \<open>The first byte of an encoded value\<close>

definition opens :: "char \<Rightarrow> bool" where
  "opens c \<longleftrightarrow> \<not> is_ws c \<and> c \<noteq> CHR '']'' \<and> c \<noteq> CHR ''}''"

lemma number_opens: "scan_number m = Some (m, []) \<Longrightarrow> \<exists>c t. m = c # t \<and> opens c"
  by (drule scan_number_hd, cases m) (auto simp: opens_def is_ws_def is_digit_def)

lemma marshal_opens:
  assumes "wf_json N v" "json_marshal N v = Inr m"
  shows "\<exists>c t. m = c # t \<and> opens c"
proof (cases v)
  case (JNum w)
  with assms have "scan_number m = Some (m, [])" by (auto simp: num_ok_def)
  then show ?thesis by (rule number_opens)
next
  case (JArr vs)
  with assms show ?thesis by (auto simp: opens_def is_ws_def split: sum.splits)
next
  case (JObj kvs)
  with assms show ?thesis by (auto simp: opens_def is_ws_def split: sum.splits)
qed (use assms in \<open>auto simp: opens_def is_ws_def marshal_bool_def marshal_string_def dq_def\<close>)

lemma skip_ws_opens [simp]: "opens c \<Longrightarrow> skip_ws (c # t) = c # t"
  by (simp add: skip_ws_def opens_def)

lemma skip_ws_punct [simp]:
  "skip_ws (CHR '','' # t) = CHR '','' # t" "skip_ws (CHR '']'' # t) = CHR '']'' # t"
  "skip_ws (CHR ''}'' # t) = CHR ''}'' # t" "skip_ws (CHR '':'' # t) = CHR '':'' # t"
  "skip_ws (dq # t) = dq # t"
  by (simp_all add: skip_ws_def is_ws_def dq_def)

lemma marshal_list_all2: "marshal_list N vs = Inr cs \<longleftrightarrow> list_all2 (\<lambda>v c. json_marshal N v = Inr c) vs cs"
proof (induction vs arbitrary: cs)
  case (Cons v vs)
  show ?case by (cases cs) (auto simp flip: Cons.IH split: sum.splits)
qed auto

lemma marshal_members_all2:
  "marshal_members N kvs = Inr kcs \<longleftrightarrow>
     list_all2 (\<lambda>(k, v) (k', c). k = k' \<and> json_marshal N v = Inr c) kvs kcs"
proof (induction kvs arbitrary: kcs)
  case (Cons kv kvs)
  show ?case by (cases kv; cases kcs) (auto simp flip: Cons.IH split: sum.splits)
qed auto

section \<open>Sorting by key\<close>

lemma insort_key_all2:
  assumes "list_all2 R xs ys" "R x y" "\<And>a b. R a b \<Longrightarrow> fst a = fst b"
  shows "list_all2 R (insort_key fst x xs) (insort_key fst y ys)"
  using assms(1)
proof (induction rule: list_all2_induct)
  case (Cons a as b bs)
  moreover have "fst a = fst b" "fst x = fst y" using Cons.hyps(1) assms(2,3) by blast+
  ultimately show ?case using assms(2) by simp
qed (simp add: assms(2))

lemma sort_key_all2:
  assumes "list_all2 R xs ys" "\<And>a b. R a b \<Longrightarrow> fst a = fst b"
  shows "list_all2 R (sort_key fst xs) (sort_key fst ys)"
  using assms(1) by (induction rule: list_all2_induct) (auto intro: insort_key_all2 assms(2))

lemma sort_key_map_snd:
  "sort_key fst (map (\<lambda>(k, v). (k, f v)) kvs) = map (\<lambda>(k, v). (k, f v)) (sort_key fst kvs)"
proof -
  have ins: "insort_key fst (k, f v) (map (\<lambda>(k, v). (k, f v)) xs) =
      map (\<lambda>(k, v). (k, f v)) (insort_key fst (k, v) xs)" for k v xs
    by (induction xs) auto
  show ?thesis by (induction kvs) (auto simp: ins)
qed

lemma fold_update_distinct:
  "distinct (map fst (acc @ kvs)) \<Longrightarrow> fold (\<lambda>(k, v). AList.update k v) kvs acc = acc @ kvs"
proof (induction kvs arbitrary: acc)
  case (Cons kv kvs)
  obtain k v where kv: "kv = (k, v)" by (cases kv)
  with Cons.prems have "k \<notin> fst ` set acc" by auto
  then have "AList.update k v acc = acc @ [(k, v)]" by (induction acc) auto
  with Cons kv show ?case by simp
qed simp

section \<open>The round trip\<close>

definition reads :: "json_num \<Rightarrow> nat \<Rightarrow> json \<Rightarrow> bytes \<Rightarrow> bool" where
  "reads N d v m \<longleftrightarrow>
     (\<exists>c t. m = c # t \<and> opens c) \<and>
     (\<forall>rest. delim rest \<longrightarrow> parse_value N d (m @ rest) = Some (sort_keys v, rest))"

lemma parse_elems_Join:
  assumes "list_all2 (reads N d) vs cs" "vs \<noteq> []"
  shows "parse_elems N d (Join '','' cs @ CHR '']'' # rest) = Some (map sort_keys vs, rest)"
  using assms
proof (induction rule: list_all2_induct)
  case (Cons v vs c cs)
  then have p: "parse_value N d (c @ r) = Some (sort_keys v, r)" if "delim r" for r
    using that by (auto simp: reads_def)
  show ?case
  proof (cases cs)
    case Nil
    with Cons p show ?thesis by (subst parse_elems.simps) simp
  next
    case (Cons c2 cs2)
    with Cons.IH Cons.hyps have "parse_elems N d (Join '','' (c2 # cs2) @ CHR '']'' # rest) = Some (map sort_keys vs, rest)"
      by auto
    with Cons p show ?thesis by (subst parse_elems.simps) simp
  qed
qed simp

lemma parse_members_Join:
  assumes "list_all2 (\<lambda>(k, v) (k', c). k = k' \<and> valid_utf8 k \<and> reads N d v c) kvs kcs" "kvs \<noteq> []"
  shows "parse_members N d (Join '','' (map (\<lambda>(k, c). marshal_string k @ CHR '':'' # c) kcs) @ CHR ''}'' # rest) =
    Some (map (\<lambda>(k, v). (k, sort_keys v)) kvs, rest)"
  using assms
proof (induction rule: list_all2_induct)
  case (Cons kv kvs kc kcs)
  then obtain k v c where kv: "kv = (k, v)" "kc = (k, c)" and k: "valid_utf8 k" and "reads N d v c"
    by (cases kv; cases kc) auto
  then have p: "parse_value N d (c @ r) = Some (sort_keys v, r)" if "delim r" for r
    using that by (auto simp: reads_def)
  have u: "unquote (escape_string k @ dq # r) = Some (k, r)" for r
    using k by (rule unquote_marshal)
  show ?case
  proof (cases kcs)
    case Nil
    with Cons p u kv show ?thesis by (subst parse_members.simps) (simp add: marshal_string_def)
  next
    case (Cons kc2 kcs2)
    with Cons.IH Cons.hyps have "parse_members N d (Join '','' (map (\<lambda>(k, c). marshal_string k @ CHR '':'' # c)
        (kc2 # kcs2)) @ CHR ''}'' # rest) = Some (map (\<lambda>(k, v). (k, sort_keys v)) kvs, rest)"
      by auto
    with Cons p u kv show ?thesis by (subst parse_members.simps) (simp add: marshal_string_def)
  qed
qed simp

lemma json_depth_list:
  assumes "json_depth v = Suc (Max (insert 0 (f ` set xs)))" "json_depth v \<le> d" "x \<in> set xs"
  shows "0 < d \<and> f x \<le> d - 1"
proof -
  have "f x \<le> Max (insert 0 (f ` set xs))" using assms(3) by (intro Max_ge) auto
  with assms(1,2) show ?thesis by linarith
qed

text \<open>One lemma per kind of value.\<close>

lemma parse_value_number:
  assumes "scan_number (c # t) = Some (l, r)" "parse_num N l = Some w" "c = CHR ''-'' \<or> is_digit c"
  shows "parse_value N d (c # t) = Some (JNum w, r)"
proof -
  have "skip_ws (c # t) = c # t"
    using assms(3) by (intro skip_ws_opens) (auto simp: opens_def is_ws_def is_digit_def)
  moreover have "c \<noteq> dq" "c \<noteq> CHR ''[''" "c \<noteq> CHR ''{''" "c \<noteq> CHR ''t''" "c \<noteq> CHR ''f''" "c \<noteq> CHR ''n''"
    using assms(3) by (auto simp: dq_def is_digit_def)
  moreover from this have "\<not> HasPrefix (c # t) ''true''" "\<not> HasPrefix (c # t) ''false''" "\<not> HasPrefix (c # t) ''null''"
    by (auto simp: HasPrefix_iff)
  ultimately show ?thesis
    using assms(1,2) by (simp add: parse_value.simps [of N d "c # t"])
qed

lemma reads_number:
  assumes "scan_number m = Some (m, [])" "parse_num N m = Some w"
  shows "reads N d (JNum w) m"
proof -
  obtain c t where m: "m = c # t" "opens c" using number_opens [OF assms(1)] by blast
  have "c = CHR ''-'' \<or> is_digit c" using scan_number_hd [OF assms(1)] m by simp
  then have "parse_value N d (m @ rest) = Some (JNum w, rest)" if "delim rest" for rest
    using parse_value_number [OF _ assms(2), of c "t @ rest" rest d]
      scan_number_append [OF assms(1) that] m by simp
  with m show ?thesis by (simp add: reads_def)
qed

lemma reads_string: "valid_utf8 s \<Longrightarrow> reads N d (JStr s) (marshal_string s)"
  unfolding reads_def marshal_string_def
  by (simp add: parse_value.simps [of N d "dq # x" for x] unquote_marshal, simp add: opens_def is_ws_def dq_def)

lemma reads_literal: "reads N d JNull ''null''" "reads N d (JBool b) (marshal_bool b)"
  by (auto simp: reads_def marshal_bool_def opens_def is_ws_def dq_def HasPrefix_def skip_ws_def
      parse_value.simps [of N d "c # x" for c x])

lemma reads_array:
  assumes l: "list_all2 (reads N (d - 1)) vs cs" and d: "0 < d"
  shows "reads N d (JArr vs) (CHR ''['' # Join '','' cs @ '']'')"
proof -
  have "parse_value N d (CHR ''['' # Join '','' cs @ CHR '']'' # rest) = Some (JArr (map sort_keys vs), rest)" for rest
  proof (cases cs)
    case Nil
    with l d show ?thesis
      by (simp add: parse_value.simps [of N d "CHR ''['' # x" for x] skip_ws_def is_ws_def dq_def)
  next
    case (Cons c cs')
    with l obtain v vs' where vs: "vs = v # vs'" "reads N (d - 1) v c" by (cases vs) auto
    then obtain a t where a: "c = a # t" "opens a" by (auto simp: reads_def)
    then obtain t' where "Join '','' cs @ CHR '']'' # rest = a # t'" using Cons by (cases cs') auto
    moreover have "parse_elems N (d - 1) (Join '','' cs @ CHR '']'' # rest) = Some (map sort_keys vs, rest)"
      using vs(1) by (intro parse_elems_Join l) simp
    moreover have "a \<noteq> CHR '']''" using a(2) by (simp add: opens_def)
    ultimately show ?thesis
      using d a(2) skip_ws_opens [of "CHR ''[''"]
      by (simp add: parse_value.simps [of N d "CHR ''['' # x" for x] dq_def opens_def is_ws_def)
  qed
  then show ?thesis by (simp add: reads_def opens_def is_ws_def)
qed

lemma parse_object_Join:
  assumes l: "list_all2 (\<lambda>(k, v) (k', c). k = k' \<and> valid_utf8 k \<and> reads N (d - 1) v c) kvs kcs"
    and d: "0 < d" and dist: "distinct (map fst kvs)"
  shows "parse_value N d (CHR ''{'' # Join '','' (map (\<lambda>(k, c). marshal_string k @ CHR '':'' # c) kcs) @
      CHR ''}'' # rest) = Some (JObj (map (\<lambda>(k, v). (k, sort_keys v)) kvs), rest)"
proof (cases kcs)
  case Nil
  with l d show ?thesis
    by (simp add: parse_value.simps [of N d "CHR ''{'' # x" for x] skip_ws_def is_ws_def dq_def)
next
  case (Cons kc kcs')
  let ?out = "map (\<lambda>(k, v). (k, sort_keys v)) kvs"
  have out: "fold (\<lambda>(k, v). AList.update k v) ?out [] = ?out"
    using fold_update_distinct [of "[]" ?out] dist by (simp add: comp_def split_def)
  have ne: "kvs \<noteq> []" using Cons l by auto
  obtain t where "Join '','' (map (\<lambda>(k, c). marshal_string k @ CHR '':'' # c) kcs) @ CHR ''}'' # rest = dq # t"
    using Cons by (cases kcs') (auto simp: marshal_string_def split_def)
  with parse_members_Join [OF l ne, of rest] d out show ?thesis
    using skip_ws_opens [of "CHR ''{''"]
    by (simp add: parse_value.simps [of N d "CHR ''{'' # x" for x] dq_def opens_def is_ws_def)
qed

lemma distinct_sort_key: "distinct (map fst kvs) \<Longrightarrow> distinct (map fst (sort_key fst kvs))"
  by (simp add: distinct_map)

lemma reads_object:
  assumes l: "list_all2 (\<lambda>(k, v) (k', c). k = k' \<and> valid_utf8 k \<and> reads N (d - 1) v c) kvs kcs"
    and d: "0 < d" and dist: "distinct (map fst kvs)"
  shows "reads N d (JObj kvs)
    (CHR ''{'' # Join '','' (map (\<lambda>(k, c). marshal_string k @ CHR '':'' # c) (sort_key fst kcs)) @ ''}'')"
proof -
  have "list_all2 (\<lambda>(k, v) (k', c). k = k' \<and> valid_utf8 k \<and> reads N (d - 1) v c)
      (sort_key fst kvs) (sort_key fst kcs)"
    using l by (rule sort_key_all2) auto
  from parse_object_Join [OF this d distinct_sort_key [OF dist]] show ?thesis
    by (simp add: reads_def opens_def is_ws_def sort_key_map_snd)
qed

lemma marshal_reads:
  "wf_json N v \<Longrightarrow> json_marshal N v = Inr m \<Longrightarrow> json_depth v \<le> d \<Longrightarrow> reads N d v m"
proof (induction v arbitrary: m d)
  case (JNum w)
  then show ?case by (auto simp: num_ok_def intro: reads_number)
next
  case (JArr vs)
  then obtain cs where cs: "marshal_list N vs = Inr cs" "m = CHR ''['' # Join '','' cs @ '']''"
    by (auto split: sum.splits)
  have "list_all2 (reads N (d - 1)) vs cs"
  proof (rule list.rel_mono_strong)
    show "list_all2 (\<lambda>v c. json_marshal N v = Inr c) vs cs" using cs(1) by (simp add: marshal_list_all2)
    fix v c assume v: "v \<in> set vs" "json_marshal N v = Inr c"
    with JArr.prems(3) have "json_depth v \<le> d - 1"
      using json_depth_list [of "JArr vs" json_depth vs d v] by simp
    with v JArr.prems(1) show "reads N (d - 1) v c" by (intro JArr.IH) auto
  qed
  with cs(2) JArr.prems(3) show ?case using reads_array by simp
next
  case (JObj kvs)
  then obtain kcs where kcs: "marshal_members N kvs = Inr kcs"
    "m = CHR ''{'' # Join '','' (map (\<lambda>(k, c). marshal_string k @ CHR '':'' # c) (sort_key fst kcs)) @ ''}''"
    by (auto split: sum.splits)
  have "list_all2 (\<lambda>(k, v) (k', c). k = k' \<and> valid_utf8 k \<and> reads N (d - 1) v c) kvs kcs"
  proof (rule list.rel_mono_strong)
    show "list_all2 (\<lambda>(k, v) (k', c). k = k' \<and> json_marshal N v = Inr c) kvs kcs"
      using kcs(1) by (simp add: marshal_members_all2)
    fix kv kc assume kv: "kv \<in> set kvs" "(\<lambda>(k, v) (k', c). k = k' \<and> json_marshal N v = Inr c) kv kc"
    then obtain k v c where kvc: "kv = (k, v)" "kc = (k, c)" "json_marshal N v = Inr c" by (cases kv; cases kc) auto
    have "json_depth v \<le> d - 1"
      using json_depth_list [of "JObj kvs" "\<lambda>(k, v). json_depth v" kvs d kv] JObj.prems(3) kv(1) kvc(1)
      by (simp add: split_def)
    moreover have "wf_json N v" "valid_utf8 k" using JObj.prems(1) kv(1) kvc(1) by auto
    ultimately show "(\<lambda>(k, v) (k', c). k = k' \<and> valid_utf8 k \<and> reads N (d - 1) v c) kv kc"
      using JObj.IH [of kv v c "d - 1"] kv(1) kvc by auto
  qed
  with kcs(2) JObj.prems show ?case using reads_object by simp
qed (auto intro: reads_string reads_literal)

text \<open>The decoder inverts the encoder, up to the order of object keys; so two values with the same
  encoding differ in that order at most.\<close>

lemma parse_marshal:
  assumes "json_marshal N v = Inr m" "wf_json N v" "json_depth v \<le> 10000"
  shows "parse_json N m = Some (sort_keys v)"
  using marshal_reads [OF assms(2,1,3)]
  by (auto simp: parse_json_def reads_def delim_def skip_ws_def dest!: spec [of _ "[]"])

lemma marshal_inject:
  assumes "json_marshal N v = Inr m" "json_marshal N w = Inr m" "wf_json N v" "wf_json N w"
    "json_depth v \<le> 10000" "json_depth w \<le> 10000"
  shows "sort_keys v = sort_keys w"
  using parse_marshal [OF assms(1,3,5)] parse_marshal [OF assms(2,4,6)] by simp

end
