(* ===== verification/Fingerprint.thy ===== *)
theory Fingerprint
  imports Json_Roundtrip
begin

text \<open>
  \<open>internal/fingerprint\<close>: the canonical form of a JSON value, with object keys sorted at every
  level, and its hash. \<open>canonicalize_marshal\<close> shows that the hand-written loops agree with
  \<open>json.Marshal\<close>; with the round trip of \<open>Json_Roundtrip\<close> the canonical form determines the value,
  so two values collide only when SHA-256 collides.
\<close>

text \<open>The loop over the sorted keys and the one over the items; \<open>i\<close> counts what is written.\<close>

fun canon_object :: "nat \<Rightarrow> bytes \<Rightarrow> (bytes \<times> bytes result) list \<Rightarrow> bytes result" where
  "canon_object i buf [] = Inr (buf @ ''}'')"
| "canon_object i buf ((k, cb) # rest) =
     (case cb of
        Inl err \<Rightarrow> Inl err
      | Inr c \<Rightarrow>
          canon_object (Suc i) (buf @ (if i > 0 then '','' else '''') @ marshal_string k @ '':'' @ c) rest)"

fun canon_array :: "nat \<Rightarrow> bytes \<Rightarrow> bytes result list \<Rightarrow> bytes result" where
  "canon_array i buf [] = Inr (buf @ '']'')"
| "canon_array i buf (cb # rest) =
     (case cb of
        Inl err \<Rightarrow> Inl err
      | Inr c \<Rightarrow> canon_array (Suc i) (buf @ (if i > 0 then '','' else '''') @ c) rest)"

fun canonicalize :: "json_num \<Rightarrow> json \<Rightarrow> bytes result" where
  "canonicalize N (JObj kvs) =
     canon_object 0 ''{'' (sort_key fst (map (\<lambda>(k, v). (k, canonicalize N v)) kvs))"
| "canonicalize N (JArr vs) = canon_array 0 ''['' (map (canonicalize N) vs)"
| "canonicalize N v = json_marshal N v"

definition Exact :: "json_num \<Rightarrow> json \<Rightarrow> bytes result" where
  "Exact N v =
     (case canonicalize N v of
        Inl err \<Rightarrow> Inl err
      | Inr canon \<Rightarrow> Inr (EncodeToString (Sum256 canon)))"

section \<open>The canonical form is the encoder's\<close>

text \<open>The one error the encoder has.\<close>

definition unsupported :: go_error where
  "unsupported = ErrMsg ''json: unsupported value''"

lemma marshal_error:
  "json_marshal N v = Inl e \<Longrightarrow> e = unsupported"
  "marshal_list N vs = Inl e \<Longrightarrow> e = unsupported"
  "marshal_members N kvs = Inl e \<Longrightarrow> e = unsupported"
  by (induction N v and N vs and N kvs rule: json_marshal_marshal_list_marshal_members.induct)
    (auto simp: unsupported_def split: sum.splits if_splits)

lemma marshal_list_error:
  "marshal_list N vs = Inl unsupported \<longleftrightarrow> (\<exists>v \<in> set vs. json_marshal N v = Inl unsupported)"
  by (induction vs) (auto split: sum.splits dest: marshal_error)

lemma marshal_members_error:
  "marshal_members N kvs = Inl unsupported \<longleftrightarrow> (\<exists>(k, v) \<in> set kvs. json_marshal N v = Inl unsupported)"
  by (induction kvs) (auto split: sum.splits dest: marshal_error)

lemma Join_Cons: "Join sep (a # xs) = a @ (if xs = [] then [] else sep @ Join sep xs)"
  by (cases xs) auto

lemma canon_object_ok:
  "canon_object i buf (map (\<lambda>(k, c). (k, Inr c)) kcs) =
     Inr (buf @ (if i > 0 \<and> kcs \<noteq> [] then '','' else '''') @
       Join '','' (map (\<lambda>(k, c). marshal_string k @ CHR '':'' # c) kcs) @ ''}'')"
  by (induction kcs arbitrary: i buf) (auto simp: Join_Cons)

lemma canon_array_ok:
  "canon_array i buf (map Inr cs) =
     Inr (buf @ (if i > 0 \<and> cs \<noteq> [] then '','' else '''') @ Join '','' cs @ '']'')"
  by (induction cs arbitrary: i buf) (auto simp: Join_Cons)

lemma canon_object_error:
  "set (map snd xs) \<subseteq> insert (Inl E) (range Inr) \<Longrightarrow> Inl E \<in> set (map snd xs) \<Longrightarrow> canon_object i buf xs = Inl E"
  by (induction i buf xs rule: canon_object.induct) (auto split: sum.split simp del: set_map)

lemma canon_array_error:
  "set xs \<subseteq> insert (Inl E) (range Inr) \<Longrightarrow> Inl E \<in> set xs \<Longrightarrow> canon_array i buf xs = Inl E"
  by (induction i buf xs rule: canon_array.induct) (auto split: sum.split)

lemma marshal_range: "json_marshal N v \<in> insert (Inl unsupported) (range Inr)"
  by (cases "json_marshal N v") (auto dest: marshal_error)

lemma canonicalize_array:
  assumes "\<And>v. v \<in> set vs \<Longrightarrow> canonicalize N v = json_marshal N v"
  shows "canonicalize N (JArr vs) = json_marshal N (JArr vs)"
proof -
  have m: "map (canonicalize N) vs = map (json_marshal N) vs" using assms by simp
  show ?thesis
  proof (cases "marshal_list N vs")
    case (Inl e)
    then have e: "e = unsupported" by (rule marshal_error)
    with Inl have "Inl unsupported \<in> set (map (json_marshal N) vs)" by (force simp: marshal_list_error)
    then have "canon_array 0 ''['' (map (json_marshal N) vs) = Inl unsupported"
    proof (rule canon_array_error [rotated])
      show "set (map (json_marshal N) vs) \<subseteq> insert (Inl unsupported) (range Inr)"
        using marshal_range by fastforce
    qed
    then show ?thesis by (simp only: canonicalize.simps m) (simp add: Inl e)
  next
    case (Inr cs)
    then have "list_all2 (\<lambda>v c. json_marshal N v = Inr c) vs cs" by (simp add: marshal_list_all2)
    then have "map (json_marshal N) vs = map Inr cs" by (induction rule: list_all2_induct) auto
    with Inr show ?thesis by (simp only: canonicalize.simps m) (simp add: canon_array_ok)
  qed
qed

lemma canonicalize_object:
  assumes "\<And>k v. (k, v) \<in> set kvs \<Longrightarrow> canonicalize N v = json_marshal N v"
  shows "canonicalize N (JObj kvs) = json_marshal N (JObj kvs)"
proof -
  let ?xs = "map (\<lambda>(k, v). (k, json_marshal N v)) kvs"
  have m: "map (\<lambda>(k, v). (k, canonicalize N v)) kvs = ?xs" using assms by auto
  show ?thesis
  proof (cases "marshal_members N kvs")
    case (Inl e)
    then have e: "e = unsupported" by (rule marshal_error)
    with Inl have "Inl unsupported \<in> set (map snd (sort_key fst ?xs))"
      by (force simp: marshal_members_error image_iff)
    then have "canon_object 0 ''{'' (sort_key fst ?xs) = Inl unsupported"
    proof (rule canon_object_error [rotated])
      show "set (map snd (sort_key fst ?xs)) \<subseteq> insert (Inl unsupported) (range Inr)"
        using marshal_range by fastforce
    qed
    then show ?thesis by (simp only: canonicalize.simps m) (simp add: Inl e)
  next
    case (Inr kcs)
    then have "list_all2 (\<lambda>(k, v) (k', c). k = k' \<and> json_marshal N v = Inr c) kvs kcs"
      by (simp add: marshal_members_all2)
    then have "?xs = map (\<lambda>(k, c). (k, Inr c)) kcs" by (induction rule: list_all2_induct) auto
    then have "sort_key fst ?xs = map (\<lambda>(k, c). (k, Inr c)) (sort_key fst kcs)"
      by (simp only: sort_key_map_snd)
    with Inr show ?thesis by (simp only: canonicalize.simps m) (simp add: canon_object_ok)
  qed
qed

lemma canonicalize_marshal: "canonicalize N v = json_marshal N v"
proof (induction v)
  case (JArr vs)
  then show ?case by (rule canonicalize_array)
next
  case (JObj kvs)
  then show ?case by (intro canonicalize_object) auto
qed auto

section \<open>What a fingerprint identifies\<close>

text \<open>The encoding does not depend on the order of object keys.\<close>

lemma sort_key_idem: "sort_key f (sort_key f xs) = sort_key f xs"
  by (intro sort_key_id_if_sorted sorted_sort_key)

lemma canonicalize_sort_keys: "canonicalize N (sort_keys v) = canonicalize N v"
proof (induction v)
  case (JArr vs)
  then show ?case by (simp add: comp_def cong: map_cong)
next
  case (JObj kvs)
  then have "map (\<lambda>(k, v). (k, canonicalize N v)) (map (\<lambda>(k, v). (k, sort_keys v)) kvs) =
      map (\<lambda>(k, v). (k, canonicalize N v)) kvs"
    by auto
  then show ?case
    by (simp only: sort_keys.simps canonicalize.simps sort_key_idem flip: sort_key_map_snd)
qed auto

lemma canonicalize_inject:
  assumes "canonicalize N v = Inr m" "canonicalize N w = Inr m" "wf_json N v" "wf_json N w"
    "json_depth v \<le> 10000" "json_depth w \<le> 10000"
  shows "sort_keys v = sort_keys w"
  using assms by (auto simp: canonicalize_marshal intro: marshal_inject)

lemma wf_json_marshal: "wf_json N v \<Longrightarrow> is_ok (json_marshal N v)"
proof (induction v)
  case (JArr vs)
  then have "marshal_list N vs \<noteq> Inl unsupported" by (force simp: marshal_list_error)
  then show ?case by (cases "marshal_list N vs") (auto dest: marshal_error)
next
  case (JObj kvs)
  then have "marshal_members N kvs \<noteq> Inl unsupported" by (force simp: marshal_members_error)
  then show ?case by (cases "marshal_members N kvs") (auto dest: marshal_error)
qed (auto simp: num_ok_def)

lemma Exact_shape:
  "Exact N v = Inr h \<Longrightarrow> length h = 64 \<and> (\<forall>c \<in> set h. is_hex c)"
  by (auto simp: Exact_def dest: EncodeToString_hex split: sum.splits)

lemma Exact_total: "wf_json N v \<Longrightarrow> \<exists>h. Exact N v = Inr h"
  using wf_json_marshal [of N v] by (auto simp: Exact_def canonicalize_marshal split: sum.split)

lemma Exact_eq_iff:
  assumes wf: "wf_json N v" "wf_json N w" and depth: "json_depth v \<le> 10000" "json_depth w \<le> 10000"
    and no_collision: "\<And>a b. canonicalize N v = Inr a \<Longrightarrow> canonicalize N w = Inr b \<Longrightarrow> Sum256 a = Sum256 b \<Longrightarrow> a = b"
  shows "Exact N v = Exact N w \<longleftrightarrow> sort_keys v = sort_keys w"
proof
  assume eq: "Exact N v = Exact N w"
  obtain a where a: "canonicalize N v = Inr a"
    using wf_json_marshal [OF wf(1)] by (cases "canonicalize N v") (auto simp: canonicalize_marshal)
  obtain b where b: "canonicalize N w = Inr b"
    using wf_json_marshal [OF wf(2)] by (cases "canonicalize N w") (auto simp: canonicalize_marshal)
  have "Sum256 a = Sum256 b" using eq a b by (simp add: Exact_def)
  then have "a = b" by (rule no_collision [OF a b])
  then show "sort_keys v = sort_keys w" using a b wf depth by (intro canonicalize_inject) auto
next
  assume "sort_keys v = sort_keys w"
  then have "canonicalize N v = canonicalize N w" by (metis canonicalize_sort_keys)
  then show "Exact N v = Exact N w" by (simp add: Exact_def)
qed

section \<open>Properties of the component\<close>

text \<open>C15. Two calls get the same fingerprint exactly when their canonical arguments are the same
  value up to the order of object keys at every level, unless SHA-256 collides on their two
  canonical forms. Values are well formed: strings are valid UTF-8, an object has no duplicate
  key, numbers survive the decimal round trip, nesting is at most 10000 deep (what the decoder
  accepts).\<close>

theorem Exact_identifies:
  assumes wf: "wf_json N v" "wf_json N w" and depth: "json_depth v \<le> 10000" "json_depth w \<le> 10000"
    and no_collision: "\<And>a b. canonicalize N v = Inr a \<Longrightarrow> canonicalize N w = Inr b \<Longrightarrow> Sum256 a = Sum256 b \<Longrightarrow> a = b"
  shows "Exact N v = Exact N w \<longleftrightarrow> sort_keys v = sort_keys w"
  using assms by (rule Exact_eq_iff)

text \<open>A number codec for concrete instances: it knows the number zero.\<close>

definition zero_num :: json_num where
  "zero_num = \<lparr>parse_num = (\<lambda>l. if l = ''0'' then Some 0 else None), marshal_num = (\<lambda>_. ''0''),
     format_g = (\<lambda>_. ''0'')\<rparr>"

theorem Exact_identifies_witness:
  "Exact zero_num (JObj [(''to'', JStr ''a@b''), (''n'', JArr [JNum 0, JNull])]) =
   Exact zero_num (JObj [(''n'', JArr [JNum 0, JNull]), (''to'', JStr ''a@b'')])"
proof -
  let ?v = "JObj [(''to'', JStr ''a@b''), (''n'', JArr [JNum 0, JNull])]"
  let ?w = "JObj [(''n'', JArr [JNum 0, JNull]), (''to'', JStr ''a@b'')]"
  have "scan_number ''0'' = Some (''0'', [])" by code_simp
  then have n: "num_ok zero_num 0" by (simp add: num_ok_def zero_num_def f64_finite_def)
  have u: "valid_utf8 ''to''" "valid_utf8 ''n''" "valid_utf8 ''a@b''" by code_simp+
  have wf: "wf_json zero_num ?v" "wf_json zero_num ?w" using n u by simp_all
  have s: "sort_keys ?v = sort_keys ?w" by code_simp
  then have c: "canonicalize zero_num ?v = canonicalize zero_num ?w" by (metis canonicalize_sort_keys)
  show ?thesis
    using Exact_identifies [OF wf] s c by (simp del: canonicalize.simps sort_keys.simps)
qed

text \<open>The recursive canonicalizer produces, for every value, exactly what the standard encoder
  produces, errors included.\<close>

theorem canonical_form: "canonicalize N v = json_marshal N v"
  by (rule canonicalize_marshal)

text \<open>A fingerprint is 64 lower-case hexadecimal digits, whatever the value; in particular it is
  not empty and contains neither the separator of store keys nor a line break.\<close>

theorem Exact_hex:
  assumes "Exact N v = Inr h"
  shows "length h = 64 \<and> set h \<subseteq> set ''0123456789abcdef''"
  using Exact_shape [OF assms] unfolding is_hex_def by blast

theorem Exact_hex_witness:
  "\<exists>h. Exact zero_num (JBool True) = Inr h \<and> length h = 64"
proof -
  have "Exact zero_num (JBool True) = Inr (EncodeToString (Sum256 ''true''))"
    by (simp add: Exact_def marshal_bool_def)
  from this Exact_hex [OF this] show ?thesis by blast
qed

end
