(* ===== verification/Store_Properties.thy ===== *)
theory Store_Properties
  imports Store_Engines Fingerprint
begin

text \<open>
  The properties of the persistence port and its three adapters, as theorems over the model's
  definitions. The adapters' laws come from the interpretations and sublocales of \<open>store_port\<close>.
\<close>

section \<open>Storing and reading back\<close>

text \<open>C3. In-memory adapter: after a \<open>Put\<close> of an entry with a tool and a hash that are not empty and
  contain no NUL byte, \<open>Get\<close> returns that entry (with the creation time filled in if it was
  missing) until its time to live has passed and \<open>ErrNotFound\<close> from then on, and every other key
  reads as before.\<close>

theorem memory_get_put:
  assumes "keys_ok m" "Tool e \<noteq> ''''" "Hash e \<noteq> ''''" "key_ok (Tool e) (Hash e)"
    "key_ok t h" "(t, h) \<noteq> (Tool e, Hash e)"
  shows "\<exists>m'. mem_Put m None now e = (Inr (), m') \<and> keys_ok m' \<and>
    fst (mem_Get m' None now' (Tool e) (Hash e)) =
      (if Expired (stamp now e) now' then Inl ErrNotFound else Inr (stamp now e)) \<and>
    fst (mem_Get m' None now' t h) = fst (mem_Get m None now' t h)"
  using mem.get_put [OF assms(1) _ assms(2-4), of now now']
    mem.get_put_other [OF assms(1) _ assms(2-4) _ assms(5,6), of now now']
  by (auto simp: Memory_ops_def)

definition demo_entry :: Entry where
  "demo_entry = \<lparr>Tool = ''send'', Hash = ''ab'', Request = ''{}'', Response = ''ok'', StatusCode = 200,
     CreatedAt = 0, ReplayCount = 0, TTL = 60 * Second, Embedding = [0x3F800000]\<rparr>"

theorem memory_get_put_witness:
  "\<exists>m'. mem_Put NewMemory None 5 demo_entry = (Inr (), m') \<and>
     fst (mem_Get m' None 7 ''send'' ''ab'') = Inr (demo_entry\<lparr>CreatedAt := 5\<rparr>) \<and>
     fst (mem_Get m' None 7 ''send'' ''cd'') = Inl ErrNotFound"
proof -
  have k: "keys_ok NewMemory" "key_ok ''send'' ''ab''" "key_ok ''send'' ''cd''"
    by (auto simp: keys_ok_def NewMemory_def key_ok_def nul_free_def NUL_def)
  show ?thesis
    using memory_get_put [of NewMemory demo_entry "''send''" "''cd''" 5 7] k
    by (auto simp: demo_entry_def stamp_def IsZero_def Expired_def Sub_def int64_defs Second_def
        mem_Get_def NewMemory_def)
qed

text \<open>C25. BoltDB adapter, over any engine and codec that satisfy their laws: \<open>Put\<close> succeeds on an
  entry it can encode, \<open>Get\<close> returns it back until it expires, \<open>IncrementReplay\<close> adds one to its
  counter and nothing else, and after \<open>Delete\<close> it is gone.\<close>

theorem bolt_get_put:
  assumes env: "bolt_env B kv_inv K encodable"
    and b: "bolt_env.bolt_inv B kv_inv K encodable b" "kv_fault B b = None"
    and e: "Tool e \<noteq> ''''" "Hash e \<noteq> ''''" "key_ok (Tool e) (Hash e)" "bolt_env.bolt_storable encodable (stamp now e)"
      "0 \<le> ReplayCount e" "ReplayCount e < 2147483647" "\<not> Expired (stamp now e) now'"
  shows "\<exists>b'. bolt_Put B K b None now e = (Inr (), b') \<and>
    fst (bolt_Get B K b' None now' (Tool e) (Hash e)) = Inr (stamp now e) \<and>
    fst (bolt_Get B K (snd (bolt_IncrementReplay B K b' None (Tool e) (Hash e))) None now' (Tool e) (Hash e)) =
      Inr ((stamp now e)\<lparr>ReplayCount := ReplayCount e + 1\<rparr>) \<and>
    fst (bolt_Get B K (snd (bolt_Delete B b' None (Tool e) (Hash e))) None now' (Tool e) (Hash e)) = Inl ErrNotFound"
  using store_port.put_use [OF bolt_env.bolt_port [OF env] b e(1-4) e(7)] e(5,6)
  by (simp add: Bolt_ops_def)

theorem bolt_get_put_witness:
  "\<exists>b'. bolt_Put bucket_kv field_codec [] None 5 demo_entry = (Inr (), b') \<and>
     fst (bolt_Get bucket_kv field_codec b' None 7 ''send'' ''ab'') = Inr (demo_entry\<lparr>CreatedAt := 5\<rparr>)"
proof -
  have "bucket.bolt_inv []"
    unfolding bucket.bolt_inv_def by (simp add: bucket_inv_def bucket_kv_def keys_ok_def)
  moreover have "kv_fault bucket_kv [] = None" by (simp add: bucket_kv_def)
  moreover have "key_ok ''send'' ''ab''" by (simp add: key_ok_def nul_free_def NUL_def)
  moreover have "bucket.bolt_storable (stamp 5 demo_entry)"
    by (simp add: bucket.bolt_storable_def demo_entry_def stamp_def key_def MaxKeySize_def)
  moreover have "\<not> Expired (stamp 5 demo_entry) 7"
    by (simp add: demo_entry_def stamp_def IsZero_def Expired_def Sub_def int64_defs Second_def)
  ultimately show ?thesis
    using bolt_get_put [OF bucket.bolt_env_axioms, of "[]" demo_entry 5 7]
    by (auto simp: demo_entry_def stamp_def IsZero_def)
qed

text \<open>C26. PostgreSQL adapter, over any server that satisfies the laws of the statements: what \<open>Get\<close>
  returns after a \<open>Put\<close> is the entry with the creation time cut to microseconds and the time to
  live cut to milliseconds, all other fields as they were, until that entry expires.\<close>

theorem postgres_get_put:
  assumes env: "pg_engine P pg_inv rows pg_text"
    and p: "pg_inv p" "pg_fault P p = None"
    and e: "Tool e \<noteq> ''''" "Hash e \<noteq> ''''" "pg_text (Tool e)" "pg_text (Hash e)" "pg_storable (stamp now e)"
  shows "\<exists>p'. pg_Put P p None now e = (Inr (), p') \<and>
    fst (pg_Get P async p' None now' (Tool e) (Hash e)) =
      (if Expired (pg_norm (stamp now e)) now' then Inl ErrNotFound else Inr (pg_norm (stamp now e)))"
proof -
  have "pg_engine.pg_okkey pg_text (Tool e) (Hash e)" using e(3,4) by (simp add: pg_engine.pg_okkey_def [OF env])
  from store_port.get_put [OF pg_engine.pg_port [OF env] p e(1,2) this e(5), of async now']
  show ?thesis by (auto simp: Postgres_ops_def)
qed

theorem postgres_get_put_witness:
  "\<exists>p'. pg_Put table_pg [] None 5003 demo_entry = (Inr (), p') \<and>
     fst (pg_Get table_pg True p' None 7000 ''send'' ''ab'') = Inr (demo_entry\<lparr>CreatedAt := 5000\<rparr>)"
proof -
  have "pg_norm (stamp 5003 demo_entry) = demo_entry\<lparr>CreatedAt := 5000\<rparr>"
    by (simp add: demo_entry_def stamp_def IsZero_def pg_norm_def micros_def Milliseconds_def Second_def Millisecond_def)
  moreover have "\<not> Expired (demo_entry\<lparr>CreatedAt := 5000\<rparr>) 7000"
    by (simp add: demo_entry_def Expired_def Sub_def int64_defs Second_def)
  moreover have "nul_free ''send''" "nul_free ''ab''" by (simp_all add: nul_free_def NUL_def)
  moreover have "pg_storable (stamp 5003 demo_entry)"
    by (simp add: pg_storable_def stamp_def demo_entry_def in_int4_def int64_defs Second_def)
  moreover have "table_inv []" "pg_fault table_pg [] = None" by (simp_all add: table_inv_def table_pg_def)
  ultimately show ?thesis
    using postgres_get_put [OF table.pg_engine_axioms, of "[]" demo_entry 5003 True 7000]
    by (auto simp: demo_entry_def)
qed

section \<open>Expiry\<close>

text \<open>C27. No adapter serves an expired entry, whatever the state of the store and of the engine
  below it: an entry that \<open>Get\<close> returns has not outlived its time to live, and neither has one that
  \<open>Scan\<close> offers to its visitor; and a read that returns an entry changes nothing.\<close>

theorem no_expired_served:
  "(fst (mem_Get m ctx now t h) = Inr e \<longrightarrow> \<not> Expired e now \<and> snd (mem_Get m ctx now t h) = m) \<and>
   (fst (bolt_Get B K b ctx now t h) = Inr e \<longrightarrow> \<not> Expired e now \<and> snd (bolt_Get B K b ctx now t h) = b) \<and>
   (fst (pg_Get P async p ctx now t h) = Inr e \<longrightarrow> \<not> Expired e now \<and> snd (pg_Get P async p ctx now t h) = p) \<and>
   (mem_Scan m ctx now ord t = Inr es \<longrightarrow> (\<forall>x \<in> set es. \<not> Expired x now)) \<and>
   (bolt_Scan B K b ctx now ord t = Inr es \<longrightarrow> (\<forall>x \<in> set es. \<not> Expired x now)) \<and>
   (pg_Scan P p ctx now ord t = Inr es \<longrightarrow> (\<forall>x \<in> set es. \<not> Expired x now))"
proof (intro conjI)
  show "fst (mem_Get m ctx now t h) = Inr e \<longrightarrow> \<not> Expired e now \<and> snd (mem_Get m ctx now t h) = m"
    by (auto simp: mem_Get_def split: option.splits if_splits)
  show "fst (bolt_Get B K b ctx now t h) = Inr e \<longrightarrow> \<not> Expired e now \<and> snd (bolt_Get B K b ctx now t h) = b"
    by (auto simp: bolt_Get_def Let_def split: option.splits if_splits sum.splits)
  show "fst (pg_Get P async p ctx now t h) = Inr e \<longrightarrow> \<not> Expired e now \<and> snd (pg_Get P async p ctx now t h) = p"
    by (auto simp: pg_Get_def Let_def split: option.splits if_splits)
  show "mem_Scan m ctx now ord t = Inr es \<longrightarrow> (\<forall>x \<in> set es. \<not> Expired x now)"
    by (auto simp: mem_Scan_def mem_scan_loop_set split: option.splits)
  show "bolt_Scan B K b ctx now ord t = Inr es \<longrightarrow> (\<forall>x \<in> set es. \<not> Expired x now)"
    by (auto simp: bolt_Scan_def Let_def bolt_scan_loop_set split: option.splits)
  show "pg_Scan P p ctx now ord t = Inr es \<longrightarrow> (\<forall>x \<in> set es. \<not> Expired x now)"
    by (auto simp: pg_Scan_def pg_scan_loop_set split: option.splits)
qed

theorem no_expired_served_witness:
  "fst (mem_Get [key ''send'' ''ab'' \<mapsto> demo_entry] None 7 ''send'' ''ab'') = Inr demo_entry \<and> \<not> Expired demo_entry 7"
proof -
  have "fst (mem_Get [key ''send'' ''ab'' \<mapsto> demo_entry] None 7 ''send'' ''ab'') = Inr demo_entry"
    by (simp add: mem_Get_def demo_entry_def Expired_def Sub_def int64_defs Second_def)
  with no_expired_served [where m = "[key ''send'' ''ab'' \<mapsto> demo_entry]" and ctx = None and now = 7 and
      t = "''send''" and h = "''ab''" and e = demo_entry, THEN conjunct1]
  show ?thesis by simp
qed

text \<open>C40. Compaction of the BoltDB file, over any lawful engine and codec and with no writer between its two
  transactions: the read pass finds exactly the expired entries, the write pass removes them, every other entry stays
  as it is, and the number reported is the number removed.\<close>

theorem bolt_compact_exact:
  assumes env: "bolt_env B kv_inv K encodable"
    and b: "bolt_env.bolt_inv B kv_inv K encodable b" "kv_fault B b = None"
  shows "\<exists>b'. bolt_Compact B K b None now =
      (Inr (card {k. \<exists>e. bolt_env.entries B K b k = Some e \<and> Expired e now}), b') \<and>
    (\<forall>k. bolt_env.entries B K b' k =
      (case bolt_env.entries B K b k of None \<Rightarrow> None | Some e \<Rightarrow> if Expired e now then None else Some e))"
  using bolt_env.compact_effect [OF env b, of now] by auto

text \<open>A file with two entries, of which one has outlived its minute.\<close>

theorem bolt_compact_exact_witness:
  "\<exists>v w b'. bolt_Compact bucket_kv field_codec [(key ''send'' ''ab'', v), (key ''send'' ''cd'', w)] None (100 * Second) = (Inr 1, b') \<and>
     bucket.entries b' (key ''send'' ''ab'') = None \<and>
     bucket.entries b' (key ''send'' ''cd'') = Some (demo_entry\<lparr>Hash := ''cd'', CreatedAt := 90 * Second\<rparr>)"
proof -
  let ?e = "demo_entry\<lparr>Hash := ''cd'', CreatedAt := 90 * Second\<rparr>" and ?k = "key ''send'' ''ab''" and ?l = "key ''send'' ''cd''"
  obtain v where v: "unmarshal_entry field_codec v = Inr demo_entry" using field_codec_roundtrip by blast
  obtain w where w: "unmarshal_entry field_codec w = Inr ?e" using field_codec_roundtrip by blast
  let ?b = "[(?k, v), (?l, w)]"
  have k: "?k \<noteq> ?l" "?k < ?l" "length ?k \<le> MaxKeySize" "length ?l \<le> MaxKeySize" by (simp_all add: key_def MaxKeySize_def)
  have ok: "key_ok ''send'' ''ab''" "key_ok ''send'' ''cd''" by (simp_all add: key_ok_def nul_free_def NUL_def)
  have inv: "bucket.bolt_inv ?b"
    unfolding bucket.bolt_inv_def using k ok v w by (auto simp: bucket_inv_def bucket_kv_def keys_ok_def)
  have e: "bucket.entries ?b k = (if k = ?k then Some demo_entry else if k = ?l then Some ?e else None)" for k
    unfolding bucket.entries_def using k v w by (simp add: bucket_kv_def)
  have x: "Expired demo_entry (100 * Second)" "\<not> Expired ?e (100 * Second)"
    by (simp_all add: demo_entry_def Expired_def Sub_def int64_defs Second_def)
  have c: "{k. \<exists>e. bucket.entries ?b k = Some e \<and> Expired e (100 * Second)} = {?k}"
    using x k(1) unfolding e by (auto split: if_splits)
  obtain b' where b': "bolt_Compact bucket_kv field_codec ?b None (100 * Second) = (Inr 1, b')"
      "\<forall>k. bucket.entries b' k = (case bucket.entries ?b k of None \<Rightarrow> None | Some e \<Rightarrow> if Expired e (100 * Second) then None else Some e)"
    using bolt_compact_exact [OF bucket.bolt_env_axioms inv, of "100 * Second"] unfolding c by (auto simp: bucket_kv_def)
  have "bucket.entries b' ?k = None" "bucket.entries b' ?l = Some ?e"
    using x k(1) by (simp_all add: b'(2) e)
  with b'(1) show ?thesis by blast
qed

end
