(* ===== verification/Store_Lifecycle.thy ===== *)
theory Store_Lifecycle
  imports Store_Properties
begin

text \<open>
  Opening and compacting: \<open>OpenPostgres\<close> with \<open>migrate\<close> (\<open>internal/store/postgres.go\<close>) and the background compactor over
  the PostgreSQL adapter. What the driver answers at each call is a parameter; the log holds what happens to the
  connection pool.
\<close>

section \<open>Opening\<close>

record pg_driver =
  d_parse :: "unit result"
  d_connect :: "unit result"
  d_ping :: "unit result"
  d_create :: "unit result"       \<comment> \<open>\<open>Exec\<close> of the schema\<close>

datatype pool_action = PoolOpened | PoolClosed

definition migrate :: "pg_driver \<Rightarrow> unit result" where
  "migrate D = (case d_create D of Inl err \<Rightarrow> Inl (Wrapped ''postgres: migrate'' err) | Inr _ \<Rightarrow> Inr ())"

definition OpenPostgres :: "pg_driver \<Rightarrow> unit result \<times> pool_action list" where
  "OpenPostgres D =
     (case d_parse D of
        Inl err \<Rightarrow> (Inl (Wrapped ''postgres: parse dsn'' err), [])
      | Inr _ \<Rightarrow>
          (case d_connect D of
             Inl err \<Rightarrow> (Inl (Wrapped ''postgres: connect'' err), [])
           | Inr _ \<Rightarrow>
               (case d_ping D of
                  Inl err \<Rightarrow> (Inl (Wrapped ''postgres: ping'' err), [PoolOpened, PoolClosed])
                | Inr _ \<Rightarrow>
                    (case migrate D of
                       Inl err \<Rightarrow> (Inl err, [PoolOpened, PoolClosed])
                     | Inr _ \<Rightarrow> (Inr (), [PoolOpened])))))"

text \<open>A pool that was opened stays open exactly when the store is returned; it is returned exactly when nothing failed.\<close>

lemma OpenPostgres_pool:
  "count_list (snd (OpenPostgres D)) PoolOpened - count_list (snd (OpenPostgres D)) PoolClosed = (if is_ok (fst (OpenPostgres D)) then 1 else 0)"
  "is_ok (fst (OpenPostgres D)) \<longleftrightarrow> is_ok (d_parse D) \<and> is_ok (d_connect D) \<and> is_ok (d_ping D) \<and> is_ok (d_create D)"
  by (auto simp: OpenPostgres_def migrate_def split: sum.split)

section \<open>Compacting in the background\<close>

definition pg_RunCompactor :: "'p pg_ops \<Rightarrow> duration \<Rightarrow> 'p \<Rightarrow> ticker_event list \<Rightarrow> nat result list \<times> 'p" where
  "pg_RunCompactor P interval p evs = RunCompactor (\<lambda>p now. pg_Compact P p None now) interval p evs"

text \<open>The instants at which the compactor works.\<close>

fun ticks :: "ticker_event list \<Rightarrow> time list" where
  "ticks [] = []"
| "ticks (CtxDone # evs) = []"
| "ticks (Tick now # evs) = now # ticks evs"

definition lapsed_at :: "time list \<Rightarrow> pg_row \<Rightarrow> bool" where
  "lapsed_at nows r \<longleftrightarrow> (\<exists>now \<in> set nows. row_lapsed (micros now) r)"

context pg_engine
begin

lemma compact_rows:
  assumes "pg_inv p" "pg_fault P p = None"
  shows "\<exists>n p'. pg_Compact P p None now = (Inr n, p') \<and> pg_inv p' \<and> pg_fault P p' = None \<and>
    (\<forall>th. rows p' th = (case rows p th of None \<Rightarrow> None | Some r \<Rightarrow> if row_lapsed (micros now) r then None else Some r))"
  using delete_expired [OF assms(1), of "micros now"] assms(2) by (auto simp: pg_Compact_def)

lemma compactor_rows:
  assumes "pg_inv p" "pg_fault P p = None"
  shows "\<exists>outs p'. compactor_loop (\<lambda>p now. pg_Compact P p None now) p evs = (outs, p') \<and> pg_inv p' \<and> list_all is_ok outs \<and>
    length outs = length (ticks evs) \<and>
    (\<forall>th. rows p' th = (case rows p th of None \<Rightarrow> None | Some r \<Rightarrow> if lapsed_at (ticks evs) r then None else Some r))"
  using assms
proof (induction evs arbitrary: p)
  case Nil
  then show ?case by (auto simp: lapsed_at_def split: option.split)
next
  case (Cons ev evs)
  show ?case
  proof (cases ev)
    case CtxDone
    then show ?thesis using Cons.prems by (auto simp: lapsed_at_def split: option.split)
  next
    case (Tick now)
    obtain n p1 where 1: "pg_Compact P p None now = (Inr n, p1)" "pg_inv p1" "pg_fault P p1 = None"
        "\<forall>th. rows p1 th = (case rows p th of None \<Rightarrow> None | Some r \<Rightarrow> if row_lapsed (micros now) r then None else Some r)"
      using compact_rows [OF Cons.prems] by blast
    obtain outs p' where 2: "compactor_loop (\<lambda>p now. pg_Compact P p None now) p1 evs = (outs, p')" "pg_inv p'" "list_all is_ok outs"
        "length outs = length (ticks evs)"
        "\<forall>th. rows p' th = (case rows p1 th of None \<Rightarrow> None | Some r \<Rightarrow> if lapsed_at (ticks evs) r then None else Some r)"
      using Cons.IH [OF 1(2,3)] by blast
    have "rows p' th = (case rows p th of None \<Rightarrow> None | Some r \<Rightarrow> if lapsed_at (ticks (ev # evs)) r then None else Some r)" for th
      using spec [OF 1(4), of th] spec [OF 2(5), of th] by (simp add: Tick lapsed_at_def split: option.splits if_splits)
    then show ?thesis using 1(1) 2(1-4) by (simp add: Tick)
  qed
qed

end

section \<open>Properties of the component\<close>

text \<open>The compactor of the PostgreSQL adapter over any lawful engine, whatever ticks it gets until its context ends: no
  round fails; a row is gone afterwards exactly when it had lapsed at one of the ticks, and all other rows are as
  they were; and every row it removed held an entry that a reader at that tick would have found expired.\<close>

theorem pg_compactor_exact:
  assumes env: "pg_engine P pg_inv rows pg_text" and p: "pg_inv p" "pg_fault P p = None" "0 < interval"
    and ttl: "\<forall>th r. rows p th = Some r \<longrightarrow> in_int64 (r_ttl_ms r * Millisecond)"
  shows "\<exists>outs p'. pg_RunCompactor P interval p evs = (outs, p') \<and> pg_inv p' \<and> list_all is_ok outs \<and>
    (\<forall>th. rows p' th = (case rows p th of None \<Rightarrow> None | Some r \<Rightarrow> if lapsed_at (ticks evs) r then None else Some r)) \<and>
    (\<forall>t h r. rows p (t, h) = Some r \<and> rows p' (t, h) = None \<longrightarrow> (\<exists>now \<in> set (ticks evs). Expired (of_row t h r) now))"
proof -
  obtain outs p' where c: "compactor_loop (\<lambda>p now. pg_Compact P p None now) p evs = (outs, p')" "pg_inv p'" "list_all is_ok outs"
      "\<forall>th. rows p' th = (case rows p th of None \<Rightarrow> None | Some r \<Rightarrow> if lapsed_at (ticks evs) r then None else Some r)"
    using pg_engine.compactor_rows [OF env p(1,2), of evs] by blast
  have "\<exists>now \<in> set (ticks evs). Expired (of_row t h r) now" if "rows p (t, h) = Some r" "rows p' (t, h) = None" for t h r
  proof -
    have "lapsed_at (ticks evs) r" using that spec [OF c(4), of "(t, h)"] by (simp split: if_splits)
    then obtain now where "now \<in> set (ticks evs)" "row_lapsed (micros now) r" by (auto simp: lapsed_at_def)
    then show ?thesis using lapsed_expired ttl that(1) by blast
  qed
  moreover have "pg_RunCompactor P interval p evs = (outs, p')" using c(1) p(3) by (simp add: pg_RunCompactor_def RunCompactor_def)
  ultimately show ?thesis using c(2-4) by blast
qed

theorem pg_compactor_exact_witness:
  "\<exists>outs p'. pg_RunCompactor table_pg Second [((''send'', ''ab''), to_row demo_entry)] [Tick (100 * Second), CtxDone] = (outs, p') \<and>
     map_of p' (''send'', ''ab'') = None"
proof -
  let ?p = "[((''send'', ''ab''), to_row demo_entry)]"
  have inv: "table_inv ?p" "pg_fault table_pg ?p = None" by (simp_all add: table_inv_def table_pg_def nul_free_def NUL_def)
  have ttl: "\<forall>th r. map_of ?p th = Some r \<longrightarrow> in_int64 (r_ttl_ms r * Millisecond)"
  proof (intro allI impI)
    fix th r
    assume "map_of ?p th = Some r"
    then have "r = to_row demo_entry" by (simp split: if_splits)
    then show "in_int64 (r_ttl_ms r * Millisecond)" by (simp add: to_row_def demo_entry_def int64_defs Millisecond_def Milliseconds_def go_div_def Second_def)
  qed
  have l: "lapsed_at (ticks [Tick (100 * Second), CtxDone]) (to_row demo_entry)"
    by (simp add: lapsed_at_def row_lapsed_def to_row_def demo_entry_def micros_def Milliseconds_def go_div_def Second_def)
  have i: "0 < Second" by (simp add: Second_def)
  note e = pg_compactor_exact [where P = table_pg and pg_inv = table_inv and rows = map_of and pg_text = nul_free and p = "?p" and
      interval = Second and evs = "[Tick (100 * Second), CtxDone]", OF table.pg_engine_axioms inv i ttl]
  obtain outs p' where "pg_RunCompactor table_pg Second ?p [Tick (100 * Second), CtxDone] = (outs, p')"
      "\<forall>th. map_of p' th = (case map_of ?p th of None \<Rightarrow> None
         | Some r \<Rightarrow> if lapsed_at (ticks [Tick (100 * Second), CtxDone]) r then None else Some r)"
    using e by (elim exE conjE) (rule that)
  with l show ?thesis by (intro exI [of _ outs] exI [of _ p']) simp
qed

end
