(* ===== verification/Audit_Log.thy ===== *)
theory Audit_Log
  imports Strconv Store
begin

text \<open>
  \<open>internal/audit\<close>: records of policy decisions, the writer that fans a record out to its sinks, the
  file sink and the loop of the S3 sink (its callers are in \<open>S3_Sink\<close>). The encoder of a record (\<open>encoding/json\<close> on the struct, one line per
  record) is a parameter \<open>enc\<close> that may fail (a similarity that is not a number).

  A file sink is a bounded channel between the callers of \<open>Write\<close> and one goroutine that writes to
  the file. Its behaviour is a step relation: the two selects of \<open>Write\<close>, the two closes of
  \<open>Close\<close> and the goroutine are separate steps, so every interleaving is a run. The S3 sink is the
  loop of its goroutine as a function of the events its select receives.
\<close>

section \<open>Records and the writer\<close>

record Record =
  a_Timestamp :: time
  a_Tool :: bytes
  a_Mode :: bytes
  a_Decision :: bytes
  a_Match :: bytes
  a_Similarity :: f32
  a_Hash :: bytes
  a_Protocol :: bytes
  a_Shadow :: bool
  a_WouldDecision :: bytes
  a_TraceID :: bytes

text \<open>The Go interface \<open>Sink\<close>; \<open>'k\<close> is the state of a sink.\<close>

record 'k sink_ops =
  k_Write :: "'k \<Rightarrow> Record \<Rightarrow> unit result \<times> 'k"
  k_Close :: "'k \<Rightarrow> ctx \<Rightarrow> unit result \<times> 'k"

record 'k Writer =
  sinks :: "'k list"
  w_closed :: bool

definition NewWriter :: "'k list \<Rightarrow> 'k Writer" where
  "NewWriter ks = \<lparr>sinks = ks, w_closed = False\<rparr>"

definition w_Write :: "'k sink_ops \<Rightarrow> 'k Writer \<Rightarrow> time \<Rightarrow> Record \<Rightarrow> 'k Writer" where
  "w_Write K w now r =
     (if w_closed w then w
      else let r' = (if IsZero (a_Timestamp r) then r\<lparr>a_Timestamp := now\<rparr> else r)
           in w\<lparr>sinks := map (\<lambda>k. snd (k_Write K k r')) (sinks w)\<rparr>)"

fun close_loop :: "'k sink_ops \<Rightarrow> ctx \<Rightarrow> 'k list \<Rightarrow> go_error option \<Rightarrow> go_error option \<times> 'k list" where
  "close_loop K ctx [] firstErr = (firstErr, [])"
| "close_loop K ctx (k # ks) firstErr =
     (let (res, k') = k_Close K k ctx;
          err = (case res of Inl e \<Rightarrow> if firstErr = None then Some e else firstErr | Inr _ \<Rightarrow> firstErr);
          (final, ks') = close_loop K ctx ks err
      in (final, k' # ks'))"

definition w_Close :: "'k sink_ops \<Rightarrow> 'k Writer \<Rightarrow> ctx \<Rightarrow> go_error option \<times> 'k Writer" where
  "w_Close K w ctx =
     (let (err, ks) = close_loop K ctx (sinks w) None in (err, w\<lparr>sinks := ks, w_closed := True\<rparr>))"

section \<open>The file sink\<close>

definition errSinkClosed :: go_error where
  "errSinkClosed = ErrMsg ''audit: sink closed''"

text \<open>Where a call of \<open>Write\<close> stands: before its first select, between the two, or back.\<close>

datatype call = Idle | Enter Record | Passed Record | Returned "unit result" | Panicked

record fileSink =
  ch :: "Record list"
  cap :: nat
  s_closed :: bool          \<comment> \<open>\<open>closed\<close> is closed\<close>
  ch_closed :: bool         \<comment> \<open>\<open>ch\<close> is closed\<close>
  dst :: bytes              \<comment> \<open>what the encoder was handed since the file was opened\<close>
  handled :: "Record list"  \<comment> \<open>what the goroutine has received, in order\<close>
  accepted :: "Record list" \<comment> \<open>what \<open>Write\<close> has put into the channel, in order\<close>
  wg_done :: bool
  calls :: "nat \<Rightarrow> call"

definition newFileSinkWriter :: "int \<Rightarrow> fileSink" where
  "newFileSinkWriter capacity =
     \<lparr>ch = [], cap = nat (if capacity \<le> 0 then 1 else capacity), s_closed = False, ch_closed = False,
      dst = '''', handled = [], accepted = [], wg_done = False, calls = (\<lambda>_. Idle)\<rparr>"

text \<open>\<open>stat\<close> and \<open>opened\<close> are the answers of the file system.\<close>

definition NewFileSink :: "bytes \<Rightarrow> int \<Rightarrow> (unit result) option \<Rightarrow> unit result \<Rightarrow> fileSink result" where
  "NewFileSink path capacity stat opened =
     (if path = '''' then Inl (ErrMsg ''audit: file sink path is required'')
      else let c = (if capacity \<le> 0 then 1024 else capacity) in
           case stat of
             Some (Inl err) \<Rightarrow> Inl (Wrapped ''audit: parent dir'' err)
           | _ \<Rightarrow> (case opened of
                      Inl err \<Rightarrow> Inl (Wrapped ''audit: open'' err)
                    | Inr _ \<Rightarrow> Inr (newFileSinkWriter c)))"

text \<open>A writer with that file sink alone, and the writer that discards.\<close>

definition Open :: "bytes \<Rightarrow> int \<Rightarrow> (unit result) option \<Rightarrow> unit result \<Rightarrow> fileSink Writer result" where
  "Open path capacity stat opened =
     (case NewFileSink path capacity stat opened of Inl err \<Rightarrow> Inl err | Inr s \<Rightarrow> Inr (NewWriter [s]))"

definition NewDiscard :: "'k Writer" where "NewDiscard = NewWriter []"

lemma discard_keeps [simp]: "w_Write K NewDiscard now r = NewDiscard" "fst (w_Close K NewDiscard ctx) = None"
  by (simp_all add: w_Write_def w_Close_def NewDiscard_def NewWriter_def Let_def)

text \<open>\<open>enc.Encode(r)\<close>, whose error the goroutine ignores.\<close>

definition encode_line :: "(Record \<Rightarrow> bytes option) \<Rightarrow> Record \<Rightarrow> bytes" where
  "encode_line enc r = (case enc r of Some b \<Rightarrow> b @ [CHR 0x0A] | None \<Rightarrow> [])"

inductive fs_step :: "(Record \<Rightarrow> bytes option) \<Rightarrow> fileSink \<Rightarrow> fileSink \<Rightarrow> bool" for enc where
  call: "calls s t = Idle \<Longrightarrow> fs_step enc s (s\<lparr>calls := (calls s)(t := Enter r)\<rparr>)"
| refused: "calls s t = Enter r \<Longrightarrow> s_closed s \<Longrightarrow>
    fs_step enc s (s\<lparr>calls := (calls s)(t := Returned (Inl errSinkClosed))\<rparr>)"
| pass: "calls s t = Enter r \<Longrightarrow> \<not> s_closed s \<Longrightarrow> fs_step enc s (s\<lparr>calls := (calls s)(t := Passed r)\<rparr>)"
| send: "calls s t = Passed r \<Longrightarrow> \<not> ch_closed s \<Longrightarrow> length (ch s) < cap s \<Longrightarrow>
    fs_step enc s (s\<lparr>ch := ch s @ [r], accepted := accepted s @ [r], calls := (calls s)(t := Returned (Inr ()))\<rparr>)"
| send_closed: "calls s t = Passed r \<Longrightarrow> ch_closed s \<Longrightarrow> fs_step enc s (s\<lparr>calls := (calls s)(t := Panicked)\<rparr>)"
| abandon: "calls s t = Passed r \<Longrightarrow> s_closed s \<Longrightarrow>
    fs_step enc s (s\<lparr>calls := (calls s)(t := Returned (Inl errSinkClosed))\<rparr>)"
| close_closed: "\<not> s_closed s \<Longrightarrow> fs_step enc s (s\<lparr>s_closed := True\<rparr>)"
| close_ch: "s_closed s \<Longrightarrow> \<not> ch_closed s \<Longrightarrow> fs_step enc s (s\<lparr>ch_closed := True\<rparr>)"
| receive: "ch s = r # rest \<Longrightarrow>
    fs_step enc s (s\<lparr>ch := rest, dst := dst s @ encode_line enc r, handled := handled s @ [r]\<rparr>)"
| finish: "ch s = [] \<Longrightarrow> ch_closed s \<Longrightarrow> \<not> wg_done s \<Longrightarrow> fs_step enc s (s\<lparr>wg_done := True\<rparr>)"

inductive fs_reach :: "(Record \<Rightarrow> bytes option) \<Rightarrow> int \<Rightarrow> fileSink \<Rightarrow> bool" for enc c where
  init: "fs_reach enc c (newFileSinkWriter c)"
| step: "fs_reach enc c s \<Longrightarrow> fs_step enc s s' \<Longrightarrow> fs_reach enc c s'"

text \<open>\<open>Close\<close> waits for the goroutine or for its context.\<close>

definition fs_Close_result :: "fileSink \<Rightarrow> ctx \<Rightarrow> unit result option" where
  "fs_Close_result s ctx =
     (if wg_done s then Some (Inr ()) else case ctx of Some err \<Rightarrow> Some (Inl err) | None \<Rightarrow> None)"

definition fs_inv :: "(Record \<Rightarrow> bytes option) \<Rightarrow> int \<Rightarrow> fileSink \<Rightarrow> bool" where
  "fs_inv enc c s \<longleftrightarrow>
     handled s @ ch s = accepted s \<and> dst s = concat (map (encode_line enc) (handled s)) \<and>
     cap s = nat (if c \<le> 0 then 1 else c) \<and> length (ch s) \<le> cap s \<and>
     (ch_closed s \<longrightarrow> s_closed s) \<and> (wg_done s \<longrightarrow> ch_closed s \<and> ch s = [])"

lemma fs_inv_init: "fs_inv enc c (newFileSinkWriter c)"
  by (simp add: fs_inv_def newFileSinkWriter_def)

lemma fs_inv_step: "fs_step enc s s' \<Longrightarrow> fs_inv enc c s \<Longrightarrow> fs_inv enc c s'"
proof (induction rule: fs_step.induct)
  case (receive s r rest)
  then have "accepted s = handled s @ r # rest" by (simp add: fs_inv_def)
  with receive show ?case by (simp add: fs_inv_def)
next
  case (send s t r)
  then have "accepted s = handled s @ ch s" by (simp add: fs_inv_def)
  with send show ?case by (simp add: fs_inv_def)
qed (auto simp: fs_inv_def)

lemma fs_inv_reach: "fs_reach enc c s \<Longrightarrow> fs_inv enc c s"
  by (induction rule: fs_reach.induct) (auto intro: fs_inv_init fs_inv_step)

text \<open>The goroutine empties the channel.\<close>

lemma fs_drain:
  "\<exists>s'. (fs_step enc)\<^sup>*\<^sup>* s s' \<and> ch s' = [] \<and> handled s' = handled s @ ch s \<and> ch_closed s' = ch_closed s \<and>
     wg_done s' = wg_done s \<and> accepted s' = accepted s"
proof (induction "ch s" arbitrary: s)
  case Nil
  then show ?case by (intro exI [of _ s]) auto
next
  case (Cons r rest)
  let ?s = "s\<lparr>ch := rest, dst := dst s @ encode_line enc r, handled := handled s @ [r]\<rparr>"
  have st: "fs_step enc s ?s" using Cons.hyps(2) by (intro fs_step.receive) simp
  from Cons.hyps(1) [of ?s] obtain s' where "(fs_step enc)\<^sup>*\<^sup>* ?s s'" "ch s' = []"
      "handled s' = handled ?s @ ch ?s" "ch_closed s' = ch_closed ?s" "wg_done s' = wg_done ?s" "accepted s' = accepted ?s"
    by auto
  with st Cons.hyps(2) show ?case by (intro exI [of _ s']) (auto intro: converse_rtranclp_into_rtranclp)
qed

text \<open>Once the channel is closed the goroutine can run to its end.\<close>

lemma fs_runs_out:
  assumes "fs_reach enc c s" "ch_closed s"
  shows "\<exists>s'. (fs_step enc)\<^sup>*\<^sup>* s s' \<and> wg_done s' \<and> handled s' = accepted s \<and> accepted s' = accepted s"
proof -
  obtain s1 where s1: "(fs_step enc)\<^sup>*\<^sup>* s s1" "ch s1 = []" "handled s1 = handled s @ ch s" "ch_closed s1 = ch_closed s"
      "accepted s1 = accepted s"
    using fs_drain [of enc s] by blast
  have a: "handled s1 = accepted s" using fs_inv_reach [OF assms(1)] s1(3) by (simp add: fs_inv_def)
  show ?thesis
  proof (cases "wg_done s1")
    case True
    with s1 a show ?thesis by blast
  next
    case False
    then have "fs_step enc s1 (s1\<lparr>wg_done := True\<rparr>)" using s1 assms(2) by (intro fs_step.finish) auto
    with s1 a show ?thesis by (intro exI [of _ "s1\<lparr>wg_done := True\<rparr>"]) auto
  qed
qed

text \<open>The goroutine's own steps, and how many it has left.\<close>

inductive goroutine_step :: "(Record \<Rightarrow> bytes option) \<Rightarrow> fileSink \<Rightarrow> fileSink \<Rightarrow> bool" for enc where
  g_receive: "ch s = r # rest \<Longrightarrow>
    goroutine_step enc s (s\<lparr>ch := rest, dst := dst s @ encode_line enc r, handled := handled s @ [r]\<rparr>)"
| g_finish: "ch s = [] \<Longrightarrow> ch_closed s \<Longrightarrow> \<not> wg_done s \<Longrightarrow> goroutine_step enc s (s\<lparr>wg_done := True\<rparr>)"

definition goroutine_left :: "fileSink \<Rightarrow> nat" where
  "goroutine_left s = length (ch s) + (if wg_done s then 0 else 1)"

lemma goroutine_fs: "goroutine_step enc s s' \<Longrightarrow> fs_step enc s s'"
  by (induction rule: goroutine_step.induct) (auto intro: fs_step.intros)

lemma goroutine_progress: "goroutine_step enc s s' \<Longrightarrow> goroutine_left s' < goroutine_left s"
  by (induction rule: goroutine_step.induct) (auto simp: goroutine_left_def)

lemma goroutine_enabled: "ch_closed s \<Longrightarrow> goroutine_left s \<noteq> 0 \<Longrightarrow> \<exists>s'. goroutine_step enc s s'"
  by (cases "ch s") (auto simp: goroutine_left_def intro: goroutine_step.intros split: if_splits)

text \<open>Once the channel is closed nothing is accepted any more.\<close>

lemma closed_step: "fs_step enc s s' \<Longrightarrow> ch_closed s \<Longrightarrow> ch_closed s' \<and> accepted s' = accepted s"
  by (induction rule: fs_step.induct) auto

lemma left_step: "fs_step enc s s' \<Longrightarrow> ch_closed s \<Longrightarrow> goroutine_left s' \<le> goroutine_left s"
  by (induction rule: fs_step.induct) (auto simp: goroutine_left_def)

section \<open>A file that can fail\<close>

text \<open>\<open>fs_step\<close> says what the goroutine hands to its encoder; \<open>dst\<close> is the file when every write succeeds, counted from
  the moment it was opened. Here is the file itself. It is opened for appending, so it keeps the content it had, and a
  write can fail half-way: the encoder then keeps the error and writes nothing more, while the goroutine, which
  ignores it, goes on receiving.\<close>

record file_sink =
  fsink :: fileSink
  on_disk :: bytes
  enc_err :: bool

inductive ff_step :: "(Record \<Rightarrow> bytes option) \<Rightarrow> file_sink \<Rightarrow> file_sink \<Rightarrow> bool" for enc where
  ff_other: "fs_step enc (fsink F) s \<Longrightarrow> handled s = handled (fsink F) \<Longrightarrow> ff_step enc F (F\<lparr>fsink := s\<rparr>)"
| ff_written: "ch (fsink F) = r # rest \<Longrightarrow> goroutine_step enc (fsink F) s \<Longrightarrow> \<not> enc_err F \<Longrightarrow>
    ff_step enc F (F\<lparr>fsink := s, on_disk := on_disk F @ encode_line enc r\<rparr>)"
| ff_failed: "ch (fsink F) = r # rest \<Longrightarrow> goroutine_step enc (fsink F) s \<Longrightarrow> \<not> enc_err F \<Longrightarrow> encode_line enc r = part @ missing \<Longrightarrow>
    missing \<noteq> [] \<Longrightarrow> ff_step enc F (F\<lparr>fsink := s, on_disk := on_disk F @ part, enc_err := True\<rparr>)"
| ff_stuck: "ch (fsink F) = r # rest \<Longrightarrow> goroutine_step enc (fsink F) s \<Longrightarrow> enc_err F \<Longrightarrow> ff_step enc F (F\<lparr>fsink := s\<rparr>)"

inductive ff_reach :: "(Record \<Rightarrow> bytes option) \<Rightarrow> int \<Rightarrow> bytes \<Rightarrow> file_sink \<Rightarrow> bool" for enc c old where
  ff_open: "ff_reach enc c old \<lparr>fsink = newFileSinkWriter c, on_disk = old, enc_err = False\<rparr>"
| ff_next: "ff_reach enc c old F \<Longrightarrow> ff_step enc F F' \<Longrightarrow> ff_reach enc c old F'"

inductive_cases goroutine_receiveE: "goroutine_step enc s s'"

lemma goroutine_dst: "goroutine_step enc s s' \<Longrightarrow> ch s = r # rest \<Longrightarrow> dst s' = dst s @ encode_line enc r"
  by (auto elim: goroutine_receiveE)

lemma other_dst: "fs_step enc s s' \<Longrightarrow> handled s' = handled s \<Longrightarrow> dst s' = dst s"
  by (induction rule: fs_step.induct) auto

text \<open>Whatever the file does, the sink is in a state of \<open>fs_reach\<close>. The file is what it held, followed by a prefix of
  what was handed to it, and by all of it as long as no write has failed. \<open>Close\<close> does not tell.\<close>

theorem file_sink_prefix:
  assumes "ff_reach enc c old F"
  shows "fs_reach enc c (fsink F) \<and> (\<exists>lost. on_disk F @ lost = old @ dst (fsink F) \<and> (\<not> enc_err F \<longrightarrow> lost = []))"
  using assms
proof (induction rule: ff_reach.induct)
  case ff_open
  then show ?case by (simp add: fs_reach.init) (simp add: newFileSinkWriter_def)
next
  case (ff_next F F')
  then obtain lost where l: "on_disk F @ lost = old @ dst (fsink F)" "\<not> enc_err F \<longrightarrow> lost = []" and r: "fs_reach enc c (fsink F)"
    by blast
  from ff_next.hyps(2) show ?case
  proof cases
    case (ff_other s)
    then show ?thesis using l r other_dst [OF ff_other(2,3)] by (auto intro: fs_reach.step)
  next
    case (ff_written r' rest s)
    then show ?thesis using l fs_reach.step [OF r goroutine_fs] goroutine_dst [OF ff_written(3,2)] by auto
  next
    case (ff_failed r' rest s part missing)
    then have "on_disk F' @ missing = old @ dst (fsink F')" using l goroutine_dst [OF ff_failed(3,2)] by auto
    then show ?thesis using ff_failed fs_reach.step [OF r goroutine_fs [OF ff_failed(3)]] by auto
  next
    case (ff_stuck r' rest s)
    have "on_disk F' @ (lost @ encode_line enc r') = old @ dst (fsink F')"
      using l(1) goroutine_dst [OF ff_stuck(3,2)] ff_stuck(1) by (simp flip: append_assoc)
    then show ?thesis using ff_stuck fs_reach.step [OF r goroutine_fs [OF ff_stuck(3)]] by auto
  qed
qed

section \<open>The S3 sink\<close>

definition ParseS3URL :: "bytes \<Rightarrow> (bytes \<times> bytes) result" where
  "ParseS3URL raw =
     (if \<not> HasPrefix raw ''s3://'' then Inl (ErrMsg ''audit: s3 url must start with s3://'')
      else let rest = TrimPrefix raw ''s3://'' in
           if rest = '''' then Inl (ErrMsg ''audit: s3 url has no bucket'')
           else let (bucket, prefix) =
                      (case Index rest (CHR ''/'') of
                         Some i \<Rightarrow> (take i rest, drop (i + 1) rest)
                       | None \<Rightarrow> (rest, ''''))
                in if bucket = '''' then Inl (ErrMsg ''audit: s3 url has empty bucket'')
                   else Inr (bucket, TrimSuffix prefix ''/''))"

record S3SinkOptions =
  Bucket :: bytes
  Prefix :: bytes
  FlushInterval :: duration
  FlushBytes :: int
  Capacity :: int

definition NewS3Sink :: "S3SinkOptions \<Rightarrow> unit result \<Rightarrow> S3SinkOptions result" where
  "NewS3Sink opts client =
     (if Bucket opts = '''' then Inl (ErrMsg ''audit: s3 bucket is required'')
      else case client of
             Inl err \<Rightarrow> Inl (Wrapped ''audit: load aws config'' err)
           | Inr _ \<Rightarrow>
               Inr (opts\<lparr>FlushInterval := (if FlushInterval opts \<le> 0 then 5 * Minute else FlushInterval opts),
                         FlushBytes := (if FlushBytes opts \<le> 0 then 5 * 1024 * 1024 else FlushBytes opts),
                         Capacity := (if Capacity opts \<le> 0 then 1024 else Capacity opts),
                         Prefix := TrimSuffix (Prefix opts) ''/''\<rparr>))"

text \<open>The civil date of a day counted from 1 January of year 1 (\<open>time.Time.Date\<close>).\<close>

definition civil :: "int \<Rightarrow> int \<times> int \<times> int" where
  "civil days =
     (let z = days + 306; era = z div 146097; doe = z mod 146097;
          yoe = (doe - doe div 1460 + doe div 36524 - doe div 146096) div 365;
          doy = doe - (365 * yoe + yoe div 4 - yoe div 100);
          mp = (5 * doy + 2) div 153;
          m = (if mp < 10 then mp + 3 else mp - 9)
      in (yoe + era * 400 + (if m \<le> 2 then 1 else 0), m, doy - (153 * mp + 2) div 5 + 1))"

definition pad :: "nat \<Rightarrow> int \<Rightarrow> bytes" where
  "pad n x = replicate (n - length (Itoa x)) (CHR ''0'') @ Itoa x"

definition partitionKey :: "bytes \<Rightarrow> time \<Rightarrow> time \<Rightarrow> bytes" where
  "partitionKey prefix now t0 =
     (let t = (if IsZero t0 then now else t0);
          secs = t div Second; days = secs div 86400; sod = secs mod 86400;
          (y, m, d) = civil days;
          hh = sod div 3600; mi = sod div 60 mod 60; ss = sod mod 60;
          stamp = pad 4 y @ pad 2 m @ pad 2 d @ ''T'' @ pad 2 hh @ pad 2 mi @ pad 2 ss @ ''Z'';
          k = ''year='' @ pad 4 y @ ''/month='' @ pad 2 m @ ''/day='' @ pad 2 d @ ''/hour='' @ pad 2 hh @
              ''/audit-'' @ stamp @ ''.jsonl''
      in if prefix \<noteq> '''' then prefix @ ''/'' @ k else k)"

record s3_state =
  buf :: bytes
  firstAt :: time
  puts :: "(bytes \<times> bytes \<times> bool) list"    \<comment> \<open>the calls of \<open>PutObject\<close>: key, body, and whether it succeeded\<close>

text \<open>An event comes with the instant and with the outcome of \<open>PutObject\<close>, if it leads to a call.\<close>

datatype s3_event = Recv Record time bool | FlushTick time bool | ChClosed time bool

text \<open>A failed upload is logged and its batch is dropped: the buffer is reset either way.\<close>

definition flush :: "bytes \<Rightarrow> time \<Rightarrow> bool \<Rightarrow> s3_state \<Rightarrow> s3_state" where
  "flush prefix now ok s =
     (if length (buf s) = 0 then s
      else s\<lparr>puts := puts s @ [(partitionKey prefix now (firstAt s), buf s, ok)], buf := '''', firstAt := 0\<rparr>)"

definition uploaded :: "s3_state \<Rightarrow> (bytes \<times> bytes) list" where
  "uploaded s = map (\<lambda>(k, body, ok). (k, body)) (filter (\<lambda>(k, body, ok). ok) (puts s))"

fun s3_run :: "(Record \<Rightarrow> bytes option) \<Rightarrow> S3SinkOptions \<Rightarrow> s3_state \<Rightarrow> s3_event list \<Rightarrow> s3_state" where
  "s3_run enc opts s [] = s"
| "s3_run enc opts s (ChClosed now ok # evs) = flush (Prefix opts) now ok s"
| "s3_run enc opts s (FlushTick now ok # evs) = s3_run enc opts (flush (Prefix opts) now ok s) evs"
| "s3_run enc opts s (Recv r now ok # evs) =
     (let s1 = (if IsZero (firstAt s) then s\<lparr>firstAt := now\<rparr> else s) in
      case enc r of
        None \<Rightarrow> s3_run enc opts s1 evs
      | Some b \<Rightarrow>
          let s2 = s1\<lparr>buf := buf s1 @ b @ [CHR 0x0A]\<rparr>
          in s3_run enc opts (if FlushBytes opts \<le> int (length (buf s2)) then flush (Prefix opts) now ok s2 else s2) evs)"

definition s3_init :: s3_state where
  "s3_init = \<lparr>buf = '''', firstAt = 0, puts = []\<rparr>"

text \<open>What was received before the channel was closed.\<close>

fun received :: "s3_event list \<Rightarrow> Record list" where
  "received [] = []"
| "received (ChClosed now ok # evs) = []"
| "received (FlushTick now ok # evs) = received evs"
| "received (Recv r now ok # evs) = r # received evs"

definition s3_content :: "s3_state \<Rightarrow> bytes" where
  "s3_content s = concat (map (fst \<circ> snd) (puts s)) @ buf s"

lemma flush_content [simp]: "s3_content (flush p now ok s) = s3_content s"
  by (auto simp: flush_def s3_content_def)

lemma s3_run_content:
  "s3_content (s3_run enc opts s evs) = s3_content s @ concat (map (encode_line enc) (received evs))"
proof (induction enc opts s evs rule: s3_run.induct)
  case (4 enc opts s r now ok evs)
  let ?s1 = "if IsZero (firstAt s) then s\<lparr>firstAt := now\<rparr> else s"
  have c: "s3_content ?s1 = s3_content s" by (simp add: s3_content_def)
  show ?case
  proof (cases "enc r")
    case None
    with 4 c show ?thesis by (simp add: encode_line_def Let_def)
  next
    case (Some b)
    have "s3_content (?s1\<lparr>buf := buf ?s1 @ b @ [CHR 0x0A]\<rparr>) = s3_content s @ b @ [CHR 0x0A]"
      using c by (simp add: s3_content_def)
    with 4(2) [OF refl Some refl] Some show ?thesis by (simp add: encode_line_def Let_def)
  qed
qed simp_all

lemma flush_empty [simp]: "buf (flush p now ok s) = []"
  by (simp add: flush_def)

lemma s3_run_closed: "ChClosed now ok \<in> set evs \<Longrightarrow> buf (s3_run enc opts s evs) = []"
proof (induction evs arbitrary: s)
  case (Cons ev evs)
  then show ?case by (cases ev) (auto simp: Let_def split: option.split)
qed simp

lemma s3_run_bound:
  "0 < FlushBytes opts \<Longrightarrow> int (length (buf s)) < FlushBytes opts \<Longrightarrow>
     int (length (buf (s3_run enc opts s evs))) < FlushBytes opts"
proof (induction evs arbitrary: s)
  case (Cons ev evs)
  then show ?case by (cases ev) (auto simp: Let_def split: option.split)
qed simp

definition demo_record :: Record where
  "demo_record = \<lparr>a_Timestamp = 1, a_Tool = ''t'', a_Mode = ''cache'', a_Decision = ''forward'', a_Match = '''',
     a_Similarity = 0, a_Hash = ''h'', a_Protocol = '''', a_Shadow = False, a_WouldDecision = '''', a_TraceID = ''''\<rparr>"

section \<open>Properties of the component\<close>

text \<open>C34. File sink, in every reachable state of every interleaving of writers, \<open>Close\<close> and the
  writing goroutine: the records the goroutine has received followed by those still in the channel
  are exactly the records \<open>Write\<close> accepted, in order, without loss or duplicate; the file holds the
  lines of the received ones; the channel never holds more than its capacity; and once \<open>Close\<close>
  returns without error every accepted record has been written.\<close>

theorem fileSink_fifo:
  assumes "fs_reach enc c s"
  shows "handled s @ ch s = accepted s \<and> dst s = concat (map (encode_line enc) (handled s)) \<and>
    length (ch s) \<le> cap s \<and>
    (fs_Close_result s ctx = Some (Inr ()) \<longrightarrow> dst s = concat (map (encode_line enc) (accepted s)))"
proof -
  have i: "fs_inv enc c s" using assms by (rule fs_inv_reach)
  then have "wg_done s \<longrightarrow> handled s = accepted s" by (auto simp: fs_inv_def)
  moreover have "fs_Close_result s ctx = Some (Inr ()) \<longrightarrow> wg_done s"
    by (auto simp: fs_Close_result_def split: option.splits)
  ultimately show ?thesis using i by (auto simp: fs_inv_def)
qed

theorem fileSink_fifo_witness:
  "\<exists>s. fs_reach (\<lambda>_. Some ''r'') 2 s \<and> handled s @ ch s = accepted s \<and> length (accepted s) = 1"
proof -
  let ?enc = "\<lambda>_ :: Record. Some ''r''" and ?s0 = "newFileSinkWriter 2"
  let ?s1 = "?s0\<lparr>calls := (calls ?s0)(0 := Enter undefined)\<rparr>"
  let ?s2 = "?s1\<lparr>calls := (calls ?s1)(0 := Passed undefined)\<rparr>"
  let ?s3 = "?s2\<lparr>ch := ch ?s2 @ [undefined], accepted := accepted ?s2 @ [undefined],
    calls := (calls ?s2)(0 := Returned (Inr ()))\<rparr>"
  have d: "?s0 = \<lparr>ch = [], cap = 2, s_closed = False, ch_closed = False, dst = '''', handled = [], accepted = [],
      wg_done = False, calls = (\<lambda>_. Idle)\<rparr>" by (simp add: newFileSinkWriter_def)
  have "fs_reach ?enc 2 ?s1" by (rule fs_reach.step [OF fs_reach.init fs_step.call]) (simp add: d)
  then have "fs_reach ?enc 2 ?s2" by (rule fs_reach.step [OF _ fs_step.pass [where r = undefined]]) (simp_all add: d)
  then have r: "fs_reach ?enc 2 ?s3" by (rule fs_reach.step [OF _ fs_step.send]) (simp_all add: d)
  have "length (accepted ?s3) = 1" by (simp add: d)
  with r fileSink_fifo [OF r, of None] show ?thesis by blast
qed

text \<open>C36. After \<open>Close\<close> the queue drains under every schedule. From any reachable state with a closed channel, and
  whatever steps writers, \<open>Close\<close> and the goroutine then take: no record is added to the accepted ones; as long as the
  goroutine has not ended one of its own steps is possible, each of them brings it closer to its end and no other
  step moves it away (\<open>goroutine_left\<close> counts what it still has to do); and it ends only with an empty channel, every
  accepted record handled and its line handed to the file, so that \<open>Close\<close> returns without error.\<close>

theorem fileSink_drains:
  assumes "fs_reach enc c s" "ch_closed s" "(fs_step enc)\<^sup>*\<^sup>* s s'"
  shows "accepted s' = accepted s \<and>
    (goroutine_left s' \<noteq> 0 \<longrightarrow> (\<exists>s''. goroutine_step enc s' s'')) \<and>
    (\<forall>s''. goroutine_step enc s' s'' \<longrightarrow> fs_step enc s' s'' \<and> goroutine_left s'' < goroutine_left s') \<and>
    (\<forall>s''. fs_step enc s' s'' \<longrightarrow> goroutine_left s'' \<le> goroutine_left s') \<and>
    (goroutine_left s' = 0 \<longrightarrow> fs_Close_result s' None = Some (Inr ()) \<and> handled s' = accepted s \<and>
       dst s' = concat (map (encode_line enc) (accepted s))) \<and>
    (fs_Close_result s' None = Some (Inr ()) \<longrightarrow> goroutine_left s' = 0)"
proof -
  have "accepted s' = accepted s \<and> ch_closed s' \<and> fs_reach enc c s'"
    using assms(3) by (induction rule: rtranclp_induct) (use assms closed_step fs_reach.step in \<open>blast | metis\<close>)+
  then have a: "accepted s' = accepted s" and cl: "ch_closed s'" and i: "fs_inv enc c s'" using fs_inv_reach by blast+
  have "goroutine_left s' = 0 \<longleftrightarrow> wg_done s'" using i by (auto simp: goroutine_left_def fs_inv_def)
  moreover have "wg_done s' \<Longrightarrow> handled s' = accepted s \<and> dst s' = concat (map (encode_line enc) (accepted s))"
    using i a by (auto simp: fs_inv_def)
  moreover have "\<exists>s''. goroutine_step enc s' s''" if "goroutine_left s' \<noteq> 0"
    using that cl goroutine_enabled by blast
  moreover have "fs_step enc s' s'' \<Longrightarrow> goroutine_left s'' \<le> goroutine_left s'" for s''
    using left_step cl i unfolding fs_inv_def by blast
  moreover have "goroutine_step enc s' s'' \<Longrightarrow> fs_step enc s' s'' \<and> goroutine_left s'' < goroutine_left s'" for s''
    using goroutine_progress goroutine_fs i unfolding fs_inv_def by blast
  ultimately show ?thesis using a by (auto simp: fs_Close_result_def)
qed

theorem fileSink_drains_witness:
  "\<exists>s s'. fs_reach (\<lambda>_. Some ''r'') 1 s \<and> ch_closed s \<and> accepted s = [demo_record] \<and> handled s = [] \<and>
     goroutine_step (\<lambda>_. Some ''r'') s s' \<and> goroutine_left s' < goroutine_left s"
proof -
  let ?enc = "\<lambda>_ :: Record. Some ''r''" and ?s0 = "newFileSinkWriter 1"
  let ?s1 = "?s0\<lparr>calls := (calls ?s0)(0 := Enter demo_record)\<rparr>"
  let ?s2 = "?s1\<lparr>calls := (calls ?s1)(0 := Passed demo_record)\<rparr>"
  let ?s3 = "?s2\<lparr>ch := ch ?s2 @ [demo_record], accepted := accepted ?s2 @ [demo_record], calls := (calls ?s2)(0 := Returned (Inr ()))\<rparr>"
  let ?s4 = "?s3\<lparr>s_closed := True\<rparr>" let ?s5 = "?s4\<lparr>ch_closed := True\<rparr>"
  have d: "?s0 = \<lparr>ch = [], cap = 1, s_closed = False, ch_closed = False, dst = '''', handled = [], accepted = [],
      wg_done = False, calls = (\<lambda>_. Idle)\<rparr>" by (simp add: newFileSinkWriter_def)
  have "fs_reach ?enc 1 ?s1" by (rule fs_reach.step [OF fs_reach.init fs_step.call]) (simp add: d)
  then have "fs_reach ?enc 1 ?s2" by (rule fs_reach.step [OF _ fs_step.pass [where r = demo_record]]) (simp_all add: d)
  then have "fs_reach ?enc 1 ?s3" by (rule fs_reach.step [OF _ fs_step.send]) (simp_all add: d)
  then have "fs_reach ?enc 1 ?s4" by (rule fs_reach.step [OF _ fs_step.close_closed]) (simp add: d)
  then have r: "fs_reach ?enc 1 ?s5" by (rule fs_reach.step [OF _ fs_step.close_ch]) (simp_all add: d)
  have cl: "ch_closed ?s5" "accepted ?s5 = [demo_record]" "handled ?s5 = []" "goroutine_left ?s5 \<noteq> 0"
    by (simp_all add: d goroutine_left_def)
  from fileSink_drains [OF r cl(1) rtranclp.rtrancl_refl] cl(4)
  obtain s' where "goroutine_step ?enc ?s5 s'" "goroutine_left s' < goroutine_left ?s5" by blast
  then show ?thesis using r cl(1-3) by blast
qed

text \<open>A call of \<open>Write\<close> that has passed its first test when \<open>Close\<close> runs can send on the closed
  channel: the process panics in a run with one writer and one \<open>Close\<close>.\<close>

theorem fileSink_write_close_race:
  "\<exists>s. fs_reach enc c s \<and> calls s t = Panicked"
proof -
  let ?s0 = "newFileSinkWriter c"
  let ?s1 = "?s0\<lparr>calls := (calls ?s0)(t := Enter r)\<rparr>"
  let ?s2 = "?s1\<lparr>calls := (calls ?s1)(t := Passed r)\<rparr>"
  let ?s3 = "?s2\<lparr>s_closed := True\<rparr>"
  let ?s4 = "?s3\<lparr>ch_closed := True\<rparr>"
  let ?s5 = "?s4\<lparr>calls := (calls ?s4)(t := Panicked)\<rparr>"
  have o: "\<not> s_closed ?s0" "calls ?s0 t = Idle" "\<not> ch_closed ?s0" by (simp_all add: newFileSinkWriter_def)
  have "fs_reach enc c ?s1" by (rule fs_reach.step [OF fs_reach.init fs_step.call]) (simp add: o)
  then have "fs_reach enc c ?s2" by (rule fs_reach.step [OF _ fs_step.pass [where r = r]]) (simp_all add: o)
  then have "fs_reach enc c ?s3" by (rule fs_reach.step [OF _ fs_step.close_closed]) (simp add: o)
  then have "fs_reach enc c ?s4" by (rule fs_reach.step [OF _ fs_step.close_ch]) (simp_all add: o)
  then have "fs_reach enc c ?s5" by (rule fs_reach.step [OF _ fs_step.send_closed [where r = r]]) simp_all
  then show ?thesis by (intro exI [of _ ?s5]) simp
qed

text \<open>S3 sink: when the channel has been closed, the bodies handed to \<open>PutObject\<close>, in order, are
  exactly the lines of the records received, with nothing left in the buffer; and between events
  the buffer stays below the flush size. (Two batches that start within one second get the same
  key.)\<close>

theorem s3_batches:
  assumes "0 < FlushBytes opts"
  shows "int (length (buf (s3_run enc opts s3_init evs))) < FlushBytes opts \<and>
    (ChClosed now ok \<in> set evs \<longrightarrow>
       concat (map (fst \<circ> snd) (puts (s3_run enc opts s3_init evs))) = concat (map (encode_line enc) (received evs))) \<and>
    (t div Second = u div Second \<and> t \<noteq> 0 \<and> u \<noteq> 0 \<longrightarrow> partitionKey p now t = partitionKey p now u)"
proof (intro conjI impI)
  show "int (length (buf (s3_run enc opts s3_init evs))) < FlushBytes opts"
    using assms by (intro s3_run_bound) (simp_all add: s3_init_def)
  assume "ChClosed now ok \<in> set evs"
  with s3_run_content [of enc opts s3_init evs] s3_run_closed [of now ok evs enc opts s3_init]
  show "concat (map (fst \<circ> snd) (puts (s3_run enc opts s3_init evs))) = concat (map (encode_line enc) (received evs))"
    by (simp add: s3_content_def s3_init_def)
next
  assume "t div Second = u div Second \<and> t \<noteq> 0 \<and> u \<noteq> 0"
  then show "partitionKey p now t = partitionKey p now u" by (simp add: partitionKey_def IsZero_def)
qed

theorem s3_batches_witness:
  "let opts = \<lparr>Bucket = ''b'', Prefix = ''p'', FlushInterval = 1, FlushBytes = 3, Capacity = 1\<rparr>;
       evs = [Recv demo_record 5 True, Recv demo_record 6 False, ChClosed 7 True]
   in concat (map (fst \<circ> snd) (puts (s3_run (\<lambda>_. Some ''x'') opts s3_init evs))) =
      concat (map (encode_line (\<lambda>_. Some ''x'')) [demo_record, demo_record])"
proof -
  let ?opts = "\<lparr>Bucket = ''b'', Prefix = ''p'', FlushInterval = 1, FlushBytes = 3, Capacity = 1\<rparr>"
  have "0 < FlushBytes ?opts" by simp
  from s3_batches [OF this, where now = 7 and ok = True and evs = "[Recv demo_record 5 True, Recv demo_record 6 False, ChClosed 7 True]" and
      enc = "\<lambda>_. Some ''x''" and t = 1 and u = 1 and p = "''''", THEN conjunct2, THEN conjunct1]
  show ?thesis unfolding Let_def by simp
qed

text \<open>\<open>ParseS3URL\<close> reads back the bucket and the prefix of a well-formed URL, with at most one
  trailing slash dropped, and every result it returns has a bucket without a slash that is not
  empty.\<close>

theorem ParseS3URL_roundtrip:
  "(b \<noteq> [] \<and> CHR ''/'' \<notin> set b \<longrightarrow>
      ParseS3URL (''s3://'' @ b) = Inr (b, '''') \<and>
      ParseS3URL (''s3://'' @ b @ ''/'' @ p) = Inr (b, TrimSuffix p ''/'')) \<and>
   (ParseS3URL raw = Inr (bucket, prefix) \<longrightarrow> bucket \<noteq> [] \<and> CHR ''/'' \<notin> set bucket \<and> HasPrefix raw (''s3://'' @ bucket))"
proof (intro conjI impI)
  assume b: "b \<noteq> [] \<and> CHR ''/'' \<notin> set b"
  then have i: "Index b (CHR ''/'') = None" "Index (b @ CHR ''/'' # p) (CHR ''/'') = Some (length b)" by simp_all
  have t: "TrimPrefix (''s3://'' @ x) ''s3://'' = x" for x by (simp add: TrimPrefix_def HasPrefix_def)

  show "ParseS3URL (''s3://'' @ b) = Inr (b, '''')"
    using b unfolding ParseS3URL_def t by (simp add: i HasPrefix_def TrimSuffix_def HasSuffix_def)
  show "ParseS3URL (''s3://'' @ b @ ''/'' @ p) = Inr (b, TrimSuffix p ''/'')"
    using b unfolding ParseS3URL_def t by (simp add: i HasPrefix_def)
next
  assume r: "ParseS3URL raw = Inr (bucket, prefix)"
  then obtain rest where raw: "raw = ''s3://'' @ rest" by (auto simp: ParseS3URL_def HasPrefix_iff split: if_splits)
  have t: "TrimPrefix raw ''s3://'' = rest" by (simp add: raw TrimPrefix_def HasPrefix_def)
  have p: "HasPrefix raw (''s3://'' @ x) \<longleftrightarrow> HasPrefix rest x" for x by (simp add: raw HasPrefix_iff)
  show "bucket \<noteq> []" "CHR ''/'' \<notin> set bucket" "HasPrefix raw (''s3://'' @ bucket)"
    using r unfolding ParseS3URL_def t p
    by (auto simp: Let_def HasPrefix_iff split: if_splits option.splits elim!: Index_SomeE)
qed

theorem ParseS3URL_roundtrip_witness:
  "ParseS3URL ''s3://bkt/audit/'' = Inr (''bkt'', ''audit'')"
  using ParseS3URL_roundtrip [of "''bkt''" "''audit/''"] by (simp add: TrimSuffix_def HasSuffix_def)

end
