(* ===== verification/S3_Sink.thy ===== *)
theory S3_Sink
  imports Audit_Log
begin

text \<open>
  The S3 sink of \<open>internal/audit/s3.go\<close> with its callers: \<open>Write\<close>, \<open>Close\<close> and the goroutine of \<open>run\<close> as
  interleaved steps, one step of \<open>s3_run\<close> for each event the goroutine's select receives. Its contract is that
  of the file sink: with the bodies handed to \<open>PutObject\<close> and the buffer read as one file, every step is a step
  of \<open>fs_step\<close> or leaves that file sink as it is, and every step of the file sink has a step here.
\<close>

section \<open>The sink and its steps\<close>

record s3Sink =
  x_ch :: "Record list"
  x_closed :: bool
  x_ch_closed :: bool
  x_loop :: s3_state          \<comment> \<open>the variables of \<open>run\<close>\<close>
  x_handled :: "Record list"
  x_accepted :: "Record list"
  x_done :: bool
  x_calls :: "nat \<Rightarrow> call"

definition new_s3Sink :: s3Sink where
  "new_s3Sink = \<lparr>x_ch = [], x_closed = False, x_ch_closed = False, x_loop = s3_init, x_handled = [], x_accepted = [],
     x_done = False, x_calls = (\<lambda>_. Idle)\<rparr>"

text \<open>\<open>now\<close> is the instant the clock returns while the goroutine handles an event, \<open>ok\<close> the outcome of \<open>PutObject\<close> if
  the event leads to a call.\<close>

inductive s3_step :: "(Record \<Rightarrow> bytes option) \<Rightarrow> S3SinkOptions \<Rightarrow> s3Sink \<Rightarrow> s3Sink \<Rightarrow> bool" for enc opts where
  s3_call: "x_calls s t = Idle \<Longrightarrow> s3_step enc opts s (s\<lparr>x_calls := (x_calls s)(t := Enter r)\<rparr>)"
| s3_refused: "x_calls s t = Enter r \<Longrightarrow> x_closed s \<Longrightarrow>
    s3_step enc opts s (s\<lparr>x_calls := (x_calls s)(t := Returned (Inl errSinkClosed))\<rparr>)"
| s3_pass: "x_calls s t = Enter r \<Longrightarrow> \<not> x_closed s \<Longrightarrow> s3_step enc opts s (s\<lparr>x_calls := (x_calls s)(t := Passed r)\<rparr>)"
| s3_send: "x_calls s t = Passed r \<Longrightarrow> \<not> x_ch_closed s \<Longrightarrow> length (x_ch s) < nat (Capacity opts) \<Longrightarrow>
    s3_step enc opts s (s\<lparr>x_ch := x_ch s @ [r], x_accepted := x_accepted s @ [r],
      x_calls := (x_calls s)(t := Returned (Inr ()))\<rparr>)"
| s3_send_closed: "x_calls s t = Passed r \<Longrightarrow> x_ch_closed s \<Longrightarrow>
    s3_step enc opts s (s\<lparr>x_calls := (x_calls s)(t := Panicked)\<rparr>)"
| s3_abandon: "x_calls s t = Passed r \<Longrightarrow> x_closed s \<Longrightarrow>
    s3_step enc opts s (s\<lparr>x_calls := (x_calls s)(t := Returned (Inl errSinkClosed))\<rparr>)"
| s3_close_closed: "\<not> x_closed s \<Longrightarrow> s3_step enc opts s (s\<lparr>x_closed := True\<rparr>)"
| s3_close_ch: "x_closed s \<Longrightarrow> \<not> x_ch_closed s \<Longrightarrow> s3_step enc opts s (s\<lparr>x_ch_closed := True\<rparr>)"
| s3_receive: "x_ch s = r # rest \<Longrightarrow>
    s3_step enc opts s (s\<lparr>x_ch := rest, x_loop := s3_run enc opts (x_loop s) [Recv r now ok], x_handled := x_handled s @ [r]\<rparr>)"
| s3_tick: "\<not> x_done s \<Longrightarrow> s3_step enc opts s (s\<lparr>x_loop := s3_run enc opts (x_loop s) [FlushTick now ok]\<rparr>)"
| s3_finish: "x_ch s = [] \<Longrightarrow> x_ch_closed s \<Longrightarrow> \<not> x_done s \<Longrightarrow>
    s3_step enc opts s (s\<lparr>x_loop := s3_run enc opts (x_loop s) [ChClosed now ok], x_done := True\<rparr>)"

inductive s3_reach :: "(Record \<Rightarrow> bytes option) \<Rightarrow> S3SinkOptions \<Rightarrow> s3Sink \<Rightarrow> bool" for enc opts where
  s3_new: "s3_reach enc opts new_s3Sink"
| s3_next: "s3_reach enc opts s \<Longrightarrow> s3_step enc opts s s' \<Longrightarrow> s3_reach enc opts s'"

lemma s3_reach_steps: "(s3_step enc opts)\<^sup>*\<^sup>* s s' \<Longrightarrow> s3_reach enc opts s \<Longrightarrow> s3_reach enc opts s'"
  by (induction rule: rtranclp_induct) (auto intro: s3_reach.intros)

definition s3_Close_result :: "s3Sink \<Rightarrow> ctx \<Rightarrow> unit result option" where
  "s3_Close_result s ctx =
     (if x_done s then Some (Inr ()) else case ctx of Some err \<Rightarrow> Some (Inl err) | None \<Rightarrow> None)"

text \<open>The objects of the bucket after the uploads, which are calls of \<open>PutObject\<close> that succeeded: a key names one object.\<close>

definition bucket_objects :: "(bytes \<times> bytes) list \<Rightarrow> bytes \<rightharpoonup> bytes" where
  "bucket_objects ps = fold (\<lambda>(k, body) m. m(k \<mapsto> body)) ps Map.empty"

section \<open>Simulation of the file sink\<close>

definition as_file :: "S3SinkOptions \<Rightarrow> s3Sink \<Rightarrow> fileSink" where
  "as_file opts s = \<lparr>ch = x_ch s, cap = nat (Capacity opts), s_closed = x_closed s, ch_closed = x_ch_closed s,
     dst = s3_content (x_loop s), handled = x_handled s, accepted = x_accepted s, wg_done = x_done s, calls = x_calls s\<rparr>"

lemma as_file_sel [simp]:
  "ch (as_file opts s) = x_ch s" "cap (as_file opts s) = nat (Capacity opts)" "s_closed (as_file opts s) = x_closed s"
  "ch_closed (as_file opts s) = x_ch_closed s" "dst (as_file opts s) = s3_content (x_loop s)"
  "handled (as_file opts s) = x_handled s" "accepted (as_file opts s) = x_accepted s" "wg_done (as_file opts s) = x_done s"
  "calls (as_file opts s) = x_calls s"
  by (simp_all add: as_file_def)

lemma as_file_update [simp]:
  "as_file opts (s\<lparr>x_calls := c\<rparr>) = (as_file opts s)\<lparr>calls := c\<rparr>" "as_file opts (s\<lparr>x_ch := q\<rparr>) = (as_file opts s)\<lparr>ch := q\<rparr>"
  "as_file opts (s\<lparr>x_closed := b\<rparr>) = (as_file opts s)\<lparr>s_closed := b\<rparr>"
  "as_file opts (s\<lparr>x_ch_closed := b\<rparr>) = (as_file opts s)\<lparr>ch_closed := b\<rparr>"
  "as_file opts (s\<lparr>x_loop := l\<rparr>) = (as_file opts s)\<lparr>dst := s3_content l\<rparr>"
  "as_file opts (s\<lparr>x_handled := q\<rparr>) = (as_file opts s)\<lparr>handled := q\<rparr>"
  "as_file opts (s\<lparr>x_accepted := q\<rparr>) = (as_file opts s)\<lparr>accepted := q\<rparr>"
  "as_file opts (s\<lparr>x_done := b\<rparr>) = (as_file opts s)\<lparr>wg_done := b\<rparr>"
  by (simp_all add: as_file_def)

lemma as_file_keep [simp]: "(as_file opts s)\<lparr>dst := s3_content (x_loop s)\<rparr> = as_file opts s"
  by (simp add: as_file_def)

lemma as_file_new: "0 < Capacity opts \<Longrightarrow> as_file opts new_s3Sink = newFileSinkWriter (Capacity opts)"
  by (simp add: as_file_def new_s3Sink_def newFileSinkWriter_def s3_init_def s3_content_def)

declare s3_run.simps [simp del]

lemma step_content [simp]:
  "s3_content (s3_run enc opts l [Recv r now ok]) = s3_content l @ encode_line enc r"
  "s3_content (s3_run enc opts l [FlushTick now ok]) = s3_content l" "s3_content (s3_run enc opts l [ChClosed now ok]) = s3_content l"
  by (simp_all add: s3_run_content)

text \<open>Every step is a step of the file sink, or leaves it as it is; and every step of the file sink has one here.\<close>

lemmas file_step_intros = fs_step.intros [where s = "as_file opts s" for opts s, simplified as_file_sel]


lemma s3_step_file:
  assumes "s3_step enc opts s s'"
  shows "fs_step enc (as_file opts s) (as_file opts s') \<or> as_file opts s' = as_file opts s"
  using assms
proof cases
  case s3_finish
  then show ?thesis by (auto intro!: file_step_intros)
qed (auto intro: file_step_intros)

lemma s3_stepI: "s3_step enc opts s s' \<Longrightarrow> as_file opts s' = f \<Longrightarrow> \<exists>s'. s3_step enc opts s s' \<and> as_file opts s' = f"
  by blast

lemma file_step_s3:
  assumes "fs_step enc (as_file opts s) f"
  shows "\<exists>s'. s3_step enc opts s s' \<and> as_file opts s' = f"
  using assms
proof cases
  case (receive r rest)
  show ?thesis by (rule s3_stepI [OF s3_receive [where r = r and rest = rest and now = 0]]) (use receive in simp_all)
next
  case (call t r)
  show ?thesis by (rule s3_stepI [OF s3_call [where t = t and r = r]]) (use call in simp_all)
next
  case (refused t r)
  show ?thesis by (rule s3_stepI [OF s3_refused [where t = t and r = r]]) (use refused in simp_all)
next
  case (pass t r)
  show ?thesis by (rule s3_stepI [OF s3_pass [where t = t and r = r]]) (use pass in simp_all)
next
  case (send t r)
  show ?thesis by (rule s3_stepI [OF s3_send [where t = t and r = r]]) (use send in simp_all)
next
  case (send_closed t r)
  show ?thesis by (rule s3_stepI [OF s3_send_closed [where t = t and r = r]]) (use send_closed in simp_all)
next
  case (abandon t r)
  show ?thesis by (rule s3_stepI [OF s3_abandon [where t = t and r = r]]) (use abandon in simp_all)
next
  case close_closed
  show ?thesis by (rule s3_stepI [OF s3_close_closed]) (use close_closed in simp_all)
next
  case close_ch
  show ?thesis by (rule s3_stepI [OF s3_close_ch]) (use close_ch in simp_all)
next
  case finish
  show ?thesis by (rule s3_stepI [OF s3_finish [where now = 0]]) (use finish in simp_all)
qed

lemma file_steps_s3:
  "(fs_step enc)\<^sup>*\<^sup>* (as_file opts s) f \<Longrightarrow> \<exists>s'. (s3_step enc opts)\<^sup>*\<^sup>* s s' \<and> as_file opts s' = f"
  by (induction rule: rtranclp_induct) (blast, metis file_step_s3 rtranclp.rtrancl_into_rtrancl)

lemma s3_reach_file:
  assumes "s3_reach enc opts s" "0 < Capacity opts"
  shows "fs_reach enc (Capacity opts) (as_file opts s)"
  using assms
proof (induction rule: s3_reach.induct)
  case s3_new
  then show ?case by (simp add: as_file_new fs_reach.init)
next
  case (s3_next s s')
  then show ?case using s3_step_file [OF s3_next.hyps(2)] by (auto intro: fs_reach.step)
qed

lemma s3_runs_out:
  assumes "fs_reach enc c (as_file opts s)" "x_ch_closed s"
  shows "\<exists>s'. (s3_step enc opts)\<^sup>*\<^sup>* s s' \<and> x_done s' \<and> x_accepted s' = x_accepted s"
proof -
  obtain f where f: "(fs_step enc)\<^sup>*\<^sup>* (as_file opts s) f" "wg_done f" "accepted f = accepted (as_file opts s)"
    using fs_runs_out [OF assms(1)] assms(2) by (metis as_file_sel(4))
  obtain s' where "(s3_step enc opts)\<^sup>*\<^sup>* s s'" "as_file opts s' = f" using file_steps_s3 [OF f(1)] by blast
  then show ?thesis using f(2,3) by (intro exI [of _ s']) auto
qed

section \<open>The buffer and the objects\<close>

text \<open>What holds of the goroutine's own variables: the buffer is below the flush size and empty at the end, and no
  object is empty.\<close>

definition loop_inv :: "S3SinkOptions \<Rightarrow> s3Sink \<Rightarrow> bool" where
  "loop_inv opts s \<longleftrightarrow> int (length (buf (x_loop s))) < FlushBytes opts \<and> (x_done s \<longrightarrow> buf (x_loop s) = [] \<and> x_ch s = [] \<and> x_ch_closed s) \<and>
     (\<forall>(k, body, ok) \<in> set (puts (x_loop s)). body \<noteq> [])"

lemma flush_bodies:
  "\<forall>(k, body, ok) \<in> set (puts l). body \<noteq> [] \<Longrightarrow> \<forall>(k, body, ok) \<in> set (puts (flush p now ok' l)). body \<noteq> []"
  by (auto simp: flush_def)

lemma s3_run_bodies:
  "\<forall>(k, body, ok) \<in> set (puts l). body \<noteq> [] \<Longrightarrow> \<forall>(k, body, ok) \<in> set (puts (s3_run enc opts l [ev])). body \<noteq> []"
  by (cases ev) (auto simp: s3_run.simps Let_def flush_def split: option.splits)

lemma loop_inv_step:
  assumes "s3_step enc opts s s'" "0 < FlushBytes opts" "loop_inv opts s"
  shows "loop_inv opts s'"
proof -
  have b: "int (length (buf (s3_run enc opts (x_loop s) evs))) < FlushBytes opts" for evs
    using s3_run_bound assms by (auto simp: loop_inv_def)
  have p: "\<forall>(k, body, ok) \<in> set (puts (s3_run enc opts (x_loop s) [ev])). body \<noteq> []" for ev
    using s3_run_bodies assms(3) unfolding loop_inv_def by blast
  from assms(1) show ?thesis
  proof cases
    case (s3_finish now ok)
    have "buf (s3_run enc opts (x_loop s) [ChClosed now ok]) = []" by (rule s3_run_closed) simp
    with s3_finish assms(2) p show ?thesis by (simp add: loop_inv_def)
  qed (use assms(3) b p in \<open>auto simp: loop_inv_def\<close>)
qed

lemma loop_inv_reach: "s3_reach enc opts s \<Longrightarrow> 0 < FlushBytes opts \<Longrightarrow> loop_inv opts s"
proof (induction rule: s3_reach.induct)
  case s3_new
  then show ?case by (simp add: loop_inv_def new_s3Sink_def s3_init_def)
qed (rule loop_inv_step)

text \<open>The bodies are the lines of whole records: the records handled so far are cut into batches, one per call of
  \<open>PutObject\<close>, and the rest is in the buffer.\<close>

abbreviation lines_of :: "(Record \<Rightarrow> bytes option) \<Rightarrow> Record list \<Rightarrow> bytes" where
  "lines_of enc rs \<equiv> concat (map (encode_line enc) rs)"

definition batched :: "(Record \<Rightarrow> bytes option) \<Rightarrow> s3_state \<Rightarrow> Record list \<Rightarrow> bool" where
  "batched enc l rs \<longleftrightarrow> (\<exists>batches rest. concat batches @ rest = rs \<and> map (fst \<circ> snd) (puts l) = map (lines_of enc) batches \<and>
     buf l = lines_of enc rest)"

lemma batched_flush:
  assumes "batched enc l rs"
  shows "batched enc (flush p now ok l) rs"
proof -
  obtain batches rest where b: "concat batches @ rest = rs" "map (fst \<circ> snd) (puts l) = map (lines_of enc) batches" "buf l = lines_of enc rest"
    using assms by (auto simp: batched_def)
  show ?thesis
  proof (cases "buf l = []")
    case False
    then show ?thesis unfolding batched_def flush_def using b by (intro exI [of _ "batches @ [rest]"] exI [of _ "[]"]) simp
  qed (use assms in \<open>simp add: flush_def\<close>)
qed

lemma batched_receive:
  assumes "batched enc l rs"
  shows "batched enc (s3_run enc opts l [Recv r now ok]) (rs @ [r])"
proof -
  obtain batches rest where b: "concat batches @ rest = rs" "map (fst \<circ> snd) (puts l) = map (lines_of enc) batches" "buf l = lines_of enc rest"
    using assms by (auto simp: batched_def)
  have "batched enc (l\<lparr>firstAt := t, buf := buf l @ encode_line enc r\<rparr>) (rs @ [r])" for t
    unfolding batched_def using b by (intro exI [of _ batches] exI [of _ "rest @ [r]"]) simp
  from this [of "if IsZero (firstAt l) then now else firstAt l"] show ?thesis
    by (cases "enc r"; cases "IsZero (firstAt l)")
      (auto simp: s3_run.simps Let_def encode_line_def intro: batched_flush)
qed

lemma batched_step: "s3_step enc opts s s' \<Longrightarrow> batched enc (x_loop s) (x_handled s) \<Longrightarrow> batched enc (x_loop s') (x_handled s')"
proof (induction rule: s3_step.induct)
  case (s3_receive s r rest now ok)
  then show ?case using batched_receive by simp
qed (auto simp: s3_run.simps intro: batched_flush)

lemma batched_reach: "s3_reach enc opts s \<Longrightarrow> batched enc (x_loop s) (x_handled s)"
proof (induction rule: s3_reach.induct)
  case s3_new
  show ?case by (simp add: batched_def new_s3Sink_def s3_init_def)
qed (rule batched_step)

lemma uploaded_bodies:
  "map (fst \<circ> snd) ps = map g bs \<Longrightarrow>
     map snd (map (\<lambda>(k, body, ok). (k, body)) (filter (\<lambda>(k, body, ok). ok) ps)) =
     map (g \<circ> fst) (filter (\<lambda>(b, k, body, ok). ok) (zip bs ps))"
proof (induction bs arbitrary: ps)
  case (Cons b bs)
  then obtain p ps' where "ps = p # ps'" by (cases ps) auto
  then show ?case using Cons by (auto split: prod.splits)
qed simp

lemma NewS3Sink_options: "NewS3Sink raw client = Inr opts \<Longrightarrow> 0 < Capacity opts \<and> 0 < FlushBytes opts"
  by (auto simp: NewS3Sink_def split: if_splits sum.splits)

section \<open>Properties of the component\<close>

text \<open>C35. The S3 sink keeps the contract of the file sink up to the upload. In every state that writers, \<open>Close\<close> and
  the goroutine of a sink built by \<open>NewS3Sink\<close> reach in any order, with uploads that succeed or fail: read as a file
  sink whose file is the bodies handed to \<open>PutObject\<close> so far followed by the buffer, the state is one that the file
  sink reaches; so the channel is in order, within its capacity, and every accepted record is handled once. The
  buffer is below the flush size and no body is empty. Once \<open>Close\<close> returns without error the accepted records are
  cut, in order, into one batch per call of \<open>PutObject\<close>, whose body is the lines of the batch (records after the last
  batch are ones that could not be encoded). What is uploaded is the batches whose call succeeded: a batch whose upload
  failed is lost, and \<open>Close\<close> does not report it. From every state with a closed channel the goroutine can get there.\<close>

theorem s3_refines_fileSink:
  assumes "NewS3Sink raw client = Inr opts" "s3_reach enc opts s"
  shows "fs_reach enc (Capacity opts) (as_file opts s) \<and> x_handled s @ x_ch s = x_accepted s \<and>
    int (length (x_ch s)) \<le> Capacity opts \<and> int (length (buf (x_loop s))) < FlushBytes opts \<and>
    (\<forall>(k, body, ok) \<in> set (puts (x_loop s)). body \<noteq> '''') \<and>
    (s3_Close_result s ctx = Some (Inr ()) \<longrightarrow>
       (\<exists>batches rest. concat batches @ rest = x_accepted s \<and> concat (map (encode_line enc) rest) = '''' \<and>
          map (\<lambda>(k, body, ok). body) (puts (x_loop s)) = map (\<lambda>b. concat (map (encode_line enc) b)) batches \<and>
          map snd (uploaded (x_loop s)) = map (\<lambda>(b, _). concat (map (encode_line enc) b))
            (filter (\<lambda>(b, k, body, ok). ok) (zip batches (puts (x_loop s)))))) \<and>
    (x_ch_closed s \<longrightarrow> (\<exists>s'. (s3_step enc opts)\<^sup>*\<^sup>* s s' \<and> s3_Close_result s' None = Some (Inr ()) \<and> x_accepted s' = x_accepted s))"
proof -
  have o: "0 < Capacity opts" "0 < FlushBytes opts" using NewS3Sink_options [OF assms(1)] by auto
  have r: "fs_reach enc (Capacity opts) (as_file opts s)" using assms(2) o(1) by (rule s3_reach_file)
  have f: "fs_inv enc (Capacity opts) (as_file opts s)" using r by (rule fs_inv_reach)
  have l: "loop_inv opts s" using assms(2) o(2) by (rule loop_inv_reach)
  obtain batches rest where b: "concat batches @ rest = x_handled s" "map (fst \<circ> snd) (puts (x_loop s)) = map (lines_of enc) batches"
    "buf (x_loop s) = lines_of enc rest"
    using batched_reach [OF assms(2)] by (auto simp: batched_def)
  have "s3_Close_result s ctx = Some (Inr ()) \<Longrightarrow> x_done s" by (auto simp: s3_Close_result_def split: if_splits option.splits)
  then have e: "s3_Close_result s ctx = Some (Inr ()) \<Longrightarrow> x_handled s = x_accepted s \<and> buf (x_loop s) = ''''"
    using f l by (auto simp: fs_inv_def loop_inv_def)
  have "map snd (uploaded (x_loop s)) = map (lines_of enc \<circ> fst) (filter (\<lambda>(b, k, body, ok). ok) (zip batches (puts (x_loop s))))"
    using uploaded_bodies [OF b(2)] by (simp add: uploaded_def)
  moreover have "(\<lambda>(k, body, ok). body) = (fst \<circ> snd :: bytes \<times> bytes \<times> bool \<Rightarrow> bytes)" "(\<lambda>(b, _). lines_of enc b) = (lines_of enc \<circ> fst :: _ \<times> bytes \<times> bytes \<times> bool \<Rightarrow> bytes)"
    by auto
  ultimately have c: "s3_Close_result s ctx = Some (Inr ()) \<longrightarrow>
       (\<exists>batches rest. concat batches @ rest = x_accepted s \<and> concat (map (encode_line enc) rest) = '''' \<and>
          map (\<lambda>(k, body, ok). body) (puts (x_loop s)) = map (\<lambda>b. concat (map (encode_line enc) b)) batches \<and>
          map snd (uploaded (x_loop s)) = map (\<lambda>(b, _). concat (map (encode_line enc) b))
            (filter (\<lambda>(b, k, body, ok). ok) (zip batches (puts (x_loop s)))))"
    using b e by (metis (no_types))
  have d: "\<exists>s'. (s3_step enc opts)\<^sup>*\<^sup>* s s' \<and> s3_Close_result s' None = Some (Inr ()) \<and> x_accepted s' = x_accepted s"
    if "x_ch_closed s"
    using s3_runs_out [OF r that] by (auto simp: s3_Close_result_def)
  have "int (length (x_ch s)) \<le> Capacity opts" "x_handled s @ x_ch s = x_accepted s" using f o(1) by (auto simp: fs_inv_def)
  moreover have "int (length (buf (x_loop s))) < FlushBytes opts" "\<forall>(k, body, ok) \<in> set (puts (x_loop s)). body \<noteq> ''''"
    using l by (auto simp: loop_inv_def)
  ultimately show ?thesis using r c d by blast
qed

definition demo_s3 :: S3SinkOptions where
  "demo_s3 = \<lparr>Bucket = ''b'', Prefix = ''p'', FlushInterval = 5 * Minute, FlushBytes = 1, Capacity = 1024\<rparr>"

lemma demo_s3_opens: "NewS3Sink (demo_s3\<lparr>Prefix := ''p/'', FlushInterval := 0, Capacity := 0\<rparr>) (Inr ()) = Inr demo_s3"
  by (simp add: NewS3Sink_def demo_s3_def TrimSuffix_def HasSuffix_def)

lemma demo_s3_capacity [simp]: "0 < Capacity demo_s3"
  by (simp add: demo_s3_def)

text \<open>A call of \<open>Write\<close> that is let through, and the goroutine taking the record up.\<close>

lemma write_through:
  assumes "x_calls s t = Idle" "\<not> x_closed s" "\<not> x_ch_closed s" "x_ch s = []" "0 < Capacity opts"
  shows "(s3_step enc opts)\<^sup>*\<^sup>* s (s\<lparr>x_calls := (x_calls s)(t := Returned (Inr ())), x_accepted := x_accepted s @ [r],
     x_loop := s3_run enc opts (x_loop s) [Recv r now ok], x_handled := x_handled s @ [r]\<rparr>)"
proof -
  let ?s1 = "s\<lparr>x_calls := (x_calls s)(t := Enter r)\<rparr>"
  let ?s2 = "?s1\<lparr>x_calls := (x_calls ?s1)(t := Passed r)\<rparr>"
  let ?s3 = "?s2\<lparr>x_ch := x_ch ?s2 @ [r], x_accepted := x_accepted ?s2 @ [r], x_calls := (x_calls ?s2)(t := Returned (Inr ()))\<rparr>"
  let ?s4 = "?s3\<lparr>x_ch := [], x_loop := s3_run enc opts (x_loop ?s3) [Recv r now ok], x_handled := x_handled ?s3 @ [r]\<rparr>"
  have 1: "s3_step enc opts s ?s1" using assms by (intro s3_call)
  have 2: "s3_step enc opts ?s1 ?s2" using assms by (intro s3_pass [where r = r]) simp_all
  have 3: "s3_step enc opts ?s2 ?s3" using assms by (intro s3_send) simp_all
  have 4: "s3_step enc opts ?s3 ?s4" using assms by (intro s3_receive) simp_all
  from 1 2 3 4 have "(s3_step enc opts)\<^sup>*\<^sup>* s ?s4" by (meson converse_rtranclp_into_rtranclp rtranclp.rtrancl_refl)
  moreover have "?s4 = s\<lparr>x_calls := (x_calls s)(t := Returned (Inr ())), x_accepted := x_accepted s @ [r],
     x_loop := s3_run enc opts (x_loop s) [Recv r now ok], x_handled := x_handled s @ [r]\<rparr>" using assms(4) by simp
  ultimately show ?thesis by simp
qed

lemma closes_s3:
  "\<not> x_closed s \<Longrightarrow> \<not> x_ch_closed s \<Longrightarrow> (s3_step enc opts)\<^sup>*\<^sup>* s (s\<lparr>x_closed := True, x_ch_closed := True\<rparr>)"
  using s3_close_closed [of s enc opts] s3_close_ch [of "s\<lparr>x_closed := True\<rparr>" enc opts]
  by (simp add: converse_rtranclp_into_rtranclp)

lemma write_through_reach:
  assumes "s3_reach enc opts s" "x_calls s t = Idle" "\<not> x_closed s" "\<not> x_ch_closed s" "x_ch s = []" "0 < Capacity opts"
  obtains s' where "s3_reach enc opts s'" "x_calls s' = (x_calls s)(t := Returned (Inr ()))" "\<not> x_closed s'" "\<not> x_ch_closed s'"
    "x_ch s' = []" "x_accepted s' = x_accepted s @ [r]" "x_loop s' = s3_run enc opts (x_loop s) [Recv r now ok]" "x_done s' = x_done s"
  using s3_reach_steps [OF write_through [OF assms(2-6)] assms(1)] assms(2-5) that by fastforce

text \<open>Two calls of \<open>Write\<close> and \<open>Close\<close>; every record fills a batch of its own.\<close>

lemma demo_s3_run:
  fixes r1 r2 :: Record and enc
  assumes "enc = (\<lambda>r. Some (a_Tool r))"
  obtains s where "s3_reach enc demo_s3 s" "x_accepted s = [r1, r2]" "s3_Close_result s None = Some (Inr ())"
    "puts (x_loop s) = [(partitionKey ''p'' 5 5, encode_line enc r1, True), (partitionKey ''p'' 5 5, encode_line enc r2, ok)]"
proof -
  obtain s1 where s1: "s3_reach enc demo_s3 s1" "x_calls s1 = (\<lambda>_. Idle)(0 := Returned (Inr ()))" "\<not> x_closed s1" "\<not> x_ch_closed s1"
      "x_ch s1 = []" "x_accepted s1 = [r1]" "x_loop s1 = s3_run enc demo_s3 s3_init [Recv r1 5 True]" "\<not> x_done s1"
    by (rule write_through_reach [OF s3_new _ _ _ _ demo_s3_capacity, where t = 0 and r = r1 and now = 5 and ok = True])
      (simp_all add: new_s3Sink_def)
  obtain s2 where s2: "s3_reach enc demo_s3 s2" "\<not> x_closed s2" "\<not> x_ch_closed s2"
      "x_ch s2 = []" "x_accepted s2 = [r1, r2]" "x_loop s2 = s3_run enc demo_s3 (x_loop s1) [Recv r2 5 ok]" "\<not> x_done s2"
    by (rule write_through_reach [OF s1(1), where t = 1 and r = r2 and now = 5 and ok = ok]) (use s1 in simp_all)
  let ?s3 = "s2\<lparr>x_closed := True, x_ch_closed := True\<rparr>"
  let ?s = "?s3\<lparr>x_loop := s3_run enc demo_s3 (x_loop ?s3) [ChClosed 6 True], x_done := True\<rparr>"
  have "s3_reach enc demo_s3 ?s3" using closes_s3 s2(1-3) by (blast intro: s3_reach_steps)
  then have r: "s3_reach enc demo_s3 ?s" using s2 by (intro s3_next [OF _ s3_finish]) simp_all
  have "puts (x_loop ?s) = [(partitionKey ''p'' 5 5, encode_line enc r1, True), (partitionKey ''p'' 5 5, encode_line enc r2, ok)]"
    by (simp add: s1(7) s2(6) s3_run.simps s3_init_def flush_def demo_s3_def Let_def IsZero_def assms encode_line_def)
  with r s2 show ?thesis by (intro that [of ?s]) (simp_all add: s3_Close_result_def)
qed

text \<open>The second upload fails: \<open>Close\<close> returns without error, and only the first record is uploaded.\<close>

theorem s3_refines_fileSink_witness:
  "\<exists>s batches rest. s3_reach (\<lambda>r. Some (a_Tool r)) demo_s3 s \<and> s3_Close_result s None = Some (Inr ()) \<and>
     concat batches @ rest = [demo_record, demo_record] \<and>
     map (\<lambda>b. concat (map (encode_line (\<lambda>r. Some (a_Tool r))) b)) batches = [encode_line (\<lambda>r. Some (a_Tool r)) demo_record, encode_line (\<lambda>r. Some (a_Tool r)) demo_record] \<and>
     map snd (uploaded (x_loop s)) = [encode_line (\<lambda>r. Some (a_Tool r)) demo_record]"
proof -
  let ?E = "\<lambda>r. Some (a_Tool r)"
  obtain s where s: "s3_reach ?E demo_s3 s" "x_accepted s = [demo_record, demo_record]" "s3_Close_result s None = Some (Inr ())"
    "puts (x_loop s) = [(partitionKey ''p'' 5 5, encode_line ?E demo_record, True), (partitionKey ''p'' 5 5, encode_line ?E demo_record, False)]"
    by (rule demo_s3_run [OF refl])
  obtain batches rest where b: "concat batches @ rest = x_accepted s"
    "map (\<lambda>(k, body, ok). body) (puts (x_loop s)) = map (\<lambda>b. concat (map (encode_line ?E) b)) batches"
    using s3_refines_fileSink [OF demo_s3_opens s(1)] s(3) by blast
  have "map (\<lambda>(k, body, ok). body) (puts (x_loop s)) = [encode_line ?E demo_record, encode_line ?E demo_record]"
    by (simp add: s(4))
  moreover have "map snd (uploaded (x_loop s)) = [encode_line ?E demo_record]" by (simp add: uploaded_def s(4))
  ultimately show ?thesis using s b by metis
qed

text \<open>A key names one second, and \<open>PutObject\<close> under a key that exists replaces the object: a run of two calls of \<open>Write\<close>
  and \<open>Close\<close> that all succeed, after which the line of the first record is in no object of the bucket.\<close>

theorem s3_same_second_overwrites:
  fixes r1 r2 :: Record and enc
  defines "enc \<equiv> \<lambda>r. Some (a_Tool r)"
  shows "\<exists>s. s3_reach enc demo_s3 s \<and> x_accepted s = [r1, r2] \<and> s3_Close_result s None = Some (Inr ()) \<and>
     ran (bucket_objects (uploaded (x_loop s))) = {encode_line enc r2}"
proof -
  have e: "enc = (\<lambda>r. Some (a_Tool r))" by (simp add: enc_def)
  obtain s where s: "s3_reach enc demo_s3 s" "x_accepted s = [r1, r2]" "s3_Close_result s None = Some (Inr ())"
    "puts (x_loop s) = [(partitionKey ''p'' 5 5, encode_line enc r1, True), (partitionKey ''p'' 5 5, encode_line enc r2, True)]"
    by (rule demo_s3_run [OF e])
  then show ?thesis by (intro exI [of _ s]) (simp add: uploaded_def bucket_objects_def)
qed

end
