(* ===== verification/Policy.thy ===== *)
theory Policy
  imports Go_Strings
begin

text \<open>
  \<open>internal/policy/policy.go\<close>: the policy of a tool, the defaults of a configuration and their
  merge, the caller allow-list and the template of synthesized replays. Modes and replay
  strategies are strings in the code, and so here: a configuration may hold any string.
\<close>

section \<open>Data\<close>

type_synonym Mode = string

definition ModeStrict :: Mode where "ModeStrict = ''strict''"
definition ModeCache :: Mode where "ModeCache = ''cache''"
definition ModeLogOnly :: Mode where "ModeLogOnly = ''log_only''"
definition ModeOff :: Mode where "ModeOff = ''off''"

lemmas mode_defs = ModeStrict_def ModeCache_def ModeLogOnly_def ModeOff_def

type_synonym ReplayStrategy = string

definition ReplayCachedResponse :: ReplayStrategy where "ReplayCachedResponse = ''cached_response''"
definition ReplaySynthesizedAck :: ReplayStrategy where "ReplaySynthesizedAck = ''synthesized_ack''"

lemmas replay_defs = ReplayCachedResponse_def ReplaySynthesizedAck_def

record RateLimit =
  RPS :: flt
  Burst :: int

record ToolPolicy =
  Mode :: Mode
  TTL :: duration
  Normalize :: "string \<rightharpoonup> string list"
  FingerprintFields :: "string list"
  SemanticThreshold :: flt
  RequireHumanConfirmOnReplay :: bool
  RateLimit :: RateLimit
  AllowedCallers :: "string list"
  ReplayStrategy :: ReplayStrategy
  SynthesizedResponse :: bytes
  RedactRequestBody :: bool

text \<open>The zero value of the struct.\<close>

definition zero_policy :: ToolPolicy where
  "zero_policy = \<lparr>Mode = '''', TTL = 0, Normalize = Map.empty, FingerprintFields = [],
     SemanticThreshold = Fin 0, RequireHumanConfirmOnReplay = False,
     RateLimit = \<lparr>RPS = Fin 0, Burst = 0\<rparr>, AllowedCallers = [], ReplayStrategy = '''',
     SynthesizedResponse = '''', RedactRequestBody = False\<rparr>"

record Config =
  Defaults :: ToolPolicy
  Tools :: "string \<rightharpoonup> ToolPolicy"

section \<open>Operations\<close>

fun callers_loop :: "string list \<Rightarrow> string \<Rightarrow> bool" where
  "callers_loop [] caller = False"
| "callers_loop (c # cs) caller = (if c = caller then True else callers_loop cs caller)"

definition AllowsCaller :: "ToolPolicy \<Rightarrow> string \<Rightarrow> bool" where
  "AllowsCaller p caller =
     (if length (AllowedCallers p) = 0 then True else callers_loop (AllowedCallers p) caller)"

function expand_loop :: "bytes \<Rightarrow> bytes \<Rightarrow> bytes \<Rightarrow> bytes" where
  "expand_loop tool hash tmpl =
     (if tmpl = [] then []
      else if hd tmpl = CHR ''$'' \<and> 5 \<le> length tmpl \<and> take 5 tmpl = ''$hash''
        then hash @ expand_loop tool hash (drop 5 tmpl)
      else if hd tmpl = CHR ''$'' \<and> 5 \<le> length tmpl \<and> take 5 tmpl = ''$tool''
        then tool @ expand_loop tool hash (drop 5 tmpl)
      else hd tmpl # expand_loop tool hash (tl tmpl))"
  by pat_completeness auto
termination
  by (relation "measure (\<lambda>(_, _, tmpl). length tmpl)") auto

declare expand_loop.simps [simp del]

definition default_template :: bytes where
  "default_template =
     CHR ''{'' # CHR 0x22 # ''replayed'' @ CHR 0x22 # '':true,'' @ CHR 0x22 # ''hash'' @ CHR 0x22 # '':'' @
     CHR 0x22 # ''$hash'' @ CHR 0x22 # ''}''"

definition SynthesizeReplay :: "ToolPolicy \<Rightarrow> bytes \<Rightarrow> bytes \<Rightarrow> bytes" where
  "SynthesizeReplay p tool hash =
     (let tmpl = (if SynthesizedResponse p = '''' then default_template else SynthesizedResponse p)
      in expand_loop tool hash tmpl)"

definition mergeDefaults :: "ToolPolicy \<Rightarrow> ToolPolicy \<Rightarrow> ToolPolicy" where
  "mergeDefaults p d =
     (let p1 = (if Mode p = '''' then p\<lparr>Mode := Mode d\<rparr> else p);
          p2 = (if TTL p1 = 0 then p1\<lparr>TTL := TTL d\<rparr> else p1)
      in if flt_eq (SemanticThreshold p2) (Fin 0)
         then p2\<lparr>SemanticThreshold := SemanticThreshold d\<rparr> else p2)"

definition For :: "Config \<Rightarrow> string \<Rightarrow> ToolPolicy" where
  "For c tool =
     (case Tools c tool of
        Some p \<Rightarrow> mergeDefaults p (Defaults c)
      | None \<Rightarrow> Defaults c)"

section \<open>The allow-list and the merge\<close>

lemma callers_loop_mem: "callers_loop cs caller \<longleftrightarrow> caller \<in> set cs"
  by (induction cs) auto

lemma AllowsCaller_iff: "AllowsCaller p caller \<longleftrightarrow> AllowedCallers p = [] \<or> caller \<in> set (AllowedCallers p)"
  by (simp add: AllowsCaller_def callers_loop_mem)

text \<open>Which field of the effective policy comes from where: only three of them are inherited.\<close>

lemma mergeDefaults_fields:
  "Mode (mergeDefaults p d) = (if Mode p = '''' then Mode d else Mode p)"
  "TTL (mergeDefaults p d) = (if TTL p = 0 then TTL d else TTL p)"
  "SemanticThreshold (mergeDefaults p d) =
     (if SemanticThreshold p = Fin 0 then SemanticThreshold d else SemanticThreshold p)"
  "Normalize (mergeDefaults p d) = Normalize p"
  "FingerprintFields (mergeDefaults p d) = FingerprintFields p"
  "RequireHumanConfirmOnReplay (mergeDefaults p d) = RequireHumanConfirmOnReplay p"
  "RateLimit (mergeDefaults p d) = RateLimit p"
  "AllowedCallers (mergeDefaults p d) = AllowedCallers p"
  "ReplayStrategy (mergeDefaults p d) = ReplayStrategy p"
  "SynthesizedResponse (mergeDefaults p d) = SynthesizedResponse p"
  "RedactRequestBody (mergeDefaults p d) = RedactRequestBody p"
  by (simp_all add: mergeDefaults_def Let_def)

lemma mergeDefaults_idem: "mergeDefaults (mergeDefaults p d) d = mergeDefaults p d"
  by (rule ToolPolicy.equality) (simp_all add: mergeDefaults_fields)

section \<open>Templates\<close>

text \<open>A template as the documentation describes it: literal text and the two tokens.\<close>

datatype tmpl_token = Lit bytes | HashTok | ToolTok

fun render_token :: "tmpl_token \<Rightarrow> bytes" where
  "render_token (Lit s) = s"
| "render_token HashTok = ''$hash''"
| "render_token ToolTok = ''$tool''"

fun token_value :: "bytes \<Rightarrow> bytes \<Rightarrow> tmpl_token \<Rightarrow> bytes" where
  "token_value tool hash (Lit s) = s"
| "token_value tool hash HashTok = hash"
| "token_value tool hash ToolTok = tool"

definition lit_ok :: "tmpl_token \<Rightarrow> bool" where
  "lit_ok t \<longleftrightarrow> (case t of Lit s \<Rightarrow> CHR ''$'' \<notin> set s | _ \<Rightarrow> True)"

lemma expand_loop_Nil [simp]: "expand_loop tool hash [] = []"
  by (simp add: expand_loop.simps)

lemma expand_loop_hash [simp]: "expand_loop tool hash (''$hash'' @ t) = hash @ expand_loop tool hash t"
  by (subst expand_loop.simps) simp

lemma expand_loop_tool [simp]: "expand_loop tool hash (''$tool'' @ t) = tool @ expand_loop tool hash t"
  by (subst expand_loop.simps) simp

lemma expand_loop_lit: "CHR ''$'' \<notin> set s \<Longrightarrow> expand_loop tool hash (s @ t) = s @ expand_loop tool hash t"
proof (induction s)
  case (Cons c s)
  then show ?case by (subst expand_loop.simps) auto
qed simp

lemma expand_loop_tokens:
  "\<forall>t \<in> set ts. lit_ok t \<Longrightarrow>
     expand_loop tool hash (concat (map render_token ts)) = concat (map (token_value tool hash) ts)"
proof (induction ts)
  case (Cons t ts)
  then show ?case by (cases t) (auto simp: lit_ok_def expand_loop_lit
        simp del: append_Cons simp flip: append_Cons)
qed simp

end
