(* ===== verification/Normalizer.thy ===== *)
theory Normalizer
  imports Go_Strings
begin

text \<open>
  \<open>internal/normalizer\<close>: the per-field string transforms of a policy. \<open>registry\<close> is the table
  of transform names, \<open>normalizer_Apply\<close> runs a list of names in order and skips unknown ones.
\<close>

fun collapse_loop :: "bool \<Rightarrow> rune list \<Rightarrow> rune list" where
  "collapse_loop prevSpace [] = []"
| "collapse_loop prevSpace (r # rs) =
     (if IsSpace r
      then (if prevSpace then collapse_loop True rs else 32 # collapse_loop True rs)
      else r # collapse_loop False rs)"

definition collapseWhitespace :: "bytes \<Rightarrow> bytes" where
  "collapseWhitespace s = TrimSpace (utf8_encode (collapse_loop False (utf8_runes s)))"

definition registry :: "unicode \<Rightarrow> string \<Rightarrow> (bytes \<Rightarrow> bytes) option" where
  "registry U name =
     (if name = ''trim'' then Some TrimSpace
      else if name = ''lowercase'' then Some (ToLower U)
      else if name = ''uppercase'' then Some (ToUpper U)
      else if name = ''collapse_whitespace'' then Some collapseWhitespace
      else None)"

fun normalizer_Apply :: "unicode \<Rightarrow> bytes \<Rightarrow> string list \<Rightarrow> bytes" where
  "normalizer_Apply U out [] = out"
| "normalizer_Apply U out (name # transforms) =
     (case registry U name of
        Some fn \<Rightarrow> normalizer_Apply U (fn out) transforms
      | None \<Rightarrow> normalizer_Apply U out transforms)"

section \<open>White space is collapsed\<close>

text \<open>The loop leaves no two adjacent spaces, no space but U+0020, and leaves such a text alone.\<close>

fun collapsed :: "bool \<Rightarrow> rune list \<Rightarrow> bool" where
  "collapsed p [] = True"
| "collapsed p (r # rs) =
     (if IsSpace r then \<not> p \<and> r = 32 \<and> collapsed True rs else collapsed False rs)"

lemma collapsed_loop: "collapsed p (collapse_loop p rs)"
  by (induction p rs rule: collapse_loop.induct) (auto simp: IsSpace_def)

lemma collapse_loop_id: "collapsed p rs \<Longrightarrow> collapse_loop p rs = rs"
  by (induction p rs rule: collapse_loop.induct) (auto split: if_splits)

lemma collapse_loop_idem: "collapse_loop p (collapse_loop p rs) = collapse_loop p rs"
  by (simp add: collapse_loop_id collapsed_loop)

lemma collapse_loop_scalar:
  "\<forall>r \<in> set rs. scalar r \<Longrightarrow> r \<in> set (collapse_loop p rs) \<Longrightarrow> scalar r"
  by (induction p rs rule: collapse_loop.induct) (auto simp: scalar_def split: if_splits)

text \<open>The non-space runes survive in order.\<close>

lemma collapse_loop_filter:
  "filter (\<lambda>r. \<not> IsSpace r) (collapse_loop p rs) = filter (\<lambda>r. \<not> IsSpace r) rs"
  by (induction p rs rule: collapse_loop.induct) (auto simp: IsSpace_def)

lemma collapsed_mono: "collapsed True rs \<Longrightarrow> collapsed False rs"
  by (cases rs) (auto split: if_splits)

lemma collapsed_suffix: "collapsed p (xs @ ys) \<Longrightarrow> collapsed False ys"
  by (induction p xs rule: collapsed.induct) (auto split: if_splits intro: collapsed_mono, metis collapsed_mono)

lemma collapsed_prefix: "collapsed p (xs @ ys) \<Longrightarrow> collapsed p xs"
  by (induction p xs rule: collapsed.induct) (auto split: if_splits)

lemma collapsed_strip: "collapsed False rs \<Longrightarrow> collapsed False (strip_runes rs)"
  by (metis collapsed_prefix collapsed_suffix strip_runes_infix)

lemma set_strip_runes: "set (strip_runes rs) \<subseteq> set rs"
  by (metis strip_runes_infix set_append Un_commute Un_upper1 le_sup_iff order_refl)

text \<open>What \<open>collapseWhitespace\<close> computes, on runes.\<close>

lemma collapseWhitespace_runes:
  "collapseWhitespace s = utf8_encode (strip_runes (collapse_loop False (utf8_runes s)))"
  using collapse_loop_scalar [of "utf8_runes s"] utf8_runes_scalar
  by (simp add: collapseWhitespace_def TrimSpace_encode)

lemma utf8_runes_collapse:
  "utf8_runes (collapseWhitespace s) = strip_runes (collapse_loop False (utf8_runes s))"
  using collapse_loop_scalar [of "utf8_runes s"] utf8_runes_scalar set_strip_runes
  by (subst collapseWhitespace_runes) (intro utf8_runes_encode, blast)

lemma collapseWhitespace_idem: "collapseWhitespace (collapseWhitespace s) = collapseWhitespace s"
proof -
  have "collapse_loop False (utf8_runes (collapseWhitespace s)) = utf8_runes (collapseWhitespace s)"
    by (simp add: utf8_runes_collapse collapse_loop_id collapsed_loop collapsed_strip)
  then have "collapseWhitespace (collapseWhitespace s) = TrimSpace (utf8_encode (utf8_runes (collapseWhitespace s)))"
    by (simp add: collapseWhitespace_def)
  also have "\<dots> = TrimSpace (collapseWhitespace s)"
    by (simp add: utf8_runes_collapse flip: collapseWhitespace_runes)
  also have "\<dots> = collapseWhitespace s"
    by (simp add: collapseWhitespace_def)
  finally show ?thesis .
qed

section \<open>Properties of the component\<close>

lemma normalizer_Apply_append:
  "normalizer_Apply U s (xs @ ys) = normalizer_Apply U (normalizer_Apply U s xs) ys"
  by (induction xs arbitrary: s) (auto split: option.split)

lemma registry_idem:
  assumes "registry U name = Some f" "case_ok (rune_lower U)" "case_ok (rune_upper U)"
  shows "f (f s) = f s"
  using assms
  by (auto simp: registry_def ToLower_idem ToUpper_idem collapseWhitespace_idem split: if_splits)

end
