(* ===== verification/Embedding.thy ===== *)
theory Embedding
  imports Normalizer Store
begin

text \<open>
  \<open>internal/embed\<close>: vectors of \<open>float32\<close>, the hashing embedder, the client of an embedding service
  and the cosine similarity. A \<open>float32\<close> is its bit pattern; \<open>f32_flt\<close> reads it. Arithmetic follows
  IEEE 754: the operation on infinities and NaN is written out, the exact result of the operation
  on finite numbers is rounded. The rounding to double and to single precision and the logarithm
  are the fields of \<open>fp_ops\<close>; signed zeros are not told apart.
\<close>

section \<open>Floating point\<close>

record fp_ops =
  R64 :: "real \<Rightarrow> flt"          \<comment> \<open>rounding of a real to \<open>float64\<close>\<close>
  f32_of :: "flt \<Rightarrow> f32"       \<comment> \<open>rounding of a value to \<open>float32\<close>\<close>
  f64_log :: "flt \<Rightarrow> flt"      \<comment> \<open>\<open>math.Log\<close>\<close>

definition f32_flt :: "f32 \<Rightarrow> flt" where
  "f32_flt w =
     (let neg = bit w 31; e = unat (take_bit 8 (drop_bit 23 w)); m = real (unat (take_bit 23 w));
          sg = (if neg then -1 else 1 :: real)
      in if e = 255 then (if m = 0 then (if neg then NInf else PInf) else NaN)
         else if e = 0 then Fin (sg * m / 2 ^ 149)
         else Fin (sg * (2 ^ 23 + m) * 2 ^ e / 2 ^ 150))"

fun f_add :: "(real \<Rightarrow> flt) \<Rightarrow> flt \<Rightarrow> flt \<Rightarrow> flt" where
  "f_add R (Fin a) (Fin b) = R (a + b)"
| "f_add R (Fin a) b = b"
| "f_add R a (Fin b) = a"
| "f_add R PInf PInf = PInf"
| "f_add R NInf NInf = NInf"
| "f_add R _ _ = NaN"

definition sign_inf :: "bool \<Rightarrow> flt" where
  "sign_inf pos = (if pos then PInf else NInf)"

fun f_mul :: "(real \<Rightarrow> flt) \<Rightarrow> flt \<Rightarrow> flt \<Rightarrow> flt" where
  "f_mul R (Fin a) (Fin b) = R (a * b)"
| "f_mul R (Fin a) PInf = (if a = 0 then NaN else sign_inf (0 < a))"
| "f_mul R (Fin a) NInf = (if a = 0 then NaN else sign_inf (a < 0))"
| "f_mul R PInf (Fin b) = (if b = 0 then NaN else sign_inf (0 < b))"
| "f_mul R NInf (Fin b) = (if b = 0 then NaN else sign_inf (b < 0))"
| "f_mul R PInf PInf = PInf"
| "f_mul R NInf NInf = PInf"
| "f_mul R PInf NInf = NInf"
| "f_mul R NInf PInf = NInf"
| "f_mul R _ _ = NaN"

fun f_div :: "(real \<Rightarrow> flt) \<Rightarrow> flt \<Rightarrow> flt \<Rightarrow> flt" where
  "f_div R (Fin a) (Fin b) =
     (if b = 0 then (if a = 0 then NaN else sign_inf (0 < a)) else R (a / b))"
| "f_div R (Fin a) PInf = Fin 0"
| "f_div R (Fin a) NInf = Fin 0"
| "f_div R PInf (Fin b) = sign_inf (0 \<le> b)"
| "f_div R NInf (Fin b) = sign_inf (b < 0)"
| "f_div R _ _ = NaN"

fun f_sqrt :: "(real \<Rightarrow> flt) \<Rightarrow> flt \<Rightarrow> flt" where
  "f_sqrt R (Fin a) = (if a < 0 then NaN else R (sqrt a))"
| "f_sqrt R PInf = PInf"
| "f_sqrt R _ = NaN"

fun f_abs :: "flt \<Rightarrow> flt" where
  "f_abs (Fin a) = Fin \<bar>a\<bar>"
| "f_abs NInf = PInf"
| "f_abs x = x"

lemma f_add_commute: "f_add R a b = f_add R b a"
  by (cases a; cases b) (auto simp: add.commute)

lemma f_mul_commute: "f_mul R a b = f_mul R b a"
  by (cases a; cases b) (auto simp: mult.commute)

section \<open>Similarity\<close>

definition f32_zero :: f32 where "f32_zero = 0"

fun cosine_loop :: "fp_ops \<Rightarrow> f32 list \<Rightarrow> f32 list \<Rightarrow> flt \<Rightarrow> flt \<Rightarrow> flt \<Rightarrow> flt \<times> flt \<times> flt" where
  "cosine_loop F (x # a) (y # b) dot na nb =
     (let p = f32_flt x; q = f32_flt y
      in cosine_loop F a b (f_add (R64 F) dot (f_mul (R64 F) p q))
           (f_add (R64 F) na (f_mul (R64 F) p p)) (f_add (R64 F) nb (f_mul (R64 F) q q)))"
| "cosine_loop F _ _ dot na nb = (dot, na, nb)"

definition Cosine :: "fp_ops \<Rightarrow> f32 list \<Rightarrow> f32 list \<Rightarrow> f32 result" where
  "Cosine F a b =
     (if length a \<noteq> length b then Inl (ErrMsg ''dim mismatch'')
      else if length a = 0 then Inl (ErrMsg ''empty vectors'')
      else let (dot, na, nb) = cosine_loop F a b (Fin 0) (Fin 0) (Fin 0)
           in if flt_eq na (Fin 0) \<or> flt_eq nb (Fin 0) then Inr f32_zero
              else Inr (f32_of F (f_div (R64 F) dot (f_mul (R64 F) (f_sqrt (R64 F) na) (f_sqrt (R64 F) nb)))))"

section \<open>Normalization\<close>

fun sum_squares :: "fp_ops \<Rightarrow> f32 list \<Rightarrow> flt \<Rightarrow> flt" where
  "sum_squares F [] s = s"
| "sum_squares F (x # v) s =
     sum_squares F v (f_add (R64 F) s (f_mul (R64 F) (f32_flt x) (f32_flt x)))"

definition l2Normalize :: "fp_ops \<Rightarrow> f32 list \<Rightarrow> f32 list" where
  "l2Normalize F v =
     (let sum = sum_squares F v (Fin 0) in
      if flt_eq sum (Fin 0) then v
      else let inv = f32_of F (f_div (R64 F) (Fin 1) (f_sqrt (R64 F) sum))
           in map (\<lambda>x. f32_of F (f_mul Fin (f32_flt x) (f32_flt inv))) v)"

section \<open>The hashing embedder\<close>

record HashingTFIDF =
  dim :: int
  nGramN :: int

definition NewHashingTFIDF :: "int \<Rightarrow> int \<Rightarrow> HashingTFIDF result" where
  "NewHashingTFIDF d n =
     (if d \<le> 0 then Inl (ErrMsg ''dim must be > 0'')
      else if n < 2 \<or> 6 < n then Inl (ErrMsg ''n-gram size must be in [2,6]'')
      else Inr \<lparr>dim = d, nGramN = n\<rparr>)"

text \<open>\<open>fnv.New64a\<close>: 64-bit FNV-1a.\<close>

definition fnv64a :: "bytes \<Rightarrow> 64 word" where
  "fnv64a s = foldl (\<lambda>h c. (xor h (of_char c)) * 1099511628211) 14695981039346656037 s"

definition bucket :: "bytes \<Rightarrow> int \<Rightarrow> nat \<times> flt" where
  "bucket gram d =
     (if d \<le> 0 then (0, Fin 0)
      else let sum = fnv64a gram
           in (unat sum mod nat d, if even (unat sum) then Fin (-1) else Fin 1))"

text \<open>The loop is the one of \<open>collapseWhitespace\<close>, without the final trim.\<close>

definition collapseSpaces :: "bytes \<Rightarrow> bytes" where
  "collapseSpaces s = utf8_encode (collapse_loop False (utf8_runes s))"

definition grams :: "nat \<Rightarrow> rune list \<Rightarrow> bytes list" where
  "grams n runes = map (\<lambda>i. utf8_encode (take n (drop i runes))) [0..<length runes + 1 - n]"

definition add_at :: "fp_ops \<Rightarrow> f32 list \<Rightarrow> nat \<times> flt \<Rightarrow> f32 list" where
  "add_at F vec is = vec[fst is := f32_of F (f_add Fin (f32_flt (vec ! fst is)) (snd is))]"

definition log_scale :: "fp_ops \<Rightarrow> f32 \<Rightarrow> f32" where
  "log_scale F v =
     (if flt_eq (f32_flt v) (Fin 0) then v
      else let s = (if flt_less (f32_flt v) (Fin 0) then Fin (-1) else Fin 1);
               l = f32_of F (f64_log F (f_add (R64 F) (Fin 1) (f_abs (f32_flt v))))
           in f32_of F (f_mul Fin s (f32_flt l)))"

definition embed_text :: "unicode \<Rightarrow> bytes \<Rightarrow> bytes" where
  "embed_text U text = ToLower U (TrimSpace text)"

definition Embed :: "fp_ops \<Rightarrow> unicode \<Rightarrow> HashingTFIDF \<Rightarrow> bytes \<Rightarrow> f32 list result" where
  "Embed F U h text0 =
     (let text = embed_text U text0 in
      if text = '''' then Inl (ErrMsg ''embed: empty input'')
      else let runes0 = utf8_runes (collapseSpaces text);
               n = nat (nGramN h);
               runes = (if length runes0 < n then runes0 @ replicate (n - length runes0) 32 else runes0);
               counts = foldl (add_at F) (replicate (nat (dim h)) f32_zero)
                          (map (\<lambda>g. bucket g (dim h)) (grams n runes))
           in Inr (l2Normalize F (map (log_scale F) counts)))"

section \<open>The client of an embedding service\<close>

record HTTPEmbedder =
  url :: bytes
  http_dim :: int
  timeout :: duration

definition NewHTTPEmbedder :: "bytes \<Rightarrow> int \<Rightarrow> duration \<Rightarrow> HTTPEmbedder result" where
  "NewHTTPEmbedder u d t =
     (if u = '''' then Inl (ErrMsg ''embed: HTTP embedder URL is required'')
      else Inr \<lparr>url = u, http_dim = d, timeout = (if t \<le> 0 then 10 * Second else t)\<rparr>)"

text \<open>What the service answers: an HTTP status and, once the body is decoded, the vectors of the two
  accepted shapes.\<close>

record embedResp =
  resp_status :: int
  resp_embedding :: "f32 list"
  resp_data :: "f32 list list"
  resp_decodes :: bool

text \<open>\<open>post\<close> is the round trip: an error of the transport, or the answer to the text.\<close>

definition http_Embed ::
  "fp_ops \<Rightarrow> (bytes \<Rightarrow> embedResp result) \<Rightarrow> HTTPEmbedder \<Rightarrow> bytes \<Rightarrow> f32 list result \<times> HTTPEmbedder" where
  "http_Embed F post e text =
     (if text = '''' then (Inr (replicate (nat (http_dim e)) f32_zero), e)
      else case post text of
        Inl err \<Rightarrow> (Inl (Wrapped ''embed: post'' err), e)
      | Inr resp \<Rightarrow>
          if resp_status resp < 200 \<or> 300 \<le> resp_status resp then (Inl (ErrMsg ''embed: returned''), e)
          else if \<not> resp_decodes resp then (Inl (ErrMsg ''embed: decode response''), e)
          else
            let vec = (if resp_embedding resp = [] \<and> resp_data resp \<noteq> [] then hd (resp_data resp)
                       else resp_embedding resp)
            in if vec = [] then (Inl (ErrMsg ''embed: response had no embedding field''), e)
               else if http_dim e = 0 then (Inr (l2Normalize F vec), e\<lparr>http_dim := int (length vec)\<rparr>)
               else if http_dim e \<noteq> int (length vec) then (Inl (ErrMsg ''embed: dim mismatch''), e)
               else (Inr (l2Normalize F vec), e))"

section \<open>Lemmas\<close>

lemma cosine_loop_swap:
  "cosine_loop F b a dot nb na = (let (d, x, y) = cosine_loop F a b dot na nb in (d, y, x))"
proof (induction F a b dot na nb rule: cosine_loop.induct)
  case (1 F x a y b dot na nb)
  then show ?case by (simp add: Let_def f_mul_commute [of _ "f32_flt y" "f32_flt x"])
qed (auto split: list.split)

lemma Cosine_commute: "Cosine F a b = Cosine F b a"
proof (cases "length a = length b")
  case True
  obtain d x y where c: "cosine_loop F a b (Fin 0) (Fin 0) (Fin 0) = (d, x, y)"
    by (cases "cosine_loop F a b (Fin 0) (Fin 0) (Fin 0)")
  then have "cosine_loop F b a (Fin 0) (Fin 0) (Fin 0) = (d, y, x)"
    using cosine_loop_swap [of F b a "Fin 0" "Fin 0" "Fin 0"] by simp
  with c True show ?thesis
    by (auto simp: Cosine_def Let_def f_mul_commute [of _ "f_sqrt (R64 F) y"])
qed (simp add: Cosine_def)

text \<open>Exact arithmetic: the loop computes the scalar products.\<close>

definition f32_finite :: "f32 \<Rightarrow> bool" where
  "f32_finite w \<longleftrightarrow> (\<exists>x. f32_flt w = Fin x)"

fun fin_val :: "flt \<Rightarrow> real" where
  "fin_val (Fin x) = x"
| "fin_val _ = 0"

definition f32_val :: "f32 \<Rightarrow> real" where
  "f32_val w = fin_val (f32_flt w)"

definition dot_product :: "f32 list \<Rightarrow> f32 list \<Rightarrow> real" where
  "dot_product a b = sum_list (map2 (\<lambda>x y. f32_val x * f32_val y) a b)"

lemma f32_finite_val: "f32_finite w \<Longrightarrow> f32_flt w = Fin (f32_val w)"
  by (auto simp: f32_finite_def f32_val_def)

lemma cosine_loop_exact:
  "R64 F = Fin \<Longrightarrow> length a = length b \<Longrightarrow> list_all f32_finite a \<Longrightarrow> list_all f32_finite b \<Longrightarrow>
     cosine_loop F a b (Fin d) (Fin na) (Fin nb) =
       (Fin (d + dot_product a b), Fin (na + dot_product a a), Fin (nb + dot_product b b))"
proof (induction a arbitrary: b d na nb)
  case (Cons x a)
  then obtain y b' where "b = y # b'" by (cases b) auto
  with Cons show ?case by (simp add: f32_finite_val Let_def dot_product_def add.assoc)
qed (simp add: dot_product_def)

lemma dot_product_square: "0 \<le> dot_product a a"
  by (induction a) (auto simp: dot_product_def)

lemma cauchy_schwarz:
  assumes "length a = length b"
  shows "(dot_product a b)\<^sup>2 \<le> dot_product a a * dot_product b b"
  using assms
proof (induction a b rule: list_induct2)
  case (Cons x a y b)
  let ?d = "dot_product a b" and ?p = "dot_product a a" and ?q = "dot_product b b"
  let ?x = "f32_val x" and ?y = "f32_val y"
  have pq: "0 \<le> ?p" "0 \<le> ?q" by (rule dot_product_square)+
  have "\<bar>?d\<bar> \<le> sqrt ?p * sqrt ?q"
    using Cons.IH pq by (metis real_sqrt_abs real_sqrt_le_iff real_sqrt_mult)
  then have "\<bar>?x * ?y\<bar> * \<bar>?d\<bar> \<le> \<bar>?x * ?y\<bar> * (sqrt ?p * sqrt ?q)"
    by (intro mult_left_mono) simp_all
  moreover have "(?x * ?y) * ?d \<le> \<bar>?x * ?y\<bar> * \<bar>?d\<bar>"
    by (metis abs_ge_self abs_mult)
  moreover have "2 * (\<bar>?x\<bar> * sqrt ?q) * (\<bar>?y\<bar> * sqrt ?p) \<le> (\<bar>?x\<bar> * sqrt ?q)\<^sup>2 + (\<bar>?y\<bar> * sqrt ?p)\<^sup>2"
    by (rule sum_squares_bound)
  then have "2 * (\<bar>?x * ?y\<bar> * (sqrt ?p * sqrt ?q)) \<le> ?x\<^sup>2 * ?q + ?y\<^sup>2 * ?p"
    using pq by (simp add: power_mult_distrib abs_mult mult_ac)
  ultimately have "2 * ((?x * ?y) * ?d) \<le> ?x\<^sup>2 * ?q + ?y\<^sup>2 * ?p" by linarith
  with Cons.IH have "(?x * ?y + ?d)\<^sup>2 \<le> (?x * ?x + ?p) * (?y * ?y + ?q)"
    by (simp add: power2_eq_square algebra_simps)
  then show ?case by (simp add: dot_product_def)
qed (simp add: dot_product_def)

lemma length_foldl_add_at: "length (foldl (add_at F) v xs) = length v"
  by (induction xs arbitrary: v) (auto simp: add_at_def)

lemma length_l2Normalize [simp]: "length (l2Normalize F v) = length v"
  by (simp add: l2Normalize_def Let_def)

lemma bucket_range: "0 < d \<Longrightarrow> fst (bucket g d) < nat d \<and> snd (bucket g d) \<in> {Fin 1, Fin (-1)}"
  by (simp add: bucket_def Let_def)

text \<open>Lower-casing that maps scalars to scalars and neither makes nor removes white space.\<close>

definition lower_ok :: "unicode \<Rightarrow> bool" where
  "lower_ok U \<longleftrightarrow> (\<forall>r. scalar r \<longrightarrow> scalar (rune_lower U r)) \<and>
     (\<forall>r. IsSpace (rune_lower U r) \<longleftrightarrow> IsSpace r) \<and> rune_lower U 32 = 32"

lemma collapse_loop_map:
  "(\<And>r. IsSpace (f r) \<longleftrightarrow> IsSpace r) \<Longrightarrow> f 32 = 32 \<Longrightarrow> collapse_loop p (map f rs) = map f (collapse_loop p rs)"
  by (induction p rs rule: collapse_loop.induct) auto

lemma embed_text_runes:
  assumes "\<forall>r \<in> set rs. scalar r"
  shows "embed_text U (utf8_encode rs) = utf8_encode (map (rune_lower U) (strip_runes rs))"
proof -
  have "\<forall>r \<in> set (strip_runes rs). scalar r" using assms set_strip_runes by blast
  then show ?thesis using assms by (simp add: embed_text_def TrimSpace_encode ToLower_def utf8_runes_encode)
qed

lemma utf8_encode_eq_Nil [simp]: "utf8_encode rs = [] \<longleftrightarrow> rs = []"
  by (cases rs) auto

lemma runes_embed_text:
  assumes "\<forall>r \<in> set rs. scalar r" "lower_ok U"
  shows "utf8_runes (collapseSpaces (embed_text U (utf8_encode rs))) =
    map (rune_lower U) (collapse_loop False (strip_runes rs))"
proof -
  have s: "\<forall>r \<in> set (strip_runes rs). scalar r" using assms set_strip_runes by blast
  then have l: "\<forall>r \<in> set (map (rune_lower U) (strip_runes rs)). scalar r" using assms(2) by (auto simp: lower_ok_def)
  then have "utf8_runes (embed_text U (utf8_encode rs)) = map (rune_lower U) (strip_runes rs)"
    using assms(1) by (simp add: embed_text_runes utf8_runes_encode)
  moreover have "utf8_runes (utf8_encode (collapse_loop False (map (rune_lower U) (strip_runes rs)))) =
      collapse_loop False (map (rune_lower U) (strip_runes rs))"
    using l collapse_loop_scalar by (intro utf8_runes_encode) blast
  moreover have "collapse_loop False (map (rune_lower U) (strip_runes rs)) =
      map (rune_lower U) (collapse_loop False (strip_runes rs))"
    using assms(2) unfolding lower_ok_def by (intro collapse_loop_map) blast+
  ultimately show ?thesis by (simp add: collapseSpaces_def)
qed

section \<open>Properties of the component\<close>

text \<open>Cosine similarity is symmetric, bit for bit, whatever the rounding of the machine; it fails
  exactly on vectors of different lengths and on empty ones; and in exact arithmetic the quotient
  it rounds lies between -1 and 1 (the inequality of Cauchy and Schwarz), for finite vectors that
  are not zero.\<close>

theorem Cosine_contract:
  "Cosine F a b = Cosine F b a \<and>
   (is_ok (Cosine F a b) \<longleftrightarrow> length a = length b \<and> a \<noteq> []) \<and>
   (R64 F = Fin \<and> length a = length b \<and> a \<noteq> [] \<and> list_all f32_finite a \<and> list_all f32_finite b \<and>
      0 < dot_product a a \<and> 0 < dot_product b b \<longrightarrow>
    (\<exists>q. Cosine F a b = Inr (f32_of F (Fin q)) \<and> -1 \<le> q \<and> q \<le> 1))"
proof (intro conjI impI)
  show "Cosine F a b = Cosine F b a" by (rule Cosine_commute)
  show "is_ok (Cosine F a b) \<longleftrightarrow> length a = length b \<and> a \<noteq> []"
    by (auto simp: Cosine_def Let_def split: prod.split)
  assume a: "R64 F = Fin \<and> length a = length b \<and> a \<noteq> [] \<and> list_all f32_finite a \<and> list_all f32_finite b \<and>
    0 < dot_product a a \<and> 0 < dot_product b b"
  let ?q = "dot_product a b / (sqrt (dot_product a a) * sqrt (dot_product b b))"
  have "\<bar>dot_product a b\<bar> \<le> sqrt (dot_product a a) * sqrt (dot_product b b)"
    using cauchy_schwarz [of a b] a by (metis real_sqrt_abs real_sqrt_le_iff real_sqrt_mult)
  then have "\<bar>?q\<bar> \<le> 1" using a by (simp add: abs_mult)
  then have "-1 \<le> ?q" "?q \<le> 1" by linarith+
  moreover have "Cosine F a b = Inr (f32_of F (Fin ?q))"
  proof -
    have "b \<noteq> []" using a by auto
    then show ?thesis using a cosine_loop_exact [of F a b 0 0 0] by (simp add: Cosine_def Let_def)
  qed
  ultimately show "\<exists>q. Cosine F a b = Inr (f32_of F (Fin q)) \<and> -1 \<le> q \<and> q \<le> 1"
    by blast
qed

definition exact_fp :: fp_ops where
  "exact_fp = \<lparr>R64 = Fin, f32_of = (\<lambda>x. if x = Fin 1 then 0x3F800000 else 0), f64_log = (\<lambda>x. x)\<rparr>"

lemma f32_one: "f32_flt 0x3F800000 = Fin 1"
  by (simp add: f32_flt_def bit_numeral_word_iff)

theorem Cosine_contract_witness:
  "\<exists>q. Cosine exact_fp [0x3F800000] [0x3F800000] = Inr (f32_of exact_fp (Fin q)) \<and> -1 \<le> q \<and> q \<le> 1"
proof -
  have "f32_finite 0x3F800000" "f32_val 0x3F800000 = 1"
    using f32_one by (simp_all add: f32_finite_def f32_val_def)
  then show ?thesis
    using Cosine_contract [of exact_fp "[0x3F800000]" "[0x3F800000]"] by (simp add: exact_fp_def dot_product_def)
qed

text \<open>An embedder that was constructed returns vectors of its dimension, fails exactly on blank
  text, and gives the same vector to texts that differ only in the amount of white space between
  words and around them.\<close>

theorem Embed_contract:
  assumes h: "NewHashingTFIDF d n = Inr h"
    and rs: "\<forall>r \<in> set ra. scalar r" "\<forall>r \<in> set rb. scalar r" and U: "lower_ok U"
    and same: "collapse_loop False (strip_runes ra) = collapse_loop False (strip_runes rb)"
  shows "Embed F U h (utf8_encode ra) = Embed F U h (utf8_encode rb) \<and>
    (case Embed F U h (utf8_encode ra) of
       Inl _ \<Rightarrow> strip_runes ra = []
     | Inr v \<Rightarrow> strip_runes ra \<noteq> [] \<and> length v = nat d)"
proof -
  have c: "collapse_loop False rs = [] \<longleftrightarrow> rs = []" for rs by (cases rs) auto
  have "strip_runes ra = [] \<longleftrightarrow> strip_runes rb = []" using same c by metis
  then have e: "(embed_text U (utf8_encode ra) = []) = (embed_text U (utf8_encode rb) = [])"
    using rs by (simp add: embed_text_runes)
  have r: "utf8_runes (collapseSpaces (embed_text U (utf8_encode ra))) =
      utf8_runes (collapseSpaces (embed_text U (utf8_encode rb)))"
    using rs U same by (simp add: runes_embed_text)
  have "Embed F U h (utf8_encode ra) = Embed F U h (utf8_encode rb)" by (simp only: Embed_def Let_def e r)
  moreover have "dim h = d" using h by (auto simp: NewHashingTFIDF_def split: if_splits)
  then have "case Embed F U h (utf8_encode ra) of Inl _ \<Rightarrow> strip_runes ra = []
      | Inr v \<Rightarrow> strip_runes ra \<noteq> [] \<and> length v = nat d"
    using rs by (simp add: Embed_def Let_def length_foldl_add_at embed_text_runes)
  ultimately show ?thesis by blast
qed

definition ascii_only :: unicode where
  "ascii_only = \<lparr>uni_lower = (\<lambda>r. r), uni_upper = (\<lambda>r. r)\<rparr>"

theorem Embed_contract_witness:
  "\<exists>h. NewHashingTFIDF 8 2 = Inr h \<and>
     Embed exact_fp ascii_only h ''a  b'' = Embed exact_fp ascii_only h '' a b''"
proof -
  have s: "\<forall>r \<in> set [97, 32, 32, 98]. scalar r" "\<forall>r \<in> set [32, 97, 32, 98]. scalar r" by (simp_all add: scalar_def)
  have e: "utf8_encode [97, 32, 32, 98] = ''a  b''" "utf8_encode [32, 97, 32, 98] = '' a b''" by code_simp+
  have low: "rune_lower ascii_only r = (if 65 \<le> r \<and> r \<le> 90 then r + 32 else r)" for r
    by (simp add: rune_lower_def ascii_only_def)
  have "\<not> IsSpace r \<and> \<not> IsSpace (r + 32) \<and> scalar (r + 32)" if "65 \<le> r" "r \<le> 90" for r
    using that by (simp add: IsSpace_def scalar_def)
  then have l: "lower_ok ascii_only" by (simp add: lower_ok_def low)
  have c: "collapse_loop False (strip_runes [97, 32, 32, 98]) = collapse_loop False (strip_runes [32, 97, 32, 98])"
    by (simp add: strip_runes_def IsSpace_def)
  have h: "NewHashingTFIDF 8 2 = Inr \<lparr>dim = 8, nGramN = 2\<rparr>" by (simp add: NewHashingTFIDF_def)
  from Embed_contract [OF h s l c, of exact_fp, THEN conjunct1] h show ?thesis unfolding e by blast
qed

end
