(* ===== verification/Tracing.thy ===== *)
theory Tracing
  imports Json
begin

text \<open>
  \<open>internal/tracing\<close>: the W3C trace context. A span context and its \<open>traceparent\<close> header, the parser
  of inbound headers, fresh identifiers from a random source, and the middleware that picks the
  context of a request. The random source (\<open>crypto/rand\<close>) is a state with a read function; the
  loops that reject an all-zero identifier may run for ever, so they are partial functions whose
  \<open>None\<close> stands for not returning.
\<close>

section \<open>Span contexts and their header\<close>

record SpanContext =
  TraceID :: bytes
  SpanID :: bytes
  Flags :: char

definition empty_span :: SpanContext where
  "empty_span = \<lparr>TraceID = '''', SpanID = '''', Flags = CHR 0x00\<rparr>"

definition Version :: bytes where "Version = ''00''"
definition FlagSampled :: char where "FlagSampled = CHR 0x01"

definition Header :: "SpanContext \<Rightarrow> bytes" where
  "Header c = Version @ ''-'' @ TraceID c @ ''-'' @ SpanID c @ ''-'' @ EncodeToString [Flags c]"

definition zeros :: "nat \<Rightarrow> bytes" where
  "zeros n = replicate n (CHR ''0'')"

definition lower_hex :: "rune \<Rightarrow> bool" where
  "lower_hex r \<longleftrightarrow> 48 \<le> r \<and> r \<le> 57 \<or> 97 \<le> r \<and> r \<le> 102"

definition Valid :: "SpanContext \<Rightarrow> bool" where
  "Valid c =
     (if length (TraceID c) \<noteq> 32 \<or> length (SpanID c) \<noteq> 16 then False
      else if TraceID c = zeros 32 \<or> SpanID c = zeros 16 then False
      else list_all lower_hex (utf8_runes (TraceID c @ SpanID c)))"

text \<open>\<open>hex.DecodeString\<close>.\<close>

fun DecodeString :: "bytes \<Rightarrow> bytes option" where
  "DecodeString [] = Some []"
| "DecodeString [a] = None"
| "DecodeString (a # b # t) =
     (case (hex_val a, hex_val b, DecodeString t) of
        (Some x, Some y, Some r) \<Rightarrow> Some (char_of (16 * x + y) # r)
      | _ \<Rightarrow> None)"

definition Parse :: "bytes \<Rightarrow> SpanContext option" where
  "Parse header =
     (case Split (CHR ''-'') (TrimSpace header) of
        [p0, p1, p2, p3] \<Rightarrow>
          if p0 \<noteq> Version then None
          else (case DecodeString p3 of
                  Some [flags] \<Rightarrow>
                    let c = \<lparr>TraceID = p1, SpanID = p2, Flags = flags\<rparr>
                    in if Valid c then Some c else None
                | _ \<Rightarrow> None)
      | _ \<Rightarrow> None)"

section \<open>Fresh identifiers\<close>

type_synonym 'r reader = "'r \<Rightarrow> nat \<Rightarrow> bytes result \<times> 'r"

fun isAllZero :: "bytes \<Rightarrow> bool" where
  "isAllZero [] = True"
| "isAllZero (v # b) = (if v \<noteq> CHR 0x00 then False else isAllZero b)"

text \<open>\<open>for isAllZero(b) { readFn(b) }\<close>.\<close>

partial_function (option) retry_zero :: "'r reader \<Rightarrow> bytes \<Rightarrow> 'r \<Rightarrow> (bytes result \<times> 'r) option" where
  "retry_zero read b r =
     (if isAllZero b then
        (case read r (length b) of
           (Inl err, r') \<Rightarrow> Some (Inl err, r')
         | (Inr b', r') \<Rightarrow> retry_zero read b' r')
      else Some (Inr b, r))"

definition randomSpanID :: "'r reader \<Rightarrow> 'r \<Rightarrow> (bytes result \<times> 'r) option" where
  "randomSpanID read r =
     (case read r 8 of
        (Inl err, r1) \<Rightarrow> Some (Inl err, r1)
      | (Inr b, r1) \<Rightarrow>
          (case retry_zero read b r1 of
             None \<Rightarrow> None
           | Some (Inl err, r2) \<Rightarrow> Some (Inl err, r2)
           | Some (Inr b', r2) \<Rightarrow> Some (Inr (EncodeToString b'), r2)))"

definition generate :: "'r reader \<Rightarrow> 'r \<Rightarrow> (SpanContext result \<times> 'r) option" where
  "generate read r =
     (case read r 16 of
        (Inl err, r1) \<Rightarrow> Some (Inl (Wrapped ''trace id'' err), r1)
      | (Inr trace, r1) \<Rightarrow>
     (case read r1 8 of
        (Inl err, r2) \<Rightarrow> Some (Inl (Wrapped ''span id'' err), r2)
      | (Inr spn, r2) \<Rightarrow>
     (case retry_zero read trace r2 of
        None \<Rightarrow> None
      | Some (Inl err, r3) \<Rightarrow> Some (Inl (Wrapped ''trace id retry'' err), r3)
      | Some (Inr trace', r3) \<Rightarrow>
     (case retry_zero read spn r3 of
        None \<Rightarrow> None
      | Some (Inl err, r4) \<Rightarrow> Some (Inl (Wrapped ''span id retry'' err), r4)
      | Some (Inr spn', r4) \<Rightarrow>
          Some (Inr \<lparr>TraceID = EncodeToString trace', SpanID = EncodeToString spn', Flags = FlagSampled\<rparr>, r4)))))"

definition NewChild :: "'r reader \<Rightarrow> SpanContext \<Rightarrow> 'r \<Rightarrow> (SpanContext result \<times> 'r) option" where
  "NewChild read parent r =
     (case randomSpanID read r of
        None \<Rightarrow> None
      | Some (Inl err, r') \<Rightarrow> Some (Inl err, r')
      | Some (Inr spn, r') \<Rightarrow> Some (Inr \<lparr>TraceID = TraceID parent, SpanID = spn, Flags = Flags parent\<rparr>, r'))"

section \<open>The middleware\<close>

text \<open>What the wrapped handler finds in its context, and the header echoed on the response. Without
  a context (a failing random source) the request goes on unchanged.\<close>

definition Middleware :: "'r reader \<Rightarrow> bytes \<Rightarrow> 'r \<Rightarrow> ((SpanContext \<times> bytes) option \<times> 'r) option" where
  "Middleware read header r =
     (let res = (case Parse header of Some parent \<Rightarrow> NewChild read parent r | None \<Rightarrow> generate read r)
      in case res of
           None \<Rightarrow> None
         | Some (Inl err, r') \<Rightarrow> Some (None, r')
         | Some (Inr sc, r') \<Rightarrow> Some (Some (sc, Header sc), r'))"

definition InjectInto :: "(bytes \<rightharpoonup> bytes) \<Rightarrow> SpanContext \<Rightarrow> (bytes \<rightharpoonup> bytes)" where
  "InjectInto headers c = (if \<not> Valid c then headers else headers(''Traceparent'' \<mapsto> Header c))"

text \<open>The attributes the log handler adds to a record whose context carries \<open>sc\<close>.\<close>

definition slog_attrs :: "SpanContext option \<Rightarrow> (bytes \<times> bytes) list" where
  "slog_attrs sc =
     (case sc of
        Some c \<Rightarrow> if Valid c then [(''trace_id'', TraceID c), (''span_id'', SpanID c)] else []
      | None \<Rightarrow> [])"

section \<open>Identifiers are hexadecimal text\<close>

lemma utf8_runes_ascii: "\<forall>c \<in> set s. of_char c < (128::nat) \<Longrightarrow> utf8_runes s = map of_char s"
proof -
  assume a: "\<forall>c \<in> set s. of_char c < (128::nat)"
  have "utf8_encode (map of_char s) = s"
    using a by (induction s) (auto simp: encode_rune_def encode_codes_def)
  moreover have "\<forall>r \<in> set (map of_char s). scalar r" using a by (auto simp: scalar_def)
  ultimately show ?thesis using utf8_runes_encode [of "map of_char s"] by simp
qed

lemma rune_ascii: "s \<noteq> [] \<Longrightarrow> fst (decode_rune s) < 128 \<Longrightarrow> decode_rune s = (of_char (hd s), 1)"
proof -
  assume s: "s \<noteq> []" "fst (decode_rune s) < 128"
  obtain c t where c: "s = c # t" using s by (cases s) auto
  show ?thesis
  proof (cases "of_char c < (128::nat)")
    case False
    then have "128 \<le> fst (decode_codes (of_char c # map of_char t))"
      by (auto simp: RuneError_def is_cont_def snd3_ok_def snd4_ok_def split: list.split if_splits)
    with s c show ?thesis by (simp add: decode_rune_def)
  qed (simp add: c decode_rune_def)
qed

lemma is_hex_iff: "is_hex c \<longleftrightarrow> lower_hex (of_char c)"
proof
  have "\<forall>c \<in> set ''0123456789abcdef''. lower_hex (of_char c)" by code_simp
  then show "is_hex c \<Longrightarrow> lower_hex (of_char c)" unfolding is_hex_def by (rule bspec)
  have a: "\<forall>n \<in> set ([48..<58] @ [97..<103]). char_of n \<in> set ''0123456789abcdef''" by code_simp
  assume "lower_hex (of_char c)"
  then have "of_char c \<in> set ([48..<58] @ [97..<103])" unfolding lower_hex_def set_append set_upt by auto
  with a have "char_of (of_char c :: nat) \<in> set ''0123456789abcdef''" by (rule bspec)
  then show "is_hex c" by (simp only: is_hex_def char_of_char)
qed

text \<open>Whether bytes or decoded runes are tested for being lower-case digits is the same.\<close>

lemma lower_hex_runes: "list_all lower_hex (utf8_runes s) \<longleftrightarrow> list_all is_hex s"
proof
  assume "list_all lower_hex (utf8_runes s)"
  then show "list_all is_hex s"
  proof (induction s rule: utf8_runes.induct)
    case (1 s)
    show ?case
    proof (cases s)
      case (Cons c t)
      then have r: "utf8_runes s = fst (decode_rune s) # utf8_runes (drop (snd (decode_rune s)) s)"
        by (subst utf8_runes.simps) (simp add: Let_def split_def)
      then have h: "lower_hex (fst (decode_rune s))" using "1.prems" by simp
      then have d: "decode_rune s = (of_char c, 1)" using rune_ascii [of s] Cons by (auto simp: lower_hex_def)
      with "1.IH" "1.prems" r h Cons show ?thesis by (simp add: is_hex_iff)
    qed simp
  qed
next
  assume h: "list_all is_hex s"
  then have "\<forall>c \<in> set s. of_char c < (128::nat)" by (auto simp: list_all_iff is_hex_iff lower_hex_def)
  then show "list_all lower_hex (utf8_runes s)"
    using h by (simp add: utf8_runes_ascii list_all_iff is_hex_iff)
qed

lemma Valid_iff:
  "Valid c \<longleftrightarrow> length (TraceID c) = 32 \<and> length (SpanID c) = 16 \<and> TraceID c \<noteq> zeros 32 \<and> SpanID c \<noteq> zeros 16 \<and>
     list_all is_hex (TraceID c) \<and> list_all is_hex (SpanID c)"
  by (auto simp: Valid_def lower_hex_runes)

section \<open>Header and parser\<close>

lemma DecodeString_byte: "DecodeString (EncodeToString [c]) = Some [c]"
proof -
  have "16 * (n div 16 mod 16) + n mod 16 = n" if "n < 256" for n :: nat using that by simp
  from this [OF nat_of_char_less_256 [of c]]
  have "char_of (16 * (of_char c div 16 mod 16) + of_char c mod 16 :: nat) = c" by simp
  then show ?thesis by (simp add: EncodeToString_def)
qed

lemma hex_no_dash: "list_all is_hex s \<Longrightarrow> CHR ''-'' \<notin> set s"
  by (auto simp: list_all_iff is_hex_iff lower_hex_def)

lemma is_hex_EncodeToString: "list_all is_hex (EncodeToString b)"
  by (auto simp: list_all_iff dest: EncodeToString_hex)

lemma TrimSpace_ascii:
  assumes "\<forall>c \<in> set s. 33 \<le> (of_char c :: nat) \<and> of_char c < (127 :: nat)"
  shows "TrimSpace s = s"
proof -
  have "utf8_encode (map of_char s) = s"
    using assms by (induction s) (auto simp: encode_rune_def encode_codes_def)
  moreover have "\<forall>r \<in> set (map of_char s). scalar r" using assms by (auto simp: scalar_def)
  ultimately have t: "TrimSpace s = utf8_encode (strip_runes (map of_char s))" "utf8_encode (map of_char s) = s"
    using TrimSpace_encode [of "map of_char s"] by simp_all
  have "dropWhile IsSpace rs = rs" if "\<forall>r \<in> set rs. \<not> IsSpace r" for rs
    using that by (cases rs) auto
  moreover have n: "\<forall>r \<in> set (map of_char s). \<not> IsSpace r" using assms by (auto simp: IsSpace_def)
  ultimately have "dropWhile IsSpace (map of_char s) = map of_char s"
      "dropWhile IsSpace (rev (map of_char s)) = rev (map of_char s)" by (metis set_rev)+
  then have "strip_runes (map of_char s) = map of_char s" by (simp add: strip_runes_def)
  with t show ?thesis by simp
qed

lemma hex_visible: "list_all is_hex s \<Longrightarrow> c \<in> set s \<Longrightarrow> 33 \<le> (of_char c :: nat) \<and> of_char c < (127 :: nat)"
  by (auto simp: list_all_iff is_hex_iff lower_hex_def)

lemma TrimSpace_Header: "Valid c \<Longrightarrow> TrimSpace (Header c) = Header c"
proof (rule TrimSpace_ascii)
  assume "Valid c"
  then show "\<forall>d \<in> set (Header c). 33 \<le> (of_char d :: nat) \<and> of_char d < (127 :: nat)"
    using hex_visible [of "TraceID c"] hex_visible [of "SpanID c"] hex_visible [OF is_hex_EncodeToString]
    by (auto simp: Header_def Version_def Valid_iff)
qed

lemma Parse_Header: "Valid c \<Longrightarrow> Parse (Header c) = Some c"
proof -
  assume v: "Valid c"
  have "Split (CHR ''-'') (Header c) = [''00'', TraceID c, SpanID c, EncodeToString [Flags c]]"
    using v hex_no_dash [of "TraceID c"] hex_no_dash [of "SpanID c"] hex_no_dash [OF is_hex_EncodeToString]
    by (simp add: Header_def Version_def Valid_iff)
  moreover have "Valid \<lparr>TraceID = TraceID c, SpanID = SpanID c, Flags = Flags c\<rparr>" using v by (simp add: Valid_iff)
  ultimately show ?thesis using v by (simp add: Parse_def TrimSpace_Header DecodeString_byte Version_def Let_def)
qed

lemma Parse_Valid: "Parse h = Some c \<Longrightarrow> Valid c"
  by (auto simp: Parse_def Let_def split: list.splits option.splits if_splits)

section \<open>Fresh identifiers are valid\<close>

lemma isAllZero_iff: "isAllZero b \<longleftrightarrow> b = replicate (length b) (CHR 0x00)"
  by (induction b) auto

text \<open>A reader that fills the buffer it is given.\<close>

definition fills :: "'r reader \<Rightarrow> bool" where
  "fills read \<longleftrightarrow> (\<forall>r n b r'. read r n = (Inr b, r') \<longrightarrow> length b = n)"


lemma hex_zero: "EncodeToString b = zeros (2 * length b) \<Longrightarrow> isAllZero b"
proof -
  assume a: "EncodeToString b = zeros (2 * length b)"
  have "hex_digit 0 = CHR ''0''" by (simp add: hex_digit_def)
  then have "EncodeToString (replicate n (CHR 0x00)) = zeros (2 * n)" for n
    by (induction n) (simp_all add: EncodeToString_def zeros_def)
  from this [of "length b"] a have "b = replicate (length b) (CHR 0x00)" by (metis EncodeToString_inject)
  then show ?thesis by (simp add: isAllZero_iff)
qed

lemma retry_zero_result:
  assumes "retry_zero read b r = Some (Inr b', r')" "fills read"
  shows "length b' = length b \<and> \<not> isAllZero b'"
proof -
  have "\<forall>b' r'. y = (Inr b', r') \<longrightarrow> fills read \<longrightarrow> length b' = length b \<and> \<not> isAllZero b'"
    if "retry_zero read b r = Some y" for read :: "'a reader" and b r y
    using that
  proof (rule retry_zero.raw_induct [rotated])
    fix f :: "'a reader \<Rightarrow> bytes \<Rightarrow> 'a \<Rightarrow> (bytes result \<times> 'a) option" and read b r y
    assume IH: "\<And>read b r y. f read b r = Some y \<Longrightarrow>
        \<forall>b' r'. y = (Inr b', r') \<longrightarrow> fills read \<longrightarrow> length b' = length b \<and> \<not> isAllZero b'"
      and y: "(if isAllZero b then case read r (length b) of (Inl err, r') \<Rightarrow> Some (Inl err, r')
          | (Inr b', r') \<Rightarrow> f read b' r' else Some (Inr b, r)) = Some y"
    obtain q r1 where q: "read r (length b) = (q, r1)" by (cases "read r (length b)")
    show "\<forall>b' r'. y = (Inr b', r') \<longrightarrow> fills read \<longrightarrow> length b' = length b \<and> \<not> isAllZero b'"
    proof (cases "isAllZero b")
      case True
      with y q show ?thesis
      proof (cases q)
        case (Inr b1)
        have l: "length b1 = length b" if "fills read" using that q Inr unfolding fills_def by metis
        have "f read b1 r1 = Some y" using True y q Inr by simp
        from IH [OF this] l show ?thesis by simp
      qed auto
    qed (use y in auto)
  qed
  with assms show ?thesis by blast
qed

lemma randomSpanID_result:
  assumes "randomSpanID read r = Some (Inr s, r')" "fills read"
  shows "length s = 16 \<and> list_all is_hex s \<and> s \<noteq> zeros 16"
proof -
  obtain b r1 b' where b: "read r 8 = (Inr b, r1)" "retry_zero read b r1 = Some (Inr b', r')" "s = EncodeToString b'"
    using assms(1) by (auto simp: randomSpanID_def split: prod.splits sum.splits option.splits)
  have "length b = 8" using b(1) assms(2) by (auto simp: fills_def)
  with retry_zero_result [OF b(2) assms(2)] have "length b' = 8" "\<not> isAllZero b'" by simp_all
  with hex_zero [of b'] b(3) show ?thesis by (auto simp: is_hex_EncodeToString)
qed

lemma generate_result:
  assumes "generate read r = Some (Inr c, r')" "fills read"
  shows "Valid c \<and> Flags c = FlagSampled"
proof -
  obtain t r1 s r2 t' r3 s' where g: "read r 16 = (Inr t, r1)" "read r1 8 = (Inr s, r2)"
      "retry_zero read t r2 = Some (Inr t', r3)" "retry_zero read s r3 = Some (Inr s', r')"
      "c = \<lparr>TraceID = EncodeToString t', SpanID = EncodeToString s', Flags = FlagSampled\<rparr>"
    using assms(1) by (auto simp: generate_def split: prod.splits sum.splits option.splits)
  have "length t = 16" "length s = 8" using g assms(2) by (auto simp: fills_def)
  then have "length t' = 16" "\<not> isAllZero t'" "length s' = 8" "\<not> isAllZero s'"
    using retry_zero_result [OF g(3) assms(2)] retry_zero_result [OF g(4) assms(2)] by simp_all
  with hex_zero [of t'] hex_zero [of s'] g(5) show ?thesis
    by (auto simp: Valid_iff is_hex_EncodeToString)
qed

section \<open>Properties of the component\<close>

text \<open>C37. Parsing the header of a valid span context gives the context back, and only valid contexts
  are ever accepted.\<close>

theorem traceparent_roundtrip:
  "(Valid c \<longrightarrow> Parse (Header c) = Some c) \<and> (Parse h = Some d \<longrightarrow> Valid d)"
  using Parse_Header Parse_Valid by blast

definition demo_span :: SpanContext where
  "demo_span = \<lparr>TraceID = ''4bf92f3577b34da6a3ce929d0e0e4736'', SpanID = ''00f067aa0ba902b7'', Flags = FlagSampled\<rparr>"

theorem traceparent_roundtrip_witness:
  "Valid demo_span \<and> Parse (Header demo_span) = Some demo_span"
proof -
  have "Valid demo_span" by code_simp
  with traceparent_roundtrip [of demo_span "''''" demo_span] show ?thesis by simp
qed

text \<open>Whatever the inbound header, when the middleware attaches a span context it is valid, its
  header is echoed, a valid inbound context keeps its trace id and flags, and otherwise the
  context is fresh and sampled. The random source fills the buffers it is given.\<close>

theorem Middleware_span:
  assumes "fills read" "Middleware read h r = Some (Some (sc, echo), r')"
  shows "Valid sc \<and> echo = Header sc \<and>
    (case Parse h of
       Some p \<Rightarrow> TraceID sc = TraceID p \<and> Flags sc = Flags p
     | None \<Rightarrow> Flags sc = FlagSampled)"
proof (cases "Parse h")
  case None
  with assms have "generate read r = Some (Inr sc, r')" "echo = Header sc"
    by (auto simp: Middleware_def Let_def split: option.splits prod.splits sum.splits)
  with None generate_result [OF _ assms(1)] show ?thesis by simp
next
  case (Some p)
  with assms have "NewChild read p r = Some (Inr sc, r')" and e: "echo = Header sc"
    by (auto simp: Middleware_def Let_def split: option.splits prod.splits sum.splits)
  then obtain s where s: "randomSpanID read r = Some (Inr s, r')" "sc = \<lparr>TraceID = TraceID p, SpanID = s, Flags = Flags p\<rparr>"
    by (auto simp: NewChild_def split: option.splits prod.splits sum.splits)
  have "Valid p" using Some by (rule Parse_Valid)
  with randomSpanID_result [OF s(1) assms(1)] s(2) e Some show ?thesis by (simp add: Valid_iff)
qed

text \<open>A source that counts, for concrete instances.\<close>

definition counter_read :: "nat reader" where
  "counter_read r n = (Inr (char_of (r mod 255 + 1) # replicate (n - 1) (CHR 0x00)), r + 1)"

theorem Middleware_span_witness:
  "\<exists>sc r'. Middleware (\<lambda>r n. (Inr (replicate n (CHR 0x7F)), r)) '''' (0 :: nat) = Some (Some (sc, Header sc), r') \<and>
     Valid sc \<and> Flags sc = FlagSampled"
proof -
  let ?read = "\<lambda>(r :: nat) n. (Inr (replicate n (CHR 0x7F)) :: bytes result, r)"
  have f: "fills ?read" by (auto simp: fills_def)
  have p: "Parse '''' = None" by code_simp
  have "\<not> isAllZero (replicate (Suc n) (CHR 0x7F))" for n by simp
  from this [of 15] this [of 7] obtain sc r' where m: "Middleware ?read '''' 0 = Some (Some (sc, Header sc), r')"
    by (simp add: Middleware_def p generate_def retry_zero.simps numeral_eq_Suc)
  from Middleware_span [OF f m] m p show ?thesis by auto
qed

text \<open>A random source that never fails and never yields an all-zero block makes the middleware
  return with a context on every request: the retry loops end.\<close>

theorem Middleware_returns:
  assumes "\<And>r n. 0 < n \<Longrightarrow> \<exists>b r'. read r n = (Inr b, r') \<and> length b = n \<and> \<not> isAllZero b"
  shows "\<exists>sc r'. Middleware read h r = Some (Some (sc, Header sc), r')"
proof -
  have retry: "retry_zero read b r = Some (Inr b, r)" if "\<not> isAllZero b" for b r
    using that by (simp add: retry_zero.simps)
  obtain b8 r8 where b8: "read r 8 = (Inr b8, r8)" "\<not> isAllZero b8" using assms [of 8 r] by auto
  obtain b16 r16 where b16: "read r 16 = (Inr b16, r16)" "\<not> isAllZero b16" using assms [of 16 r] by auto
  obtain c r9 where c: "read r16 8 = (Inr c, r9)" "\<not> isAllZero c" using assms [of 8 r16] by auto
  have "\<exists>sc r'. generate read r = Some (Inr sc, r')" by (simp add: generate_def b16 c retry)
  moreover have "\<forall>p. \<exists>sc r'. NewChild read p r = Some (Inr sc, r')"
    by (simp add: NewChild_def randomSpanID_def b8 retry)
  ultimately obtain sc r' where "(case Parse h of Some p \<Rightarrow> NewChild read p r | None \<Rightarrow> generate read r) = Some (Inr sc, r')"
    by (cases "Parse h") (simp_all, blast+)
  then show ?thesis by (simp add: Middleware_def Let_def)
qed

theorem Middleware_returns_witness:
  "\<exists>sc r'. Middleware counter_read ''junk'' 0 = Some (Some (sc, Header sc), r')"
proof (rule Middleware_returns)
  fix r n :: nat
  assume n: "0 < n"
  have "char_of (r mod 255 + 1) \<noteq> CHR 0x00"
  proof
    assume "char_of (r mod 255 + 1) = CHR 0x00"
    then have "of_char (char_of (r mod 255 + 1) :: char) = (0 :: nat)" by simp
    then show False by simp
  qed
  with n show "\<exists>b r'. counter_read r n = (Inr b, r') \<and> length b = n \<and> \<not> isAllZero b"
    by (simp add: counter_read_def)
qed

end
