(* ===== verification/Pipeline.thy ===== *)
theory Pipeline
  imports Policy Fingerprint Embedding Audit_Log Tracing
begin

text \<open>
  \<open>internal/pipeline/pipeline.go\<close>: the protocol-agnostic core. Given a tool, a caller and an argument
  blob it decides whether to replay a cached response, to forward and cache, or to refuse.

  The process-wide state is \<open>pstate\<close>: the store, the rate limiters, the in-flight table with its
  handles, the counters and the audit log, and \<open>p_calls\<close>, the log of the calls of the forwarder (the
  side effect the program exists to limit). \<open>config\<close> holds what is fixed at construction and
  \<open>request\<close> what one call brings with it, including what the environment answers: the instants its
  clock reads return, the error of its context before and after forwarding, the iteration order of
  the store. A forwarder is its outcome. Each operation takes the state and returns it updated;
  the interleaving of concurrent calls is the subject of theory \<open>Coalescing\<close>.
\<close>

section \<open>Data\<close>

datatype Decision =
  DecisionForward | DecisionReplay | DecisionBlock | DecisionRateLimited | DecisionForbidden

fun decision_String :: "Decision \<Rightarrow> bytes" where
  "decision_String DecisionForward = ''forward''"
| "decision_String DecisionReplay = ''replay''"
| "decision_String DecisionBlock = ''block''"
| "decision_String DecisionRateLimited = ''rate_limited''"
| "decision_String DecisionForbidden = ''forbidden''"

record Match =
  Kind :: bytes
  Similarity :: f32

definition no_match :: Match where "no_match = \<lparr>Kind = '''', Similarity = 0\<rparr>"
definition f32_1 :: f32 where "f32_1 = 0x3F800000"
definition exact_match :: Match where "exact_match = \<lparr>Kind = ''exact'', Similarity = f32_1\<rparr>"

record Result =
  r_Decision :: Decision
  r_Match :: Match
  r_Hash :: bytes
  r_StatusCode :: int
  r_Body :: bytes

definition zero_result :: Result where
  "zero_result = \<lparr>r_Decision = DecisionForward, r_Match = no_match, r_Hash = '''', r_StatusCode = 0, r_Body = ''''\<rparr>"

definition zero_entry :: Entry where
  "zero_entry = \<lparr>Tool = '''', Hash = '''', Request = '''', Response = '''', StatusCode = 0, CreatedAt = 0,
     ReplayCount = 0, Entry.TTL = 0, Embedding = []\<rparr>"

text \<open>What a call of the forwarder does: it returns status, body and error, or it panics.\<close>

datatype forward_outcome = FwdReturns int bytes "go_error option" | FwdPanics bytes

record applyInflight =
  h_done :: bool
  h_result :: Result
  h_err :: "go_error option"

definition new_handle :: applyInflight where
  "new_handle = \<lparr>h_done = False, h_result = zero_result, h_err = None\<rparr>"

text \<open>The token bucket of \<open>golang.org/x/time/rate\<close>.\<close>

record 'l rate_ops =
  NewLimiter :: "flt \<Rightarrow> int \<Rightarrow> 'l"
  Allow :: "'l \<Rightarrow> time \<Rightarrow> bool \<times> 'l"

text \<open>The standard-library tables and conversions the pipeline reaches.\<close>

record lib =
  l_num :: json_num
  l_uni :: unicode
  l_fp :: fp_ops

record ('s, 'l) config =
  policies :: Config
  store :: "'s store_ops"
  rates :: "'l rate_ops"
  embedder :: "(bytes \<Rightarrow> f32 list result) option"
  metrics :: bool
  audit :: bool
  shadow :: bool
  libs :: lib

record ('s, 'l) pstate =
  p_store :: 's
  p_limiters :: "bytes \<rightharpoonup> 'l"
  p_inflight :: "bytes \<rightharpoonup> nat"
  p_handles :: "nat \<Rightarrow> applyInflight"
  p_next :: nat
  m_decisions :: "(bytes \<times> bytes \<times> bytes) list"
  m_store_errors :: "bytes list"
  m_latency :: "(bytes \<times> duration) list"
  p_audit :: "Record list"
  p_calls :: "(bytes \<times> bytes) list"

definition New_pipeline :: "'s \<Rightarrow> ('s, 'l) pstate" where
  "New_pipeline st = \<lparr>p_store = st, p_limiters = Map.empty, p_inflight = Map.empty, p_handles = (\<lambda>_. new_handle),
     p_next = 0, m_decisions = [], m_store_errors = [], m_latency = [], p_audit = [], p_calls = []\<rparr>"

record request =
  q_tool :: bytes
  q_caller :: bytes
  q_body :: bytes
  q_span :: "SpanContext option"
  q_ctx :: ctx              \<comment> \<open>\<open>ctx.Err()\<close> until forwarding\<close>
  q_ctx2 :: ctx             \<comment> \<open>\<open>ctx.Err()\<close> after forwarding\<close>
  q_now :: time             \<comment> \<open>clock of limiter and store while deciding\<close>
  q_start :: time
  q_end :: time             \<comment> \<open>clock before and after forwarding\<close>
  q_entry :: time           \<comment> \<open>clock when the entry is built\<close>
  q_put :: time             \<comment> \<open>clock of the store at \<open>Put\<close>\<close>
  q_order :: "bytes list"   \<comment> \<open>iteration order of the store\<close>

section \<open>Fingerprints and intents\<close>

definition normalize_field :: "unicode \<Rightarrow> ToolPolicy \<Rightarrow> bytes \<Rightarrow> json \<Rightarrow> json" where
  "normalize_field U pol field v =
     (case (Normalize pol field, v) of
        (Some transforms, JStr s) \<Rightarrow> JStr (normalizer_Apply U s transforms)
      | _ \<Rightarrow> v)"

fun select_fields :: "(bytes \<times> json) list \<Rightarrow> bytes list \<Rightarrow> (bytes \<times> json) list \<Rightarrow> (bytes \<times> json) list" where
  "select_fields raw [] filtered = filtered"
| "select_fields raw (f # fs) filtered =
     (case map_of raw f of
        Some v \<Rightarrow> select_fields raw fs (AList.update f v filtered)
      | None \<Rightarrow> select_fields raw fs filtered)"

definition writeScalar :: "json_num \<Rightarrow> json \<Rightarrow> bytes" where
  "writeScalar N v =
     (case v of
        JStr s \<Rightarrow> s
      | JNum x \<Rightarrow> format_g N x
      | JBool b \<Rightarrow> marshal_bool b
      | JNull \<Rightarrow> ''null''
      | _ \<Rightarrow> (case json_marshal N v of Inr b \<Rightarrow> b @ [CHR 0x0A] | Inl _ \<Rightarrow> ''''))"

fun intent_loop :: "json_num \<Rightarrow> nat \<Rightarrow> (bytes \<times> json) list \<Rightarrow> bytes" where
  "intent_loop N i [] = ''''"
| "intent_loop N i ((k, v) # rest) =
     (if i > 0 then '' '' else '''') @ k @ ''='' @ writeScalar N v @ intent_loop N (Suc i) rest"

definition buildIntent :: "json_num \<Rightarrow> (bytes \<times> json) list \<Rightarrow> bytes" where
  "buildIntent N m = (if length m = 0 then '''' else intent_loop N 0 (sort_key fst m))"

definition selected_fields :: "unicode \<Rightarrow> ToolPolicy \<Rightarrow> (bytes \<times> json) list \<Rightarrow> (bytes \<times> json) list" where
  "selected_fields U pol raw0 =
     (let raw = map (\<lambda>(k, v). (k, normalize_field U pol k v)) raw0
      in if length (FingerprintFields pol) > 0 then select_fields raw (FingerprintFields pol) [] else raw)"

definition analyse :: "lib \<Rightarrow> bytes \<Rightarrow> ToolPolicy \<Rightarrow> (bytes \<times> bytes) result" where
  "analyse L body pol =
     (if length body = 0 then
        (case Exact (l_num L) (JObj []) of Inl err \<Rightarrow> Inl err | Inr h \<Rightarrow> Inr (h, ''''))
      else case unmarshal_object (l_num L) body of
        Inl err \<Rightarrow> Inl (Wrapped ''body must be a JSON object'' err)
      | Inr raw \<Rightarrow>
          let selected = selected_fields (l_uni L) pol raw
          in (case Exact (l_num L) (JObj selected) of
                Inl err \<Rightarrow> Inl err
              | Inr hash \<Rightarrow> Inr (hash, buildIntent (l_num L) selected)))"

section \<open>Counters and audit\<close>

definition recordDecision ::
  "('s, 'l) config \<Rightarrow> bytes \<Rightarrow> bytes \<Rightarrow> Decision \<Rightarrow> ('s, 'l) pstate \<Rightarrow> ('s, 'l) pstate" where
  "recordDecision P tool mode d S =
     (if \<not> metrics P then S else S\<lparr>m_decisions := m_decisions S @ [(tool, mode, decision_String d)]\<rparr>)"

definition recordStoreError :: "('s, 'l) config \<Rightarrow> bytes \<Rightarrow> ('s, 'l) pstate \<Rightarrow> ('s, 'l) pstate" where
  "recordStoreError P op S =
     (if \<not> metrics P then S else S\<lparr>m_store_errors := m_store_errors S @ [op]\<rparr>)"

definition recordUpstreamLatency ::
  "('s, 'l) config \<Rightarrow> bytes \<Rightarrow> duration \<Rightarrow> ('s, 'l) pstate \<Rightarrow> ('s, 'l) pstate" where
  "recordUpstreamLatency P tool d S =
     (if \<not> metrics P then S else S\<lparr>m_latency := m_latency S @ [(tool, d)]\<rparr>)"

definition audit_record ::
  "('s, 'l) config \<Rightarrow> SpanContext option \<Rightarrow> bytes \<Rightarrow> bytes \<Rightarrow> Decision \<Rightarrow> Match \<Rightarrow> bytes \<Rightarrow> bytes \<Rightarrow> Record" where
  "audit_record P sp tool mode d match freshHash entryHash =
     (let h = (if entryHash = '''' then freshHash else entryHash);
          rec0 = \<lparr>a_Timestamp = 0, a_Tool = tool, a_Mode = mode, a_Decision = decision_String d,
            a_Match = Kind match, a_Similarity = Similarity match, a_Hash = h, a_Protocol = '''',
            a_Shadow = False, a_WouldDecision = '''', a_TraceID = ''''\<rparr>;
          rec1 = (case sp of Some sc \<Rightarrow> if Valid sc then rec0\<lparr>a_TraceID := TraceID sc\<rparr> else rec0 | None \<Rightarrow> rec0)
      in if shadow P
         then rec1\<lparr>a_Shadow := True, a_WouldDecision := decision_String d,
                   a_Decision := decision_String DecisionForward\<rparr>
         else rec1)"

definition writeAudit ::
  "('s, 'l) config \<Rightarrow> SpanContext option \<Rightarrow> bytes \<Rightarrow> bytes \<Rightarrow> Decision \<Rightarrow> Match \<Rightarrow> bytes \<Rightarrow> bytes \<Rightarrow>
     ('s, 'l) pstate \<Rightarrow> ('s, 'l) pstate" where
  "writeAudit P sp tool mode d match freshHash entryHash S =
     (if \<not> audit P then S
      else S\<lparr>p_audit := p_audit S @ [audit_record P sp tool mode d match freshHash entryHash]\<rparr>)"

section \<open>Rate limits\<close>

text \<open>\<open>int(math.Ceil(x))\<close>: a value an \<open>int\<close> cannot hold becomes the least integer (amd64).\<close>

definition ceil_int :: "flt \<Rightarrow> int" where
  "ceil_int x = (case x of Fin r \<Rightarrow> if in_int64 \<lceil>r\<rceil> then \<lceil>r\<rceil> else int64_min | _ \<Rightarrow> int64_min)"

definition limiterFor ::
  "('s, 'l) config \<Rightarrow> bytes \<Rightarrow> RateLimit \<Rightarrow> ('s, 'l) pstate \<Rightarrow> 'l option \<times> ('s, 'l) pstate" where
  "limiterFor P tool rl S =
     (if flt_le (RPS rl) (Fin 0) then (None, S)
      else case p_limiters S tool of
             Some l \<Rightarrow> (Some l, S)
           | None \<Rightarrow>
               let burst = (if Burst rl \<le> 0 then max 1 (ceil_int (RPS rl)) else Burst rl);
                   l = NewLimiter (rates P) (RPS rl) burst
               in (Some l, S\<lparr>p_limiters := (p_limiters S)(tool \<mapsto> l)\<rparr>))"

section \<open>Cached entries\<close>

definition buildEntry :: "time \<Rightarrow> bytes \<Rightarrow> bytes \<Rightarrow> bytes \<Rightarrow> int \<Rightarrow> bytes \<Rightarrow> ToolPolicy \<Rightarrow> f32 list \<Rightarrow> Entry" where
  "buildEntry now tool hash body status resp pol emb =
     (let e0 = zero_entry\<lparr>Tool := tool, Hash := hash, StatusCode := status, CreatedAt := now,
            Entry.TTL := ToolPolicy.TTL pol, Embedding := emb\<rparr>;
          e1 = (if \<not> RedactRequestBody pol then e0\<lparr>Request := body\<rparr> else e0)
      in if ReplayStrategy pol \<noteq> ReplaySynthesizedAck then e1\<lparr>Response := resp\<rparr> else e1)"

definition renderReplayBody :: "bytes \<Rightarrow> Entry \<Rightarrow> ToolPolicy \<Rightarrow> bytes" where
  "renderReplayBody tool entry pol =
     (if length (Response entry) > 0 then Response entry else SynthesizeReplay pol tool (Hash entry))"

definition caching :: "ToolPolicy \<Rightarrow> bool" where
  "caching pol \<longleftrightarrow> Mode pol = ModeStrict \<or> Mode pol = ModeCache"

definition success :: "int \<Rightarrow> bool" where
  "success status \<longleftrightarrow> 200 \<le> status \<and> status < 300"

definition embed_intent :: "('s, 'l) config \<Rightarrow> ToolPolicy \<Rightarrow> bytes \<Rightarrow> f32 list" where
  "embed_intent P pol intent =
     (case embedder P of
        Some emb \<Rightarrow>
          if flt_less (Fin 0) (SemanticThreshold pol) \<and> intent \<noteq> ''''
          then (case emb intent of Inr v \<Rightarrow> v | Inl _ \<Rightarrow> []) else []
      | None \<Rightarrow> [])"

text \<open>The tail shared by \<open>doForward\<close> and \<open>shadowForward\<close>: a \<open>Put\<close> whose error is only counted.\<close>

definition put_entry ::
  "('s, 'l) config \<Rightarrow> request \<Rightarrow> bytes \<Rightarrow> bytes \<Rightarrow> ToolPolicy \<Rightarrow> int \<Rightarrow> bytes \<Rightarrow> ('s, 'l) pstate \<Rightarrow> unit result \<times> ('s, 'l) pstate" where
  "put_entry P q hash intent pol status resp S =
     (let e = buildEntry (q_entry q) (q_tool q) hash (q_body q) status resp pol (embed_intent P pol intent);
          (res, st') = s_Put (store P) (p_store S) (q_ctx2 q) (q_put q) e;
          S' = S\<lparr>p_store := st'\<rparr>
      in (res, if is_ok res then S' else recordStoreError P ''put'' S'))"

section \<open>Deciding\<close>

definition visit_best :: "fp_ops \<Rightarrow> f32 list \<Rightarrow> flt \<Rightarrow> Entry \<times> f32 \<times> bool \<Rightarrow> Entry \<Rightarrow> (Entry \<times> f32 \<times> bool) \<times> bool" where
  "visit_best F queryVec threshold acc e =
     (let (best, bestScore, found) = acc in
      if length (Embedding e) = 0 then (acc, True)
      else case Cosine F queryVec (Embedding e) of
             Inl _ \<Rightarrow> (acc, True)
           | Inr score \<Rightarrow>
               if flt_le (f32_flt (f32_of F threshold)) (f32_flt score) \<and> flt_less (f32_flt bestScore) (f32_flt score)
               then ((e, score, True), True) else (acc, True))"

definition semanticSearch ::
  "('s, 'l) config \<Rightarrow> request \<Rightarrow> (bytes \<Rightarrow> f32 list result) \<Rightarrow> bytes \<Rightarrow> flt \<Rightarrow> ('s, 'l) pstate \<Rightarrow>
     (Entry \<times> f32 \<times> bool) \<times> ('s, 'l) pstate" where
  "semanticSearch P q emb intent threshold S =
     (case emb intent of
        Inl _ \<Rightarrow> ((zero_entry, 0, False), S)
      | Inr queryVec \<Rightarrow>
          (case s_Scan (store P) (p_store S) (q_ctx q) (q_now q) (q_order q) (q_tool q) of
             Inl _ \<Rightarrow> ((zero_entry, 0, False), recordStoreError P ''scan'' S)
           | Inr es \<Rightarrow> (visit_loop (visit_best (l_fp (libs P)) queryVec threshold) (zero_entry, 0, False) es, S)))"

definition hit_decision :: "ToolPolicy \<Rightarrow> Decision" where
  "hit_decision pol =
     (if Mode pol = ModeStrict \<and> RequireHumanConfirmOnReplay pol then DecisionBlock else DecisionReplay)"

definition decide ::
  "('s, 'l) config \<Rightarrow> request \<Rightarrow> bytes \<Rightarrow> ToolPolicy \<Rightarrow> bytes \<Rightarrow> ('s, 'l) pstate \<Rightarrow>
     (Decision \<times> Entry \<times> Match) \<times> ('s, 'l) pstate" where
  "decide P q hash pol intent S =
     (let miss = (DecisionForward, zero_entry, no_match);
          (got, st') = s_Get (store P) (p_store S) (q_ctx q) (q_now q) (q_tool q) hash;
          S1 = S\<lparr>p_store := st'\<rparr>
      in
      if Mode pol = ModeLogOnly then (miss, S1)
      else if Mode pol \<noteq> ModeStrict \<and> Mode pol \<noteq> ModeCache then (miss, S)
      else case got of
        Inr entry \<Rightarrow> ((hit_decision pol, entry, exact_match), S1)
      | Inl err \<Rightarrow>
          if \<not> errors_Is err ErrNotFound then (miss, recordStoreError P ''get'' S1)
          else case embedder P of
            None \<Rightarrow> (miss, S1)
          | Some emb \<Rightarrow>
              if flt_le (SemanticThreshold pol) (Fin 0) \<or> intent = '''' then (miss, S1)
              else let ((best, score, ok), S2) = semanticSearch P q emb intent (SemanticThreshold pol) S1
                   in if \<not> ok then (miss, S2)
                      else ((hit_decision pol, best, \<lparr>Kind = ''semantic'', Similarity = score\<rparr>), S2))"

section \<open>Forwarding\<close>

text \<open>How a call of \<open>Apply\<close> ends: with a result and an error, blocked on a leader that has not
  finished, or with the panic of the forwarder.\<close>

datatype outcome = Ret Result "go_error option" | Blocked | Panic bytes

definition forwarded :: "bytes \<Rightarrow> int \<Rightarrow> bytes \<Rightarrow> Result" where
  "forwarded hash status resp = zero_result\<lparr>r_Hash := hash, r_StatusCode := status, r_Body := resp\<rparr>"

definition call_upstream :: "request \<Rightarrow> ('s, 'l) pstate \<Rightarrow> ('s, 'l) pstate" where
  "call_upstream q S = S\<lparr>p_calls := p_calls S @ [(q_tool q, q_body q)]\<rparr>"

definition set_handle :: "nat option \<Rightarrow> (applyInflight \<Rightarrow> applyInflight) \<Rightarrow> ('s, 'l) pstate \<Rightarrow> ('s, 'l) pstate" where
  "set_handle h f S =
     (case h of None \<Rightarrow> S | Some i \<Rightarrow> S\<lparr>p_handles := (p_handles S)(i := f (p_handles S i))\<rparr>)"

definition doForward ::
  "('s, 'l) config \<Rightarrow> request \<Rightarrow> bytes \<Rightarrow> bytes \<Rightarrow> ToolPolicy \<Rightarrow> forward_outcome \<Rightarrow> nat option \<Rightarrow> ('s, 'l) pstate \<Rightarrow>
     outcome \<times> ('s, 'l) pstate" where
  "doForward P q hash intent pol fwd h S0 =
     (let S1 = call_upstream q S0 in
      case fwd of
        FwdPanics m \<Rightarrow> (Panic m, S1)
      | FwdReturns status resp err \<Rightarrow>
          let S2 = recordUpstreamLatency P (q_tool q) (Sub (q_end q) (q_start q)) S1;
              res = forwarded hash status resp
          in (case err of
                Some e \<Rightarrow> (Ret res (Some e), set_handle h (\<lambda>a. a\<lparr>h_result := res, h_err := Some e\<rparr>) S2)
              | None \<Rightarrow>
                  let S3 = (if caching pol \<and> success status
                            then snd (put_entry P q hash intent pol status resp S2) else S2)
                  in (Ret res None, set_handle h (\<lambda>a. a\<lparr>h_result := res\<rparr>) S3)))"

definition shadowForward ::
  "('s, 'l) config \<Rightarrow> request \<Rightarrow> bytes \<Rightarrow> bytes \<Rightarrow> ToolPolicy \<Rightarrow> forward_outcome \<Rightarrow> ('s, 'l) pstate \<Rightarrow>
     outcome \<times> ('s, 'l) pstate" where
  "shadowForward P q hash intent pol fwd S0 =
     (let S1 = call_upstream q S0 in
      case fwd of
        FwdPanics m \<Rightarrow> (Panic m, S1)
      | FwdReturns status resp err \<Rightarrow>
          let S2 = recordUpstreamLatency P (q_tool q) (Sub (q_end q) (q_start q)) S1;
              res = forwarded hash status resp
          in (case err of
                Some e \<Rightarrow> (Ret res (Some e), S2)
              | None \<Rightarrow>
                  (Ret res None,
                   if hash \<noteq> '''' \<and> caching pol \<and> success status
                   then snd (put_entry P q hash intent pol status resp S2) else S2)))"

section \<open>Coalescing\<close>

definition acquireLeader :: "bytes \<Rightarrow> ('s, 'l) pstate \<Rightarrow> (nat \<times> bool) \<times> ('s, 'l) pstate" where
  "acquireLeader hash S =
     (case p_inflight S hash of
        Some existing \<Rightarrow> ((existing, False), S)
      | None \<Rightarrow>
          let h = p_next S
          in ((h, True), S\<lparr>p_next := Suc h, p_handles := (p_handles S)(h := new_handle),
                           p_inflight := (p_inflight S)(hash \<mapsto> h)\<rparr>))"

definition releaseLeader :: "bytes \<Rightarrow> nat \<Rightarrow> ('s, 'l) pstate \<Rightarrow> ('s, 'l) pstate" where
  "releaseLeader hash h S =
     (let S1 = (if p_inflight S hash = Some h then S\<lparr>p_inflight := (p_inflight S)(hash := None)\<rparr> else S)
      in set_handle (Some h) (\<lambda>a. a\<lparr>h_done := True\<rparr>) S1)"

text \<open>When the select of \<open>waitForLeader\<close> has several cases ready it takes either; \<open>prefer_ctx\<close> is its
  choice.\<close>

definition waitForLeader :: "ctx \<Rightarrow> bool \<Rightarrow> applyInflight \<Rightarrow> outcome" where
  "waitForLeader ctx prefer_ctx leader =
     (let cancelled = (\<lambda>err. Ret zero_result (Some err));
          finished = (case h_err leader of
                        Some err \<Rightarrow> Ret zero_result (Some (Wrapped ''leader failed'' err))
                      | None \<Rightarrow> Ret ((h_result leader)\<lparr>r_Decision := DecisionReplay,
                                  r_Match := \<lparr>Kind = ''coalesced'', Similarity = f32_1\<rparr>\<rparr>) None)
      in case ctx of
           Some err \<Rightarrow> if h_done leader \<and> \<not> prefer_ctx then finished else cancelled err
         | None \<Rightarrow> if h_done leader then finished else Blocked)"

definition runLeader ::
  "('s, 'l) config \<Rightarrow> request \<Rightarrow> bytes \<Rightarrow> bytes \<Rightarrow> ToolPolicy \<Rightarrow> forward_outcome \<Rightarrow> nat \<Rightarrow> ('s, 'l) pstate \<Rightarrow>
     outcome \<times> ('s, 'l) pstate" where
  "runLeader P q hash intent pol fwd h S =
     (case doForward P q hash intent pol fwd (Some h) S of
        (Panic m, S1) \<Rightarrow>
          (Panic m, releaseLeader hash h
             (set_handle (Some h) (\<lambda>a. a\<lparr>h_err := Some (Wrapped ''forward panic'' (ErrMsg m))\<rparr>) S1))
      | (o1, S1) \<Rightarrow> (o1, releaseLeader hash h S1))"

section \<open>The entry points\<close>

datatype admission = AdmOff | AdmForbidden | AdmRateLimited | AdmOk

text \<open>The gates at the head of \<open>Lookup\<close> and \<open>Apply\<close>: mode off, the allow-list, the rate limit.\<close>

definition admit :: "('s, 'l) config \<Rightarrow> request \<Rightarrow> ('s, 'l) pstate \<Rightarrow> admission \<times> ('s, 'l) pstate" where
  "admit P q S =
     (let pol = For (policies P) (q_tool q);
          refuse = (\<lambda>d S. writeAudit P (q_span q) (q_tool q) (Mode pol) d no_match '''' ''''
                            (recordDecision P (q_tool q) (Mode pol) d S))
      in
      if Mode pol = ModeOff then (AdmOff, S)
      else if \<not> AllowsCaller pol (q_caller q) then (AdmForbidden, refuse DecisionForbidden S)
      else case limiterFor P (q_tool q) (RateLimit pol) S of
             (None, S1) \<Rightarrow> (AdmOk, S1)
           | (Some l, S1) \<Rightarrow>
               let (allowed, l') = Allow (rates P) l (q_now q);
                   S2 = S1\<lparr>p_limiters := (p_limiters S1)(q_tool q \<mapsto> l')\<rparr>
               in if allowed then (AdmOk, S2) else (AdmRateLimited, refuse DecisionRateLimited S2))"

definition status_of :: "Decision \<Rightarrow> int" where
  "status_of d = (case d of DecisionForbidden \<Rightarrow> 403 | DecisionRateLimited \<Rightarrow> 429 | DecisionBlock \<Rightarrow> 409 | _ \<Rightarrow> 0)"

definition refusal :: "Decision \<Rightarrow> Result" where
  "refusal d = zero_result\<lparr>r_Decision := d, r_StatusCode := status_of d\<rparr>"

definition log_decision ::
  "('s, 'l) config \<Rightarrow> request \<Rightarrow> ToolPolicy \<Rightarrow> Decision \<Rightarrow> Match \<Rightarrow> bytes \<Rightarrow> bytes \<Rightarrow> ('s, 'l) pstate \<Rightarrow> ('s, 'l) pstate" where
  "log_decision P q pol d match hash entryHash S =
     writeAudit P (q_span q) (q_tool q) (Mode pol) d match hash entryHash
       (recordDecision P (q_tool q) (Mode pol) d S)"

text \<open>A replay counts itself on the entry and returns the cached response.\<close>

definition replay ::
  "('s, 'l) config \<Rightarrow> request \<Rightarrow> ToolPolicy \<Rightarrow> Entry \<Rightarrow> Match \<Rightarrow> ('s, 'l) pstate \<Rightarrow> Result \<times> ('s, 'l) pstate" where
  "replay P q pol entry match S =
     (let (res, st') = s_IncrementReplay (store P) (p_store S) (q_ctx q) (q_tool q) (Hash entry);
          S1 = S\<lparr>p_store := st'\<rparr>;
          S2 = (if is_ok res then S1 else recordStoreError P ''increment_replay'' S1)
      in (\<lparr>r_Decision = DecisionReplay, r_Match = match, r_Hash = Hash entry, r_StatusCode = StatusCode entry,
           r_Body = renderReplayBody (q_tool q) entry pol\<rparr>, S2))"

definition blocked_result :: "Entry \<Rightarrow> Match \<Rightarrow> Result" where
  "blocked_result entry match =
     \<lparr>r_Decision = DecisionBlock, r_Match = match, r_Hash = Hash entry, r_StatusCode = 409, r_Body = ''''\<rparr>"

definition Lookup :: "('s, 'l) config \<Rightarrow> request \<Rightarrow> ('s, 'l) pstate \<Rightarrow> (Result \<times> bytes) result \<times> ('s, 'l) pstate" where
  "Lookup P q S =
     (let pol = For (policies P) (q_tool q); fwd = (Inr (zero_result, '''') :: (Result \<times> bytes) result) in
      case admit P q S of
        (AdmOff, S1) \<Rightarrow> (fwd, S1)
      | (AdmForbidden, S1) \<Rightarrow> (if shadow P then fwd else Inr (refusal DecisionForbidden, ''''), S1)
      | (AdmRateLimited, S1) \<Rightarrow> (if shadow P then fwd else Inr (refusal DecisionRateLimited, ''''), S1)
      | (AdmOk, S1) \<Rightarrow>
          (case analyse (libs P) (q_body q) pol of
             Inl err \<Rightarrow> (Inl (Wrapped ''analyse'' err), S1)
           | Inr (hash, intent) \<Rightarrow>
               let ((decision, entry, match), S2) = decide P q hash pol intent S1;
                   S3 = log_decision P q pol decision match hash (Hash entry) S2
               in if shadow P then (Inr (zero_result\<lparr>r_Hash := hash\<rparr>, intent), S3)
                  else (case decision of
                          DecisionReplay \<Rightarrow> let (r, S4) = replay P q pol entry match S3 in (Inr (r, intent), S4)
                        | DecisionBlock \<Rightarrow> (Inr (blocked_result entry match, intent), S3)
                        | _ \<Rightarrow> (Inr (zero_result\<lparr>r_Hash := hash\<rparr>, intent), S3))))"

definition Cache :: "('s, 'l) config \<Rightarrow> request \<Rightarrow> int \<Rightarrow> bytes \<Rightarrow> ('s, 'l) pstate \<Rightarrow> unit result \<times> ('s, 'l) pstate" where
  "Cache P q status response S =
     (let pol = For (policies P) (q_tool q) in
      if \<not> caching pol then (Inr (), S)
      else if \<not> success status then (Inr (), S)
      else case analyse (libs P) (q_body q) pol of
             Inl err \<Rightarrow> (Inl (Wrapped ''analyse'' err), S)
           | Inr (hash, intent) \<Rightarrow>
               (case put_entry P q hash intent pol status response S of
                  (Inl err, S1) \<Rightarrow> (Inl (Wrapped ''store put'' err), S1)
                | (Inr _, S1) \<Rightarrow> (Inr (), S1)))"

text \<open>\<open>Apply\<close> up to the point where it would coalesce: it has ended, or it goes on to forward. Until then the limiter,
  the reads of the store and \<open>IncrementReplay\<close> see one instant (\<open>q_now\<close>) and one answer of the context (\<open>q_ctx\<close>): a clock
  that moves, or a context that ends, between two of these readings is outside the model. From the forward on
  each reading has its own field.\<close>

datatype prefix_result =
    Ended outcome
  | GoForward bytes bytes bool   \<comment> \<open>hash, intent, and whether the mode coalesces\<close>

definition apply_prefix ::
  "('s, 'l) config \<Rightarrow> request \<Rightarrow> forward_outcome \<Rightarrow> ('s, 'l) pstate \<Rightarrow> prefix_result \<times> ('s, 'l) pstate" where
  "apply_prefix P q fwd S =
     (let pol = For (policies P) (q_tool q);
          end = (\<lambda>x. (Ended (fst x), snd x)) in
      case admit P q S of
        (AdmOff, S1) \<Rightarrow>
          (Ended (case fwd of
                    FwdPanics m \<Rightarrow> Panic m
                  | FwdReturns status resp err \<Rightarrow> Ret (forwarded '''' status resp) err), call_upstream q S1)
      | (AdmForbidden, S1) \<Rightarrow>
          if shadow P then end (shadowForward P q '''' '''' pol fwd S1)
          else (Ended (Ret (refusal DecisionForbidden) None), S1)
      | (AdmRateLimited, S1) \<Rightarrow>
          if shadow P then end (shadowForward P q '''' '''' pol fwd S1)
          else (Ended (Ret (refusal DecisionRateLimited) None), S1)
      | (AdmOk, S1) \<Rightarrow>
          (case analyse (libs P) (q_body q) pol of
             Inl err \<Rightarrow> (Ended (Ret zero_result (Some (Wrapped ''analyse'' err))), S1)
           | Inr (hash, intent) \<Rightarrow>
               let ((decision, entry, match), S2) = decide P q hash pol intent S1 in
               if shadow P then
                 end (shadowForward P q hash intent pol fwd (log_decision P q pol decision match hash (Hash entry) S2))
               else (case decision of
                       DecisionReplay \<Rightarrow>
                         let (r, S3) = replay P q pol entry match (log_decision P q pol decision match hash (Hash entry) S2)
                         in (Ended (Ret r None), S3)
                     | DecisionBlock \<Rightarrow>
                         (Ended (Ret (blocked_result entry match) None),
                          log_decision P q pol decision match hash (Hash entry) S2)
                     | _ \<Rightarrow> (GoForward hash intent (caching pol), S2))))"

text \<open>A follower records what it got from its leader.\<close>

definition follow ::
  "('s, 'l) config \<Rightarrow> request \<Rightarrow> bytes \<Rightarrow> ToolPolicy \<Rightarrow> outcome \<Rightarrow> ('s, 'l) pstate \<Rightarrow> ('s, 'l) pstate" where
  "follow P q hash pol out S =
     (case out of
        Ret r err \<Rightarrow> log_decision P q pol (r_Decision r) (r_Match r) hash hash S
      | _ \<Rightarrow> S)"

text \<open>\<open>Apply\<close>, run without interruption.\<close>

definition Apply ::
  "('s, 'l) config \<Rightarrow> request \<Rightarrow> forward_outcome \<Rightarrow> bool \<Rightarrow> ('s, 'l) pstate \<Rightarrow> outcome \<times> ('s, 'l) pstate" where
  "Apply P q fwd prefer_ctx S =
     (let pol = For (policies P) (q_tool q) in
      case apply_prefix P q fwd S of
        (Ended out, S1) \<Rightarrow> (out, S1)
      | (GoForward hash intent coalesce, S1) \<Rightarrow>
          if coalesce then
            (case acquireLeader hash S1 of
               ((h, False), S2) \<Rightarrow>
                 let out = waitForLeader (q_ctx q) prefer_ctx (p_handles S2 h) in (out, follow P q hash pol out S2)
             | ((h, True), S2) \<Rightarrow>
                 runLeader P q hash intent pol fwd h (log_decision P q pol DecisionForward no_match hash '''' S2))
          else doForward P q hash intent pol fwd None (log_decision P q pol DecisionForward no_match hash '''' S1))"

section \<open>What each step leaves alone\<close>

text \<open>Counters and audit only touch their own logs.\<close>

lemma record_frame [simp]:
  "p_store (recordDecision P t m d S) = p_store S" "p_store (recordStoreError P op S) = p_store S"
  "p_store (recordUpstreamLatency P t n S) = p_store S" "p_store (writeAudit P sp t m d mt f e S) = p_store S"
  "p_calls (recordDecision P t m d S) = p_calls S" "p_calls (recordStoreError P op S) = p_calls S"
  "p_calls (recordUpstreamLatency P t n S) = p_calls S" "p_calls (writeAudit P sp t m d mt f e S) = p_calls S"
  "p_inflight (recordDecision P t m d S) = p_inflight S" "p_inflight (recordStoreError P op S) = p_inflight S"
  "p_inflight (recordUpstreamLatency P t n S) = p_inflight S" "p_inflight (writeAudit P sp t m d mt f e S) = p_inflight S"
  "p_handles (recordDecision P t m d S) = p_handles S" "p_handles (recordStoreError P op S) = p_handles S"
  "p_handles (recordUpstreamLatency P t n S) = p_handles S" "p_handles (writeAudit P sp t m d mt f e S) = p_handles S"
  "p_next (recordDecision P t m d S) = p_next S" "p_next (recordStoreError P op S) = p_next S"
  "p_next (recordUpstreamLatency P t n S) = p_next S" "p_next (writeAudit P sp t m d mt f e S) = p_next S"
  "p_limiters (recordDecision P t m d S) = p_limiters S" "p_limiters (recordStoreError P op S) = p_limiters S"
  "p_limiters (recordUpstreamLatency P t n S) = p_limiters S" "p_limiters (writeAudit P sp t m d mt f e S) = p_limiters S"
  "p_audit (recordDecision P t m d S) = p_audit S" "p_audit (recordStoreError P op S) = p_audit S"
  "p_audit (recordUpstreamLatency P t n S) = p_audit S"
  "m_store_errors (recordDecision P t m d S) = m_store_errors S"
  "m_store_errors (recordUpstreamLatency P t n S) = m_store_errors S"
  "m_store_errors (writeAudit P sp t m d mt f e S) = m_store_errors S"
  by (simp_all add: recordDecision_def recordStoreError_def recordUpstreamLatency_def writeAudit_def)

lemma log_decision_frame [simp]:
  "p_store (log_decision P q pol d m f e S) = p_store S" "p_calls (log_decision P q pol d m f e S) = p_calls S"
  "p_inflight (log_decision P q pol d m f e S) = p_inflight S"
  "p_handles (log_decision P q pol d m f e S) = p_handles S"
  "p_next (log_decision P q pol d m f e S) = p_next S"
  "m_store_errors (log_decision P q pol d m f e S) = m_store_errors S"
  by (simp_all add: log_decision_def)

lemma call_upstream_frame [simp]:
  "p_store (call_upstream q S) = p_store S" "p_calls (call_upstream q S) = p_calls S @ [(q_tool q, q_body q)]"
  "p_inflight (call_upstream q S) = p_inflight S" "p_handles (call_upstream q S) = p_handles S"
  "p_next (call_upstream q S) = p_next S" "p_audit (call_upstream q S) = p_audit S"
  by (simp_all add: call_upstream_def)

lemma set_handle_frame [simp]:
  "p_store (set_handle h f S) = p_store S" "p_calls (set_handle h f S) = p_calls S"
  "p_inflight (set_handle h f S) = p_inflight S" "p_next (set_handle h f S) = p_next S"
  "p_audit (set_handle h f S) = p_audit S"
  "p_handles (set_handle None f S) = p_handles S"
  "p_handles (set_handle (Some i) f S) = (p_handles S)(i := f (p_handles S i))"
  by (simp_all add: set_handle_def split: option.split)

lemma limiterFor_frame [simp]:
  "p_store (snd (limiterFor P t rl S)) = p_store S" "p_calls (snd (limiterFor P t rl S)) = p_calls S"
  "p_inflight (snd (limiterFor P t rl S)) = p_inflight S" "p_handles (snd (limiterFor P t rl S)) = p_handles S"
  "p_next (snd (limiterFor P t rl S)) = p_next S" "p_audit (snd (limiterFor P t rl S)) = p_audit S"
  by (simp_all add: limiterFor_def Let_def split: option.split)

lemma put_entry_frame [simp]:
  "p_calls (snd (put_entry P q h i pol st rs S)) = p_calls S"
  "p_inflight (snd (put_entry P q h i pol st rs S)) = p_inflight S"
  "p_handles (snd (put_entry P q h i pol st rs S)) = p_handles S"
  "p_next (snd (put_entry P q h i pol st rs S)) = p_next S"
  "p_audit (snd (put_entry P q h i pol st rs S)) = p_audit S"
  by (simp_all add: put_entry_def split_def Let_def)

lemma semanticSearch_frame [simp]:
  "p_calls (snd (semanticSearch P q emb i th S)) = p_calls S"
  "p_inflight (snd (semanticSearch P q emb i th S)) = p_inflight S"
  "p_handles (snd (semanticSearch P q emb i th S)) = p_handles S"
  "p_next (snd (semanticSearch P q emb i th S)) = p_next S"
  "p_audit (snd (semanticSearch P q emb i th S)) = p_audit S"
  "p_store (snd (semanticSearch P q emb i th S)) = p_store S"
  by (simp_all add: semanticSearch_def split: sum.split)

lemma decide_frame [simp]:
  "p_calls (snd (decide P q h pol i S)) = p_calls S"
  "p_inflight (snd (decide P q h pol i S)) = p_inflight S"
  "p_handles (snd (decide P q h pol i S)) = p_handles S"
  "p_next (snd (decide P q h pol i S)) = p_next S"
  "p_audit (snd (decide P q h pol i S)) = p_audit S"
  by (auto simp: decide_def split_def Let_def split: sum.split option.split)

lemma decide_store:
  "p_store (snd (decide P q h pol i S)) =
     (if Mode pol = ModeLogOnly \<or> caching pol
      then snd (s_Get (store P) (p_store S) (q_ctx q) (q_now q) (q_tool q) h) else p_store S)"
  by (auto simp: decide_def split_def Let_def caching_def mode_defs split: sum.split option.split)

lemma admit_frame [simp]:
  "p_store (snd (admit P q S)) = p_store S" "p_calls (snd (admit P q S)) = p_calls S"
  "p_inflight (snd (admit P q S)) = p_inflight S" "p_handles (snd (admit P q S)) = p_handles S"
  "p_next (snd (admit P q S)) = p_next S"
  by (simp_all add: admit_def split_def Let_def split: option.split)

lemma releaseLeader_frame [simp]:
  "p_store (releaseLeader hash h S) = p_store S" "p_calls (releaseLeader hash h S) = p_calls S"
  "p_next (releaseLeader hash h S) = p_next S" "p_audit (releaseLeader hash h S) = p_audit S"
  by (simp_all add: releaseLeader_def)

lemma replay_frame [simp]:
  "p_calls (snd (replay P q pol e m S)) = p_calls S" "p_inflight (snd (replay P q pol e m S)) = p_inflight S"
  "p_handles (snd (replay P q pol e m S)) = p_handles S" "p_audit (snd (replay P q pol e m S)) = p_audit S"
  by (simp_all add: replay_def split_def Let_def)

end
