(* ===== verification/Pipeline_Properties.thy ===== *)
theory Pipeline_Properties
  imports Pipeline Store_Engines
begin

text \<open>
  What the pipeline promises: how often it calls the upstream, when it replays and what, what it
  refuses, what it writes to the store and to the audit log. Statements about the store are proved
  once in the locale \<open>store_port\<close> and reach the adapters through its interpretations.
\<close>

abbreviation pol_of :: "('s, 'l) config \<Rightarrow> request \<Rightarrow> ToolPolicy" where
  "pol_of P q \<equiv> For (policies P) (q_tool q)"

section \<open>Calls of the upstream\<close>

definition one_call :: "request \<Rightarrow> (bytes \<times> bytes) list" where
  "one_call q = [(q_tool q, q_body q)]"

lemma doForward_calls [simp]: "p_calls (snd (doForward P q h i pol fwd lh S)) = p_calls S @ one_call q"
  by (simp add: doForward_def Let_def one_call_def split: forward_outcome.split option.split)

lemma shadowForward_calls [simp]: "p_calls (snd (shadowForward P q h i pol fwd S)) = p_calls S @ one_call q"
  by (simp add: shadowForward_def Let_def one_call_def split: forward_outcome.split option.split)

lemma runLeader_calls [simp]: "p_calls (snd (runLeader P q h i pol fwd lh S)) = p_calls S @ one_call q"
  using doForward_calls [of P q h i pol fwd "Some lh" S]
  by (auto simp: runLeader_def simp del: doForward_calls split: prod.splits outcome.splits)

lemma acquireLeader_frame [simp]:
  "p_calls (snd (acquireLeader hash S)) = p_calls S" "p_store (snd (acquireLeader hash S)) = p_store S"
  "p_audit (snd (acquireLeader hash S)) = p_audit S"
  by (simp_all add: acquireLeader_def Let_def split: option.split)

lemma follow_frame [simp]:
  "p_calls (follow P q h pol out S) = p_calls S" "p_store (follow P q h pol out S) = p_store S"
  by (simp_all add: follow_def split: outcome.split)

text \<open>The result of forwarding is a forward.\<close>

lemma doForward_out:
  "fst (doForward P q h i pol fwd lh S) =
     (case fwd of FwdPanics m \<Rightarrow> Panic m | FwdReturns st rs err \<Rightarrow> Ret (forwarded h st rs) err)"
  by (simp add: doForward_def Let_def split: forward_outcome.split option.split)

lemma shadowForward_out:
  "fst (shadowForward P q h i pol fwd S) =
     (case fwd of FwdPanics m \<Rightarrow> Panic m | FwdReturns st rs err \<Rightarrow> Ret (forwarded h st rs) err)"
  by (simp add: shadowForward_def Let_def split: forward_outcome.split option.split)

lemma runLeader_out: "fst (runLeader P q h i pol fwd lh S) = fst (doForward P q h i pol fwd (Some lh) S)"
  by (auto simp: runLeader_def split: prod.splits outcome.splits)

lemma forwarded_simps [simp]:
  "r_Decision (forwarded h st rs) = DecisionForward" "r_Hash (forwarded h st rs) = h"
  "r_StatusCode (forwarded h st rs) = st" "r_Body (forwarded h st rs) = rs"
  by (simp_all add: forwarded_def zero_result_def)

lemma waitForLeader_Forward:
  "waitForLeader ctx c l = Ret r err \<Longrightarrow> r_Decision r = DecisionForward \<Longrightarrow> err \<noteq> None"
  by (auto simp: waitForLeader_def Let_def split: option.splits if_splits)

text \<open>The ways a call goes, without shadow mode.\<close>

lemma prefix_simps:
  "admit P q S = (AdmOff, S1) \<Longrightarrow> apply_prefix P q fwd S =
     (Ended (case fwd of FwdPanics m \<Rightarrow> Panic m | FwdReturns st rs err \<Rightarrow> Ret (forwarded '''' st rs) err), call_upstream q S1)"
  "admit P q S = (AdmForbidden, S1) \<Longrightarrow> \<not> shadow P \<Longrightarrow>
     apply_prefix P q fwd S = (Ended (Ret (refusal DecisionForbidden) None), S1)"
  "admit P q S = (AdmRateLimited, S1) \<Longrightarrow> \<not> shadow P \<Longrightarrow>
     apply_prefix P q fwd S = (Ended (Ret (refusal DecisionRateLimited) None), S1)"
  "admit P q S = (AdmOk, S1) \<Longrightarrow> analyse (libs P) (q_body q) (pol_of P q) = Inl err \<Longrightarrow>
     apply_prefix P q fwd S = (Ended (Ret zero_result (Some (Wrapped ''analyse'' err))), S1)"
  by (simp_all add: apply_prefix_def)

lemma prefix_ok:
  assumes "admit P q S = (AdmOk, S1)" "analyse (libs P) (q_body q) (pol_of P q) = Inr (hash, intent)"
    "decide P q hash (pol_of P q) intent S1 = ((d, entry, match), S2)" "\<not> shadow P"
  shows "apply_prefix P q fwd S =
    (let pol = pol_of P q; S3 = log_decision P q pol d match hash (Hash entry) S2 in
     case d of
       DecisionReplay \<Rightarrow> (Ended (Ret (fst (replay P q pol entry match S3)) None), snd (replay P q pol entry match S3))
     | DecisionBlock \<Rightarrow> (Ended (Ret (blocked_result entry match) None), S3)
     | _ \<Rightarrow> (GoForward hash intent (caching pol), S2))"
  using assms by (simp add: apply_prefix_def Let_def split_def split: Decision.split)

lemma replay_decision [simp]: "r_Decision (fst (replay P q pol e m S)) = DecisionReplay"
  by (simp add: replay_def split_def Let_def)

lemma admission_cases:
  obtains S1 where "admit P q S = (AdmOff, S1)" | S1 where "admit P q S = (AdmForbidden, S1)"
  | S1 where "admit P q S = (AdmRateLimited, S1)"
  | S1 err where "admit P q S = (AdmOk, S1)" "analyse (libs P) (q_body q) (pol_of P q) = Inl err"
  | S1 hash intent where "admit P q S = (AdmOk, S1)"
      "analyse (libs P) (q_body q) (pol_of P q) = Inr (hash, intent)"
  by (cases "admit P q S"; cases "fst (admit P q S)"; cases "analyse (libs P) (q_body q) (pol_of P q)") auto

text \<open>What the prefix can do to the log of calls.\<close>

lemma prefix_calls:
  assumes "apply_prefix P q fwd S = (x, S')"
  shows "(\<forall>h i c. x = GoForward h i c \<longrightarrow> p_calls S' = p_calls S \<and> \<not> shadow P) \<and>
    (p_calls S' = p_calls S \<or> p_calls S' = p_calls S @ one_call q) \<and>
    (\<forall>r err. x = Ended (Ret r err) \<longrightarrow>
       (r_Decision r \<noteq> DecisionForward \<longrightarrow> p_calls S' = p_calls S) \<and>
       (r_Decision r = DecisionForward \<and> err = None \<longrightarrow> p_calls S' = p_calls S @ one_call q))"
proof -
  have S1: "p_calls S1 = p_calls S" if "admit P q S = (a, S1)" for a S1
    using admit_frame(2) [of P q S] that by simp
  note sf = shadowForward_out [of P q] shadowForward_calls [of P q]
  show ?thesis
  proof (cases rule: admission_cases [of P q S])
    case (5 S1 hash intent)
    obtain d entry match S2 where dec: "decide P q hash (pol_of P q) intent S1 = ((d, entry, match), S2)"
      by (metis prod.exhaust)
    then have S2: "p_calls S2 = p_calls S" using S1 [OF 5(1)] decide_frame(1) [of P q hash "pol_of P q" intent S1] by simp
    show ?thesis
    proof (cases "shadow P")
      case True
      then show ?thesis using assms 5 dec S2 sf
        by (auto simp: apply_prefix_def Let_def split: forward_outcome.splits)
    next
      case False
      then show ?thesis using assms S2 unfolding prefix_ok [OF 5 dec False]
        by (auto simp: Let_def blocked_result_def split: Decision.splits)
    qed
  qed (use assms sf in \<open>auto simp: S1 apply_prefix_def Let_def one_call_def refusal_def zero_result_def
         split: forward_outcome.splits if_splits\<close>)
qed

lemma Apply_simps:
  "apply_prefix P q fwd S = (Ended out, S1) \<Longrightarrow> Apply P q fwd pc S = (out, S1)"
  "apply_prefix P q fwd S = (GoForward hash intent False, S1) \<Longrightarrow> Apply P q fwd pc S =
     doForward P q hash intent (pol_of P q) fwd None
       (log_decision P q (pol_of P q) DecisionForward no_match hash '''' S1)"
  "apply_prefix P q fwd S = (GoForward hash intent True, S1) \<Longrightarrow> acquireLeader hash S1 = ((h, True), S2) \<Longrightarrow>
     Apply P q fwd pc S = runLeader P q hash intent (pol_of P q) fwd h
       (log_decision P q (pol_of P q) DecisionForward no_match hash '''' S2)"
  "apply_prefix P q fwd S = (GoForward hash intent True, S1) \<Longrightarrow> acquireLeader hash S1 = ((h, False), S2) \<Longrightarrow>
     Apply P q fwd pc S = (waitForLeader (q_ctx q) pc (p_handles S2 h),
       follow P q hash (pol_of P q) (waitForLeader (q_ctx q) pc (p_handles S2 h)) S2)"
  by (simp_all add: Apply_def Let_def)

lemma Apply_cases:
  obtains out S1 where "apply_prefix P q fwd S = (Ended out, S1)"
  | hash intent S1 where "apply_prefix P q fwd S = (GoForward hash intent False, S1)"
  | hash intent S1 h S2 where "apply_prefix P q fwd S = (GoForward hash intent True, S1)" "acquireLeader hash S1 = ((h, True), S2)"
  | hash intent S1 h S2 where "apply_prefix P q fwd S = (GoForward hash intent True, S1)" "acquireLeader hash S1 = ((h, False), S2)"
proof (cases "apply_prefix P q fwd S")
  case (Pair x S1)
  show ?thesis
  proof (cases x)
    case (GoForward hash intent c)
    obtain h l S2 where "acquireLeader hash S1 = ((h, l), S2)" by (metis prod.exhaust)
    with Pair GoForward that show ?thesis by (cases c; cases l) auto
  qed (use Pair that in blast)
qed

lemma Apply_calls:
  assumes "Apply P q fwd pc S = (out, S')"
  shows "(p_calls S' = p_calls S \<or> p_calls S' = p_calls S @ one_call q) \<and>
    (\<forall>r err. out = Ret r err \<longrightarrow>
       (r_Decision r \<noteq> DecisionForward \<longrightarrow> p_calls S' = p_calls S) \<and>
       (r_Decision r = DecisionForward \<and> err = None \<longrightarrow> p_calls S' = p_calls S @ one_call q))"
proof (cases rule: Apply_cases [of P q fwd S])
  case (1 out S1)
  then show ?thesis using assms prefix_calls [OF 1] by (auto simp: Apply_simps)
next
  case (2 hash intent S1)
  let ?S2 = "log_decision P q (pol_of P q) DecisionForward no_match hash '''' S1"
  have eq: "doForward P q hash intent (pol_of P q) fwd None ?S2 = (out, S')"
    using assms 2 by (simp add: Apply_simps)
  have "p_calls S' = p_calls S @ one_call q"
    using doForward_calls [of P q hash intent "pol_of P q" fwd None ?S2] prefix_calls [OF 2]
    unfolding eq by auto
  then show ?thesis
    using doForward_out [of P q hash intent "pol_of P q" fwd None ?S2]
    unfolding eq by (auto split: forward_outcome.splits)
next
  case (3 hash intent S1 h S2)
  let ?S2 = "log_decision P q (pol_of P q) DecisionForward no_match hash '''' S2"
  have S2: "p_calls S2 = p_calls S" using acquireLeader_frame(1) [of hash S1] 3 prefix_calls [OF 3(1)] by simp
  have eq: "runLeader P q hash intent (pol_of P q) fwd h ?S2 = (out, S')"
    using assms 3 by (simp add: Apply_simps)
  have "p_calls S' = p_calls S @ one_call q"
    using runLeader_calls [of P q hash intent "pol_of P q" fwd h ?S2] S2 unfolding eq by simp
  then show ?thesis
    using runLeader_out [of P q hash intent "pol_of P q" fwd h ?S2]
    unfolding eq by (auto simp: doForward_out split: forward_outcome.splits)
next
  case (4 hash intent S1 h S2)
  have "p_calls S2 = p_calls S" using acquireLeader_frame(1) [of hash S1] 4 prefix_calls [OF 4(1)] by simp
  moreover have "out = waitForLeader (q_ctx q) pc (p_handles S2 h)" "p_calls S' = p_calls S2"
    using assms 4 by (auto simp: Apply_simps)
  ultimately show ?thesis by (auto dest: waitForLeader_Forward)
qed

section \<open>What is stored, and what is replayed\<close>

lemma put_entry_store:
  "p_store (snd (put_entry P q hash intent pol status resp S)) =
     snd (s_Put (store P) (p_store S) (q_ctx2 q) (q_put q)
       (buildEntry (q_entry q) (q_tool q) hash (q_body q) status resp pol (embed_intent P pol intent)))"
  by (simp add: put_entry_def split_def Let_def)

lemma doForward_store:
  "p_store (snd (doForward P q hash intent pol fwd lh S)) =
     (case fwd of
        FwdReturns st rs None \<Rightarrow>
          if caching pol \<and> success st then p_store (snd (put_entry P q hash intent pol st rs S)) else p_store S
      | _ \<Rightarrow> p_store S)"
  by (auto simp: doForward_def Let_def put_entry_store split: forward_outcome.split option.split)

lemma runLeader_store:
  "p_store (snd (runLeader P q hash intent pol fwd lh S)) = p_store (snd (doForward P q hash intent pol fwd (Some lh) S))"
  by (auto simp: runLeader_def split: prod.splits outcome.splits)

lemma shadowForward_store:
  "p_store (snd (shadowForward P q hash intent pol fwd S)) =
     (case fwd of
        FwdReturns st rs None \<Rightarrow>
          if hash \<noteq> '''' \<and> caching pol \<and> success st then p_store (snd (put_entry P q hash intent pol st rs S)) else p_store S
      | _ \<Rightarrow> p_store S)"
  by (auto simp: shadowForward_def Let_def put_entry_store split: forward_outcome.split option.split)

lemma buildEntry_simps [simp]:
  "Tool (buildEntry now t h b st rs pol emb) = t" "Hash (buildEntry now t h b st rs pol emb) = h"
  "StatusCode (buildEntry now t h b st rs pol emb) = st" "CreatedAt (buildEntry now t h b st rs pol emb) = now"
  "ReplayCount (buildEntry now t h b st rs pol emb) = 0" "Entry.TTL (buildEntry now t h b st rs pol emb) = ToolPolicy.TTL pol"
  "Request (buildEntry now t h b st rs pol emb) = (if RedactRequestBody pol then '''' else b)"
  "Response (buildEntry now t h b st rs pol emb) = (if ReplayStrategy pol = ReplaySynthesizedAck then '''' else rs)"
  "Embedding (buildEntry now t h b st rs pol emb) = emb"
  by (simp_all add: buildEntry_def zero_entry_def Let_def)

lemma analyse_hash: "analyse L body pol = Inr (hash, intent) \<Longrightarrow> hash \<noteq> '''' \<and> nul_free hash"
  using Exact_shape by (fastforce simp: analyse_def Let_def nul_free_def NUL_def is_hex_def split: if_splits sum.splits)

text \<open>A call that was forwarded and succeeded went through as a leader, in the caching modes.\<close>

lemma forwarded_path:
  assumes run: "Apply P q (FwdReturns st rs None) pc S0 = (Ret r None, S1)" and r: "r_Decision r = DecisionForward"
    and pol: "\<not> shadow P" "caching (pol_of P q)"
    and an: "analyse (libs P) (q_body q) (pol_of P q) = Inr (hash, intent)"
  obtains Sa Sb Sc h where "admit P q S0 = (AdmOk, Sa)" "Sb = snd (decide P q hash (pol_of P q) intent Sa)"
    "acquireLeader hash Sb = ((h, True), Sc)" "r = forwarded hash st rs"
    "S1 = snd (runLeader P q hash intent (pol_of P q) (FwdReturns st rs None) h
       (log_decision P q (pol_of P q) DecisionForward no_match hash '''' Sc))"
proof (cases rule: admission_cases [of P q S0])
  case (1 S1)
  then show ?thesis using pol(2) by (auto simp: admit_def caching_def mode_defs Let_def split: if_splits option.splits prod.splits)
next
  case (2 S1)
  then show ?thesis using run r pol(1) by (auto simp: Apply_simps(1) [OF prefix_simps(2)] refusal_def zero_result_def)
next
  case (3 S1)
  then show ?thesis using run r pol(1) by (auto simp: Apply_simps(1) [OF prefix_simps(3)] refusal_def zero_result_def)
next
  case (4 S1 err)
  then show ?thesis using an by simp
next
  case (5 Sa hash' intent')
  then have eq: "hash' = hash" "intent' = intent" using an by auto
  obtain d entry match Sb where dec: "decide P q hash (pol_of P q) intent Sa = ((d, entry, match), Sb)"
    by (metis prod.exhaust)
  note px = prefix_ok [OF 5 [unfolded eq] dec pol(1), of "FwdReturns st rs None"]
  have go: "apply_prefix P q (FwdReturns st rs None) S0 = (GoForward hash intent True, Sb)"
    using run r pol(2) px Apply_simps(1) [of P q "FwdReturns st rs None" S0]
    by (cases d) (auto simp: Let_def blocked_result_def)
  obtain h l Sc where al: "acquireLeader hash Sb = ((h, l), Sc)" by (metis prod.exhaust)
  have l: "l"
  proof (rule ccontr)
    assume "\<not> l"
    then have "waitForLeader (q_ctx q) pc (p_handles Sc h) = Ret r None"
      using run Apply_simps(4) [OF go] al by simp
    then show False using r waitForLeader_Forward by blast
  qed
  let ?S = "log_decision P q (pol_of P q) DecisionForward no_match hash '''' Sc"
  have "runLeader P q hash intent (pol_of P q) (FwdReturns st rs None) h ?S = (Ret r None, S1)"
    using run Apply_simps(3) [OF go] al l by simp
  then have "r = forwarded hash st rs" "S1 = snd (runLeader P q hash intent (pol_of P q) (FwdReturns st rs None) h ?S)"
    using runLeader_out [of P q hash intent "pol_of P q" "FwdReturns st rs None" h ?S] by (simp_all add: doForward_out)
  then show ?thesis using that [OF 5(1) _ _ _ _] dec al l by simp
qed

context store_port
begin

lemma get_keeps:
  assumes "inv s" "ready s" "okkey t h"
  shows "inv (snd (s_Get S s ctx now t h)) \<and> ready (snd (s_Get S s ctx now t h)) \<and>
    (view (snd (s_Get S s ctx now t h)) = view s \<or>
     (\<exists>e. view s (t, h) = Some e \<and> Expired e now) \<and> view (snd (s_Get S s ctx now t h)) = (view s)((t, h) := None))"
proof (cases ctx)
  case None
  show ?thesis
  proof (cases "view s (t, h)")
    case (Some e)
    then show ?thesis using None assms get_hit [OF assms Some] get_expired [OF assms Some] by (cases "Expired e now") fastforce+
  qed (use None assms get_miss in auto)
qed (use assms cancelled(1) in auto)

lemma forward_caches:
  assumes run: "Apply P q (FwdReturns st rs None) pc S0 = (Ret r None, S1)" and r: "r_Decision r = DecisionForward"
    and P: "store P = S" "\<not> shadow P" "caching (pol_of P q)" and st: "success st"
    and an: "analyse (libs P) (q_body q) (pol_of P q) = Inr (hash, intent)"
    and ctx: "q_ctx2 q = None"
    and s: "inv (p_store S0)" "ready (p_store S0)" "okkey (q_tool q) hash" "q_tool q \<noteq> ''''"
    and e: "e = buildEntry (q_entry q) (q_tool q) hash (q_body q) st rs (pol_of P q) (embed_intent P (pol_of P q) intent)"
      "storable (stamp (q_put q) e)"
  shows "r = forwarded hash st rs" "inv (p_store S1)" "ready (p_store S1)"
    "view (p_store S1) (q_tool q, hash) = Some (norm (stamp (q_put q) e))"
proof -
  obtain Sa Sb Sc h where pth: "admit P q S0 = (AdmOk, Sa)" "Sb = snd (decide P q hash (pol_of P q) intent Sa)"
    "acquireLeader hash Sb = ((h, True), Sc)" "r = forwarded hash st rs"
    "S1 = snd (runLeader P q hash intent (pol_of P q) (FwdReturns st rs None) h
       (log_decision P q (pol_of P q) DecisionForward no_match hash '''' Sc))"
    by (rule forwarded_path [OF run r P(2,3) an])
  show "r = forwarded hash st rs" by (rule pth(4))
  have "p_store Sa = p_store S0" using admit_frame(1) [of P q S0] pth(1) by simp
  moreover have "p_store Sc = p_store Sb" using acquireLeader_frame(2) [of hash Sb] pth(3) by simp
  ultimately have "p_store Sc = snd (s_Get S (p_store S0) (q_ctx q) (q_now q) (q_tool q) hash)"
    using P pth(2) by (simp add: decide_store)
  then have sc: "inv (p_store Sc)" "ready (p_store Sc)" using get_keeps [OF s(1-3)] by simp_all
  have "p_store S1 = snd (s_Put S (p_store Sc) None (q_put q) e)"
    using pth(5) P st ctx e(1) by (simp add: runLeader_store doForward_store put_entry_store)
  moreover obtain s' where "s_Put S (p_store Sc) None (q_put q) e = (Inr (), s')" "inv s'" "ready s'"
      "view s' = (view (p_store Sc))((Tool e, Hash e) \<mapsto> norm (stamp (q_put q) e))"
    using put [OF sc, of e "q_put q"] s(3,4) e analyse_hash [OF an] by auto
  ultimately show "inv (p_store S1)" "ready (p_store S1)"
    "view (p_store S1) (q_tool q, hash) = Some (norm (stamp (q_put q) e))" using e(1) by simp_all
qed

lemma hit_replays:
  assumes P: "store P = S" "\<not> shadow P" "caching (pol_of P q)"
    and adm: "admit P q S0 = (AdmOk, Sa)" and an: "analyse (libs P) (q_body q) (pol_of P q) = Inr (hash, intent)"
    and ctx: "q_ctx q = None"
    and s: "inv (p_store S0)" "ready (p_store S0)" "okkey (q_tool q) hash"
    and e: "view (p_store S0) (q_tool q, hash) = Some e" "\<not> Expired e (q_now q)"
  shows "\<exists>S1. Apply P q fwd pc S0 =
      (Ret (if hit_decision (pol_of P q) = DecisionBlock then blocked_result e exact_match
            else \<lparr>r_Decision = DecisionReplay, r_Match = exact_match, r_Hash = Hash e, r_StatusCode = StatusCode e,
                   r_Body = renderReplayBody (q_tool q) e (pol_of P q)\<rparr>) None, S1) \<and>
    p_calls S1 = p_calls S0"
proof -
  have Sa: "p_store Sa = p_store S0" "p_calls Sa = p_calls S0" using admit_frame(1,2) [of P q S0] adm by simp_all
  have g: "s_Get (store P) (p_store Sa) (q_ctx q) (q_now q) (q_tool q) hash = (Inr e, p_store S0)"
    using get_hit [OF s e] P(1) ctx Sa by simp
  have dec: "decide P q hash (pol_of P q) intent Sa = ((hit_decision (pol_of P q), e, exact_match), Sa)"
    using P(3) g Sa by (auto simp: decide_def caching_def mode_defs Let_def)
  have "hit_decision (pol_of P q) \<in> {DecisionBlock, DecisionReplay}" by (simp add: hit_decision_def)
  then show ?thesis
    using Sa
    by (auto simp: Apply_def prefix_ok [OF adm an dec P(2)] Let_def split_def replay_def)
qed

end

lemma forward_then_replay:
  assumes port: "store_port (store P) invar ready view nrm okkey storable order_ok"
    and P: "\<not> shadow P" "caching (pol_of P q)" "hit_decision (pol_of P q) = DecisionReplay"
    and s: "invar (p_store S0)" "ready (p_store S0)" "okkey (q_tool q) hash" "q_tool q \<noteq> ''''"
    and first: "Apply P q (FwdReturns status resp None) pc S0 = (Ret r None, S1)" "r_Decision r = DecisionForward"
      "success status" "q_ctx2 q = None" "analyse (libs P) (q_body q) (pol_of P q) = Inr (hash, intent)"
    and e: "e = stamp (q_put q) (buildEntry (q_entry q) (q_tool q) hash (q_body q) status resp (pol_of P q)
        (embed_intent P (pol_of P q) intent))" "storable e"
    and second: "q_tool q' = q_tool q" "analyse (libs P) (q_body q') (pol_of P q') = Inr (hash, intent')"
      "fst (admit P q' S1) = AdmOk" "q_ctx q' = None" "\<not> Expired (nrm e) (q_now q')"
  shows "\<exists>S2. Apply P q' fwd pc' S1 =
      (Ret \<lparr>r_Decision = DecisionReplay, r_Match = exact_match, r_Hash = hash, r_StatusCode = status,
        r_Body = (if ReplayStrategy (pol_of P q) = ReplaySynthesizedAck \<or> resp = ''''
                  then SynthesizeReplay (pol_of P q) (q_tool q) hash else resp)\<rparr> None, S2) \<and>
    p_calls S2 = p_calls S1"
proof -
  note fc = store_port.forward_caches [OF port first(1,2) refl P(1,2) first(3,5,4) s refl]
  have st: "storable (stamp (q_put q) (buildEntry (q_entry q) (q_tool q) hash (q_body q) status resp (pol_of P q)
        (embed_intent P (pol_of P q) intent)))" using e by simp
  have adm: "admit P q' S1 = (AdmOk, snd (admit P q' S1))" using second(3) by (metis prod.collapse)
  have v: "view (p_store S1) (q_tool q', hash) = Some (nrm e)" using fc(4) st second(1) e(1) by simp
  have "\<exists>S2. Apply P q' fwd pc' S1 = (Ret \<lparr>r_Decision = DecisionReplay, r_Match = exact_match, r_Hash = Hash (nrm e),
      r_StatusCode = StatusCode (nrm e), r_Body = renderReplayBody (q_tool q') (nrm e) (pol_of P q')\<rparr> None, S2) \<and>
    p_calls S2 = p_calls S1"
    using store_port.hit_replays [OF port refl P(1) _ adm second(2,4) fc(2,3) _ v second(5)] st P second(1) s(3)
    by simp
  then show ?thesis
    using store_port.norm_keeps [OF port e(2)] second(1) by (auto simp: e(1) renderReplayBody_def)
qed

section \<open>Properties: replays\<close>

text \<open>C1. The purpose of the program. Over any store that keeps the port's contract: once a call has
  been forwarded and the upstream answered with a success, every later call of the same tool with
  the same fingerprint, made before the stored entry expires and not refused by the allow-list or
  the rate limit, is answered with the recorded status and body, marked as an exact replay, and does
  not reach the upstream. Where the policy asks for synthesized replies, or the recorded body is
  empty, the body is the expanded template instead.\<close>

theorem replay_after_forward:
  assumes port: "store_port (store P) invar ready view nrm okkey storable order_ok"
    and P: "\<not> shadow P" "caching (pol_of P q)" "hit_decision (pol_of P q) = DecisionReplay"
    and s: "invar (p_store S0)" "ready (p_store S0)" "okkey (q_tool q) hash" "q_tool q \<noteq> ''''"
    and first: "Apply P q (FwdReturns status resp None) pc S0 = (Ret r None, S1)" "r_Decision r = DecisionForward"
      "success status" "q_ctx2 q = None" "analyse (libs P) (q_body q) (pol_of P q) = Inr (hash, intent)"
    and e: "e = stamp (q_put q) (buildEntry (q_entry q) (q_tool q) hash (q_body q) status resp (pol_of P q)
        (embed_intent P (pol_of P q) intent))" "storable e"
    and second: "q_tool q' = q_tool q" "analyse (libs P) (q_body q') (pol_of P q') = Inr (hash, intent')"
      "fst (admit P q' S1) = AdmOk" "q_ctx q' = None" "\<not> Expired (nrm e) (q_now q')"
  shows "\<exists>S2. Apply P q' fwd pc' S1 =
      (Ret \<lparr>r_Decision = DecisionReplay, r_Match = exact_match, r_Hash = hash, r_StatusCode = status,
        r_Body = (if ReplayStrategy (pol_of P q) = ReplaySynthesizedAck \<or> resp = ''''
                  then SynthesizeReplay (pol_of P q) (q_tool q) hash else resp)\<rparr> None, S2) \<and>
    p_calls S2 = p_calls S1"
  by (rule forward_then_replay [OF assms])

text \<open>A configuration for concrete instances: one tool that caches for a minute, no limiter.\<close>

definition demo_policy :: ToolPolicy where
  "demo_policy = zero_policy\<lparr>Mode := ModeCache, ToolPolicy.TTL := 60 * Second\<rparr>"

definition demo_pipeline :: "(Memory, unit) config" where
  "demo_pipeline = \<lparr>policies = \<lparr>Defaults = zero_policy, Tools = [''send'' \<mapsto> demo_policy]\<rparr>, store = Memory_ops,
     rates = \<lparr>NewLimiter = (\<lambda>_ _. ()), Allow = (\<lambda>l _. (True, l))\<rparr>, embedder = None, metrics = True, audit = True,
     shadow = False, libs = \<lparr>l_num = zero_num, l_uni = ascii_only, l_fp = exact_fp\<rparr>\<rparr>"

definition demo_request :: request where
  "demo_request = \<lparr>q_tool = ''send'', q_caller = '''', q_body = '''', q_span = None, q_ctx = None, q_ctx2 = None,
     q_now = 5, q_start = 5, q_end = 6, q_entry = 7, q_put = 8, q_order = []\<rparr>"

lemma demo_pol [simp]: "For (policies demo_pipeline) ''send'' = demo_policy"
  by (simp add: demo_pipeline_def For_def mergeDefaults_def demo_policy_def zero_policy_def
      mode_defs Second_def flt_eq.simps)

lemma demo_request_simps [simp]:
  "q_body demo_request = ''''" "q_tool demo_request = ''send''" "q_now demo_request = 5" "q_ctx demo_request = None"
  "q_ctx2 demo_request = None" "q_entry demo_request = 7" "store demo_pipeline = Memory_ops" "\<not> shadow demo_pipeline"
  by (simp_all add: demo_request_def demo_pipeline_def)

lemma demo_admit [simp]: "admit demo_pipeline demo_request S = (AdmOk, S)"
  by (simp add: admit_def limiterFor_def demo_policy_def zero_policy_def mode_defs AllowsCaller_def)

lemma demo_analyse:
  obtains hash where "analyse (libs demo_pipeline) '''' demo_policy = Inr (hash, '''')"
proof -
  obtain h where "Exact zero_num (JObj []) = Inr h" using Exact_total [of zero_num "JObj []"] by auto
  then show ?thesis using that [of h] by (simp add: analyse_def demo_pipeline_def)
qed

lemma demo_policy_simps [simp]:
  "caching demo_policy" "hit_decision demo_policy = DecisionReplay" "ReplayStrategy demo_policy = ''''"
  "ToolPolicy.TTL demo_policy = 60 * Second" "success 200" "\<not> success 500"
  by (simp_all add: caching_def success_def hit_decision_def demo_policy_def zero_policy_def mode_defs)

text \<open>The first call of a fresh process becomes a leader.\<close>

lemma fresh_leader:
  fixes P :: "(Memory, 'l) config"
  assumes P: "store P = Memory_ops" "\<not> shadow P" "caching (pol_of P q)" "q_ctx q = None"
    and adm: "admit P q (New_pipeline NewMemory) = (AdmOk, New_pipeline NewMemory)"
    and an: "analyse (libs P) (q_body q) (pol_of P q) = Inr (hash, '''')"
  obtains h Sc where "\<forall>fwd pc. Apply P q fwd pc (New_pipeline NewMemory) =
    runLeader P q hash '''' (pol_of P q) fwd h (log_decision P q (pol_of P q) DecisionForward no_match hash '''' Sc)"
proof -
  let ?init = "New_pipeline NewMemory"
  have "fst (decide P q hash (pol_of P q) '''' ?init) = (DecisionForward, zero_entry, no_match)"
    using P(3,4) by (auto simp: decide_def Let_def mem_defs P(1) caching_def mode_defs New_pipeline_def NewMemory_def split: option.split)
  then obtain Sb where dec: "decide P q hash (pol_of P q) '''' ?init = ((DecisionForward, zero_entry, no_match), Sb)"
    by (metis prod.collapse)
  have "p_inflight Sb hash = None" using decide_frame(2) [of P q hash "pol_of P q" "''''" ?init] unfolding dec by (simp add: New_pipeline_def)
  then obtain h Sc where al: "acquireLeader hash Sb = ((h, True), Sc)" by (simp add: acquireLeader_def Let_def)
  have go: "apply_prefix P q fwd ?init = (GoForward hash '''' True, Sb)" for fwd
    using prefix_ok [OF adm an] dec P(2,3) by (simp add: Let_def)
  show ?thesis by (rule that [of h Sc]) (use Apply_simps(3) [OF go al] P(3) in simp)
qed

lemma demo_leader:
  obtains hash h Sc where "analyse (libs demo_pipeline) '''' demo_policy = Inr (hash, '''')"
    "\<forall>fwd pc. Apply demo_pipeline demo_request fwd pc (New_pipeline NewMemory) =
       runLeader demo_pipeline demo_request hash '''' demo_policy fwd h
         (log_decision demo_pipeline demo_request demo_policy DecisionForward no_match hash '''' Sc)"
proof -
  obtain hash where an: "analyse (libs demo_pipeline) '''' demo_policy = Inr (hash, '''')" by (rule demo_analyse)
  have "\<exists>h Sc. \<forall>fwd pc. Apply demo_pipeline demo_request fwd pc (New_pipeline NewMemory) = runLeader demo_pipeline demo_request hash ''''
      demo_policy fwd h (log_decision demo_pipeline demo_request demo_policy DecisionForward no_match hash '''' Sc)"
    by (rule fresh_leader [of demo_pipeline demo_request hash]) (use an in \<open>simp_all, blast\<close>)
  then show ?thesis using that [OF an] by blast
qed

theorem replay_after_forward_witness:
  "\<exists>hash S1 S2. Apply demo_pipeline demo_request (FwdReturns 200 ''ok'' None) False (New_pipeline NewMemory) =
      (Ret (forwarded hash 200 ''ok'') None, S1) \<and> p_calls S1 = [(''send'', '''')] \<and>
    Apply demo_pipeline demo_request (FwdPanics ''unused'') False S1 =
      (Ret \<lparr>r_Decision = DecisionReplay, r_Match = exact_match, r_Hash = hash, r_StatusCode = 200, r_Body = ''ok''\<rparr> None, S2) \<and>
    p_calls S2 = [(''send'', '''')]"
proof -
  let ?P = demo_pipeline and ?q = demo_request and ?f = "FwdReturns 200 ''ok'' None" and ?init = "New_pipeline NewMemory"
  obtain hash h Sc where an: "analyse (libs ?P) '''' demo_policy = Inr (hash, '''')"
    and ap: "\<forall>fwd pc. Apply ?P ?q fwd pc ?init = runLeader ?P ?q hash '''' demo_policy fwd h
      (log_decision ?P ?q demo_policy DecisionForward no_match hash '''' Sc)" by (rule demo_leader)
  have run: "Apply ?P ?q ?f False ?init = (Ret (forwarded hash 200 ''ok'') None, snd (Apply ?P ?q ?f False ?init))"
    by (simp add: ap runLeader_out doForward_out prod_eq_iff)
  have calls: "p_calls (snd (Apply ?P ?q ?f False ?init)) = [(''send'', '''')]"
    using Apply_calls [OF run] by (auto simp: New_pipeline_def one_call_def)
  have k: "key_ok ''send'' hash" using analyse_hash [OF an] by (simp add: key_ok_def nul_free_def NUL_def)
  have "\<exists>S2. Apply ?P ?q (FwdPanics ''unused'') False (snd (Apply ?P ?q ?f False ?init)) =
      (Ret \<lparr>r_Decision = DecisionReplay, r_Match = exact_match, r_Hash = hash, r_StatusCode = 200, r_Body = ''ok''\<rparr> None, S2) \<and>
    p_calls S2 = p_calls (snd (Apply ?P ?q ?f False ?init))"
    using replay_after_forward [OF mem.store_port_axioms [folded demo_request_simps(7)] _ _ _ _ _ _ _ run,
        of hash "''''" _ ?q "''''" "FwdPanics ''unused''" False] an k
    by (simp add: keys_ok_def New_pipeline_def NewMemory_def Expired_def Sub_def int64_defs stamp_def IsZero_def
        Second_def replay_defs)
  then show ?thesis using run calls by metis
qed


text \<open>C9. No call reaches the upstream more than once, and the decision in the result tells which did:
  a call answered with a replay, a block or a refusal did not reach it at all, and one answered with
  a forward and no error reached it exactly once, with its own tool and body.\<close>

theorem forward_at_most_once:
  assumes "Apply P q fwd pc S = (out, S')"
  shows "(p_calls S' = p_calls S \<or> p_calls S' = p_calls S @ [(q_tool q, q_body q)]) \<and>
    (\<forall>r err. out = Ret r err \<longrightarrow>
       (r_Decision r \<noteq> DecisionForward \<longrightarrow> p_calls S' = p_calls S) \<and>
       (r_Decision r = DecisionForward \<and> err = None \<longrightarrow> p_calls S' = p_calls S @ [(q_tool q, q_body q)]))"
  using Apply_calls [OF assms] by (simp add: one_call_def)

theorem forward_at_most_once_witness:
  "\<exists>S'. Apply demo_pipeline demo_request (FwdReturns 500 ''no'' None) False (New_pipeline NewMemory) =
     (Ret (forwarded (fst (projr (analyse (libs demo_pipeline) '''' demo_policy))) 500 ''no'') None, S') \<and>
   p_calls S' = [(''send'', '''')]"
proof -
  let ?P = demo_pipeline and ?q = demo_request and ?f = "FwdReturns 500 ''no'' None" and ?init = "New_pipeline NewMemory"
  obtain hash h Sc where an: "analyse (libs ?P) '''' demo_policy = Inr (hash, '''')"
    and ap: "\<forall>fwd pc. Apply ?P ?q fwd pc ?init = runLeader ?P ?q hash '''' demo_policy fwd h
      (log_decision ?P ?q demo_policy DecisionForward no_match hash '''' Sc)" by (rule demo_leader)
  have run: "Apply ?P ?q ?f False ?init = (Ret (forwarded hash 500 ''no'') None, snd (Apply ?P ?q ?f False ?init))"
    by (simp add: ap runLeader_out doForward_out prod_eq_iff)
  show ?thesis using run an forward_at_most_once [OF run] by (auto simp: New_pipeline_def)
qed

section \<open>Properties: refusals, failures and shadow mode\<close>

text \<open>C28. A caller that is not on the allow-list of a tool gets 403 from \<open>Apply\<close> and from \<open>Lookup\<close>,
  and a call the limiter of its tool denies (the one in place, or the one made for its first call) gets 429, both
  with an empty body and the decision by name: neither reaches the upstream, reads or writes the store or
  joins a leader, and a forbidden call does not spend a token of the limiter.\<close>

theorem refused_calls:
  assumes "\<not> shadow P" "Mode (pol_of P q) \<noteq> ModeOff"
  shows "(\<not> AllowsCaller (pol_of P q) (q_caller q) \<longrightarrow>
      (\<exists>S'. let r = \<lparr>r_Decision = DecisionForbidden, r_Match = no_match, r_Hash = '''', r_StatusCode = 403, r_Body = ''''\<rparr> in
        Apply P q fwd pc S = (Ret r None, S') \<and>
        Lookup P q S = (Inr (r, ''''), S') \<and> p_calls S' = p_calls S \<and>
        p_store S' = p_store S \<and> p_inflight S' = p_inflight S \<and> p_limiters S' = p_limiters S)) \<and>
    (AllowsCaller (pol_of P q) (q_caller q) \<and> fst (limiterFor P (q_tool q) (RateLimit (pol_of P q)) S) = Some l \<and>
      Allow (rates P) l (q_now q) = (False, l') \<longrightarrow>
      (\<exists>S'. let r = \<lparr>r_Decision = DecisionRateLimited, r_Match = no_match, r_Hash = '''', r_StatusCode = 429, r_Body = ''''\<rparr> in
        Apply P q fwd pc S = (Ret r None, S') \<and>
        Lookup P q S = (Inr (r, ''''), S') \<and> p_calls S' = p_calls S \<and>
        p_store S' = p_store S \<and> p_inflight S' = p_inflight S \<and> p_limiters S' = (p_limiters S)(q_tool q \<mapsto> l')))"
  using assms
  by (auto simp: Apply_def apply_prefix_def Lookup_def admit_def limiterFor_def Let_def refusal_def status_of_def zero_result_def
      split: if_splits option.splits)

definition demo_acl :: "(Memory, unit) config" where
  "demo_acl = demo_pipeline\<lparr>policies := \<lparr>Defaults = demo_policy\<lparr>AllowedCallers := [''alice'']\<rparr>, Tools = Map.empty\<rparr>\<rparr>"

text \<open>A tool that only \<open>alice\<close> may call, once a second, with a limiter that has no token left.\<close>

definition demo_limited :: "(Memory, unit) config" where
  "demo_limited = demo_pipeline\<lparr>rates := \<lparr>NewLimiter = (\<lambda>_ _. ()), Allow = (\<lambda>l _. (False, l))\<rparr>,
     policies := \<lparr>Defaults = demo_policy\<lparr>AllowedCallers := [''alice''], RateLimit := \<lparr>RPS = Fin 1, Burst = 1\<rparr>\<rparr>, Tools = Map.empty\<rparr>\<rparr>"

theorem refused_calls_witness:
  "(\<exists>r S'. Apply demo_limited (demo_request\<lparr>q_caller := ''bob''\<rparr>) (FwdPanics ''unused'') False (New_pipeline NewMemory) =
      (Ret r None, S') \<and> r_StatusCode r = 403 \<and> r_Body r = '''' \<and> p_calls S' = []) \<and>
   (\<exists>r S'. Apply demo_limited (demo_request\<lparr>q_caller := ''alice''\<rparr>) (FwdPanics ''unused'') False (New_pipeline NewMemory) =
      (Ret r None, S') \<and> r_StatusCode r = 429 \<and> r_Body r = '''' \<and> p_calls S' = [])"
proof -
  let ?q = "\<lambda>caller. demo_request\<lparr>q_caller := caller\<rparr>" and ?S = "New_pipeline NewMemory :: (Memory, unit) pstate"
  have pol: "pol_of demo_limited (?q c) = demo_policy\<lparr>AllowedCallers := [''alice''], RateLimit := \<lparr>RPS = Fin 1, Burst = 1\<rparr>\<rparr>" for c
    by (simp add: demo_limited_def For_def)
  have P: "\<not> shadow demo_limited" "Allow (rates demo_limited) () t = (False, ())" for t
    by (simp_all add: demo_limited_def demo_pipeline_def)
  have m: "Mode (pol_of demo_limited (?q c)) \<noteq> ModeOff" for c unfolding pol by (simp add: demo_policy_def mode_defs)
  have a: "\<not> AllowsCaller (pol_of demo_limited (?q ''bob'')) (q_caller (?q ''bob''))"
    "AllowsCaller (pol_of demo_limited (?q ''alice'')) (q_caller (?q ''alice''))" unfolding pol by (simp_all add: AllowsCaller_iff)
  have l: "fst (limiterFor demo_limited (q_tool (?q ''alice'')) (RateLimit (pol_of demo_limited (?q ''alice''))) ?S) = Some ()"
    unfolding pol by (simp add: limiterFor_def New_pipeline_def)
  have c: "p_calls ?S = []" by (simp add: New_pipeline_def)
  from refused_calls [OF P(1) m [of "''bob''"], of "FwdPanics ''unused''" False ?S]
    refused_calls [OF P(1) m [of "''alice''"], of "FwdPanics ''unused''" False ?S "()" "()"]
  show ?thesis using a l P(2) c by (fastforce simp: Let_def)
qed

lemma admit_off: "fst (admit P q S) = AdmOff \<longleftrightarrow> Mode (pol_of P q) = ModeOff"
  by (auto simp: admit_def Let_def split: option.splits prod.splits)

text \<open>How a call ends in shadow mode.\<close>

lemma shadow_out:
  assumes "shadow P"
  shows "fst (Apply P q fwd pc S) =
    (case analyse (libs P) (q_body q) (pol_of P q) of
       Inl err \<Rightarrow> if fst (admit P q S) = AdmOk then Ret zero_result (Some (Wrapped ''analyse'' err))
                  else fst (shadowForward P q '''' '''' (pol_of P q) fwd S)
     | Inr (hash, intent) \<Rightarrow>
         fst (shadowForward P q (if fst (admit P q S) = AdmOk then hash else '''') '''' (pol_of P q) fwd S))"
  by (cases rule: admission_cases [of P q S])
     (use assms in \<open>auto simp: Apply_def apply_prefix_def Let_def shadowForward_out split: sum.split prod.splits\<close>)

lemma shadow_calls:
  assumes "shadow P"
  shows "p_calls (snd (Apply P q fwd pc S)) = p_calls S @
    (if fst (admit P q S) = AdmOk \<and> \<not> is_ok (analyse (libs P) (q_body q) (pol_of P q)) then [] else one_call q)"
proof -
  have S1: "p_calls S1 = p_calls S" if "admit P q S = (a, S1)" for a S1
    using admit_frame(2) [of P q S] that by simp
  show ?thesis
  proof (cases rule: admission_cases [of P q S])
    case (5 S1 hash intent)
    then show ?thesis
      using assms S1 [OF 5(1)] decide_frame(1) [of P q hash "pol_of P q" intent S1]
      by (simp add: Apply_def apply_prefix_def Let_def split_def)
  qed (use assms in \<open>simp_all add: S1 Apply_def apply_prefix_def Let_def one_call_def\<close>)
qed

text \<open>C4. Shadow mode changes no answer: whatever the policy would have decided, refusals included,
  the call reaches the upstream exactly once and its answer is returned as it is, marked as a
  forward. The one exception is a body that is not a JSON object: that call fails in shadow mode as
  it does without, and the upstream never sees it.\<close>

theorem shadow_forwards:
  assumes "shadow P" "Apply P q (FwdReturns status resp err) pc S = (out, S')"
  shows "if fst (admit P q S) = AdmOk \<and> \<not> is_ok (analyse (libs P) (q_body q) (pol_of P q))
    then p_calls S' = p_calls S \<and> (\<exists>e. out = Ret zero_result (Some (Wrapped ''analyse'' e)))
    else p_calls S' = p_calls S @ [(q_tool q, q_body q)] \<and>
      (\<exists>r. out = Ret r err \<and> r_Decision r = DecisionForward \<and> r_StatusCode r = status \<and> r_Body r = resp)"
  using shadow_out [OF assms(1), of q "FwdReturns status resp err" pc S]
    shadow_calls [OF assms(1), of q "FwdReturns status resp err" pc S] assms(2)
  by (auto simp: shadowForward_out one_call_def split: sum.splits prod.splits)

theorem shadow_forwards_witness:
  "\<exists>out S'. Apply (demo_acl\<lparr>shadow := True\<rparr>) (demo_request\<lparr>q_caller := ''bob''\<rparr>) (FwdReturns 200 ''ok'' None) False
      (New_pipeline NewMemory) = (out, S') \<and> p_calls S' = [(''send'', '''')]"
proof -
  let ?P = "demo_acl\<lparr>shadow := True\<rparr>" and ?q = "demo_request\<lparr>q_caller := ''bob''\<rparr>"
  obtain out S' where run: "Apply ?P ?q (FwdReturns 200 ''ok'' None) False (New_pipeline NewMemory) = (out, S')"
    by (metis prod.exhaust)
  have pol: "pol_of ?P ?q = demo_policy\<lparr>AllowedCallers := [''alice'']\<rparr>" by (simp add: demo_acl_def For_def)
  have "fst (admit ?P ?q (New_pipeline NewMemory)) = AdmForbidden"
    unfolding admit_def pol Let_def by (simp add: AllowsCaller_iff) (simp add: demo_policy_def mode_defs)
  then show ?thesis using shadow_forwards [OF _ run] run by (auto simp: New_pipeline_def)
qed

section \<open>Properties: the audit log\<close>

lemma log_decision_audit:
  "p_audit (log_decision P q pol d m f e S) =
     p_audit S @ (if audit P then [audit_record P (q_span q) (q_tool q) (Mode pol) d m f e] else [])"
  by (simp add: log_decision_def writeAudit_def)

lemma forward_audit [simp]:
  "p_audit (snd (doForward P q h i pol fwd lh S)) = p_audit S"
  "p_audit (snd (shadowForward P q h i pol fwd S)) = p_audit S"
  by (simp_all add: doForward_def shadowForward_def Let_def split: forward_outcome.split option.split)

lemma runLeader_audit [simp]: "p_audit (snd (runLeader P q h i pol fwd lh S)) = p_audit S"
  using forward_audit(1) [of P q h i pol fwd "Some lh" S]
  by (auto simp: runLeader_def simp del: forward_audit split: prod.splits outcome.splits)

lemma admit_audit:
  "p_audit (snd (admit P q S)) = p_audit S @
     (if audit P then (case fst (admit P q S) of
        AdmForbidden \<Rightarrow> [audit_record P (q_span q) (q_tool q) (Mode (pol_of P q)) DecisionForbidden no_match '''' '''']
      | AdmRateLimited \<Rightarrow> [audit_record P (q_span q) (q_tool q) (Mode (pol_of P q)) DecisionRateLimited no_match '''' '''']
      | _ \<Rightarrow> []) else [])"
  by (simp add: admit_def split_def Let_def writeAudit_def split: option.split)

lemma audit_record_simps [simp]:
  "\<not> shadow P \<Longrightarrow> a_Decision (audit_record P sp t m d mt f e) = decision_String d"
  "\<not> shadow P \<Longrightarrow> \<not> a_Shadow (audit_record P sp t m d mt f e)"
  "shadow P \<Longrightarrow> a_Decision (audit_record P sp t m d mt f e) = ''forward''"
  "shadow P \<Longrightarrow> a_Shadow (audit_record P sp t m d mt f e)"
  "shadow P \<Longrightarrow> a_WouldDecision (audit_record P sp t m d mt f e) = decision_String d"
  "a_Tool (audit_record P sp t m d mt f e) = t" "a_Match (audit_record P sp t m d mt f e) = Kind mt"
  "a_Mode (audit_record P sp t m d mt f e) = m"
  "a_Similarity (audit_record P sp t m d mt f e) = Similarity mt"
  by (auto simp: audit_record_def Let_def split: option.split)

lemma decide_cong:
  assumes "p_store S = p_store S'" "store P = store P'" "embedder P = embedder P'" "libs P = libs P'"
  shows "fst (decide P q h pol i S) = fst (decide P' q h pol i S')"
  using assms by (auto simp: decide_def semanticSearch_def Let_def split_def split: sum.split option.split)

lemma admit_shadow: "fst (admit (P\<lparr>shadow := b\<rparr>) q S) = fst (admit P q S)"
  by (simp add: admit_def limiterFor_def split_def Let_def split: option.split)

text \<open>What one call records: a decision and its match.\<close>

lemma prefix_audit:
  assumes "apply_prefix P q fwd S = (x, S')" "audit P" "\<not> shadow P" "Mode (pol_of P q) \<noteq> ModeOff"
    "is_ok (analyse (libs P) (q_body q) (pol_of P q))"
  shows "case x of
      GoForward _ _ _ \<Rightarrow> p_audit S' = p_audit S
    | Ended (Ret r err) \<Rightarrow> err = None \<and> (\<exists>f e. p_audit S' = p_audit S @
        [audit_record P (q_span q) (q_tool q) (Mode (pol_of P q)) (r_Decision r) (r_Match r) f e])
    | _ \<Rightarrow> False"
proof (cases rule: admission_cases [of P q S])
  case (1 S1)
  then show ?thesis using assms(4) admit_off [of P q S] by simp
next
  case (2 S1)
  then show ?thesis using assms admit_audit [of P q S] by (auto simp: prefix_simps refusal_def zero_result_def; blast)
next
  case (3 S1)
  then show ?thesis using assms admit_audit [of P q S] by (auto simp: prefix_simps refusal_def zero_result_def; blast)
next
  case (4 S1 err)
  then show ?thesis using assms(5) by simp
next
  case (5 S1 hash intent)
  obtain d entry match S2 where dec: "decide P q hash (pol_of P q) intent S1 = ((d, entry, match), S2)"
    by (metis prod.exhaust)
  have "p_audit S2 = p_audit S"
    using admit_audit [of P q S] decide_frame(5) [of P q hash "pol_of P q" intent S1] 5(1) unfolding dec by simp
  then show ?thesis
    using assms(1,2) unfolding prefix_ok [OF 5 dec assms(3)]
    by (auto simp: Let_def log_decision_audit blocked_result_def replay_def split_def split: Decision.splits; blast)
qed

lemma Apply_audit:
  assumes "Apply P q fwd pc S = (Ret r err, S')" "audit P" "\<not> shadow P" "Mode (pol_of P q) \<noteq> ModeOff"
    "is_ok (analyse (libs P) (q_body q) (pol_of P q))"
  shows "\<exists>f e. p_audit S' = p_audit S @
    [audit_record P (q_span q) (q_tool q) (Mode (pol_of P q)) (r_Decision r) (r_Match r) f e]"
proof (cases rule: Apply_cases [of P q fwd S])
  case (1 out S1)
  then show ?thesis using assms prefix_audit [OF 1 assms(2-5)] by (auto simp: Apply_simps)
next
  case (2 hash intent S1)
  let ?S2 = "log_decision P q (pol_of P q) DecisionForward no_match hash '''' S1"
  have eq: "doForward P q hash intent (pol_of P q) fwd None ?S2 = (Ret r err, S')"
    using assms(1) 2 by (simp add: Apply_simps)
  show ?thesis
    using forward_audit(1) [of P q hash intent "pol_of P q" fwd None ?S2] doForward_out [of P q hash intent "pol_of P q" fwd None ?S2]
      prefix_audit [OF 2 assms(2-5)] assms(2)
    unfolding eq by (auto simp: log_decision_audit forwarded_def zero_result_def split: forward_outcome.splits; blast)
next
  case (3 hash intent S1 h S2)
  let ?S2 = "log_decision P q (pol_of P q) DecisionForward no_match hash '''' S2"
  have eq: "runLeader P q hash intent (pol_of P q) fwd h ?S2 = (Ret r err, S')"
    using assms(1) 3 by (simp add: Apply_simps)
  have "p_audit S2 = p_audit S" using acquireLeader_frame(3) [of hash S1] prefix_audit [OF 3(1) assms(2-5)] 3(2) by simp
  then show ?thesis
    using runLeader_audit [of P q hash intent "pol_of P q" fwd h ?S2] runLeader_out [of P q hash intent "pol_of P q" fwd h ?S2] assms(2)
    unfolding eq by (auto simp: doForward_out log_decision_audit forwarded_def zero_result_def split: forward_outcome.splits; blast)
next
  case (4 hash intent S1 h S2)
  have "p_audit S2 = p_audit S" using acquireLeader_frame(3) [of hash S1] prefix_audit [OF 4(1) assms(2-5)] 4(2) by simp
  then show ?thesis using assms(1,2) 4 by (auto simp: Apply_simps follow_def log_decision_audit; blast)
qed

text \<open>C30. The audit log says what happened: a call that returns, under a policy that is not off and
  with a body that could be analysed, appends exactly one record, with the tool, the mode, and the
  decision and match of the result the caller got, a follower's coalesced replay included.\<close>

theorem audit_matches_result:
  assumes "Apply P q fwd pc S = (Ret r err, S')" "audit P" "\<not> shadow P" "Mode (pol_of P q) \<noteq> ModeOff"
    "is_ok (analyse (libs P) (q_body q) (pol_of P q))"
  shows "\<exists>rec. p_audit S' = p_audit S @ [rec] \<and> a_Decision rec = decision_String (r_Decision r) \<and>
    a_Match rec = Kind (r_Match r) \<and> a_Similarity rec = Similarity (r_Match r) \<and> a_Tool rec = q_tool q \<and>
    a_Mode rec = Mode (pol_of P q) \<and> \<not> a_Shadow rec"
  using Apply_audit [OF assms] assms(3) by auto

theorem audit_matches_result_witness:
  "map (\<lambda>rec. (a_Tool rec, a_Decision rec)) (p_audit (snd (Apply demo_pipeline demo_request (FwdReturns 200 ''ok'' None) False
     (New_pipeline NewMemory)))) = [(''send'', ''forward'')]"
proof -
  let ?P = demo_pipeline and ?q = demo_request and ?f = "FwdReturns 200 ''ok'' None" and ?init = "New_pipeline NewMemory"
  obtain hash h Sc where an: "analyse (libs ?P) '''' demo_policy = Inr (hash, '''')"
    and ap: "\<forall>fwd pc. Apply ?P ?q fwd pc ?init = runLeader ?P ?q hash '''' demo_policy fwd h
      (log_decision ?P ?q demo_policy DecisionForward no_match hash '''' Sc)" by (rule demo_leader)
  have run: "Apply ?P ?q ?f False ?init = (Ret (forwarded hash 200 ''ok'') None, snd (Apply ?P ?q ?f False ?init))"
    by (simp add: ap runLeader_out doForward_out prod_eq_iff)
  have "audit ?P" "Mode demo_policy \<noteq> ModeOff" by (simp_all add: demo_pipeline_def demo_policy_def mode_defs)
  then show ?thesis using audit_matches_result [OF run] an by (auto simp: New_pipeline_def)
qed

text \<open>In shadow mode the audit log tells what the policy would have done: the one record of a call
  carries as would-be decision exactly the decision the pipeline takes on the same state with shadow
  mode off, and as decision the forward that took place.\<close>

theorem shadow_audit:
  assumes "shadow P" "audit P" "Mode (pol_of P q) \<noteq> ModeOff"
    and live: "Lookup (P\<lparr>shadow := False\<rparr>) q S = (Inr (r, intent), S1)"
  shows "\<exists>rec. p_audit (snd (Apply P q fwd pc S)) = p_audit S @ [rec] \<and> a_Shadow rec \<and>
    a_Decision rec = ''forward'' \<and> a_WouldDecision rec = decision_String (r_Decision r)"
proof -
  let ?Q = "P\<lparr>shadow := False\<rparr>"
  have adm: "fst (admit ?Q q S) = fst (admit P q S)" by (rule admit_shadow)
  obtain a Sq where q: "admit ?Q q S = (a, Sq)" by (metis prod.exhaust)
  show ?thesis
  proof (cases rule: admission_cases [of P q S])
    case (1 S1)
    then show ?thesis using assms(3) admit_off [of P q S] by simp
  next
    case (4 S1 err)
    then show ?thesis using live adm q by (simp add: Lookup_def)
  next
    case (5 Sa hash i)
    then have a: "a = AdmOk" using adm q by simp
    have st: "p_store Sq = p_store Sa" using admit_frame(1) [of P q S] admit_frame(1) [of ?Q q S] 5(1) q by simp
    obtain d entry match Sb where dec: "decide P q hash (pol_of P q) i Sa = ((d, entry, match), Sb)"
      by (metis prod.exhaust)
    moreover obtain Sc where decq: "decide ?Q q hash (pol_of P q) i Sq = ((d, entry, match), Sc)"
    proof -
      have "fst (decide ?Q q hash (pol_of P q) i Sq) = (d, entry, match)"
        using decide_cong [of Sq Sa ?Q P q hash "pol_of P q" i] st dec by simp
      then show ?thesis using that by (metis prod.collapse)
    qed
    have "d \<in> {DecisionForward, DecisionReplay, DecisionBlock}"
      using dec by (auto simp: decide_def Let_def hit_decision_def split: prod.splits if_splits sum.splits option.splits)
    then have "r_Decision r = d"
      using live q a 5(2) decq
      by (auto simp: Lookup_def Let_def zero_result_def blocked_result_def split_def)
    moreover have "p_audit Sb = p_audit S"
      using admit_audit [of P q S] decide_frame(5) [of P q hash "pol_of P q" i Sa] 5(1) unfolding dec by simp
    ultimately show ?thesis
      using assms(1,2) 5 dec by (auto simp: Apply_def apply_prefix_def Let_def log_decision_audit)
  qed (use assms adm q admit_audit [of P q S] in
      \<open>auto simp: Apply_def apply_prefix_def Lookup_def Let_def refusal_def zero_result_def\<close>)
qed

lemma demo_acl_bob:
  "admit (demo_acl\<lparr>shadow := b\<rparr>) (demo_request\<lparr>q_caller := ''bob''\<rparr>) S =
     (AdmForbidden, writeAudit (demo_acl\<lparr>shadow := b\<rparr>) None ''send'' ''cache'' DecisionForbidden no_match '''' ''''
        (recordDecision (demo_acl\<lparr>shadow := b\<rparr>) ''send'' ''cache'' DecisionForbidden S))"
  by (simp add: admit_def Let_def demo_acl_def For_def AllowsCaller_iff demo_policy_def mode_defs)
     (simp add: demo_request_def)

theorem shadow_audit_witness:
  "map (\<lambda>rec. (a_Decision rec, a_WouldDecision rec)) (p_audit (snd (Apply (demo_acl\<lparr>shadow := True\<rparr>)
     (demo_request\<lparr>q_caller := ''bob''\<rparr>) (FwdReturns 200 ''ok'' None) False (New_pipeline NewMemory)))) =
   [(''forward'', ''forbidden'')]"
proof -
  let ?P = "demo_acl\<lparr>shadow := True\<rparr>" and ?q = "demo_request\<lparr>q_caller := ''bob''\<rparr>" and ?init = "New_pipeline NewMemory"
  have "audit ?P" "Mode (pol_of ?P ?q) \<noteq> ModeOff"
    by (simp_all add: demo_acl_def demo_pipeline_def For_def demo_policy_def mode_defs)
  moreover have "\<exists>S1. Lookup (?P\<lparr>shadow := False\<rparr>) ?q ?init = (Inr (refusal DecisionForbidden, ''''), S1)"
    using demo_acl_bob [of False ?init] by (simp add: Lookup_def)
  ultimately show ?thesis
    using shadow_audit [of ?P ?q ?init "refusal DecisionForbidden" "''''" _ "FwdReturns 200 ''ok'' None" False]
    by (auto simp: New_pipeline_def refusal_def)
qed

section \<open>Properties: the two halves of the transport\<close>

text \<open>C31. \<open>Lookup\<close>, which transports with a separate response pipe use, takes the decisions of
  \<open>Apply\<close>: where it answers with a replay, a block or a refusal, \<open>Apply\<close> returns the same result and
  leaves the same state; where it fails, so does \<open>Apply\<close>; and it never calls the upstream. Where it
  says to forward and no leader is in flight, \<open>Apply\<close> forwards, under the same fingerprint.\<close>

theorem Lookup_agrees_Apply:
  assumes "\<not> shadow P" "Mode (pol_of P q) \<noteq> ModeOff" "Lookup P q S = (res, S1)"
  shows "p_calls S1 = p_calls S \<and>
    (case res of
       Inl err \<Rightarrow> Apply P q fwd pc S = (Ret zero_result (Some err), S1)
     | Inr (r, intent) \<Rightarrow>
         (r_Decision r \<noteq> DecisionForward \<longrightarrow> Apply P q fwd pc S = (Ret r None, S1)) \<and>
         (r_Decision r = DecisionForward \<and> p_inflight S (r_Hash r) = None \<longrightarrow>
            fst (Apply P q fwd pc S) =
              (case fwd of FwdPanics m \<Rightarrow> Panic m | FwdReturns st rs err \<Rightarrow> Ret (forwarded (r_Hash r) st rs) err)))"
proof (cases rule: admission_cases [of P q S])
  case (1 S1)
  then show ?thesis using assms(2) admit_off [of P q S] by simp
next
  case (5 Sa hash i)
  obtain d entry match Sb where dec: "decide P q hash (pol_of P q) i Sa = ((d, entry, match), Sb)"
    by (metis prod.exhaust)
  have Sb: "p_calls Sb = p_calls S" "p_inflight Sb = p_inflight S"
    using admit_frame(2,3) [of P q S] decide_frame(1,2) [of P q hash "pol_of P q" i Sa] 5(1) unfolding dec by simp_all
  note px = prefix_ok [OF 5 dec assms(1), of fwd]
  have L: "Lookup P q S = (let S3 = log_decision P q (pol_of P q) d match hash (Hash entry) Sb in
      case d of DecisionReplay \<Rightarrow> (Inr (fst (replay P q (pol_of P q) entry match S3), i), snd (replay P q (pol_of P q) entry match S3))
      | DecisionBlock \<Rightarrow> (Inr (blocked_result entry match, i), S3)
      | _ \<Rightarrow> (Inr (zero_result\<lparr>r_Hash := hash\<rparr>, i), S3))"
    using 5 dec assms(1) by (simp add: Lookup_def Let_def split_def split: Decision.split)
  have fwd: "fst (Apply P q fwd pc S) =
      (case fwd of FwdPanics m \<Rightarrow> Panic m | FwdReturns st rs err \<Rightarrow> Ret (forwarded hash st rs) err)"
    if go: "apply_prefix P q fwd S = (GoForward hash i c, Sb)" and free: "p_inflight S hash = None" for c
  proof (cases c)
    case True
    obtain h Sc where "acquireLeader hash Sb = ((h, True), Sc)" using free Sb by (simp add: acquireLeader_def Let_def)
    then show ?thesis using Apply_simps(3) [of P q fwd S hash i Sb h Sc pc] go True by (simp add: runLeader_out doForward_out)
  next
    case False
    then show ?thesis using Apply_simps(2) [of P q fwd S hash i Sb pc] go by (simp add: doForward_out)
  qed
  show ?thesis
  proof (cases d)
    case DecisionReplay
    then show ?thesis using L px assms(3) Sb Apply_simps(1) [of P q fwd S _ S1 pc] by (auto simp: Let_def)
  next
    case DecisionBlock
    then show ?thesis using L px assms(3) Sb Apply_simps(1) [of P q fwd S _ S1 pc] by (auto simp: Let_def blocked_result_def)
  qed (use L px assms(3) Sb fwd in \<open>auto simp: Let_def zero_result_def split: forward_outcome.split\<close>)
qed (use assms admit_frame(2) [of P q S] in
    \<open>auto simp: Lookup_def Let_def Apply_simps(1) [OF prefix_simps(2)] Apply_simps(1) [OF prefix_simps(3)]
      Apply_simps(1) [OF prefix_simps(4)] refusal_def\<close>)

theorem Lookup_agrees_Apply_witness:
  "\<exists>S1. Lookup demo_acl (demo_request\<lparr>q_caller := ''bob''\<rparr>) (New_pipeline NewMemory) =
     (Inr (refusal DecisionForbidden, ''''), S1) \<and>
   Apply demo_acl (demo_request\<lparr>q_caller := ''bob''\<rparr>) (FwdPanics ''unused'') False (New_pipeline NewMemory) =
     (Ret (refusal DecisionForbidden) None, S1)"
proof -
  let ?q = "demo_request\<lparr>q_caller := ''bob''\<rparr>" and ?init = "New_pipeline NewMemory"
  have P: "\<not> shadow demo_acl" "Mode (pol_of demo_acl ?q) \<noteq> ModeOff" "demo_acl\<lparr>shadow := False\<rparr> = demo_acl"
    by (simp_all add: demo_acl_def demo_pipeline_def For_def demo_policy_def mode_defs)
  obtain S1 where L: "Lookup demo_acl ?q ?init = (Inr (refusal DecisionForbidden, ''''), S1)"
    using demo_acl_bob [of False ?init] P by (simp add: Lookup_def)
  show ?thesis
    using L Lookup_agrees_Apply [OF P(1,2) L, of "FwdPanics ''unused''" False] by (simp add: refusal_def zero_result_def)
qed

section \<open>Properties: what reaches the store\<close>

text \<open>Which answers of the upstream are kept.\<close>

definition cacheable :: "ToolPolicy \<Rightarrow> forward_outcome \<Rightarrow> bool" where
  "cacheable pol fwd \<longleftrightarrow> caching pol \<and> (case fwd of FwdReturns st rs None \<Rightarrow> success st | _ \<Rightarrow> False)"

lemma forward_store_uncached:
  assumes "\<not> cacheable pol fwd"
  shows "p_store (snd (doForward P q h i pol fwd lh S)) = p_store S"
    "p_store (snd (shadowForward P q h' i' pol fwd S)) = p_store S"
    "p_store (snd (runLeader P q h i pol fwd n S)) = p_store S"
  using assms by (auto simp: cacheable_def doForward_store shadowForward_store runLeader_store
      split: forward_outcome.splits option.splits)

definition only_reads :: "('s, 'l) config \<Rightarrow> request \<Rightarrow> 's \<Rightarrow> 's \<Rightarrow> bool" where
  "only_reads P q s s' \<longleftrightarrow> s' = s \<or> (\<exists>hash intent. analyse (libs P) (q_body q) (pol_of P q) = Inr (hash, intent) \<and>
     s' = snd (s_Get (store P) s (q_ctx q) (q_now q) (q_tool q) hash))"

lemma prefix_only_reads:
  assumes "apply_prefix P q fwd S = (x, S')" "\<not> cacheable (pol_of P q) fwd"
    "(\<exists>h i c. x = GoForward h i c) \<or> p_calls S' \<noteq> p_calls S"
  shows "only_reads P q (p_store S) (p_store S')"
proof -
  have S1: "p_store S1 = p_store S" "p_calls S1 = p_calls S" if "admit P q S = (a, S1)" for a S1
    using admit_frame(1,2) [of P q S] that by simp_all
  show ?thesis
  proof (cases rule: admission_cases [of P q S])
    case (5 S1 hash intent)
    obtain d entry match S2 where dec: "decide P q hash (pol_of P q) intent S1 = ((d, entry, match), S2)"
      by (metis prod.exhaust)
    have S2: "only_reads P q (p_store S) (p_store S2)" "p_calls S2 = p_calls S"
      using decide_store [of P q hash "pol_of P q" intent S1] S1 [OF 5(1)] 5(2)
        decide_frame(1) [of P q hash "pol_of P q" intent S1] unfolding dec
      by (auto simp: only_reads_def split: if_splits)
    show ?thesis
    proof (cases "shadow P")
      case True
      let ?S3 = "log_decision P q (pol_of P q) d match hash (Hash entry) S2"
      have "S' = snd (shadowForward P q hash intent (pol_of P q) fwd ?S3)"
        using assms(1) 5 dec True by (auto simp: apply_prefix_def Let_def)
      then show ?thesis using S2 forward_store_uncached(2) [OF assms(2), of P q hash intent ?S3] by simp
    next
      case False
      then show ?thesis using assms(1,3) S2 prefix_ok [OF 5 dec False, of fwd]
        by (auto simp: Let_def split: Decision.splits)
    qed
  next
    case (1 S1)
    then show ?thesis using assms(1) S1 [OF 1] by (auto simp: prefix_simps only_reads_def)
  next
    case (2 S1)
    then show ?thesis using assms(1,3) S1 [OF 2] forward_store_uncached(2) [OF assms(2), of P q "''''" "''''" S1]
      by (cases "shadow P") (auto simp: only_reads_def apply_prefix_def Let_def)
  next
    case (3 S1)
    then show ?thesis using assms(1,3) S1 [OF 3] forward_store_uncached(2) [OF assms(2), of P q "''''" "''''" S1]
      by (cases "shadow P") (auto simp: only_reads_def apply_prefix_def Let_def)
  next
    case (4 S1 err)
    then show ?thesis using assms(1,3) S1 [OF 4(1)] by (auto simp: prefix_simps)
  qed
qed

lemma Apply_only_reads:
  assumes "Apply P q fwd pc S = (out, S')" "\<not> cacheable (pol_of P q) fwd" "p_calls S' \<noteq> p_calls S"
  shows "only_reads P q (p_store S) (p_store S')"
proof (cases rule: Apply_cases [of P q fwd S])
  case (1 out S1)
  then show ?thesis using assms prefix_only_reads [OF 1] by (simp add: Apply_simps)
next
  case (2 hash intent S1)
  let ?S2 = "log_decision P q (pol_of P q) DecisionForward no_match hash '''' S1"
  have "S' = snd (doForward P q hash intent (pol_of P q) fwd None ?S2)"
    using assms(1) Apply_simps(2) [OF 2] by (metis snd_conv)
  then show ?thesis
    using prefix_only_reads [OF 2 assms(2)] forward_store_uncached(1) [OF assms(2), of P q hash intent None ?S2] by auto
next
  case (3 hash intent S1 h S2)
  let ?S2 = "log_decision P q (pol_of P q) DecisionForward no_match hash '''' S2"
  have "S' = snd (runLeader P q hash intent (pol_of P q) fwd h ?S2)"
    using assms(1) Apply_simps(3) [OF 3] by (metis snd_conv)
  then show ?thesis
    using prefix_only_reads [OF 3(1) assms(2)] forward_store_uncached(3) [OF assms(2), of P q hash intent h ?S2]
      acquireLeader_frame(2) [of hash S1] 3(2) by auto
next
  case (4 hash intent S1 h S2)
  then show ?thesis
    using assms(1,3) Apply_simps(4) [OF 4, of pc] prefix_calls [OF 4(1)] acquireLeader_frame(1) [of hash S1] by auto
qed

text \<open>C2. Failures are not remembered: when the upstream fails, panics or answers outside the 2xx
  range, or the mode does not cache, the call that reached it adds nothing to the store and changes
  no entry; at most the expired entry of its own fingerprint is dropped. So the next call is
  forwarded again.\<close>

theorem failure_not_cached:
  assumes port: "store_port (store P) invar ready view nrm okkey storable order_ok"
    and s: "invar (p_store S)" "ready (p_store S)"
      "\<And>hash intent. analyse (libs P) (q_body q) (pol_of P q) = Inr (hash, intent) \<Longrightarrow> okkey (q_tool q) hash"
    and run: "Apply P q fwd pc S = (out, S')" "p_calls S' \<noteq> p_calls S" and fail: "\<not> cacheable (pol_of P q) fwd"
  shows "view (p_store S') \<subseteq>\<^sub>m view (p_store S) \<and>
    (\<forall>k e. view (p_store S) k = Some e \<and> \<not> Expired e (q_now q) \<longrightarrow> view (p_store S') k = Some e)"
proof -
  consider "p_store S' = p_store S" | hash intent where "analyse (libs P) (q_body q) (pol_of P q) = Inr (hash, intent)"
      "p_store S' = snd (s_Get (store P) (p_store S) (q_ctx q) (q_now q) (q_tool q) hash)"
    using Apply_only_reads [OF run(1) fail run(2)] by (auto simp: only_reads_def)
  then show ?thesis
  proof cases
    case (2 hash intent)
    then show ?thesis
      using store_port.get_keeps [OF port s(1,2) s(3) [OF 2(1)], of "q_ctx q" "q_now q"]
      by (auto simp: map_le_def split: if_splits)
  qed simp
qed

lemma map_le_emptyD: "m \<subseteq>\<^sub>m Map.empty \<Longrightarrow> m = Map.empty"
  by (rule ext) (metis domIff map_le_def)

theorem failure_not_cached_witness:
  "view_of (p_store (snd (Apply demo_pipeline demo_request (FwdReturns 500 ''no'' None) False (New_pipeline NewMemory))))
     = Map.empty"
proof -
  let ?P = demo_pipeline and ?q = demo_request and ?f = "FwdReturns 500 ''no'' None" and ?init = "New_pipeline NewMemory"
  obtain hash h Sc where an: "analyse (libs ?P) '''' demo_policy = Inr (hash, '''')"
    and ap: "\<forall>fwd pc. Apply ?P ?q fwd pc ?init = runLeader ?P ?q hash '''' demo_policy fwd h
      (log_decision ?P ?q demo_policy DecisionForward no_match hash '''' Sc)" by (rule demo_leader)
  have run: "Apply ?P ?q ?f False ?init = (Ret (forwarded hash 500 ''no'') None, snd (Apply ?P ?q ?f False ?init))"
    by (simp add: ap runLeader_out doForward_out prod_eq_iff)
  have k: "key_ok ''send'' h'" if "analyse (libs ?P) '''' demo_policy = Inr (h', i)" for h' i
    using analyse_hash [OF that] by (simp add: key_ok_def nul_free_def NUL_def)
  have "p_calls (snd (Apply ?P ?q ?f False ?init)) \<noteq> p_calls ?init" using Apply_calls [OF run] by (auto simp: one_call_def New_pipeline_def)
  moreover have "\<not> cacheable demo_policy ?f" by (simp add: cacheable_def)
  moreover have "keys_ok NewMemory" "view_of NewMemory = Map.empty"
    by (simp_all add: keys_ok_def NewMemory_def view_of_def fun_eq_iff)
  ultimately show ?thesis
    using failure_not_cached [OF mem.store_port_axioms [folded demo_request_simps(7)] _ _ _ run] k
    by (auto simp: New_pipeline_def intro: map_le_emptyD)
qed

end
