(* ===== verification/Jsonrpc.thy ===== *)
theory Jsonrpc
  imports Json_Roundtrip
begin

text \<open>
  \<open>internal/mcp/jsonrpc.go\<close> and what it uses of \<open>encoding/json\<close>: decoding an object into a struct whose
  fields keep the raw text of their value (\<open>json.RawMessage\<close>), and encoding such a struct. Keys match
  field names without regard to case, as the decoder does; a later member overwrites an earlier one;
  \<open>null\<close> leaves a string as it is and clears a pointer, and is kept as text by a raw field. A struct
  that fails to decode is not used by any caller, so the first error is all that is kept.
\<close>

section \<open>Raw members\<close>

text \<open>Raw values are only checked for syntax, so no number literal is out of range.\<close>

definition syn_num :: json_num where
  "syn_num = \<lparr>parse_num = (\<lambda>_. Some 0), marshal_num = (\<lambda>_. ''''), format_g = (\<lambda>_. '''')\<rparr>"

definition raw_value :: "nat \<Rightarrow> bytes \<Rightarrow> (bytes \<times> bytes) option" where
  "raw_value d s =
     (case parse_value syn_num d s of
        None \<Rightarrow> None
      | Some (_, r) \<Rightarrow> Some (take (length (skip_ws s) - length r) (skip_ws s), r))"

function raw_members :: "nat \<Rightarrow> bytes \<Rightarrow> (bytes \<times> bytes) list option" where
  "raw_members d s =
     (case skip_ws s of
        [] \<Rightarrow> None
      | q # s1 \<Rightarrow>
          (case unquote s1 of
             None \<Rightarrow> None
           | Some (k, s2) \<Rightarrow>
               (case raw_value d (drop 1 (skip_ws s2)) of
                  None \<Rightarrow> None
                | Some (v, r) \<Rightarrow>
                    (case skip_ws r of
                       c # t \<Rightarrow>
                         if c = CHR '','' \<and> length t < length s then map_option ((#) (k, v)) (raw_members d t)
                         else Some [(k, v)]
                     | [] \<Rightarrow> None))))"
  by pat_completeness auto
termination
  by (relation "measure (length \<circ> snd)") auto

declare raw_members.simps [simp del]

text \<open>The members of the object a text holds; \<open>null\<close> decodes into a struct as nothing at all.\<close>

definition raw_object :: "bytes \<Rightarrow> (bytes \<times> bytes) list result" where
  "raw_object s =
     (case parse_json syn_num s of
        None \<Rightarrow> Inl (ErrMsg ''json: syntax error'')
      | Some JNull \<Rightarrow> Inr []
      | Some (JObj _) \<Rightarrow>
          (case skip_ws (drop 1 (skip_ws s)) of
             c # t \<Rightarrow> if c = CHR ''}'' then Inr []
                      else (case raw_members 9999 (drop 1 (skip_ws s)) of
                              Some ms \<Rightarrow> Inr ms | None \<Rightarrow> Inl (ErrMsg ''json: syntax error''))
           | [] \<Rightarrow> Inl (ErrMsg ''json: syntax error''))
      | Some _ \<Rightarrow> Inl (ErrMsg ''json: cannot unmarshal''))"

text \<open>Simple case folding, as far as it can make a key equal to a lower-case ASCII field name.\<close>

definition fold_rune :: "rune \<Rightarrow> rune" where
  "fold_rune r = (if 65 \<le> r \<and> r \<le> 90 then r + 32 else if r = 0x17F then 115 else if r = 0x212A then 107 else r)"

definition fold_key :: "bytes \<Rightarrow> bytes" where
  "fold_key k = utf8_encode (map fold_rune (utf8_runes k))"

definition string_field :: "bytes \<Rightarrow> bytes \<Rightarrow> bytes result" where
  "string_field v old =
     (if v = ''null'' then Inr old
      else case v of
             c # t \<Rightarrow> if c = dq then (case unquote t of Some (s, _) \<Rightarrow> Inr s | None \<Rightarrow> Inl (ErrMsg ''json: syntax error''))
                      else Inl (ErrMsg ''json: cannot unmarshal'')
           | [] \<Rightarrow> Inl (ErrMsg ''json: cannot unmarshal''))"

definition int_field :: "bytes \<Rightarrow> int \<Rightarrow> int result" where
  "int_field v old = (if v = ''null'' then Inr old else Atoi v)"

fun decode_fields :: "(bytes \<Rightarrow> bytes \<Rightarrow> 'm \<Rightarrow> 'm result) \<Rightarrow> (bytes \<times> bytes) list \<Rightarrow> 'm \<Rightarrow> 'm result" where
  "decode_fields f [] m = Inr m"
| "decode_fields f ((k, v) # ms) m =
     (case f (fold_key k) v m of Inl e \<Rightarrow> Inl e | Inr m' \<Rightarrow> decode_fields f ms m')"

definition unmarshal_struct :: "(bytes \<Rightarrow> bytes \<Rightarrow> 'm \<Rightarrow> 'm result) \<Rightarrow> bytes \<Rightarrow> 'm \<Rightarrow> 'm result" where
  "unmarshal_struct f s m = (case raw_object s of Inl e \<Rightarrow> Inl e | Inr ms \<Rightarrow> decode_fields f ms m)"

section \<open>Messages\<close>

definition MethodToolsCall :: bytes where "MethodToolsCall = ''tools/call''"

record RPCError =
  e_Code :: int
  e_Message :: bytes
  e_Data :: bytes

record Message =
  m_JSONRPC :: bytes
  m_ID :: bytes
  m_Method :: bytes
  m_Params :: bytes
  m_Result :: bytes
  m_Error :: "RPCError option"

definition zero_error :: RPCError where "zero_error = \<lparr>e_Code = 0, e_Message = '''', e_Data = ''''\<rparr>"

definition zero_message :: Message where
  "zero_message = \<lparr>m_JSONRPC = '''', m_ID = '''', m_Method = '''', m_Params = '''', m_Result = '''', m_Error = None\<rparr>"

definition IsRequest :: "Message \<Rightarrow> bool" where
  "IsRequest m \<longleftrightarrow> m_Method m \<noteq> '''' \<and> 0 < length (m_ID m)"

definition IsNotification :: "Message \<Rightarrow> bool" where
  "IsNotification m \<longleftrightarrow> m_Method m \<noteq> '''' \<and> length (m_ID m) = 0"

definition IsResponse :: "Message \<Rightarrow> bool" where
  "IsResponse m \<longleftrightarrow> m_Method m = '''' \<and> 0 < length (m_ID m)"

definition error_field :: "bytes \<Rightarrow> bytes \<Rightarrow> RPCError \<Rightarrow> RPCError result" where
  "error_field k v e =
     (if k = ''code'' then (case int_field v (e_Code e) of Inl er \<Rightarrow> Inl er | Inr n \<Rightarrow> Inr (e\<lparr>e_Code := n\<rparr>))
      else if k = ''message'' then (case string_field v (e_Message e) of Inl er \<Rightarrow> Inl er | Inr s \<Rightarrow> Inr (e\<lparr>e_Message := s\<rparr>))
      else if k = ''data'' then Inr (e\<lparr>e_Data := v\<rparr>)
      else Inr e)"

definition message_field :: "bytes \<Rightarrow> bytes \<Rightarrow> Message \<Rightarrow> Message result" where
  "message_field k v m =
     (if k = ''jsonrpc'' then (case string_field v (m_JSONRPC m) of Inl er \<Rightarrow> Inl er | Inr s \<Rightarrow> Inr (m\<lparr>m_JSONRPC := s\<rparr>))
      else if k = ''id'' then Inr (m\<lparr>m_ID := v\<rparr>)
      else if k = ''method'' then (case string_field v (m_Method m) of Inl er \<Rightarrow> Inl er | Inr s \<Rightarrow> Inr (m\<lparr>m_Method := s\<rparr>))
      else if k = ''params'' then Inr (m\<lparr>m_Params := v\<rparr>)
      else if k = ''result'' then Inr (m\<lparr>m_Result := v\<rparr>)
      else if k = ''error'' then
        (if v = ''null'' then Inr (m\<lparr>m_Error := None\<rparr>)
         else case unmarshal_struct error_field v (case m_Error m of Some e \<Rightarrow> e | None \<Rightarrow> zero_error) of
                Inl er \<Rightarrow> Inl er | Inr e \<Rightarrow> Inr (m\<lparr>m_Error := Some e\<rparr>))
      else Inr m)"

definition unmarshal_message :: "bytes \<Rightarrow> Message result" where
  "unmarshal_message s = unmarshal_struct message_field s zero_message"

record ToolsCallParams =
  p_Name :: bytes
  p_Arguments :: bytes

definition params_field :: "bytes \<Rightarrow> bytes \<Rightarrow> ToolsCallParams \<Rightarrow> ToolsCallParams result" where
  "params_field k v p =
     (if k = ''name'' then (case string_field v (p_Name p) of Inl er \<Rightarrow> Inl er | Inr s \<Rightarrow> Inr (p\<lparr>p_Name := s\<rparr>))
      else if k = ''arguments'' then Inr (p\<lparr>p_Arguments := v\<rparr>)
      else Inr p)"

definition ParseToolsCall :: "Message \<Rightarrow> (bytes \<times> bytes) result" where
  "ParseToolsCall m =
     (if m_Method m \<noteq> MethodToolsCall then Inl (ErrMsg ''not a tools/call message'')
      else case unmarshal_struct params_field (m_Params m) \<lparr>p_Name = '''', p_Arguments = ''''\<rparr> of
             Inl err \<Rightarrow> Inl err
           | Inr p \<Rightarrow> if p_Name p = '''' then Inl (ErrMsg ''tools/call missing name'')
                      else Inr (p_Name p, p_Arguments p))"

definition NewErrorResponse :: "bytes \<Rightarrow> int \<Rightarrow> bytes \<Rightarrow> Message" where
  "NewErrorResponse rid code msg =
     zero_message\<lparr>m_JSONRPC := ''2.0'', m_ID := rid,
       m_Error := Some \<lparr>e_Code = code, e_Message = msg, e_Data = ''''\<rparr>\<rparr>"

definition NewToolsCallResponse :: "bytes \<Rightarrow> bytes \<Rightarrow> Message" where
  "NewToolsCallResponse rid cachedResult = zero_message\<lparr>m_JSONRPC := ''2.0'', m_ID := rid, m_Result := cachedResult\<rparr>"

section \<open>Encoding\<close>

text \<open>The encoder compacts raw values: blanks between tokens go, and what is special in HTML is escaped.\<close>

fun compact :: "bool \<Rightarrow> bytes \<Rightarrow> bytes" where
  "compact q [] = []"
| "compact False (c # t) = (if is_ws c then compact False t else if c = dq then c # compact True t else c # compact False t)"
| "compact True (c # t) =
     (if c = dq then c # compact False t
      else if c = bs then (case t of [] \<Rightarrow> [c] | e # t' \<Rightarrow> c # e # compact True t')
      else if c = CHR ''<'' \<or> c = CHR ''>'' \<or> c = CHR ''&'' then u_escape (of_char c) @ compact True t
      else if take 2 t = [CHR 0x80, CHR 0xA8] \<and> c = CHR 0xE2 then u_escape 0x2028 @ compact True (drop 2 t)
      else if take 2 t = [CHR 0x80, CHR 0xA9] \<and> c = CHR 0xE2 then u_escape 0x2029 @ compact True (drop 2 t)
      else c # compact True t)"

definition object_text :: "(bytes \<times> bytes) list \<Rightarrow> bytes" where
  "object_text ms = CHR ''{'' # Join '','' (map (\<lambda>(k, c). marshal_string k @ CHR '':'' # c) ms) @ ''}''"

definition omitempty :: "bytes \<Rightarrow> bytes \<Rightarrow> (bytes \<times> bytes) list" where
  "omitempty k v = (if length v = 0 then [] else [(k, compact False v)])"

definition error_members :: "RPCError \<Rightarrow> (bytes \<times> bytes) list" where
  "error_members e =
     [(''code'', Itoa (e_Code e)), (''message'', marshal_string (e_Message e))] @ omitempty ''data'' (e_Data e)"

definition message_members :: "Message \<Rightarrow> (bytes \<times> bytes) list" where
  "message_members m =
     [(''jsonrpc'', marshal_string (m_JSONRPC m))] @ omitempty ''id'' (m_ID m) @
     (if m_Method m = '''' then [] else [(''method'', marshal_string (m_Method m))]) @
     omitempty ''params'' (m_Params m) @ omitempty ''result'' (m_Result m) @
     (case m_Error m of None \<Rightarrow> [] | Some e \<Rightarrow> [(''error'', object_text (error_members e))])"

text \<open>A raw value that is not JSON makes the encoder fail.\<close>

definition raw_ok :: "bytes \<Rightarrow> bool" where
  "raw_ok r \<longleftrightarrow> r = '''' \<or> parse_json syn_num r \<noteq> None"

definition marshal_message :: "Message \<Rightarrow> bytes result" where
  "marshal_message m =
     (if raw_ok (m_ID m) \<and> raw_ok (m_Params m) \<and> raw_ok (m_Result m) \<and>
         (case m_Error m of None \<Rightarrow> True | Some e \<Rightarrow> raw_ok (e_Data e))
      then Inr (object_text (message_members m))
      else Inl (ErrMsg ''json: error calling MarshalJSON''))"

text \<open>\<open>reframeWithID\<close> of \<open>internal/mcp/http.go\<close>, which both transports use.\<close>

definition reframeWithID :: "bytes \<Rightarrow> bytes \<Rightarrow> bytes" where
  "reframeWithID cached rid =
     (if length rid = 0 then cached
      else case unmarshal_message cached of
             Inl _ \<Rightarrow> cached
           | Inr m \<Rightarrow> (case marshal_message (m\<lparr>m_ID := rid\<rparr>) of Inl _ \<Rightarrow> cached | Inr out \<Rightarrow> out))"

text \<open>A frame the proxy makes itself, as \<open>json.Marshal\<close> gives it (nothing when it fails).\<close>

definition frame :: "Message \<Rightarrow> bytes" where
  "frame m = (case marshal_message m of Inr b \<Rightarrow> b | Inl _ \<Rightarrow> '''')"

section \<open>Reading back what is written\<close>

text \<open>A raw text that is one JSON value and already compact.\<close>

definition parses :: "nat \<Rightarrow> bytes \<Rightarrow> bool" where
  "parses d r \<longleftrightarrow> (\<exists>c t. r = c # t \<and> opens c) \<and>
     (\<exists>j. \<forall>rest. delim rest \<longrightarrow> parse_value syn_num d (r @ rest) = Some (j, rest))"

definition tight :: "nat \<Rightarrow> bytes \<Rightarrow> bool" where
  "tight d r \<longleftrightarrow> r = '''' \<or> parses d r \<and> compact False r = r"

lemma reads_parses: "reads syn_num d v r \<Longrightarrow> parses d r"
  by (auto simp: reads_def parses_def)

lemma raw_value_parses:
  assumes "parses d r" "delim rest"
  shows "raw_value d (r @ rest) = Some (r, rest)"
proof -
  obtain c t j where "r = c # t" "opens c" "parse_value syn_num d (r @ rest) = Some (j, rest)"
    using assms by (auto simp: parses_def)
  then show ?thesis by (simp add: raw_value_def)
qed

abbreviation member_text :: "bytes \<times> bytes \<Rightarrow> bytes" where
  "member_text \<equiv> \<lambda>(k, c). marshal_string k @ CHR '':'' # c"

lemma raw_members_Join:
  assumes "\<forall>(k, c) \<in> set ms. valid_utf8 k \<and> parses d c" "ms \<noteq> []"
  shows "raw_members d (Join '','' (map member_text ms) @ CHR ''}'' # rest) = Some ms"
  using assms
proof (induction ms)
  case (Cons kc ms)
  then obtain k c where kc: "kc = (k, c)" "valid_utf8 k" "parses d c" by (cases kc) auto
  have u: "unquote (escape_string k @ dq # r) = Some (k, r)" for r using kc(2) by (rule unquote_marshal)
  note v = raw_value_parses [OF kc(3)]
  show ?case
  proof (cases ms)
    case Nil
    with v u kc(1) show ?thesis by (subst raw_members.simps) (simp add: marshal_string_def)
  next
    case (Cons kc2 ms2)
    with Cons.IH Cons.prems
    have "raw_members d (Join '','' (map member_text (kc2 # ms2)) @ CHR ''}'' # rest) = Some (kc2 # ms2)" by simp
    with Cons v u kc(1) show ?thesis by (subst raw_members.simps) (simp add: marshal_string_def)
  qed
qed simp

lemma parse_members_parses:
  assumes "\<forall>(k, c) \<in> set ms. valid_utf8 k \<and> parses d c" "ms \<noteq> []"
  shows "\<exists>kvs. \<forall>rest. parse_members syn_num d (Join '','' (map member_text ms) @ CHR ''}'' # rest) = Some (kvs, rest)"
  using assms
proof (induction ms)
  case (Cons kc ms)
  then obtain k c where kc: "kc = (k, c)" "valid_utf8 k" "parses d c" by (cases kc) auto
  have u: "unquote (escape_string k @ dq # r) = Some (k, r)" for r using kc(2) by (rule unquote_marshal)
  obtain j where v: "\<And>rest. delim rest \<Longrightarrow> parse_value syn_num d (c @ rest) = Some (j, rest)"
    using kc(3) by (auto simp: parses_def)
  show ?case
  proof (cases ms)
    case Nil
    with v u kc(1) show ?thesis
      by (intro exI [of _ "[(k, j)]"] allI) (subst parse_members.simps, simp add: marshal_string_def)
  next
    case (Cons kc2 ms2)
    with Cons.IH Cons.prems obtain kvs where
      "\<forall>rest. parse_members syn_num d (Join '','' (map member_text (kc2 # ms2)) @ CHR ''}'' # rest) = Some (kvs, rest)" by auto
    with Cons v u kc(1) show ?thesis
      by (intro exI [of _ "(k, j) # kvs"] allI) (subst parse_members.simps, simp add: marshal_string_def)
  qed
qed simp

lemma object_text_shape:
  assumes "ms \<noteq> []"
  shows "\<exists>t. Join '','' (map member_text ms) @ CHR ''}'' # rest = dq # t"
  using assms by (cases ms; cases "tl ms") (auto simp: marshal_string_def split_def)

lemma object_text_parses:
  assumes "\<forall>(k, c) \<in> set ms. valid_utf8 k \<and> parses d c" "ms \<noteq> []"
  shows "\<exists>kvs. \<forall>rest. parse_value syn_num (Suc d) (object_text ms @ rest) = Some (JObj kvs, rest)"
proof -
  obtain kvs where kvs: "\<forall>rest. parse_members syn_num d (Join [CHR 0x2C] (map member_text ms) @ CHR 0x7D # rest) = Some (kvs, rest)"
    using parse_members_parses [OF assms] by blast
  have "parse_value syn_num (Suc d) (object_text ms @ rest) = Some (JObj (fold (\<lambda>(k, v). AList.update k v) kvs []), rest)" for rest
  proof -
    obtain t where t: "Join [CHR 0x2C] (map member_text ms) @ CHR 0x7D # rest = dq # t"
      using object_text_shape [OF assms(2), of rest] by auto
    have m: "parse_members syn_num d (dq # t) = Some (kvs, rest)" using spec [OF kvs, of rest] unfolding t .
    have o1: "object_text ms @ rest = CHR 0x7B # dq # t" using t by (simp add: object_text_def)
    have "skip_ws (CHR 0x7B # x) = CHR 0x7B # x" for x by (simp add: skip_ws_def is_ws_def)
    then show ?thesis unfolding o1 using m by (subst parse_value.simps) (simp add: dq_def skip_ws_def is_ws_def)
  qed
  then show ?thesis by blast
qed

lemma parses_object:
  assumes "\<forall>(k, c) \<in> set ms. valid_utf8 k \<and> parses d c" "ms \<noteq> []"
  shows "parses (Suc d) (object_text ms)"
proof -
  have "object_text ms = CHR ''{'' # tl (object_text ms)" "opens (CHR ''{'')"
    by (simp_all add: object_text_def opens_def is_ws_def)
  then show ?thesis using object_text_parses [OF assms] unfolding parses_def by blast
qed

lemma raw_object_text:
  assumes "\<forall>(k, c) \<in> set ms. valid_utf8 k \<and> parses 9999 c" "ms \<noteq> []"
  shows "raw_object (object_text ms) = Inr ms"
proof -
  obtain kvs where "parse_value syn_num 10000 (object_text ms) = Some (JObj kvs, [])"
    using object_text_parses [OF assms] by (metis append_Nil2 Suc_numeral semiring_norm(2,4,5,8))
  then have p: "parse_json syn_num (object_text ms) = Some (JObj kvs)" by (simp add: parse_json_def skip_ws_def)
  have "opens (CHR ''{'')" by (simp add: opens_def is_ws_def)
  then have s: "drop 1 (skip_ws (object_text ms)) = Join '','' (map member_text ms) @ ''}''"
    by (simp add: object_text_def)
  obtain t where t: "Join '','' (map member_text ms) @ ''}'' = dq # t" using object_text_shape [OF assms(2), of "[]"] by auto
  then show ?thesis using p raw_members_Join [OF assms, of "[]"] s by (simp add: raw_object_def) (simp add: dq_def)
qed

text \<open>A value that parses at some depth parses with more room.\<close>

lemma parse_deeper:
  "parse_value N d s = Some x \<Longrightarrow> parse_value N (Suc d) s = Some x"
  "parse_elems N d s = Some y \<Longrightarrow> parse_elems N (Suc d) s = Some y"
  "parse_members N d s = Some z \<Longrightarrow> parse_members N (Suc d) s = Some z"
proof (induction N d s and N d s and N d s arbitrary: x and y and z
    rule: parse_value_parse_elems_parse_members.induct)
  case (1 N d s)
  show ?case
  proof (cases "skip_ws s")
    case Nil
    with "1.prems" show ?thesis by (simp add: parse_value.simps)
  next
    case (Cons c t)
    have d: "d \<noteq> 0 \<Longrightarrow> Suc (d - 1) = d" by simp
    show ?thesis
      using "1.prems" Cons "1.IH" [OF Cons] d
      by (subst parse_value.simps, subst (asm) parse_value.simps) (auto split: if_splits list.splits option.splits)
  qed
next
  case (2 N d s)
  then obtain v r1 c t where v: "parse_value N d s = Some (v, r1)" "skip_ws r1 = c # t"
    by (subst (asm) parse_elems.simps) (auto split: option.splits list.splits)
  with "2.prems" "2.IH"(1) "2.IH"(2) [OF v(1) refl v(2)] show ?case
    by (subst parse_elems.simps, subst (asm) parse_elems.simps) (auto split: if_splits)
next
  case (3 N d s)
  then obtain q s1 k s2 c0 s3 v r1 c t where h: "skip_ws s = q # s1" "q = dq" "unquote s1 = Some (k, s2)"
      "skip_ws s2 = c0 # s3" "\<not> (c0 \<noteq> CHR 0x3A \<or> length s \<le> length s3)"
      "parse_value N d s3 = Some (v, r1)" "skip_ws r1 = c # t"
    by (subst (asm) parse_members.simps) (auto split: option.splits list.splits if_splits)
  with "3.prems" "3.IH"(1) [OF h(1) _ h(3) refl h(4,5,6)] "3.IH"(2) [OF h(1) _ h(3) refl h(4,5,6) refl h(7)] show ?case
    by (subst parse_members.simps, subst (asm) parse_members.simps) (auto split: if_splits)
qed

lemma parses_deeper: "parses d r \<Longrightarrow> parses (Suc d) r"
  unfolding parses_def using parse_deeper(1) by blast

lemma tight_deeper: "tight d r \<Longrightarrow> tight (Suc d) r"
  using parses_deeper by (auto simp: tight_def)

lemma ascii_utf8:
  assumes "\<forall>c \<in> set s. of_char c < (128 :: nat)"
  shows "utf8_encode (map of_char s) = s" "utf8_runes s = map of_char s"
proof -
  show e: "utf8_encode (map of_char s) = s"
    using assms by (induction s) (auto simp: encode_rune_def encode_codes_def)
  have "\<forall>r \<in> set (map of_char s). scalar r" using assms by (auto simp: scalar_def)
  from utf8_runes_encode [OF this] show "utf8_runes s = map of_char s" by (simp add: e)
qed

lemma ascii_valid: "\<forall>c \<in> set s. of_char c < (128 :: nat) \<Longrightarrow> valid_utf8 s"
  by (simp add: valid_utf8_def ascii_utf8)

lemma fold_key_lower:
  assumes "\<forall>c \<in> set k. of_char c < (128 :: nat) \<and> \<not> (65 \<le> (of_char c :: nat) \<and> of_char c \<le> (90 :: nat))"
  shows "fold_key k = k"
proof -
  have "map (fold_rune \<circ> of_char) k = map of_char k" using assms by (auto simp: fold_rune_def)
  moreover have "\<forall>c \<in> set k. of_char c < (128 :: nat)" using assms by blast
  ultimately show ?thesis using ascii_utf8 [of k] by (simp add: fold_key_def del: map_eq_conv)
qed

definition wf_message :: "Message \<Rightarrow> bool" where
  "wf_message m \<longleftrightarrow> valid_utf8 (m_JSONRPC m) \<and> valid_utf8 (m_Method m) \<and>
     tight 9999 (m_ID m) \<and> tight 9999 (m_Params m) \<and> tight 9999 (m_Result m) \<and>
     (case m_Error m of None \<Rightarrow> True
      | Some e \<Rightarrow> in_int64 (e_Code e) \<and> valid_utf8 (e_Message e) \<and> tight 9998 (e_Data e))"

lemma names_valid [simp]:
  "valid_utf8 ''jsonrpc''" "valid_utf8 ''id''" "valid_utf8 ''method''" "valid_utf8 ''params''" "valid_utf8 ''result''"
  "valid_utf8 ''error''" "valid_utf8 ''code''" "valid_utf8 ''message''" "valid_utf8 ''data''"
  by (simp_all add: ascii_valid)

lemma names_fold [simp]:
  "fold_key ''jsonrpc'' = ''jsonrpc''" "fold_key ''id'' = ''id''" "fold_key ''method'' = ''method''"
  "fold_key ''params'' = ''params''" "fold_key ''result'' = ''result''" "fold_key ''error'' = ''error''"
  "fold_key ''code'' = ''code''" "fold_key ''message'' = ''message''" "fold_key ''data'' = ''data''"
  by (simp_all add: fold_key_lower)

lemma string_field_marshal [simp]: "valid_utf8 s \<Longrightarrow> string_field (marshal_string s) old = Inr s"
  using unquote_marshal [of s "[]"] by (auto simp: string_field_def marshal_string_def dq_def)

lemma is_digits_scan: "list_all is_digit ds \<Longrightarrow> ds \<noteq> [] \<Longrightarrow> hd ds \<noteq> CHR ''0'' \<or> ds = ''0'' \<Longrightarrow> scan_int acc ds = Some (acc @ ds, [])"
  by (cases ds) (auto simp: scan_int_def scan_frac_def scan_exp_def list_all_iff takeWhile_eq_all_conv)

lemma nat_digits_hd: "0 < n \<Longrightarrow> hd (nat_digits n) \<noteq> CHR ''0''"
proof (induction n rule: nat_digits.induct)
  case (1 n)
  show ?case
  proof (cases "n < 10")
    case True
    then have "of_char (char_of (48 + n)) = 48 + n" by simp
    then have "char_of (48 + n) \<noteq> CHR ''0''" using 1 by fastforce
    then show ?thesis using True by (simp add: nat_digits.simps [of n])
  next
    case False
    then show ?thesis using 1 nat_digits_props [of "n div 10"] by (simp add: nat_digits.simps [of n])
  qed
qed

lemma Itoa_parses: "parses d (Itoa n)"
proof -
  have z: "nat_digits 0 = ''0''" by (subst nat_digits.simps) code_simp
  have s: "scan_int acc (nat_digits k) = Some (acc @ nat_digits k, [])" for acc k
    using is_digits_scan [of "nat_digits k" acc] nat_digits_props [of k] nat_digits_hd [of k] z by (cases "k = 0") auto
  obtain c t where ct: "nat_digits (nat n) = c # t" "c \<noteq> CHR ''-''"
    using nat_digits_props [of "nat n"] by (cases "nat_digits (nat n)"; cases "hd (nat_digits (nat n)) = CHR ''-''") (auto simp: is_digit_def)
  have "scan_number (Itoa n) = Some (Itoa n, [])"
    using s [of "''-''"] s [of "[]" "nat n"] ct by (auto simp: Itoa_def scan_number_def)
  then show ?thesis by (rule reads_parses [OF reads_number]) (simp add: syn_num_def)
qed

lemma int_field_Itoa [simp]: "in_int64 n \<Longrightarrow> int_field (Itoa n) old = Inr n"
proof -
  have "Itoa n \<noteq> ''null''"
    using nat_digits_props [of "nat n"] nat_digits_props [of "nat (- n)"]
    by (auto simp: Itoa_def is_digit_def)
  then show "in_int64 n \<Longrightarrow> ?thesis" by (simp add: int_field_def Atoi_Itoa)
qed

lemma tightD: "tight d r \<Longrightarrow> r \<noteq> '''' \<Longrightarrow> parses d r \<and> compact False r = r"
  by (auto simp: tight_def)

lemma error_members_ok:
  assumes "valid_utf8 (e_Message e)" "tight d (e_Data e)"
  shows "\<forall>(k, c) \<in> set (error_members e). valid_utf8 k \<and> parses d c" "error_members e \<noteq> []"
  using assms tightD [OF assms(2)]
  by (auto simp: error_members_def omitempty_def Itoa_parses intro: reads_parses reads_string)

lemma unmarshal_error:
  assumes "in_int64 (e_Code e)" "valid_utf8 (e_Message e)" "tight 9999 (e_Data e)"
  shows "unmarshal_struct error_field (object_text (error_members e)) zero_error = Inr e"
proof -
  have "raw_object (object_text (error_members e)) = Inr (error_members e)"
    by (rule raw_object_text [OF error_members_ok [OF assms(2,3)]])
  then show ?thesis
    using assms tightD [OF assms(3)]
    by (auto simp: unmarshal_struct_def error_members_def omitempty_def error_field_def zero_error_def)
qed

lemma message_members_ok:
  assumes "wf_message m"
  shows "\<forall>(k, c) \<in> set (message_members m). valid_utf8 k \<and> parses 9999 c" "message_members m \<noteq> []"
proof -
  note w = assms [unfolded wf_message_def]
  have "parses 9999 (object_text (error_members e))" if "m_Error m = Some e" for e
  proof -
    have "valid_utf8 (e_Message e)" "tight 9998 (e_Data e)" using w that by simp_all
    from parses_object [OF error_members_ok [OF this]] show ?thesis by simp
  qed
  then show "\<forall>(k, c) \<in> set (message_members m). valid_utf8 k \<and> parses 9999 c"
    using w tightD [of 9999 "m_ID m"] tightD [of 9999 "m_Params m"] tightD [of 9999 "m_Result m"]
    by (auto simp: message_members_def omitempty_def intro: reads_parses reads_string split: option.splits if_splits)
qed (simp add: message_members_def)

lemma decode_members:
  assumes "wf_message m"
  shows "decode_fields message_field (message_members m) zero_message = Inr m"
proof -
  note w = assms [unfolded wf_message_def]
  have t: "tight 9999 (m_ID m)" "tight 9999 (m_Params m)" "tight 9999 (m_Result m)" using w by auto
  have e: "unmarshal_struct error_field (object_text (error_members e)) zero_error = Inr e" if "m_Error m = Some e" for e
    using unmarshal_error [of e] w that tight_deeper [of 9998] by simp
  have n: "object_text ms \<noteq> ''null''" for ms by (simp add: object_text_def)
  show ?thesis
    using w e n tightD [OF t(1)] tightD [OF t(2)] tightD [OF t(3)]
    by (cases "m_Error m") (auto simp: message_members_def omitempty_def message_field_def zero_message_def)
qed

lemma unmarshal_marshal:
  assumes "wf_message m"
  shows "unmarshal_message (object_text (message_members m)) = Inr m"
  unfolding unmarshal_message_def unmarshal_struct_def raw_object_text [OF message_members_ok [OF assms]]
  using decode_members [OF assms] by simp

lemma parses_raw_ok:
  assumes "parses 9999 r"
  shows "raw_ok r"
proof -
  have "parses 10000 r" using parses_deeper [OF assms] by simp
  then obtain j where "parse_value syn_num 10000 r = Some (j, [])"
    unfolding parses_def using delim_simps(1) by (metis append_Nil2)
  then show ?thesis by (simp add: raw_ok_def parse_json_def skip_ws_def)
qed

lemma marshal_wf:
  assumes "wf_message m"
  shows "marshal_message m = Inr (object_text (message_members m))"
proof -
  have r: "raw_ok r" if "tight 9999 r" for r using that parses_raw_ok by (auto simp: tight_def raw_ok_def)
  show ?thesis using assms r tight_deeper [of 9998] by (auto simp: marshal_message_def wf_message_def split: option.splits)
qed

lemma unmarshal_reframe:
  assumes "unmarshal_message cached = Inr m" "wf_message m" "rid \<noteq> ''''" "tight 9999 rid"
  shows "unmarshal_message (reframeWithID cached rid) = Inr (m\<lparr>m_ID := rid\<rparr>)"
proof -
  have w: "wf_message (m\<lparr>m_ID := rid\<rparr>)" using assms(2,4) by (simp add: wf_message_def)
  show ?thesis using assms(1,3) unmarshal_marshal [OF w] marshal_wf [OF w] by (simp add: reframeWithID_def)
qed

section \<open>Properties\<close>

text \<open>C33. A replayed frame is the cached frame under the new request's id: for any cached text that
  decodes to a well-formed message, and any id that is one compact JSON value, what the client
  receives decodes to the same message with exactly that id, byte for byte. In particular encoding
  and decoding a message is the identity.\<close>

theorem reframe_keeps_all_but_id:
  assumes "unmarshal_message cached = Inr m" "wf_message m" "rid \<noteq> ''''" "tight 9999 rid"
  shows "unmarshal_message (reframeWithID cached rid) = Inr (m\<lparr>m_ID := rid\<rparr>) \<and>
    (\<exists>b. marshal_message m = Inr b \<and> unmarshal_message b = Inr m)"
  using unmarshal_reframe [OF assms] unmarshal_marshal [OF assms(2)] marshal_wf [OF assms(2)] by simp

lemma tight_number: "tight d ''1''" "tight d ''7''"
proof -
  have "Itoa 1 = ''1''" "Itoa 7 = ''7''" "compact False ''1'' = ''1''" "compact False ''7'' = ''7''" by code_simp+
  then show "tight d ''1''" "tight d ''7''" using Itoa_parses [of d 1] Itoa_parses [of d 7] by (simp_all add: tight_def)
qed

theorem reframe_keeps_all_but_id_witness:
  "unmarshal_message (reframeWithID (frame (NewToolsCallResponse ''1'' ''7'')) ''7'') = Inr (NewToolsCallResponse ''7'' ''7'')"
proof -
  have w: "wf_message (NewToolsCallResponse ''1'' ''7'')"
    by (simp add: wf_message_def NewToolsCallResponse_def zero_message_def tight_number ascii_valid tight_def [of _ "''''"])
  have "unmarshal_message (frame (NewToolsCallResponse ''1'' ''7'')) = Inr (NewToolsCallResponse ''1'' ''7'')"
    using unmarshal_marshal [OF w] marshal_wf [OF w] by (simp add: frame_def)
  from reframe_keeps_all_but_id [OF this w _ tight_number(2)] show ?thesis
    by (simp add: NewToolsCallResponse_def)
qed

section \<open>A concrete frame\<close>

lemma escape_plain:
  "\<forall>c \<in> set s. of_char c < (128 :: nat) \<and> escape_ascii c = [c] \<Longrightarrow> escape_string s = s"
  by (induction s) (simp_all add: escape_string.simps [of "_ # _"] escape_string.simps [of "[]"])

definition demo_params :: bytes where
  "demo_params = object_text [(''name'', marshal_string ''send'')]"

definition demo_frame :: "bytes \<Rightarrow> Message" where
  "demo_frame rid = zero_message\<lparr>m_JSONRPC := ''2.0'', m_ID := rid, m_Method := ''tools/call'', m_Params := demo_params\<rparr>"

lemma demo_marshal: "marshal_string ''send'' = dq # ''send'' @ [dq]" "marshal_string ''name'' = dq # ''name'' @ [dq]"
  by (simp_all add: marshal_string_def escape_plain escape_ascii_def dq_def bs_def)

lemma demo_params_ok: "\<forall>(k, c) \<in> set [(''name'', marshal_string ''send'')]. valid_utf8 k \<and> parses d c"
  by (simp add: ascii_valid reads_parses [OF reads_string])

lemma demo_params_tight: "tight 9999 demo_params"
proof -
  have "parses 9999 demo_params" unfolding demo_params_def using parses_object [OF demo_params_ok, of 9998] by simp
  moreover have "compact False demo_params = demo_params"
    by (simp add: demo_params_def object_text_def demo_marshal dq_def is_ws_def bs_def)
  ultimately show ?thesis by (simp add: tight_def)
qed

lemma demo_frame_wf: "tight 9999 rid \<Longrightarrow> wf_message (demo_frame rid)"
  by (simp add: wf_message_def demo_frame_def zero_message_def demo_params_tight ascii_valid tight_def [of _ "''''"])

lemma demo_parse: "ParseToolsCall (demo_frame rid) = Inr (''send'', '''')"
proof -
  have "raw_object demo_params = Inr [(''name'', marshal_string ''send'')]"
    unfolding demo_params_def by (rule raw_object_text [OF demo_params_ok]) simp
  moreover have "fold_key ''name'' = ''name''" by (simp add: fold_key_lower)
  ultimately show ?thesis
    by (simp add: ParseToolsCall_def demo_frame_def MethodToolsCall_def unmarshal_struct_def params_field_def ascii_valid)
qed

end
