(* ===== verification/Coalescing.thy ===== *)
theory Coalescing
  imports Pipeline_Properties Jsonrpc
begin

text \<open>
  Concurrent calls of \<open>Apply\<close> (\<open>internal/pipeline/pipeline.go\<close>). A thread is a call; \<open>cstep\<close>
  interleaves the parts of \<open>Apply\<close> between which the code gives up control: the decision, the entry
  into the in-flight table, the upstream call with the write of its result, the release of the
  leader, the return of a follower. A call that does not coalesce (mode off, log_only, shadow mode) is
  upstream like any other between \<open>goes_direct\<close> and \<open>comes_back\<close>. The parts are the definitions of theory
  \<open>Pipeline\<close>; the ghost field \<open>settled\<close> remembers how each leader ended. The end of a follower's context is
  a step of the environment (\<open>cancels\<close>), kept apart from the steps of the program. The parameter \<open>accepts\<close>
  is the set of label values that the metrics library takes: counting a decision under any other panics.
\<close>

section \<open>Calls that do not coalesce\<close>

text \<open>The three ways to the upstream that pass by the in-flight table: mode off, shadow mode with the hash (if
  there is one) and the intent, and the plain forward of log_only.\<close>

datatype way = Off | Shadowed bytes bytes | Plain bytes bytes

definition uncoalesced :: "('s, 'l) config \<Rightarrow> request \<Rightarrow> ('s, 'l) pstate \<Rightarrow> (way \<times> ('s, 'l) pstate) option" where
  "uncoalesced P q S =
     (let pol = pol_of P q in
      case admit P q S of
        (AdmOff, S1) \<Rightarrow> Some (Off, S1)
      | (AdmForbidden, S1) \<Rightarrow> if shadow P then Some (Shadowed '''' '''', S1) else None
      | (AdmRateLimited, S1) \<Rightarrow> if shadow P then Some (Shadowed '''' '''', S1) else None
      | (AdmOk, S1) \<Rightarrow>
          (case analyse (libs P) (q_body q) pol of
             Inl err \<Rightarrow> None
           | Inr (hash, intent) \<Rightarrow>
               let ((decision, entry, match), S2) = decide P q hash pol intent S1 in
               if shadow P then Some (Shadowed hash intent, log_decision P q pol decision match hash (Hash entry) S2)
               else if decision = DecisionReplay \<or> decision = DecisionBlock \<or> caching pol then None
               else Some (Plain hash intent, log_decision P q pol DecisionForward no_match hash '''' S2)))"

text \<open>What is left of the call once the upstream answers.\<close>

definition finish_way ::
  "('s, 'l) config \<Rightarrow> request \<Rightarrow> way \<Rightarrow> forward_outcome \<Rightarrow> ('s, 'l) pstate \<Rightarrow> outcome \<times> ('s, 'l) pstate" where
  "finish_way P q w fwd S =
     (case w of
        Off \<Rightarrow> (case fwd of FwdPanics m \<Rightarrow> Panic m | FwdReturns st rs err \<Rightarrow> Ret (forwarded '''' st rs) err, call_upstream q S)
      | Shadowed hash intent \<Rightarrow> shadowForward P q hash intent (pol_of P q) fwd S
      | Plain hash intent \<Rightarrow> doForward P q hash intent (pol_of P q) fwd None S)"

definition coalesces :: "('s, 'l) config \<Rightarrow> request \<Rightarrow> bool" where
  "coalesces P q \<longleftrightarrow> caching (pol_of P q) \<and> \<not> shadow P"

lemma decide_forwards:
  "fst (decide P q hash pol intent S) = (d, entry, match) \<Longrightarrow> d \<in> {DecisionForward, DecisionReplay, DecisionBlock}"
  by (auto simp: decide_def Let_def split_def hit_decision_def split: sum.splits option.splits if_splits)

text \<open>The split is exact: a call that does not coalesce goes its way with \<open>finish_way\<close>, and for any other
  the part before the in-flight table has nothing to do with the upstream.\<close>

lemma Apply_uncoalesced:
  assumes "uncoalesced P q S = Some (w, S1)"
  shows "Apply P q fwd pc S = finish_way P q w fwd S1" "\<not> coalesces P q"
proof -
  have "Apply P q fwd pc S = finish_way P q w fwd S1 \<and> \<not> coalesces P q"
  proof (cases rule: admission_cases [of P q S])
    case (1 S0)
    then have "\<not> caching (pol_of P q)"
      by (auto simp: admit_def caching_def mode_defs Let_def split: if_splits option.splits prod.splits)
    then show ?thesis using assms 1 by (auto simp: uncoalesced_def finish_way_def Apply_def apply_prefix_def coalesces_def)
  next
    case (2 S0)
    then show ?thesis using assms
      by (auto simp: uncoalesced_def finish_way_def Apply_def apply_prefix_def coalesces_def split: if_splits)
  next
    case (3 S0)
    then show ?thesis using assms
      by (auto simp: uncoalesced_def finish_way_def Apply_def apply_prefix_def coalesces_def split: if_splits)
  next
    case (4 S0 err)
    then show ?thesis using assms by (auto simp: uncoalesced_def)
  next
    case (5 S0 hash intent)
    obtain d entry match S2 where dec: "decide P q hash (pol_of P q) intent S0 = ((d, entry, match), S2)"
      by (metis prod.exhaust)
    have d: "d \<in> {DecisionForward, DecisionReplay, DecisionBlock}" using decide_forwards [of P q hash "pol_of P q" intent S0] dec by simp
    show ?thesis
    proof (cases "shadow P")
      case True
      then show ?thesis using assms 5 dec
        by (auto simp: uncoalesced_def finish_way_def Apply_def apply_prefix_def coalesces_def)
    next
      case False
      then show ?thesis using assms 5 dec d
        by (auto simp: uncoalesced_def finish_way_def Apply_simps(2) prefix_ok [OF 5 dec False] coalesces_def Let_def split: if_splits)
    qed
  qed
  then show "Apply P q fwd pc S = finish_way P q w fwd S1" "\<not> coalesces P q" by simp_all
qed

lemma prefix_coalesced:
  assumes "uncoalesced P q S = None"
  shows "apply_prefix P q fwd S = apply_prefix P q fwd' S"
    "apply_prefix P q fwd S = (GoForward hash intent b, S') \<Longrightarrow>
       b \<and> coalesces P q \<and> analyse (libs P) (q_body q) (pol_of P q) = Inr (hash, intent)"
proof -
  have "apply_prefix P q fwd S = apply_prefix P q fwd' S \<and> (apply_prefix P q fwd S = (GoForward hash intent b, S') \<longrightarrow>
       b \<and> coalesces P q \<and> analyse (libs P) (q_body q) (pol_of P q) = Inr (hash, intent))"
  proof (cases rule: admission_cases [of P q S])
    case (5 S0 hash' intent')
    obtain d entry match S2 where dec: "decide P q hash' (pol_of P q) intent' S0 = ((d, entry, match), S2)"
      by (metis prod.exhaust)
    have sh: "\<not> shadow P" using assms 5 dec by (auto simp: uncoalesced_def)
    then have "d = DecisionReplay \<or> d = DecisionBlock \<or> caching (pol_of P q)"
      using assms 5 dec by (auto simp: uncoalesced_def split: if_splits)
    then show ?thesis unfolding prefix_ok [OF 5 dec sh]
      using sh 5(2) by (auto simp: Let_def coalesces_def split: Decision.splits)
  qed (use assms in \<open>auto simp: uncoalesced_def apply_prefix_def split: if_splits\<close>)
  then show "apply_prefix P q fwd S = apply_prefix P q fwd' S"
    "apply_prefix P q fwd S = (GoForward hash intent b, S') \<Longrightarrow>
       b \<and> coalesces P q \<and> analyse (libs P) (q_body q) (pol_of P q) = Inr (hash, intent)" by blast+
qed

section \<open>The transition system\<close>

datatype thread =
    Absent
  | Calling request                      \<comment> \<open>has entered \<open>Apply\<close>\<close>
  | Direct request way                   \<comment> \<open>is upstream without coalescing\<close>
  | Missed request bytes bytes           \<comment> \<open>decided to forward: hash and intent\<close>
  | Leading request bytes bytes nat      \<comment> \<open>is the leader, with its handle, and upstream\<close>
  | Answered request bytes nat outcome   \<comment> \<open>the upstream has answered and the handle is filled\<close>
  | Waiting request bytes nat            \<comment> \<open>waits for the leader of a handle\<close>
  | Stranded request bytes nat           \<comment> \<open>ended by a panic while it held the slot of its hash\<close>
  | Finished request outcome

record ('s, 'l) cstate =
  base :: "('s, 'l) pstate"
  thr :: "nat \<Rightarrow> thread"
  settled :: "nat \<rightharpoonup> request \<times> outcome"

text \<open>The leader's call with the recovery of \<open>runLeader\<close>, up to the release.\<close>

definition lead ::
  "('s, 'l) config \<Rightarrow> request \<Rightarrow> bytes \<Rightarrow> bytes \<Rightarrow> forward_outcome \<Rightarrow> nat \<Rightarrow> ('s, 'l) pstate \<Rightarrow> outcome \<times> ('s, 'l) pstate" where
  "lead P q hash intent fwd h S =
     (case doForward P q hash intent (pol_of P q) fwd (Some h) S of
        (Panic m, S1) \<Rightarrow> (Panic m, set_handle (Some h) (\<lambda>a. a\<lparr>h_err := Some (Wrapped ''forward panic'' (ErrMsg m))\<rparr>) S1)
      | (out, S1) \<Rightarrow> (out, S1))"

lemma runLeader_lead:
  "runLeader P q hash intent (pol_of P q) fwd h S =
     (let (out, S1) = lead P q hash intent fwd h S in (out, releaseLeader hash h S1))"
  by (auto simp: runLeader_def lead_def split: prod.split outcome.split)

text \<open>Counting a decision panics when the metrics are on and a label is refused. A follower whose own label is
  refused panics after its wait; a leader panics between taking the slot and the deferred release, so that its
  slot stays taken (\<open>strands\<close>). A call whose label is refused before the in-flight table ends there
  (\<open>breaks\<close>, in any state with the same table).\<close>

definition label_ok :: "(bytes \<Rightarrow> bool) \<Rightarrow> ('s, 'l) config \<Rightarrow> request \<Rightarrow> Decision \<Rightarrow> bool" where
  "label_ok accepts P q d \<longleftrightarrow>
     (metrics P \<longrightarrow> accepts (q_tool q) \<and> accepts (Mode (pol_of P q)) \<and> accepts (decision_String d))"

definition record_follow ::
  "(bytes \<Rightarrow> bool) \<Rightarrow> ('s, 'l) config \<Rightarrow> request \<Rightarrow> bytes \<Rightarrow> bytes \<Rightarrow> outcome \<Rightarrow> ('s, 'l) pstate \<Rightarrow> outcome \<times> ('s, 'l) pstate" where
  "record_follow accepts P q hash m out S =
     (case out of
        Ret r err \<Rightarrow>
          if label_ok accepts P q (r_Decision r) then (out, follow P q hash (pol_of P q) out S) else (Panic m, S)
      | _ \<Rightarrow> (out, S))"

inductive cstep :: "(bytes \<Rightarrow> bool) \<Rightarrow> ('s, 'l) config \<Rightarrow> ('s, 'l) cstate \<Rightarrow> ('s, 'l) cstate \<Rightarrow> bool" for accepts P where
  ends: "thr c t = Calling q \<Longrightarrow> uncoalesced P q (base c) = None \<Longrightarrow> apply_prefix P q fwd (base c) = (Ended out, S) \<Longrightarrow>
    cstep accepts P c (c\<lparr>base := S, thr := (thr c)(t := Finished q out)\<rparr>)"
| breaks: "thr c t = Calling q \<Longrightarrow> \<not> label_ok accepts P q d \<Longrightarrow>
    p_inflight S = p_inflight (base c) \<Longrightarrow> p_handles S = p_handles (base c) \<Longrightarrow> p_next S = p_next (base c) \<Longrightarrow>
    cstep accepts P c (c\<lparr>base := S, thr := (thr c)(t := Finished q (Panic m))\<rparr>)"
| goes_direct: "thr c t = Calling q \<Longrightarrow> uncoalesced P q (base c) = Some (w, S) \<Longrightarrow>
    cstep accepts P c (c\<lparr>base := S, thr := (thr c)(t := Direct q w)\<rparr>)"
| comes_back: "thr c t = Direct q w \<Longrightarrow> finish_way P q w fwd (base c) = (out, S) \<Longrightarrow>
    cstep accepts P c (c\<lparr>base := S, thr := (thr c)(t := Finished q out)\<rparr>)"
| misses: "thr c t = Calling q \<Longrightarrow> uncoalesced P q (base c) = None \<Longrightarrow>
    apply_prefix P q fwd (base c) = (GoForward hash intent b, S) \<Longrightarrow>
    cstep accepts P c (c\<lparr>base := S, thr := (thr c)(t := Missed q hash intent)\<rparr>)"
| leads: "thr c t = Missed q hash intent \<Longrightarrow> acquireLeader hash (base c) = ((h, True), S) \<Longrightarrow> label_ok accepts P q DecisionForward \<Longrightarrow>
    cstep accepts P c (c\<lparr>base := log_decision P q (pol_of P q) DecisionForward no_match hash '''' S,
                 thr := (thr c)(t := Leading q hash intent h)\<rparr>)"
| strands: "thr c t = Missed q hash intent \<Longrightarrow> acquireLeader hash (base c) = ((h, True), S) \<Longrightarrow> \<not> label_ok accepts P q DecisionForward \<Longrightarrow>
    cstep accepts P c (c\<lparr>base := S, thr := (thr c)(t := Stranded q hash h)\<rparr>)"
| follows: "thr c t = Missed q hash intent \<Longrightarrow> acquireLeader hash (base c) = ((h, False), S) \<Longrightarrow>
    cstep accepts P c (c\<lparr>base := S, thr := (thr c)(t := Waiting q hash h)\<rparr>)"
| answers: "thr c t = Leading q hash intent h \<Longrightarrow> lead P q hash intent fwd h (base c) = (out, S) \<Longrightarrow>
    cstep accepts P c (c\<lparr>base := S, thr := (thr c)(t := Answered q hash h out)\<rparr>)"
| releases: "thr c t = Answered q hash h out \<Longrightarrow>
    cstep accepts P c (c\<lparr>base := releaseLeader hash h (base c), thr := (thr c)(t := Finished q out),
                 settled := (settled c)(h \<mapsto> (q, out))\<rparr>)"
| returns: "thr c t = Waiting q hash h \<Longrightarrow> waitForLeader None False (p_handles (base c) h) = out \<Longrightarrow> out \<noteq> Blocked \<Longrightarrow>
    record_follow accepts P q hash m out (base c) = (out', S) \<Longrightarrow>
    cstep accepts P c (c\<lparr>base := S, thr := (thr c)(t := Finished q out')\<rparr>)"

text \<open>The environment can end the context of a follower, which then stops waiting.\<close>

inductive cancels :: "(bytes \<Rightarrow> bool) \<Rightarrow> ('s, 'l) config \<Rightarrow> ('s, 'l) cstate \<Rightarrow> ('s, 'l) cstate \<Rightarrow> bool" for accepts P where
  cancels: "thr c t = Waiting q hash h \<Longrightarrow> waitForLeader (Some err) pc (p_handles (base c) h) = out \<Longrightarrow>
    record_follow accepts P q hash m out (base c) = (out', S) \<Longrightarrow>
    cancels accepts P c (c\<lparr>base := S, thr := (thr c)(t := Finished q out')\<rparr>)"

text \<open>A process starts with an empty in-flight table; calls come in at any moment, so every thread is
  in place from the beginning.\<close>

definition cinit :: "'s \<Rightarrow> (nat \<Rightarrow> thread) \<Rightarrow> ('s, 'l) cstate" where
  "cinit st T = \<lparr>base = New_pipeline st, thr = T, settled = Map.empty\<rparr>"

inductive creach :: "(bytes \<Rightarrow> bool) \<Rightarrow> ('s, 'l) config \<Rightarrow> ('s, 'l) cstate \<Rightarrow> bool" for accepts P where
  init: "(\<And>t. T t = Absent \<or> (\<exists>q. T t = Calling q)) \<Longrightarrow> creach accepts P (cinit st T)"
| step: "creach accepts P c \<Longrightarrow> cstep accepts P c c' \<Longrightarrow> creach accepts P c'"
| cancelled: "creach accepts P c \<Longrightarrow> cancels accepts P c c' \<Longrightarrow> creach accepts P c'"

section \<open>The invariant\<close>

definition holds :: "thread \<Rightarrow> bytes \<Rightarrow> nat \<Rightarrow> bool" where
  "holds x hash h \<longleftrightarrow> (\<exists>q i. x = Leading q hash i h) \<or> (\<exists>q out. x = Answered q hash h out) \<or> (\<exists>q. x = Stranded q hash h)"

text \<open>What a handle tells about how its leader ended.\<close>

definition handle_of :: "outcome \<Rightarrow> applyInflight \<Rightarrow> bool" where
  "handle_of out a \<longleftrightarrow> (case out of
     Ret r None \<Rightarrow> h_result a = r \<and> h_err a = None
   | Ret r (Some e) \<Rightarrow> h_err a = Some e
   | Panic m \<Rightarrow> h_err a = Some (Wrapped ''forward panic'' (ErrMsg m))
   | Blocked \<Rightarrow> False)"

text \<open>The in-flight table \<open>F\<close>, the handles \<open>H\<close>, the next handle \<open>N\<close>, the threads \<open>T\<close> and the ended
  leaders \<open>W\<close> fit together: a hash is in flight exactly while one thread holds its handle, the handle
  of a leader is open and fresh until the answer is on it, a waiting thread has a handle that is in
  flight or closed, and a closed handle tells how its leader ended.\<close>

definition leaders_ok :: "(bytes \<rightharpoonup> nat) \<Rightarrow> (nat \<Rightarrow> applyInflight) \<Rightarrow> nat \<Rightarrow> (nat \<Rightarrow> thread) \<Rightarrow> bool" where
  "leaders_ok F H N T \<longleftrightarrow>
     (\<forall>hash h. F hash = Some h \<longrightarrow> h < N \<and> \<not> h_done (H h) \<and> (\<exists>t. holds (T t) hash h)) \<and>
     (\<forall>t hash h. holds (T t) hash h \<longrightarrow> F hash = Some h) \<and>
     (\<forall>t t' hash hash' h. holds (T t) hash h \<and> holds (T t') hash' h \<longrightarrow> t = t')"

definition handles_ok :: "(nat \<Rightarrow> applyInflight) \<Rightarrow> (nat \<Rightarrow> thread) \<Rightarrow> bool" where
  "handles_ok H T \<longleftrightarrow>
     (\<forall>t q hash i h. T t = Leading q hash i h \<longrightarrow> H h = new_handle) \<and>
     (\<forall>t q hash h out. T t = Answered q hash h out \<longrightarrow> handle_of out (H h))"

definition waiters_ok :: "(bytes \<rightharpoonup> nat) \<Rightarrow> (nat \<Rightarrow> applyInflight) \<Rightarrow> nat \<Rightarrow> (nat \<Rightarrow> thread) \<Rightarrow> bool" where
  "waiters_ok F H N T \<longleftrightarrow>
     (\<forall>t q hash h. T t = Waiting q hash h \<longrightarrow> h < N \<and> (F hash = Some h \<or> h_done (H h)))"

definition settled_ok :: "(nat \<Rightarrow> applyInflight) \<Rightarrow> nat \<Rightarrow> (nat \<rightharpoonup> request \<times> outcome) \<Rightarrow> bool" where
  "settled_ok H N W \<longleftrightarrow>
     (\<forall>h. h_done (H h) \<longrightarrow> h < N \<and> (\<exists>q out. W h = Some (q, out) \<and> handle_of out (H h)))"

definition tinv where
  "tinv F H N T W \<longleftrightarrow> leaders_ok F H N T \<and> handles_ok H T \<and> waiters_ok F H N T \<and> settled_ok H N W"

lemmas tinv_defs = tinv_def leaders_ok_def handles_ok_def waiters_ok_def settled_ok_def

abbreviation cinv :: "('s, 'l) cstate \<Rightarrow> bool" where
  "cinv c \<equiv> tinv (p_inflight (base c)) (p_handles (base c)) (p_next (base c)) (thr c) (settled c)"

lemma holds_simps [simp]:
  "holds (Leading q hash i h) hash' h' \<longleftrightarrow> hash' = hash \<and> h' = h"
  "holds (Answered q hash h out) hash' h' \<longleftrightarrow> hash' = hash \<and> h' = h"
  "holds (Stranded q hash h) hash' h' \<longleftrightarrow> hash' = hash \<and> h' = h"
  "\<not> holds (Direct q w) hash' h'" "\<not> holds Absent hash' h'" "\<not> holds (Calling q) hash' h'" "\<not> holds (Missed q hash i) hash' h'"
  "\<not> holds (Waiting q hash h) hash' h'" "\<not> holds (Finished q out) hash' h'"
  by (auto simp: holds_def)

lemma handle_of_done [simp]: "handle_of out (a\<lparr>h_done := b\<rparr>) = handle_of out a"
  by (simp add: handle_of_def split: outcome.split option.split)

lemma leaders_okI:
  assumes "\<And>hash h. F hash = Some h \<Longrightarrow> h < N" "\<And>hash h. F hash = Some h \<Longrightarrow> \<not> h_done (H h)"
    "\<And>hash h. F hash = Some h \<Longrightarrow> \<exists>t. holds (T t) hash h" "\<And>t hash h. holds (T t) hash h \<Longrightarrow> F hash = Some h"
    "\<And>t t' hash hash' h. holds (T t) hash h \<Longrightarrow> holds (T t') hash' h \<Longrightarrow> t = t'"
  shows "leaders_ok F H N T"
  using assms unfolding leaders_ok_def by blast

lemma leaders_okD:
  assumes "leaders_ok F H N T"
  shows "F hash = Some h \<Longrightarrow> h < N" "F hash = Some h \<Longrightarrow> \<not> h_done (H h)" "F hash = Some h \<Longrightarrow> \<exists>t. holds (T t) hash h"
    "holds (T t) hash h \<Longrightarrow> F hash = Some h" "holds (T t) hash h \<Longrightarrow> h < N"
    "holds (T t) hash h \<Longrightarrow> holds (T t') hash' h \<Longrightarrow> t = t'"
  using assms unfolding leaders_ok_def by blast+

lemma handles_okD:
  assumes "handles_ok H T"
  shows "T t = Leading q hash i h \<Longrightarrow> H h = new_handle" "T t = Answered q hash h out \<Longrightarrow> handle_of out (H h)"
  using assms unfolding handles_ok_def by blast+

lemma handles_okI:
  assumes "\<And>t q hash i h. T t = Leading q hash i h \<Longrightarrow> H h = new_handle"
    "\<And>t q hash h out. T t = Answered q hash h out \<Longrightarrow> handle_of out (H h)"
  shows "handles_ok H T"
  using assms unfolding handles_ok_def by blast

lemma waiters_okD: "waiters_ok F H N T \<Longrightarrow> T t = Waiting q hash h \<Longrightarrow> h < N \<and> (F hash = Some h \<or> h_done (H h))"
  unfolding waiters_ok_def by blast

lemma waiters_okI:
  "(\<And>t q hash h. T t = Waiting q hash h \<Longrightarrow> h < N \<and> (F hash = Some h \<or> h_done (H h))) \<Longrightarrow> waiters_ok F H N T"
  unfolding waiters_ok_def by blast

lemma settled_okD: "settled_ok H N W \<Longrightarrow> h_done (H h) \<Longrightarrow> h < N \<and> (\<exists>q out. W h = Some (q, out) \<and> handle_of out (H h))"
  unfolding settled_ok_def by blast

lemma new_handle_open [simp]: "\<not> h_done new_handle"
  by (simp add: new_handle_def)

text \<open>How the threads' steps change these five.\<close>

lemma tinv_other:
  assumes inv: "tinv F H N T W" and x: "\<And>hash h. \<not> holds (T t) hash h" "\<And>hash h. \<not> holds x hash h"
    "\<And>q hash h. x = Waiting q hash h \<Longrightarrow> F hash = Some h"
  shows "tinv F H N (T(t := x)) W"
proof -
  have L: "leaders_ok F H N T" and Hd: "handles_ok H T" and Wt: "waiters_ok F H N T" using inv by (simp_all add: tinv_def)
  have hs: "holds ((T(t := x)) t') hash h \<longleftrightarrow> holds (T t') hash h" for t' hash h using x by auto
  have "leaders_ok F H N (T(t := x))" using L unfolding leaders_ok_def hs .
  moreover have "T t' = y" if "(T(t := x)) t' = y" "holds y hash h" for t' y hash h using that x(2) by (auto split: if_splits)
  then have "handles_ok H (T(t := x))" by (intro handles_okI) (metis Hd handles_okD holds_simps(1,2))+
  moreover have "waiters_ok F H N (T(t := x))"
    using waiters_okD [OF Wt] x(3) leaders_okD(1) [OF L] by (intro waiters_okI) (auto split: if_splits)
  ultimately show ?thesis using inv by (simp add: tinv_def)
qed

lemma tinv_lead:
  assumes inv: "tinv F H N T W" and t: "T t = Missed q hash i" and new: "F hash = None"
    and x: "x = Leading q hash i N \<or> x = Stranded q hash N"
  shows "tinv (F(hash \<mapsto> N)) (H(N := new_handle)) (Suc N) (T(t := x)) W"
proof -
  let ?F = "F(hash \<mapsto> N)" and ?H = "H(N := new_handle)" and ?T = "T(t := x)"
  have L: "leaders_ok F H N T" and Hd: "handles_ok H T" and Wt: "waiters_ok F H N T" and W: "settled_ok H N W"
    using inv by (simp_all add: tinv_def)
  have hs: "holds (?T t') hash' h \<longleftrightarrow> (if t' = t then hash' = hash \<and> h = N else holds (T t') hash' h)" for t' hash' h
    using x by auto
  have old: "h < N" if "holds (T t') hash' h" for t' hash' h using leaders_okD(5) [OF L that] .
  have "leaders_ok ?F ?H (Suc N) ?T"
  proof (rule leaders_okI)
    fix hash' h assume f: "?F hash' = Some h"
    then show "h < Suc N" "\<not> h_done (?H h)"
      using leaders_okD(1,2) [OF L] by (auto split: if_splits simp: less_SucI)
    show "\<exists>t'. holds (?T t') hash' h"
    proof (cases "hash' = hash")
      case False
      then obtain t' where "holds (T t') hash' h" using f leaders_okD(3) [OF L] by auto
      moreover from this have "t' \<noteq> t" using t by auto
      ultimately show ?thesis unfolding hs by metis
    next
      case True
      then show ?thesis using f hs [of t hash' h] by auto
    qed
  next
    fix t' hash' h assume "holds (?T t') hash' h"
    then show "?F hash' = Some h" using leaders_okD(4) [OF L] new unfolding hs by (auto split: if_splits)
  next
    fix t1 t2 hash1 hash2 h assume "holds (?T t1) hash1 h" "holds (?T t2) hash2 h"
    then show "t1 = t2" using leaders_okD(6) [OF L] old unfolding hs by (metis less_irrefl)
  qed
  moreover have "handles_ok ?H ?T"
  proof (rule handles_okI)
    fix t' q' hash' i' h assume "?T t' = Leading q' hash' i' h"
    then show "?H h = new_handle" using handles_okD(1) [OF Hd] x by (auto split: if_splits)
  next
    fix t' q' hash' h out assume "?T t' = Answered q' hash' h out"
    then have a: "T t' = Answered q' hash' h out" using x by (auto split: if_splits)
    then have "h < N" using old [of t' hash' h] by simp
    then show "handle_of out (?H h)" using handles_okD(2) [OF Hd a] by simp
  qed
  moreover have "waiters_ok ?F ?H (Suc N) ?T"
    using waiters_okD [OF Wt] new x by (intro waiters_okI) (fastforce split: if_splits)
  moreover have "settled_ok ?H (Suc N) W"
    using settled_okD [OF W] unfolding settled_ok_def by (auto split: if_splits simp: less_SucI)
  ultimately show ?thesis by (simp add: tinv_def)
qed

lemma tinv_answer:
  assumes inv: "tinv F H N T W" and t: "T t = Leading q hash i h" and a: "handle_of out a" "\<not> h_done a"
  shows "tinv F (H(h := a)) N (T(t := Answered q hash h out)) W"
proof -
  let ?H = "H(h := a)" and ?T = "T(t := Answered q hash h out)"
  have L: "leaders_ok F H N T" and Hd: "handles_ok H T" and Wt: "waiters_ok F H N T" and W: "settled_ok H N W"
    using inv by (simp_all add: tinv_def)
  have hs: "holds (?T t') hash' h' \<longleftrightarrow> holds (T t') hash' h'" for t' hash' h' using t by simp
  have uniq: "t' = t" if "holds (T t') hash' h" for t' hash'
    using leaders_okD(6) [OF L that, of t hash] t by simp
  have "h_done (?H h') \<longleftrightarrow> h_done (H h')" for h' using a(2) handles_okD(1) [OF Hd t] by simp
  then have d: "\<And>h'. h_done (?H h') \<longleftrightarrow> h_done (H h')" .
  have "leaders_ok F ?H N ?T" using L unfolding leaders_ok_def hs d .
  moreover have "handles_ok ?H ?T"
  proof (rule handles_okI)
    fix t' q' hash' i' h' assume "?T t' = Leading q' hash' i' h'"
    then have "T t' = Leading q' hash' i' h'" "t' \<noteq> t" by (auto split: if_splits)
    then show "?H h' = new_handle" using handles_okD(1) [OF Hd] uniq [of t' hash'] by auto
  next
    fix t' q' hash' h' out' assume x: "?T t' = Answered q' hash' h' out'"
    show "handle_of out' (?H h')"
    proof (cases "t' = t")
      case False
      then have "T t' = Answered q' hash' h' out'" using x by simp
      then show ?thesis using handles_okD(2) [OF Hd] uniq [of t' hash'] False by auto
    qed (use x a in auto)
  qed
  moreover have "waiters_ok F ?H N ?T"
  proof (rule waiters_okI)
    fix t' q' hash' h' assume "?T t' = Waiting q' hash' h'"
    then have "T t' = Waiting q' hash' h'" by (auto split: if_splits)
    then show "h' < N \<and> (F hash' = Some h' \<or> h_done (?H h'))" unfolding d by (rule waiters_okD [OF Wt])
  qed
  moreover have "settled_ok ?H N W"
    using settled_okD [OF W] a(2) unfolding settled_ok_def by auto
  ultimately show ?thesis by (simp add: tinv_def)
qed

lemma tinv_release:
  assumes inv: "tinv F H N T W" and t: "T t = Answered q hash h out"
  shows "tinv (F(hash := None)) (H(h := (H h)\<lparr>h_done := True\<rparr>)) N (T(t := Finished q out)) (W(h \<mapsto> (q, out)))"
proof -
  let ?F = "F(hash := None)" and ?H = "H(h := (H h)\<lparr>h_done := True\<rparr>)" and ?T = "T(t := Finished q out)"
  have L: "leaders_ok F H N T" and Hd: "handles_ok H T" and Wt: "waiters_ok F H N T" and W: "settled_ok H N W"
    using inv by (simp_all add: tinv_def)
  have th: "holds (T t) hash h" using t by simp
  have F: "F hash = Some h" using leaders_okD(4) [OF L th] .
  have uniq: "t' = t" if "holds (T t') hash' h" for t' hash' using leaders_okD(6) [OF L that th] .
  have same: "t' = t" if "holds (T t') hash h'" for t' h' using leaders_okD(4) [OF L that] F uniq that by simp
  have hs: "holds (?T t') hash' h' \<longleftrightarrow> t' \<noteq> t \<and> holds (T t') hash' h'" for t' hash' h' by simp
  have "leaders_ok ?F ?H N ?T"
  proof (rule leaders_okI)
    fix hash' h' assume "?F hash' = Some h'"
    then have f: "F hash' = Some h'" "hash' \<noteq> hash" by (auto split: if_splits)
    then obtain t' where t': "holds (T t') hash' h'" using leaders_okD(3) [OF L] by blast
    have "t' \<noteq> t" using t' t f(2) by auto
    then have "h' \<noteq> h" using uniq t' by blast
    then show "h' < N" "\<not> h_done (?H h')" using f leaders_okD(1,2) [OF L] by auto
    show "\<exists>t'. holds (?T t') hash' h'" using t' \<open>t' \<noteq> t\<close> unfolding hs by blast
  next
    fix t' hash' h' assume "holds (?T t') hash' h'"
    then show "?F hash' = Some h'" using leaders_okD(4) [OF L] same unfolding hs by auto
  next
    fix t1 t2 hash1 hash2 h' assume "holds (?T t1) hash1 h'" "holds (?T t2) hash2 h'"
    then show "t1 = t2" using leaders_okD(6) [OF L] unfolding hs by blast
  qed
  moreover have "handles_ok ?H ?T"
  proof (rule handles_okI)
    fix t' q' hash' i' h' assume "?T t' = Leading q' hash' i' h'"
    then have "T t' = Leading q' hash' i' h'" "t' \<noteq> t" by (auto split: if_splits)
    then show "?H h' = new_handle" using handles_okD(1) [OF Hd] uniq [of t' hash'] by auto
  next
    fix t' q' hash' h' out' assume "?T t' = Answered q' hash' h' out'"
    then have "T t' = Answered q' hash' h' out'" "t' \<noteq> t" by (auto split: if_splits)
    then show "handle_of out' (?H h')" using handles_okD(2) [OF Hd] by auto
  qed
  moreover have "waiters_ok ?F ?H N ?T"
  proof (rule waiters_okI)
    fix t' q' hash' h' assume "?T t' = Waiting q' hash' h'"
    then have "T t' = Waiting q' hash' h'" by (auto split: if_splits)
    from waiters_okD [OF Wt this] show "h' < N \<and> (?F hash' = Some h' \<or> h_done (?H h'))" using F by auto
  qed
  moreover have "settled_ok ?H N (W(h \<mapsto> (q, out)))"
    using settled_okD [OF W] leaders_okD(1) [OF L F] handles_okD(2) [OF Hd t] unfolding settled_ok_def by auto
  ultimately show ?thesis by (simp add: tinv_def)
qed

section \<open>Every step keeps the invariant\<close>

lemma replay_next [simp]: "p_next (snd (replay P q pol e m S)) = p_next S"
  by (simp add: replay_def split_def Let_def recordStoreError_def)

lemma shadowForward_frame [simp]:
  "p_inflight (snd (shadowForward P q h i pol fwd S)) = p_inflight S"
  "p_handles (snd (shadowForward P q h i pol fwd S)) = p_handles S"
  "p_next (snd (shadowForward P q h i pol fwd S)) = p_next S"
  by (simp_all add: shadowForward_def Let_def split: forward_outcome.split option.split)

lemma doForward_frame [simp]:
  "p_inflight (snd (doForward P q h i pol fwd lh S)) = p_inflight S"
  "p_next (snd (doForward P q h i pol fwd lh S)) = p_next S"
  "p_handles (snd (doForward P q h i pol fwd None S)) = p_handles S"
  by (simp_all add: doForward_def Let_def split: forward_outcome.split option.split)

lemma follow_table [simp]:
  "p_inflight (follow P q h pol out S) = p_inflight S" "p_handles (follow P q h pol out S) = p_handles S"
  "p_next (follow P q h pol out S) = p_next S"
  by (simp_all add: follow_def split: outcome.split)

lemma prefix_table:
  assumes "apply_prefix P q fwd S = (x, S')"
  shows "p_inflight S' = p_inflight S" "p_handles S' = p_handles S" "p_next S' = p_next S"
proof -
  have "p_inflight S' = p_inflight S \<and> p_handles S' = p_handles S \<and> p_next S' = p_next S"
  proof (cases rule: admission_cases [of P q S])
    case (5 S1 hash intent)
    have S1: "p_inflight S1 = p_inflight S" "p_handles S1 = p_handles S" "p_next S1 = p_next S"
      using admit_frame(3-5) [of P q S] 5(1) by simp_all
    obtain d entry match S2 where dec: "decide P q hash (pol_of P q) intent S1 = ((d, entry, match), S2)"
      by (metis prod.exhaust)
    have S2: "p_inflight S2 = p_inflight S" "p_handles S2 = p_handles S" "p_next S2 = p_next S"
      using decide_frame(2-4) [of P q hash "pol_of P q" intent S1] S1 unfolding dec by simp_all
    show ?thesis
    proof (cases "shadow P")
      case True
      then show ?thesis using assms 5 dec S2 by (auto simp: apply_prefix_def Let_def)
    next
      case False
      then show ?thesis using assms S2 unfolding prefix_ok [OF 5 dec False] by (auto simp: Let_def split: Decision.splits)
    qed
  qed (use assms admit_frame(3-5) [of P q S] in \<open>auto simp: apply_prefix_def Let_def split: if_splits\<close>)
  then show "p_inflight S' = p_inflight S" "p_handles S' = p_handles S" "p_next S' = p_next S" by simp_all
qed

text \<open>The leader's call fills its handle with how it ended, and nothing else in the table changes.\<close>

lemma lead_table:
  assumes "lead P q hash intent fwd h S = (out, S')" "p_handles S h = new_handle"
  shows "p_inflight S' = p_inflight S" "p_next S' = p_next S"
    "\<exists>a. p_handles S' = (p_handles S)(h := a) \<and> handle_of out a \<and> \<not> h_done a"
proof -
  have "p_inflight S' = p_inflight S \<and> p_next S' = p_next S \<and>
      (\<exists>a. p_handles S' = (p_handles S)(h := a) \<and> handle_of out a \<and> \<not> h_done a)"
  proof (cases fwd)
    case (FwdPanics m)
    then show ?thesis
      using assms by (auto simp: lead_def doForward_def handle_of_def new_handle_def)
  next
    case (FwdReturns st rs err)
    let ?S2 = "recordUpstreamLatency P (q_tool q) (Sub (q_end q) (q_start q)) (call_upstream q S)"
    let ?S3 = "if caching (pol_of P q) \<and> success st then snd (put_entry P q hash intent (pol_of P q) st rs ?S2) else ?S2"
    show ?thesis
    proof (cases err)
      case None
      then have "out = Ret (forwarded hash st rs) None" "S' = set_handle (Some h) (\<lambda>a. a\<lparr>h_result := forwarded hash st rs\<rparr>) ?S3"
        using assms(1) FwdReturns by (auto simp: lead_def doForward_def Let_def)
      then show ?thesis using assms(2) by (auto simp: handle_of_def new_handle_def)
    next
      case (Some e)
      then show ?thesis
        using assms FwdReturns by (auto simp: lead_def doForward_def Let_def handle_of_def new_handle_def)
    qed
  qed
  then show "p_inflight S' = p_inflight S" "p_next S' = p_next S"
    "\<exists>a. p_handles S' = (p_handles S)(h := a) \<and> handle_of out a \<and> \<not> h_done a" by simp_all
qed

lemma acquireLeader_table:
  assumes "acquireLeader hash S = ((h, l), S')"
  shows "(if l then p_inflight S hash = None \<and> h = p_next S \<and> p_inflight S' = (p_inflight S)(hash \<mapsto> h) \<and>
           p_handles S' = (p_handles S)(h := new_handle) \<and> p_next S' = Suc h
          else p_inflight S hash = Some h \<and> S' = S)"
  using assms by (auto simp: acquireLeader_def Let_def split: option.splits)

lemma uncoalesced_table:
  assumes "uncoalesced P q S = Some (w, S')"
  shows "p_inflight S' = p_inflight S \<and> p_handles S' = p_handles S \<and> p_next S' = p_next S"
proof (cases rule: admission_cases [of P q S])
  case (5 S1 hash intent)
  then show ?thesis
    using assms admit_frame(3-5) [of P q S] decide_frame(2-4) [of P q hash "pol_of P q" intent S1]
    by (auto simp: uncoalesced_def Let_def split_def split: if_splits)
qed (use assms admit_frame(3-5) [of P q S] in \<open>auto simp: uncoalesced_def split: if_splits\<close>)

lemma finish_way_table:
  assumes "finish_way P q w fwd S = (out, S')"
  shows "p_inflight S' = p_inflight S \<and> p_handles S' = p_handles S \<and> p_next S' = p_next S"
proof (cases w)
  case (Shadowed hash intent)
  then show ?thesis using assms shadowForward_frame [of P q hash intent "pol_of P q" fwd S] by (simp add: finish_way_def)
next
  case (Plain hash intent)
  then have "S' = snd (doForward P q hash intent (pol_of P q) fwd None S)" using assms by (simp add: finish_way_def)
  then show ?thesis by simp
qed (use assms in \<open>auto simp: finish_way_def\<close>)

lemma record_follow_table:
  assumes "record_follow A P q hash m out S = (out', S')"
  shows "p_inflight S' = p_inflight S \<and> p_handles S' = p_handles S \<and> p_next S' = p_next S"
  using assms by (auto simp: record_follow_def split: outcome.splits if_splits)

lemma cstep_inv:
  assumes "cstep A P c c'" "cinv c"
  shows "cinv c'"
  using assms
proof cases
  case (ends t q fwd out S)
  then show ?thesis using tinv_other [OF assms(2), of t "Finished q out"] by (simp add: prefix_table [OF ends(4)])
next
  case (breaks t q d S m)
  then show ?thesis using tinv_other [OF assms(2), of t "Finished q (Panic m)"] by simp
next
  case (goes_direct t q w S)
  then show ?thesis using tinv_other [OF assms(2), of t "Direct q w"] uncoalesced_table [OF goes_direct(3)] by simp
next
  case (comes_back t q w fwd out S)
  then show ?thesis using tinv_other [OF assms(2), of t "Finished q out"] finish_way_table [OF comes_back(3)] by simp
next
  case (misses t q fwd hash intent b S)
  then show ?thesis using tinv_other [OF assms(2), of t "Missed q hash intent"] by (simp add: prefix_table [OF misses(4)])
next
  case (leads t q hash intent h S)
  note al = acquireLeader_table [OF leads(3), simplified]
  show ?thesis using tinv_lead [OF assms(2) leads(2), of "Leading q hash intent h"] al leads(1) by simp
next
  case (strands t q hash intent h S)
  note al = acquireLeader_table [OF strands(3), simplified]
  show ?thesis using tinv_lead [OF assms(2) strands(2), of "Stranded q hash h"] al strands(1) by simp
next
  case (follows t q hash intent h S)
  note al = acquireLeader_table [OF follows(3), simplified]
  show ?thesis using tinv_other [OF assms(2), of t "Waiting q hash h"] al follows(1,2) by simp
next
  case (answers t q hash intent h fwd out S)
  have "p_handles (base c) h = new_handle" using assms(2) answers(2) by (auto simp: tinv_def dest: handles_okD)
  note lt = lead_table [OF answers(3) this]
  from lt(3) obtain a where "p_handles S = (p_handles (base c))(h := a)" "handle_of out a" "\<not> h_done a" by blast
  then show ?thesis using tinv_answer [OF assms(2) answers(2)] lt(1,2) answers(1) by simp
next
  case (releases t q hash h out)
  have "p_inflight (base c) hash = Some h"
    using assms(2) releases(2) leaders_okD(4) [of "p_inflight (base c)" "p_handles (base c)" "p_next (base c)" "thr c" t hash h]
    by (simp add: tinv_def)
  then show ?thesis using tinv_release [OF assms(2) releases(2)] releases(1) by (simp add: releaseLeader_def)
next
  case (returns t q hash h out m out' S)
  then show ?thesis using tinv_other [OF assms(2), of t "Finished q out'"] record_follow_table [OF returns(5)] by simp
qed

lemma cancels_inv:
  assumes "cancels A P c c'" "cinv c"
  shows "cinv c'"
  using assms
proof cases
  case (cancels t q hash h err pc out m out' S)
  then show ?thesis using tinv_other [OF assms(2), of t "Finished q out'"] record_follow_table [OF cancels(4)] by simp
qed

lemma cinv_init:
  assumes "\<And>t. T t = Absent \<or> (\<exists>q. T t = Calling q)"
  shows "cinv (cinit st T)"
proof -
  have "\<not> holds (T t) hash h" "T t \<noteq> Waiting q hash h" "T t \<noteq> Leading q hash i h" "T t \<noteq> Answered q hash h out"
    for t hash h q i out using assms [of t] by auto
  then show ?thesis by (simp add: cinit_def New_pipeline_def tinv_defs)
qed

lemma creach_inv: "creach A P c \<Longrightarrow> cinv c"
proof (induction rule: creach.induct)
  case (init T st)
  then show ?case by (rule cinv_init)
qed (blast intro: cstep_inv cancels_inv)+

text \<open>What a thread's state says about its request: past the decision it is a call that coalesces, under the
  fingerprint of its own arguments, and a call that goes directly is one that does not.\<close>

fun thread_ok :: "(bytes \<Rightarrow> bool) \<Rightarrow> ('s, 'l) config \<Rightarrow> thread \<Rightarrow> bool" where
  "thread_ok A P (Direct q w) \<longleftrightarrow> \<not> coalesces P q"
| "thread_ok A P (Missed q hash i) \<longleftrightarrow> coalesces P q \<and> analyse (libs P) (q_body q) (pol_of P q) = Inr (hash, i)"
| "thread_ok A P (Leading q hash i h) \<longleftrightarrow> coalesces P q \<and> analyse (libs P) (q_body q) (pol_of P q) = Inr (hash, i)"
| "thread_ok A P (Stranded q hash h) \<longleftrightarrow> \<not> label_ok A P q DecisionForward"
| "thread_ok A P x \<longleftrightarrow> True"

fun thread_request :: "thread \<Rightarrow> request option" where
  "thread_request Absent = None"
| "thread_request (Calling q) = Some q"
| "thread_request (Direct q w) = Some q"
| "thread_request (Missed q hash i) = Some q"
| "thread_request (Leading q hash i h) = Some q"
| "thread_request (Answered q hash h out) = Some q"
| "thread_request (Waiting q hash h) = Some q"
| "thread_request (Stranded q hash h) = Some q"
| "thread_request (Finished q out) = Some q"

text \<open>How far a thread is from its end; every step brings one thread closer.\<close>

fun togo :: "thread \<Rightarrow> nat" where
  "togo (Calling q) = 4"
| "togo (Missed q hash i) = 3"
| "togo (Leading q hash i h) = 2"
| "togo (Direct q w) = 1"
| "togo (Answered q hash h out) = 1"
| "togo (Waiting q hash h) = 1"
| "togo _ = 0"

lemma cstep_thread:
  assumes "cstep A P c c'"
  obtains t x where "thr c' = (thr c)(t := x)" "togo x < togo (thr c t)" "thread_request x = thread_request (thr c t)"
    "thread_ok A P (thr c t) \<Longrightarrow> thread_ok A P x"
proof -
  let ?ok = "\<lambda>t x. thr c' = (thr c)(t := x) \<and> togo x < togo (thr c t) \<and> thread_request x = thread_request (thr c t) \<and>
    (thread_ok A P (thr c t) \<longrightarrow> thread_ok A P x)"
  have "\<exists>t x. ?ok t x"
    using assms
  proof cases
    case (goes_direct t q w S)
    then have "?ok t (Direct q w)" using Apply_uncoalesced(2) [OF goes_direct(3)] by simp
    then show ?thesis by blast
  next
    case (misses t q fwd hash intent b S)
    then have "?ok t (Missed q hash intent)" using prefix_coalesced(2) [OF misses(3,4)] by simp
    then show ?thesis by blast
  next
    case (leads t q hash intent h S)
    then have "?ok t (Leading q hash intent h)" by simp
    then show ?thesis by blast
  next
    case (strands t q hash intent h S)
    then have "?ok t (Stranded q hash h)" by simp
    then show ?thesis by blast
  qed (simp, rule exI, rule exI, rule conjI, rule refl, simp)+
  then show ?thesis using that by blast
qed

lemma cancels_thread:
  assumes "cancels A P c c'"
  obtains t x where "thr c' = (thr c)(t := x)" "togo x < togo (thr c t)" "thread_request x = thread_request (thr c t)" "thread_ok A P x"
proof -
  obtain t q out where "thr c' = (thr c)(t := Finished q out)" "togo (thr c t) = 1" "thread_request (thr c t) = Some q"
    using assms by cases auto
  then show ?thesis using that [of t "Finished q out"] by simp
qed

lemma creach_threads: "creach A P c \<Longrightarrow> thread_ok A P (thr c t)"
proof (induction rule: creach.induct)
  case (init T st)
  then have "T t = Absent \<or> (\<exists>q. T t = Calling q)" by blast
  then show ?case by (auto simp: cinit_def)
next
  case (step c c')
  obtain t0 x where u: "thr c' = (thr c)(t0 := x)" and ok: "thread_ok A P (thr c t0) \<Longrightarrow> thread_ok A P x"
    by (rule cstep_thread [OF step.hyps(2)]) blast
  show ?case
  proof (cases "t = t0")
    case True
    then show ?thesis using ok step.IH u by simp
  next
    case False
    then show ?thesis using step.IH u by simp
  qed
next
  case (cancelled c c')
  obtain t0 x where "thr c' = (thr c)(t0 := x)" "thread_ok A P x" by (rule cancels_thread [OF cancelled.hyps(2)]) blast
  then show ?case using cancelled.IH by auto
qed

section \<open>Properties\<close>

text \<open>A call is upstream from the moment its forwarder starts until it returns.\<close>

definition upstream :: "thread \<Rightarrow> request \<Rightarrow> bool" where
  "upstream x q \<longleftrightarrow> (\<exists>hash i h. x = Leading q hash i h) \<or> (\<exists>w. x = Direct q w)"

text \<open>C5. Of the calls that coalesce (mode strict or cache, not in shadow mode) at most one per fingerprint is
  upstream at any moment: whenever such a call is upstream it owns the slot of its fingerprint in the in-flight
  table, every other call that is upstream with the same fingerprint is one that does not coalesce, and a call
  that has missed under this fingerprint cannot become a leader meanwhile: it joins the owner of the slot.\<close>

theorem single_leader:
  assumes "creach accepts P c" "upstream (thr c t) q" "coalesces P q" "analyse (libs P) (q_body q) (pol_of P q) = Inr (hash, intent)"
  shows "\<exists>h. thr c t = Leading q hash intent h \<and> p_inflight (base c) hash = Some h \<and>
    (\<forall>t' q' intent'. t' \<noteq> t \<and> upstream (thr c t') q' \<and> analyse (libs P) (q_body q') (pol_of P q') = Inr (hash, intent') \<longrightarrow>
       \<not> coalesces P q') \<and>
    (\<forall>t' q' intent'. thr c t' = Missed q' hash intent' \<longrightarrow> acquireLeader hash (base c) = ((h, False), base c))"
proof -
  have L: "leaders_ok (p_inflight (base c)) (p_handles (base c)) (p_next (base c)) (thr c)"
    using creach_inv [OF assms(1)] by (simp add: tinv_def)
  have led: "\<exists>h. thr c t' = Leading q' hash i' h \<and> p_inflight (base c) hash = Some h"
    if "upstream (thr c t') q'" "coalesces P q'" "analyse (libs P) (q_body q') (pol_of P q') = Inr (hash, i')" for t' q' i'
    using that creach_threads [OF assms(1), of t'] leaders_okD(4) [OF L, of t' hash] by (auto simp: upstream_def)
  obtain h where h: "thr c t = Leading q hash intent h" "p_inflight (base c) hash = Some h" using led [OF assms(2-4)] by blast
  moreover have "t' = t" if x: "upstream (thr c t') q'" "coalesces P q'"
      "analyse (libs P) (q_body q') (pol_of P q') = Inr (hash, i')" for t' q' i'
    using led [OF x] h leaders_okD(6) [OF L, of t' hash h t hash] by auto
  ultimately show ?thesis by (auto simp: acquireLeader_def)
qed

text \<open>A leader that panicked on its label keeps the slot, and its followers are blocked.\<close>

theorem stranded_blocks:
  assumes "creach accepts P c" "thr c t = Stranded q hash h" "thr c t' = Waiting q' hash h"
  shows "p_inflight (base c) hash = Some h \<and> waitForLeader None pc (p_handles (base c) h) = Blocked"
proof -
  have L: "leaders_ok (p_inflight (base c)) (p_handles (base c)) (p_next (base c)) (thr c)"
    using creach_inv [OF assms(1)] by (simp add: tinv_def)
  have "p_inflight (base c) hash = Some h" using leaders_okD(4) [OF L, of t hash h] assms(2) by simp
  then show ?thesis using leaders_okD(2) [OF L] by (auto simp: waitForLeader_def)
qed

text \<open>C14. A follower gets what its leader got. When the wait ends because the leader is done, there is a
  call that led under this handle: if it succeeded, the follower returns its result marked as a
  coalesced replay; if it failed or panicked, the follower returns an error that wraps the failure.
  It never returns an empty success.\<close>

theorem follower_gets_leader:
  assumes "creach accepts P c" "thr c t = Waiting q hash h" "h_done (p_handles (base c) h)"
    "waitForLeader None pc (p_handles (base c) h) = out"
  shows "\<exists>ql lout. settled c h = Some (ql, lout) \<and>
    (case lout of
       Ret r None \<Rightarrow> out = Ret (r\<lparr>r_Decision := DecisionReplay, r_Match := \<lparr>Kind = ''coalesced'', Similarity = f32_1\<rparr>\<rparr>) None
     | Ret r (Some e) \<Rightarrow> out = Ret zero_result (Some (Wrapped ''leader failed'' e))
     | Panic m \<Rightarrow> out = Ret zero_result (Some (Wrapped ''leader failed'' (Wrapped ''forward panic'' (ErrMsg m))))
     | Blocked \<Rightarrow> False)"
proof -
  obtain ql lout where s: "settled c h = Some (ql, lout)" "handle_of lout (p_handles (base c) h)"
    using creach_inv [OF assms(1)] assms(3) settled_okD [of "p_handles (base c)" "p_next (base c)" "settled c" h]
    by (auto simp: tinv_def)
  then show ?thesis
    using assms(3,4) by (auto simp: handle_of_def waitForLeader_def Let_def split: outcome.splits option.splits)
qed

text \<open>The work left in \<open>n\<close> calls.\<close>

definition work :: "nat \<Rightarrow> ('s, 'l) cstate \<Rightarrow> nat" where
  "work n c = (\<Sum>t < n. togo (thr c t))"

lemma work_decreases:
  assumes "cstep A P c c' \<or> cancels A P c c'" "\<And>t. n \<le> t \<Longrightarrow> togo (thr c t) = 0"
  shows "work n c' < work n c" "n \<le> t \<Longrightarrow> togo (thr c' t) = 0"
proof -
  obtain t0 x where u: "thr c' = (thr c)(t0 := x)" "togo x < togo (thr c t0)"
    using assms(1) cstep_thread [of A P c c'] cancels_thread [of A P c c'] by metis
  have t0: "t0 < n" using u(2) assms(2) [of t0] by (cases "n \<le> t0") auto
  show "work n c' < work n c"
    unfolding work_def by (rule sum_strict_mono_ex1) (use u t0 in auto)
  show "togo (thr c' t) = 0" if "n \<le> t" using u(1) t0 assms(2) that by simp
qed

text \<open>A thread that is not finished can step by itself, or waits for a leader that can. No step of the
  environment is needed: a wait ends because its leader is done.\<close>

definition labels_accepted :: "(bytes \<Rightarrow> bool) \<Rightarrow> ('s, 'l) config \<Rightarrow> ('s, 'l) cstate \<Rightarrow> bool" where
  "labels_accepted accepts P c \<longleftrightarrow> (\<forall>t q. thread_request (thr c t) = Some q \<longrightarrow> label_ok accepts P q DecisionForward)"

lemma not_stranded:
  assumes "creach A P c" "labels_accepted A P c"
  shows "thr c t \<noteq> Stranded q hash h"
  using creach_threads [OF assms(1), of t] assms(2) unfolding labels_accepted_def by (metis thread_request.simps(8) thread_ok.simps(4))

lemma holder_steps:
  assumes "creach A P c" "labels_accepted A P c" "holds (thr c t) hash h"
  shows "togo (thr c t) \<noteq> 0" "\<exists>c'. cstep A P c c'"
proof -
  consider q i where "thr c t = Leading q hash i h" | q out where "thr c t = Answered q hash h out"
    using assms(3) not_stranded [OF assms(1,2)] by (auto simp: holds_def)
  then have "togo (thr c t) \<noteq> 0 \<and> (\<exists>c'. cstep A P c c')"
  proof cases
    case (1 q i)
    obtain out S where l: "lead P q hash i (FwdPanics '''') h (base c) = (out, S)" by (metis prod.exhaust)
    show ?thesis using cstep.answers [OF 1 l, of A] 1 by auto
  next
    case (2 q out)
    then show ?thesis using cstep.releases [OF 2, of A P] 2 by auto
  qed
  then show "togo (thr c t) \<noteq> 0" "\<exists>c'. cstep A P c c'" by simp_all
qed

lemma calling_steps:
  assumes "thr c t = Calling q"
  shows "\<exists>c'. cstep A P c c'"
proof (cases "uncoalesced P q (base c)")
  case None
  obtain x S where p: "apply_prefix P q (FwdPanics '''') (base c) = (x, S)" by (metis prod.exhaust)
  then show ?thesis using cstep.ends [OF assms None] cstep.misses [OF assms None] by (cases x) blast+
next
  case (Some ws)
  then show ?thesis using cstep.goes_direct [OF assms] by (cases ws) blast
qed

lemma cstep_enabled:
  assumes "creach A P c" "labels_accepted A P c" "togo (thr c t) \<noteq> 0"
  shows "\<exists>c'. cstep A P c c'"
proof (cases "thr c t")
  case (Calling q)
  then show ?thesis by (rule calling_steps)
next
  case (Direct q w)
  obtain out S where "finish_way P q w (FwdPanics '''') (base c) = (out, S)" by (metis prod.exhaust)
  then show ?thesis using cstep.comes_back [OF Direct] by blast
next
  case (Missed q hash i)
  then have ok: "label_ok A P q DecisionForward" using assms(2) unfolding labels_accepted_def by (metis thread_request.simps(4))
  obtain h l S where a: "acquireLeader hash (base c) = ((h, l), S)" by (metis prod.exhaust)
  show ?thesis
  proof (cases l)
    case True
    with a have "acquireLeader hash (base c) = ((h, True), S)" by simp
    from cstep.leads [OF Missed this ok] show ?thesis by blast
  next
    case False
    with a have "acquireLeader hash (base c) = ((h, False), S)" by simp
    from cstep.follows [OF Missed this] show ?thesis by blast
  qed
next
  case (Waiting q hash h)
  then consider "p_inflight (base c) hash = Some h" | "h_done (p_handles (base c) h)"
    using creach_inv [OF assms(1)] waiters_okD [of _ _ _ "thr c" t q hash h] by (auto simp: tinv_def)
  then show ?thesis
  proof cases
    case 1
    then obtain t' where "holds (thr c t') hash h"
      using creach_inv [OF assms(1)] leaders_okD(3) by (metis tinv_def)
    then show ?thesis by (rule holder_steps(2) [OF assms(1,2)])
  next
    case 2
    let ?out = "waitForLeader None False (p_handles (base c) h)"
    have "?out \<noteq> Blocked" using 2 by (auto simp: waitForLeader_def Let_def split: option.split)
    moreover obtain out S where "record_follow A P q hash '''' ?out (base c) = (out, S)" by (metis prod.exhaust)
    ultimately show ?thesis using cstep.returns [OF Waiting refl] by blast
  qed
qed (use assms(3) holder_steps(2) [OF assms(1,2), of t] in auto)

lemma labels_kept:
  assumes "cstep A P c c'" "labels_accepted A P c"
  shows "labels_accepted A P c'"
proof -
  obtain t0 x where "thr c' = (thr c)(t0 := x)" "thread_request x = thread_request (thr c t0)"
    by (rule cstep_thread [OF assms(1)]) blast
  then show ?thesis using assms(2) by (simp add: labels_accepted_def)
qed

lemma all_finish:
  assumes "creach A P c" "labels_accepted A P c" "\<And>t. n \<le> t \<Longrightarrow> togo (thr c t) = 0"
  shows "\<exists>c'. (cstep A P)\<^sup>*\<^sup>* c c' \<and> (\<forall>t. togo (thr c' t) = 0)"
  using assms
proof (induction "work n c" arbitrary: c rule: less_induct)
  case less
  show ?case
  proof (cases "\<forall>t. togo (thr c t) = 0")
    case False
    then obtain c1 where s: "cstep A P c c1" using cstep_enabled [OF less.prems(1,2)] by blast
    note w = work_decreases [OF disjI1 [OF s] less.prems(3)]
    obtain c' where "(cstep A P)\<^sup>*\<^sup>* c1 c'" "\<forall>t. togo (thr c' t) = 0"
      using less.hyps [OF w(1) creach.step [OF less.prems(1) s] labels_kept [OF s less.prems(2)]] w(2) by blast
    then show ?thesis using s by (meson converse_rtranclp_into_rtranclp)
  qed auto
qed

lemma slots_free:
  assumes "creach A P c" "labels_accepted A P c" "\<forall>t. togo (thr c t) = 0"
  shows "p_inflight (base c) = Map.empty"
proof
  fix hash
  have L: "leaders_ok (p_inflight (base c)) (p_handles (base c)) (p_next (base c)) (thr c)"
    using creach_inv [OF assms(1)] by (simp add: tinv_def)
  show "p_inflight (base c) hash = None"
    using leaders_okD(3) [OF L, of hash] holder_steps(1) [OF assms(1,2)] assms(3) by (cases "p_inflight (base c) hash") auto
qed

text \<open>C13. Every schedule of finitely many calls ends with all of them returned and all slots released, whether
  leaders succeed, fail or panic, provided the upstream calls in progress return and the metrics accept the
  labels of the calls. As long as a call has not returned, some step of the program is possible without any
  context being cancelled (a follower can only go on because its leader is done); every step, and also every
  cancellation, brings the system closer to the end, so no schedule goes on for ever; and once all calls have
  returned no fingerprint is in flight.\<close>

theorem coalescing_terminates:
  assumes "creach accepts P c" "labels_accepted accepts P c" "\<And>t. n \<le> t \<Longrightarrow> togo (thr c t) = 0"
  shows "((\<exists>t. togo (thr c t) \<noteq> 0) \<longrightarrow> (\<exists>c'. cstep accepts P c c')) \<and>
    (\<forall>c'. cstep accepts P c c' \<or> cancels accepts P c c' \<longrightarrow> work n c' < work n c) \<and>
    ((\<forall>t. togo (thr c t) = 0) \<longrightarrow> p_inflight (base c) = Map.empty) \<and>
    (\<exists>c'. (cstep accepts P)\<^sup>*\<^sup>* c c' \<and> (\<forall>t. togo (thr c' t) = 0))"
  using cstep_enabled [OF assms(1,2)] work_decreases(1) [OF _ assms(3)] slots_free [OF assms(1,2)] all_finish [OF assms] by blast

section \<open>Schedules\<close>

text \<open>A thread that missed takes the lead and gets its answer.\<close>

lemma lead_runs:
  assumes t: "thr c t = Missed q hash i" and free: "p_inflight (base c) hash = None" and ok: "label_ok A P q DecisionForward"
  obtains c' where "(cstep A P)\<^sup>*\<^sup>* c c'"
    "thr c' = (thr c)(t := Answered q hash (p_next (base c)) (Ret (forwarded hash st rs) None))"
    "p_calls (base c') = p_calls (base c) @ one_call q"
    "p_inflight (base c') = (p_inflight (base c))(hash \<mapsto> p_next (base c))" "settled c' = settled c"
proof -
  let ?h = "p_next (base c)" and ?f = "FwdReturns st rs None"
  obtain S where a: "acquireLeader hash (base c) = ((?h, True), S)" using free by (simp add: acquireLeader_def Let_def)
  let ?S = "log_decision P q (pol_of P q) DecisionForward no_match hash '''' S"
  let ?c1 = "c\<lparr>base := ?S, thr := (thr c)(t := Leading q hash i ?h)\<rparr>"
  have s1: "cstep A P c ?c1" by (rule cstep.leads [OF t a ok])
  obtain out S' where l: "lead P q hash i ?f ?h ?S = (out, S')" by (metis prod.exhaust)
  have d: "lead P q hash i ?f ?h ?S = doForward P q hash i (pol_of P q) ?f (Some ?h) ?S"
    using doForward_out [of P q hash i "pol_of P q" ?f "Some ?h" ?S] by (auto simp: lead_def split: prod.split outcome.split)
  have out: "out = Ret (forwarded hash st rs) None"
    using doForward_out [of P q hash i "pol_of P q" ?f "Some ?h" ?S] unfolding d [symmetric] l by simp
  have S: "p_calls S = p_calls (base c)" "p_inflight S = (p_inflight (base c))(hash \<mapsto> ?h)"
    using acquireLeader_frame(1) [of hash "base c"] acquireLeader_table [OF a] a by simp_all
  have S': "p_calls S' = p_calls (base c) @ one_call q" "p_inflight S' = (p_inflight (base c))(hash \<mapsto> ?h)"
    using doForward_calls [of P q hash i "pol_of P q" ?f "Some ?h" ?S] doForward_frame(1) [of P q hash i "pol_of P q" ?f "Some ?h" ?S] S
    unfolding d [symmetric] l by simp_all
  let ?c2 = "?c1\<lparr>base := S', thr := (thr ?c1)(t := Answered q hash ?h out)\<rparr>"
  have "cstep A P ?c1 ?c2" by (rule cstep.answers [of _ _ q hash i]) (use l in simp_all)
  then have "(cstep A P)\<^sup>*\<^sup>* c ?c2" using s1 by (meson converse_rtranclp_into_rtranclp rtranclp.rtrancl_refl)
  then show ?thesis using that [of ?c2] S' out by simp
qed

lemma creach_star: "(cstep A P)\<^sup>*\<^sup>* c c' \<Longrightarrow> creach A P c \<Longrightarrow> creach A P c'"
  by (induction rule: rtranclp_induct) (auto intro: creach.step)

text \<open>Two calls with the same fingerprint that both looked before either was answered, for two tools or
  the same one.\<close>

definition demo_multi :: "(Memory, unit) config" where
  "demo_multi = demo_pipeline\<lparr>policies := \<lparr>Defaults = demo_policy, Tools = Map.empty\<rparr>\<rparr>"

lemma demo_label:
  assumes "valid_utf8 tool"
  shows "label_ok valid_utf8 demo_multi (demo_request\<lparr>q_tool := tool\<rparr>) DecisionForward"
  using assms by (simp add: label_ok_def demo_multi_def For_def demo_policy_def mode_defs ascii_valid)

lemma demo_label_send: "label_ok valid_utf8 demo_multi demo_request DecisionForward"
  using demo_label [of "''send''"] by (simp add: label_ok_def ascii_valid)

definition demo_threads :: "bytes \<Rightarrow> nat \<Rightarrow> thread" where
  "demo_threads tool t = (if t = 0 then Calling demo_request else if t = 1 then Calling (demo_request\<lparr>q_tool := tool\<rparr>) else Absent)"

lemma demo_multi_coalesced:
  assumes "q = demo_request\<lparr>q_tool := tool\<rparr>" "p_store S = NewMemory"
  shows "uncoalesced demo_multi q S = None"
proof -
  have P: "\<not> shadow demo_multi" and pol: "pol_of demo_multi q = demo_policy"
    by (simp_all add: demo_multi_def demo_pipeline_def For_def)
  have a: "admit demo_multi q S = (AdmOk, S)"
    unfolding admit_def pol Let_def
    by (simp add: limiterFor_def demo_policy_def zero_policy_def mode_defs AllowsCaller_def)
  show ?thesis unfolding uncoalesced_def a pol using P by (simp add: split_def Let_def split: sum.split)
qed

lemma demo_multi_prefix:
  assumes an: "analyse (libs demo_pipeline) '''' demo_policy = Inr (hash, '''')"
    and q: "q = demo_request\<lparr>q_tool := tool\<rparr>" and S: "p_store S = NewMemory"
  shows "apply_prefix demo_multi q fwd S = (GoForward hash '''' True, S)"
proof -
  have P: "libs demo_multi = libs demo_pipeline" "store demo_multi = Memory_ops" "\<not> shadow demo_multi" "embedder demo_multi = None"
    and pol: "pol_of demo_multi q = demo_policy"
    by (simp_all add: demo_multi_def demo_pipeline_def For_def)
  have a: "admit demo_multi q S = (AdmOk, S)"
    unfolding admit_def pol Let_def
    by (simp add: limiterFor_def demo_policy_def zero_policy_def mode_defs AllowsCaller_def)
  have "decide demo_multi q hash demo_policy '''' S = ((DecisionForward, zero_entry, no_match), S)"
    using S demo_policy_simps(1)
    by (auto simp: decide_def Let_def P mem_defs NewMemory_def q caching_def mode_defs)
  then show ?thesis
    using prefix_ok [OF a, of hash "''''" DecisionForward zero_entry no_match S fwd] an P(1,3) q pol by (simp add: Let_def)
qed

lemma demo_both_miss:
  obtains hash c where "creach valid_utf8 demo_multi c" "thr c 0 = Missed demo_request hash ''''"
    "thr c 1 = Missed (demo_request\<lparr>q_tool := tool\<rparr>) hash ''''" "\<And>t. 2 \<le> t \<Longrightarrow> thr c t = Absent"
    "base c = New_pipeline NewMemory" "settled c = Map.empty"
proof -
  let ?q0 = demo_request and ?q1 = "demo_request\<lparr>q_tool := tool\<rparr>" and ?P = demo_multi and ?f = "FwdPanics ''''"
  let ?c = "cinit NewMemory (demo_threads tool) :: (Memory, unit) cstate"
  obtain hash where an: "analyse (libs demo_pipeline) '''' demo_policy = Inr (hash, '''')" by (rule demo_analyse)
  have b: "base ?c = New_pipeline NewMemory" "p_store (New_pipeline NewMemory) = NewMemory"
    by (simp_all add: cinit_def New_pipeline_def)
  have r0: "creach valid_utf8 ?P ?c" by (rule creach.init) (simp add: demo_threads_def)
  have q0: "?q0 = ?q0\<lparr>q_tool := ''send''\<rparr>" by (simp add: demo_request_def)
  have t0: "thr ?c 0 = Calling ?q0" by (simp add: cinit_def demo_threads_def)
  have s0: "cstep valid_utf8 ?P ?c (?c\<lparr>base := base ?c, thr := (thr ?c)(0 := Missed ?q0 hash '''')\<rparr>)" (is "cstep _ _ _ ?d")
    by (rule cstep.misses [OF t0 demo_multi_coalesced [OF q0], of ?f]) (use demo_multi_prefix [OF an q0] b in simp_all)
  have t1: "thr ?d 1 = Calling ?q1" by (simp add: cinit_def demo_threads_def)
  have s1: "cstep valid_utf8 ?P ?d (?d\<lparr>base := base ?d, thr := (thr ?d)(1 := Missed ?q1 hash '''')\<rparr>)" (is "cstep _ _ _ ?e")
    by (rule cstep.misses [OF t1 demo_multi_coalesced [OF refl], of ?f]) (use demo_multi_prefix [OF an refl] b in simp_all)
  have "creach valid_utf8 ?P ?e" by (rule creach.step [OF creach.step [OF r0 s0] s1])
  then show ?thesis by (rule that [of _ hash]) (simp_all add: cinit_def demo_threads_def)
qed

text \<open>Coalescing does not cover every duplicate. A call that found the cache empty, but enters the
  in-flight table only after a concurrent equal call has come and gone, becomes a leader itself and
  reaches the upstream a second time although the first answer is already cached: there is a schedule
  of two identical calls with two upstream calls.\<close>

theorem reforward_race:
  "\<exists>c hash. creach valid_utf8 demo_multi c \<and> thr c 0 = Finished demo_request (Ret (forwarded hash 200 ''ok'') None) \<and>
     p_calls (base c) = [(''send'', ''''), (''send'', '''')]"
proof -
  obtain hash c where c: "creach valid_utf8 demo_multi c" "thr c 0 = Missed demo_request hash ''''"
    "thr c 1 = Missed (demo_request\<lparr>q_tool := ''send''\<rparr>) hash ''''" "base c = New_pipeline NewMemory"
    by (rule demo_both_miss)
  have n: "p_inflight (base c) hash = None" "p_calls (base c) = []" by (simp_all add: c(4) New_pipeline_def)
  obtain d where d: "(cstep valid_utf8 demo_multi)\<^sup>*\<^sup>* c d"
    "thr d = (thr c)(0 := Answered demo_request hash (p_next (base c)) (Ret (forwarded hash 200 ''ok'') None))"
    "p_calls (base d) = p_calls (base c) @ one_call demo_request"
    "p_inflight (base d) = (p_inflight (base c))(hash \<mapsto> p_next (base c))"
    by (rule lead_runs [OF c(2) n(1) demo_label_send, of 200 "''ok''"])
  let ?h = "p_next (base c)"
  have t0: "thr d 0 = Answered demo_request hash ?h (Ret (forwarded hash 200 ''ok'') None)" using d(2) by simp
  let ?e = "d\<lparr>base := releaseLeader hash ?h (base d), thr := (thr d)(0 := Finished demo_request (Ret (forwarded hash 200 ''ok'') None)),
    settled := (settled d)(?h \<mapsto> (demo_request, Ret (forwarded hash 200 ''ok'') None))\<rparr>"
  have e: "cstep valid_utf8 demo_multi d ?e" by (rule cstep.releases [OF t0])
  have t1: "thr ?e 1 = Missed (demo_request\<lparr>q_tool := ''send''\<rparr>) hash ''''" using d(2) c(3) by simp
  have free: "p_inflight (base ?e) hash = None" using d(4) by (simp add: releaseLeader_def)
  obtain f where f: "(cstep valid_utf8 demo_multi)\<^sup>*\<^sup>* ?e f" "thr f = (thr ?e)(1 := Answered (demo_request\<lparr>q_tool := ''send''\<rparr>) hash (p_next (base ?e)) (Ret (forwarded hash 200 ''ok'') None))"
    "p_calls (base f) = p_calls (base ?e) @ one_call (demo_request\<lparr>q_tool := ''send''\<rparr>)"
    by (rule lead_runs [OF t1 free demo_label, of 200 "''ok''"]) (simp add: ascii_valid)
  have "creach valid_utf8 demo_multi f" using creach_star c(1) d(1) e f(1) by (meson creach.step)
  moreover have "p_calls (base f) = [(''send'', ''''), (''send'', '''')]" using f(3) d(3) n(2) by (simp add: one_call_def)
  ultimately show ?thesis using f(2) by (intro exI [of _ f] exI [of _ hash]) simp
qed

text \<open>The second call joins the first as a follower and waits until the first is done.\<close>

lemma demo_follower:
  obtains hash c h where "creach valid_utf8 demo_multi c" "thr c 1 = Waiting (demo_request\<lparr>q_tool := tool\<rparr>) hash h"
    "h_done (p_handles (base c) h)" "settled c h = Some (demo_request, Ret (forwarded hash 200 ''sent'') None)"
    "p_calls (base c) = [(''send'', '''')]"
proof -
  let ?q1 = "demo_request\<lparr>q_tool := tool\<rparr>" and ?out = "\<lambda>hash. Ret (forwarded hash 200 ''sent'') None"
  obtain hash c where c: "creach valid_utf8 demo_multi c" "thr c 0 = Missed demo_request hash ''''" "thr c 1 = Missed ?q1 hash ''''"
    "base c = New_pipeline NewMemory" by (rule demo_both_miss)
  let ?h = "p_next (base c)"
  have n: "p_inflight (base c) hash = None" "p_calls (base c) = []" by (simp_all add: c(4) New_pipeline_def)
  obtain d where d: "(cstep valid_utf8 demo_multi)\<^sup>*\<^sup>* c d" "thr d = (thr c)(0 := Answered demo_request hash ?h (?out hash))"
    "p_calls (base d) = p_calls (base c) @ one_call demo_request" "p_inflight (base d) = (p_inflight (base c))(hash \<mapsto> ?h)"
    by (rule lead_runs [OF c(2) n(1) demo_label_send, of 200 "''sent''"])
  have td: "thr d 1 = Missed ?q1 hash ''''" using d(2) c(3) by simp
  have al: "acquireLeader hash (base d) = ((?h, False), base d)" using d(4) by (simp add: acquireLeader_def)
  let ?e = "d\<lparr>base := base d, thr := (thr d)(1 := Waiting ?q1 hash ?h)\<rparr>"
  have e: "cstep valid_utf8 demo_multi d ?e" by (rule cstep.follows [OF td al])
  have te: "thr ?e 0 = Answered demo_request hash ?h (?out hash)" using d(2) by simp
  let ?f = "?e\<lparr>base := releaseLeader hash ?h (base ?e), thr := (thr ?e)(0 := Finished demo_request (?out hash)),
    settled := (settled ?e)(?h \<mapsto> (demo_request, ?out hash))\<rparr>"
  have f: "cstep valid_utf8 demo_multi ?e ?f" by (rule cstep.releases [OF te])
  have "creach valid_utf8 demo_multi ?f" using creach_star [OF d(1) c(1)] e f by (meson creach.step)
  then show ?thesis
    by (rule that [of _ hash ?h]) (use d(3) n(2) in \<open>simp_all add: releaseLeader_def one_call_def\<close>)
qed

text \<open>The in-flight table is keyed by the fingerprint alone, and the fingerprint does not contain the
  tool. So a call of one tool can be answered with the response of another: there is a schedule in
  which a call of the tool \<open>delete\<close> returns, as a success, the body that the tool \<open>send\<close> produced, and
  \<open>delete\<close> is never called.\<close>

theorem cross_tool_coalescing:
  "\<exists>c hash. creach valid_utf8 demo_multi c \<and> p_calls (base c) = [(''send'', '''')] \<and>
     thr c 1 = Finished (demo_request\<lparr>q_tool := ''delete''\<rparr>)
       (Ret \<lparr>r_Decision = DecisionReplay, r_Match = \<lparr>Kind = ''coalesced'', Similarity = f32_1\<rparr>, r_Hash = hash,
             r_StatusCode = 200, r_Body = ''sent''\<rparr> None)"
proof -
  let ?q1 = "demo_request\<lparr>q_tool := ''delete''\<rparr>"
  obtain hash c h where c: "creach valid_utf8 demo_multi c" "thr c 1 = Waiting ?q1 hash h" "h_done (p_handles (base c) h)"
    "settled c h = Some (demo_request, Ret (forwarded hash 200 ''sent'') None)" "p_calls (base c) = [(''send'', '''')]"
    by (rule demo_follower)
  have lab: "label_ok valid_utf8 demo_multi ?q1 DecisionReplay"
    using demo_label [of "''delete''"] by (simp add: label_ok_def ascii_valid)
  have "handle_of (Ret (forwarded hash 200 ''sent'') None) (p_handles (base c) h)"
    using creach_inv [OF c(1)] c(3,4) settled_okD [of "p_handles (base c)" "p_next (base c)" "settled c" h] by (simp add: tinv_def)
  then have hd: "h_result (p_handles (base c) h) = forwarded hash 200 ''sent''" "h_err (p_handles (base c) h) = None"
    by (simp_all add: handle_of_def)
  let ?r = "Ret ((forwarded hash 200 ''sent'')\<lparr>r_Decision := DecisionReplay, r_Match := \<lparr>Kind = ''coalesced'', Similarity = f32_1\<rparr>\<rparr>) None"
  have w: "waitForLeader None False (p_handles (base c) h) = ?r" using c(3) hd by (simp add: waitForLeader_def)
  let ?g = "c\<lparr>base := follow demo_multi ?q1 hash (pol_of demo_multi ?q1) ?r (base c), thr := (thr c)(1 := Finished ?q1 ?r)\<rparr>"
  have "cstep valid_utf8 demo_multi c ?g" by (rule cstep.returns [OF c(2) w]) (use lab in \<open>simp_all add: record_follow_def\<close>)
  then have "creach valid_utf8 demo_multi ?g" using c(1) by (rule creach.step [rotated])
  moreover have "p_calls (base ?g) = [(''send'', '''')]" using c(5) by simp
  moreover have "thr ?g 1 = Finished ?q1 ?r" by simp
  ultimately show ?thesis
    by (intro exI [of _ ?g] exI [of _ hash]) (simp add: forwarded_def zero_result_def)
qed

section \<open>Instances\<close>

text \<open>The first caller is upstream, the second has missed: it will join.\<close>

theorem single_leader_witness:
  "\<exists>c hash h. creach valid_utf8 demo_multi c \<and> thr c 0 = Leading demo_request hash '''' h \<and>
     thr c 1 = Missed (demo_request\<lparr>q_tool := ''delete''\<rparr>) hash '''' \<and>
     p_inflight (base c) hash = Some h \<and> acquireLeader hash (base c) = ((h, False), base c)"
proof -
  obtain hash c where c: "creach valid_utf8 demo_multi c" "thr c 0 = Missed demo_request hash ''''"
    "thr c 1 = Missed (demo_request\<lparr>q_tool := ''delete''\<rparr>) hash ''''" "base c = New_pipeline NewMemory"
    by (rule demo_both_miss)
  obtain S where a: "acquireLeader hash (base c) = ((p_next (base c), True), S)"
    by (simp add: c(4) New_pipeline_def acquireLeader_def Let_def)
  let ?d = "c\<lparr>base := log_decision demo_multi demo_request (pol_of demo_multi demo_request) DecisionForward no_match hash '''' S,
    thr := (thr c)(0 := Leading demo_request hash '''' (p_next (base c)))\<rparr>"
  have r: "creach valid_utf8 demo_multi ?d" by (rule creach.step [OF c(1) cstep.leads [OF c(2) a demo_label_send]])
  have t0: "thr ?d 0 = Leading demo_request hash '''' (p_next (base c))"
    and t1: "thr ?d 1 = Missed (demo_request\<lparr>q_tool := ''delete''\<rparr>) hash ''''" using c(3) by simp_all
  have u: "upstream (thr ?d 0) demo_request" using t0 by (simp add: upstream_def)
  have co: "coalesces demo_multi demo_request" "analyse (libs demo_multi) (q_body demo_request) (pol_of demo_multi demo_request) = Inr (hash, '''')"
    using creach_threads [OF r, of 0] t0 by simp_all
  obtain h where h: "thr ?d 0 = Leading demo_request hash '''' h" "p_inflight (base ?d) hash = Some h"
    "\<forall>t' q' intent'. thr ?d t' = Missed q' hash intent' \<longrightarrow> acquireLeader hash (base ?d) = ((h, False), base ?d)"
    using single_leader [OF r u co] by blast
  have "acquireLeader hash (base ?d) = ((h, False), base ?d)" using h(3) t1 by blast
  with r h(1,2) t1 show ?thesis by (intro exI [of _ ?d] exI [of _ hash] exI [of _ h]) simp
qed

theorem follower_gets_leader_witness:
  "\<exists>c h hash. thr c 1 = Waiting (demo_request\<lparr>q_tool := ''send''\<rparr>) hash h \<and> creach valid_utf8 demo_multi c \<and>
     (\<exists>r. waitForLeader None False (p_handles (base c) h) = Ret r None \<and> r_Body r = ''sent'')"
proof -
  obtain hash c h where c: "creach valid_utf8 demo_multi c" "thr c 1 = Waiting (demo_request\<lparr>q_tool := ''send''\<rparr>) hash h"
    "h_done (p_handles (base c) h)" "settled c h = Some (demo_request, Ret (forwarded hash 200 ''sent'') None)"
    by (rule demo_follower)
  from follower_gets_leader [OF c(1-3) refl, of False] c show ?thesis by fastforce
qed

theorem coalescing_terminates_witness:
  "\<exists>c'. (cstep valid_utf8 demo_multi)\<^sup>*\<^sup>* (cinit NewMemory (demo_threads ''send'')) c' \<and> (\<forall>t. togo (thr c' t) = 0)"
proof -
  let ?c = "cinit NewMemory (demo_threads ''send'') :: (Memory, unit) cstate"
  have "creach valid_utf8 demo_multi ?c" by (rule creach.init) (simp add: demo_threads_def)
  moreover have "labels_accepted valid_utf8 demo_multi ?c"
    using demo_label_send demo_label [of "''send''"] by (auto simp: labels_accepted_def cinit_def demo_threads_def ascii_valid)
  moreover have "togo (thr ?c t) = 0" if "2 \<le> t" for t
    using that by (simp add: cinit_def demo_threads_def)
  ultimately show ?thesis using coalescing_terminates by blast
qed

text \<open>Calls of a tool in mode log_only are not coalesced: equal ones are upstream together.\<close>

definition demo_logging :: "(Memory, unit) config" where
  "demo_logging = demo_pipeline\<lparr>policies := \<lparr>Defaults = demo_policy\<lparr>Mode := ModeLogOnly\<rparr>, Tools = Map.empty\<rparr>\<rparr>"

lemma demo_logging_direct:
  obtains S' w where "uncoalesced demo_logging demo_request S = Some (w, S')"
proof -
  have P: "\<not> shadow demo_logging" "libs demo_logging = libs demo_pipeline"
    and pol: "pol_of demo_logging demo_request = demo_policy\<lparr>Mode := ModeLogOnly\<rparr>"
    by (simp_all add: demo_logging_def demo_pipeline_def For_def)
  have a: "admit demo_logging demo_request S = (AdmOk, S)"
    unfolding admit_def pol Let_def
    by (simp add: limiterFor_def demo_policy_def zero_policy_def mode_defs AllowsCaller_def)
  obtain h where "Exact zero_num (JObj []) = Inr h" using Exact_total [of zero_num "JObj []"] by auto
  then have an: "analyse (libs demo_logging) '''' (demo_policy\<lparr>Mode := ModeLogOnly\<rparr>) = Inr (h, '''')"
    by (simp add: P(2)) (simp add: analyse_def demo_pipeline_def demo_policy_def zero_policy_def)
  have pol': "For (policies demo_logging) ''send'' = demo_policy\<lparr>Mode := ModeLogOnly\<rparr>" using pol by simp
  have c: "\<not> caching (demo_policy\<lparr>Mode := ModeLogOnly\<rparr>)" by (simp add: caching_def mode_defs)
  obtain S2 where d: "decide demo_logging demo_request h (demo_policy\<lparr>Mode := ModeLogOnly\<rparr>) '''' S = ((DecisionForward, zero_entry, no_match), S2)"
    by (simp add: decide_def Let_def split_def)
  show ?thesis
    by (rule that) (simp add: uncoalesced_def a pol' an d P(1) c)
qed

theorem log_only_together:
  "\<exists>c. creach valid_utf8 demo_logging c \<and> upstream (thr c 0) demo_request \<and> upstream (thr c 1) demo_request"
proof -
  let ?c = "cinit NewMemory (\<lambda>t. if t < 2 then Calling demo_request else Absent) :: (Memory, unit) cstate"
  have r: "creach valid_utf8 demo_logging ?c" by (rule creach.init) simp
  obtain S w where w: "uncoalesced demo_logging demo_request (base ?c) = Some (w, S)" by (rule demo_logging_direct)
  have t0: "thr ?c 0 = Calling demo_request" by (simp add: cinit_def)
  let ?d = "?c\<lparr>base := S, thr := (thr ?c)(0 := Direct demo_request w)\<rparr>"
  have d: "creach valid_utf8 demo_logging ?d" by (rule creach.step [OF r cstep.goes_direct [OF t0 w]])
  obtain S' w' where w': "uncoalesced demo_logging demo_request (base ?d) = Some (w', S')" by (rule demo_logging_direct)
  have t1: "thr ?d 1 = Calling demo_request" by (simp add: cinit_def)
  have "creach valid_utf8 demo_logging (?d\<lparr>base := S', thr := (thr ?d)(1 := Direct demo_request w')\<rparr>)"
    by (rule creach.step [OF d cstep.goes_direct [OF t1 w']])
  then show ?thesis
    by (intro exI [of _ "?d\<lparr>base := S', thr := (thr ?d)(1 := Direct demo_request w')\<rparr>"]) (simp add: upstream_def)
qed

end
