(* ===== verification/Collectors.thy ===== *)
theory Collectors
  imports Coalescing Jsonrpc
begin

text \<open>
  \<open>internal/metrics/metrics.go\<close>: the Prometheus collectors, and how \<open>internal/pipeline\<close> feeds them. A counter
  vector counts per tuple of label values; \<open>WithLabelValues\<close> panics when the number of values is not the number of
  labels, or when a value is not a text the library takes (\<open>accepts\<close>, a parameter; valid UTF-8 by the data model of
  Prometheus). The pipeline's state keeps what is counted as lists of events (\<open>m_decisions\<close>, \<open>m_store_errors\<close>,
  \<open>m_latency\<close>); \<open>counted\<close> is what the collectors hold after these events.
\<close>

section \<open>Collectors\<close>

record Opts =
  Namespace :: bytes
  Subsystem :: bytes
  o_Name :: bytes
  o_Help :: bytes

record CounterVec =
  cv_opts :: Opts
  cv_labels :: "bytes list"
  cv_values :: "bytes list \<rightharpoonup> nat"

record HistogramVec =
  hv_opts :: Opts
  hv_labels :: "bytes list"
  hv_values :: "bytes list \<rightharpoonup> duration list"

record collectors =
  Registry :: "bytes list"        \<comment> \<open>the full names registered\<close>
  Decisions :: CounterVec
  UpstreamLatency :: HistogramVec
  StoreErrors :: CounterVec

definition NewCounterVec :: "Opts \<Rightarrow> bytes list \<Rightarrow> CounterVec" where
  "NewCounterVec opts labels = \<lparr>cv_opts = opts, cv_labels = labels, cv_values = Map.empty\<rparr>"

definition NewHistogramVec :: "Opts \<Rightarrow> bytes list \<Rightarrow> HistogramVec" where
  "NewHistogramVec opts labels = \<lparr>hv_opts = opts, hv_labels = labels, hv_values = Map.empty\<rparr>"

text \<open>\<open>BuildFQName\<close>: the parts that are not empty, joined by an underscore.\<close>

definition fq_name :: "Opts \<Rightarrow> bytes" where
  "fq_name opts =
     (if o_Name opts = '''' then ''''
      else concat (map (\<lambda>p. p @ ''_'') (filter (\<lambda>p. p \<noteq> '''') [Namespace opts, Subsystem opts])) @ o_Name opts)"

text \<open>\<open>MustRegister\<close> panics on a name that is taken.\<close>

fun MustRegister :: "bytes list \<Rightarrow> bytes list \<Rightarrow> bytes list option" where
  "MustRegister reg [] = Some reg"
| "MustRegister reg (n # ns) = (if n \<in> set reg then None else MustRegister (reg @ [n]) ns)"

definition decisions_vec :: CounterVec where
  "decisions_vec = NewCounterVec \<lparr>Namespace = ''potent'', Subsystem = ''proxy'', o_Name = ''decisions_total'',
     o_Help = ''Count of policy decisions partitioned by tool, mode, and outcome.''\<rparr> [''tool'', ''mode'', ''decision'']"

definition latency_vec :: HistogramVec where
  "latency_vec = NewHistogramVec \<lparr>Namespace = ''potent'', Subsystem = ''proxy'', o_Name = ''upstream_latency_seconds'',
     o_Help = ''Latency of forwarded calls to the upstream tool server.''\<rparr> [''tool'']"

definition errors_vec :: CounterVec where
  "errors_vec = NewCounterVec \<lparr>Namespace = ''potent'', Subsystem = ''store'', o_Name = ''errors_total'',
     o_Help = ''Errors returned by the persistence layer, partitioned by operation.''\<rparr> [''op'']"

definition metrics_New :: "bytes list option \<Rightarrow> collectors option" where
  "metrics_New reg0 =
     (let reg = (case reg0 of None \<Rightarrow> [] | Some r \<Rightarrow> r) in
      case MustRegister reg [fq_name (cv_opts decisions_vec), fq_name (hv_opts latency_vec), fq_name (cv_opts errors_vec)] of
        None \<Rightarrow> None
      | Some names \<Rightarrow>
          Some \<lparr>Registry = names, Decisions = decisions_vec, UpstreamLatency = latency_vec, StoreErrors = errors_vec\<rparr>)"

text \<open>\<open>WithLabelValues(vals...).Inc()\<close> and \<open>.Observe(d)\<close>; \<open>None\<close> is a panic.\<close>

definition Inc :: "(bytes \<Rightarrow> bool) \<Rightarrow> CounterVec \<Rightarrow> bytes list \<Rightarrow> CounterVec option" where
  "Inc accepts v vals =
     (if length vals = length (cv_labels v) \<and> list_all accepts vals
      then Some (v\<lparr>cv_values := (cv_values v)(vals \<mapsto> (case cv_values v vals of None \<Rightarrow> 1 | Some n \<Rightarrow> n + 1))\<rparr>) else None)"

definition Observe :: "(bytes \<Rightarrow> bool) \<Rightarrow> HistogramVec \<Rightarrow> bytes list \<Rightarrow> duration \<Rightarrow> HistogramVec option" where
  "Observe accepts v vals d =
     (if length vals = length (hv_labels v) \<and> list_all accepts vals
      then Some (v\<lparr>hv_values := (hv_values v)(vals \<mapsto> (case hv_values v vals of None \<Rightarrow> [d] | Some ds \<Rightarrow> ds @ [d]))\<rparr>) else None)"

text \<open>The calls the pipeline makes: \<open>recordDecision\<close>, \<open>recordStoreError\<close> and \<open>recordUpstreamLatency\<close>.\<close>

definition inc_decision :: "(bytes \<Rightarrow> bool) \<Rightarrow> collectors \<Rightarrow> bytes \<times> bytes \<times> bytes \<Rightarrow> collectors option" where
  "inc_decision accepts m = (\<lambda>(tool, mode, d). map_option (\<lambda>v. m\<lparr>Decisions := v\<rparr>) (Inc accepts (Decisions m) [tool, mode, d]))"

definition inc_store_error :: "(bytes \<Rightarrow> bool) \<Rightarrow> collectors \<Rightarrow> bytes \<Rightarrow> collectors option" where
  "inc_store_error accepts m op = map_option (\<lambda>v. m\<lparr>StoreErrors := v\<rparr>) (Inc accepts (StoreErrors m) [op])"

definition observe_latency :: "(bytes \<Rightarrow> bool) \<Rightarrow> collectors \<Rightarrow> bytes \<times> duration \<Rightarrow> collectors option" where
  "observe_latency accepts m = (\<lambda>(tool, d). map_option (\<lambda>v. m\<lparr>UpstreamLatency := v\<rparr>) (Observe accepts (UpstreamLatency m) [tool] d))"

fun fold_opt :: "('m \<Rightarrow> 'e \<Rightarrow> 'm option) \<Rightarrow> 'm \<Rightarrow> 'e list \<Rightarrow> 'm option" where
  "fold_opt f m [] = Some m"
| "fold_opt f m (e # es) = Option.bind (f m e) (\<lambda>m'. fold_opt f m' es)"

definition counted :: "(bytes \<Rightarrow> bool) \<Rightarrow> collectors \<Rightarrow> ('s, 'l) pstate \<Rightarrow> collectors option" where
  "counted accepts m S =
     Option.bind (fold_opt (inc_decision accepts) m (m_decisions S))
       (\<lambda>m1. Option.bind (fold_opt (inc_store_error accepts) m1 (m_store_errors S))
          (\<lambda>m2. fold_opt (observe_latency accepts) m2 (m_latency S)))"

definition counter :: "CounterVec \<Rightarrow> bytes list \<Rightarrow> nat" where
  "counter v vals = (case cv_values v vals of None \<Rightarrow> 0 | Some n \<Rightarrow> n)"

definition observations :: "HistogramVec \<Rightarrow> bytes list \<Rightarrow> nat" where
  "observations v vals = (case hv_values v vals of None \<Rightarrow> 0 | Some ds \<Rightarrow> length ds)"

section \<open>Counting\<close>

lemma fold_opt_append: "fold_opt f m (xs @ ys) = Option.bind (fold_opt f m xs) (\<lambda>m'. fold_opt f m' ys)"
  by (induction xs arbitrary: m) (simp_all split: bind_split)

lemma Inc_counter:
  assumes "length vals = length (cv_labels v)" "list_all accepts vals"
  shows "\<exists>v'. Inc accepts v vals = Some v' \<and> cv_labels v' = cv_labels v \<and>
    (\<forall>l. counter v' l = counter v l + (if l = vals then 1 else 0))"
  using assms by (auto simp: Inc_def counter_def split: option.split)

lemma decisions_counted:
  assumes "length (cv_labels (Decisions m)) = 3" "\<forall>(t, md, d) \<in> set es. accepts t \<and> accepts md \<and> accepts d"
  shows "\<exists>v. fold_opt (inc_decision accepts) m es = Some (m\<lparr>Decisions := v\<rparr>) \<and>
    (\<forall>t md d. counter v [t, md, d] = counter (Decisions m) [t, md, d] + count_list es (t, md, d))"
  using assms
proof (induction es arbitrary: m)
  case Nil
  then show ?case by (intro exI [of _ "Decisions m"]) simp
next
  case (Cons e es)
  obtain t md d where e: "e = (t, md, d)" by (cases e)
  obtain v where v: "Inc accepts (Decisions m) [t, md, d] = Some v" "cv_labels v = cv_labels (Decisions m)"
      "\<forall>l. counter v l = counter (Decisions m) l + (if l = [t, md, d] then 1 else 0)"
    using Inc_counter [of "[t, md, d]" "Decisions m" accepts] Cons.prems e by auto
  obtain w where "fold_opt (inc_decision accepts) (m\<lparr>Decisions := v\<rparr>) es = Some (m\<lparr>Decisions := w\<rparr>)"
      "\<forall>t md d. counter w [t, md, d] = counter v [t, md, d] + count_list es (t, md, d)"
    using Cons.IH [of "m\<lparr>Decisions := v\<rparr>"] Cons.prems v(2) by auto
  moreover have "inc_decision accepts m e = Some (m\<lparr>Decisions := v\<rparr>)" using v(1) by (simp add: e inc_decision_def)
  ultimately show ?case using v(3) by (intro exI [of _ w]) (auto simp: e)
qed

lemma store_errors_counted:
  assumes "length (cv_labels (StoreErrors m)) = 1" "\<forall>op \<in> set es. accepts op"
  shows "\<exists>v. fold_opt (inc_store_error accepts) m es = Some (m\<lparr>StoreErrors := v\<rparr>) \<and>
    (\<forall>op. counter v [op] = counter (StoreErrors m) [op] + count_list es op)"
  using assms
proof (induction es arbitrary: m)
  case Nil
  then show ?case by (intro exI [of _ "StoreErrors m"]) simp
next
  case (Cons op es)
  obtain v where v: "Inc accepts (StoreErrors m) [op] = Some v" "cv_labels v = cv_labels (StoreErrors m)"
      "\<forall>l. counter v l = counter (StoreErrors m) l + (if l = [op] then 1 else 0)"
    using Inc_counter [of "[op]" "StoreErrors m" accepts] Cons.prems by auto
  obtain w where "fold_opt (inc_store_error accepts) (m\<lparr>StoreErrors := v\<rparr>) es = Some (m\<lparr>StoreErrors := w\<rparr>)"
      "\<forall>op. counter w [op] = counter v [op] + count_list es op"
    using Cons.IH [of "m\<lparr>StoreErrors := v\<rparr>"] Cons.prems v(2) by auto
  moreover have "inc_store_error accepts m op = Some (m\<lparr>StoreErrors := v\<rparr>)" using v(1) by (simp add: inc_store_error_def)
  ultimately show ?case using v(3) by (intro exI [of _ w]) auto
qed

lemma latency_observed:
  assumes "length (hv_labels (UpstreamLatency m)) = 1" "\<forall>(t, d) \<in> set es. accepts t"
  shows "\<exists>v. fold_opt (observe_latency accepts) m es = Some (m\<lparr>UpstreamLatency := v\<rparr>) \<and>
    (\<forall>t. observations v [t] = observations (UpstreamLatency m) [t] + length (filter (\<lambda>e. fst e = t) es))"
  using assms
proof (induction es arbitrary: m)
  case Nil
  then show ?case by (intro exI [of _ "UpstreamLatency m"]) simp
next
  case (Cons e es)
  obtain t d where e: "e = (t, d)" by (cases e)
  obtain v where v: "Observe accepts (UpstreamLatency m) [t] d = Some v" "hv_labels v = hv_labels (UpstreamLatency m)"
      "\<forall>l. observations v l = observations (UpstreamLatency m) l + (if l = [t] then 1 else 0)"
    using Cons.prems e by (auto simp: Observe_def observations_def split: option.split)
  obtain w where "fold_opt (observe_latency accepts) (m\<lparr>UpstreamLatency := v\<rparr>) es = Some (m\<lparr>UpstreamLatency := w\<rparr>)"
      "\<forall>t. observations w [t] = observations v [t] + length (filter (\<lambda>e. fst e = t) es)"
    using Cons.IH [of "m\<lparr>UpstreamLatency := v\<rparr>"] Cons.prems v(2) by auto
  moreover have "observe_latency accepts m e = Some (m\<lparr>UpstreamLatency := v\<rparr>)" using v(1) by (simp add: e observe_latency_def)
  ultimately show ?case using v(3) by (intro exI [of _ w]) (auto simp: e)
qed

section \<open>What the pipeline counts\<close>

text \<open>The key under which an audit record counts: the decision of the policy, also in shadow mode.\<close>

definition audit_key :: "Record \<Rightarrow> bytes \<times> bytes \<times> bytes" where
  "audit_key rec = (a_Tool rec, a_Mode rec, if a_Shadow rec then a_WouldDecision rec else a_Decision rec)"

lemma audit_key_record [simp]: "audit_key (audit_record P sp t m d mt f e) = (t, m, decision_String d)"
  by (cases "shadow P") (simp_all add: audit_key_def)

definition store_ops_counted :: "bytes set" where
  "store_ops_counted = {''get'', ''scan'', ''increment_replay'', ''put''}"

text \<open>The books agree: one counted decision for each audit record, in order, for tools of \<open>T\<close>.\<close>

definition books :: "bytes set \<Rightarrow> bytes set \<Rightarrow> ('s, 'l) pstate \<Rightarrow> bool" where
  "books T M S \<longleftrightarrow> m_decisions S = map audit_key (p_audit S) \<and> set (m_store_errors S) \<subseteq> store_ops_counted \<and>
     fst ` set (m_latency S) \<subseteq> T \<and> audit_key ` set (p_audit S) \<subseteq> T \<times> M \<times> range decision_String"

lemma books_cong:
  "m_decisions S' = m_decisions S \<Longrightarrow> p_audit S' = p_audit S \<Longrightarrow> m_store_errors S' = m_store_errors S \<Longrightarrow>
   m_latency S' = m_latency S \<Longrightarrow> books T M S' = books T M S"
  by (simp add: books_def)

lemma books_frame [simp]:
  "books T M (S\<lparr>p_store := st\<rparr>) = books T M S" "books T M (call_upstream q S) = books T M S"
  "books T M (set_handle h f S) = books T M S" "books T M (S\<lparr>p_limiters := l\<rparr>) = books T M S"
  "books T M (S\<lparr>p_next := n\<rparr>) = books T M S" "books T M (S\<lparr>p_handles := hs\<rparr>) = books T M S"
  "books T M (S\<lparr>p_inflight := i\<rparr>) = books T M S"
  by (simp_all add: books_def call_upstream_def set_handle_def split: option.split)

lemma books_limiterFor [simp]: "books T M (snd (limiterFor P t rl S)) = books T M S"
  by (simp add: limiterFor_def Let_def split: option.split)

lemma books_acquireLeader [simp]: "books T M (snd (acquireLeader h S)) = books T M S"
  by (simp add: acquireLeader_def Let_def split: option.split)

lemma books_releaseLeader [simp]: "books T M (releaseLeader h n S) = books T M S"
  by (simp add: releaseLeader_def Let_def)

lemma books_store_error: "op \<in> store_ops_counted \<Longrightarrow> books T M S \<Longrightarrow> books T M (recordStoreError P op S)"
  by (simp add: books_def recordStoreError_def)

lemma books_latency: "t \<in> T \<Longrightarrow> books T M S \<Longrightarrow> books T M (recordUpstreamLatency P t d S)"
  by (simp add: books_def recordUpstreamLatency_def)

lemma books_log:
  "metrics P \<Longrightarrow> audit P \<Longrightarrow> t \<in> T \<Longrightarrow> md \<in> M \<Longrightarrow> books T M S \<Longrightarrow>
     books T M (writeAudit P sp t md d mt f e (recordDecision P t md d S))"
  by (simp add: books_def writeAudit_def recordDecision_def)

lemma books_put_entry: "books T M S \<Longrightarrow> books T M (snd (put_entry P q h i pol st rs S))"
  by (auto simp: put_entry_def split_def Let_def store_ops_counted_def intro!: books_store_error)

lemma books_semanticSearch: "books T M S \<Longrightarrow> books T M (snd (semanticSearch P q emb i th S))"
  by (auto simp: semanticSearch_def store_ops_counted_def intro!: books_store_error split: sum.split)

lemma books_decide: "books T M S \<Longrightarrow> books T M (snd (decide P q h pol i S))"
  by (auto simp: decide_def split_def Let_def store_ops_counted_def
      intro!: books_store_error books_semanticSearch split: sum.split option.split)

lemma books_replay: "books T M S \<Longrightarrow> books T M (snd (replay P q pol e m S))"
  by (auto simp: replay_def split_def Let_def store_ops_counted_def intro!: books_store_error)

lemma books_doForward: "q_tool q \<in> T \<Longrightarrow> books T M S \<Longrightarrow> books T M (snd (doForward P q h i pol fwd lh S))"
  by (auto simp: doForward_def Let_def intro!: books_put_entry books_latency split: forward_outcome.split option.split)

lemma books_shadowForward: "q_tool q \<in> T \<Longrightarrow> books T M S \<Longrightarrow> books T M (snd (shadowForward P q h i pol fwd S))"
  by (auto simp: shadowForward_def Let_def intro!: books_put_entry books_latency split: forward_outcome.split option.split)

lemma books_runLeader:
  assumes "q_tool q \<in> T" "books T M S"
  shows "books T M (snd (runLeader P q h i pol fwd lh S))"
  using books_doForward [OF assms, of P h i pol fwd "Some lh"]
  by (auto simp: runLeader_def split: prod.splits outcome.splits)

text \<open>A pipeline with metrics and audit, whose policies have modes of \<open>M\<close>: every entry point keeps the books.\<close>

definition counting :: "bytes set \<Rightarrow> ('s, 'l) config \<Rightarrow> bool" where
  "counting M P \<longleftrightarrow> metrics P \<and> audit P \<and> (\<forall>t. Mode (For (policies P) t) \<in> M)"

lemma books_log_decision:
  "counting M P \<Longrightarrow> q_tool q \<in> T \<Longrightarrow> books T M S \<Longrightarrow> books T M (log_decision P q (pol_of P q) d m f e S)"
  by (auto simp: log_decision_def counting_def intro!: books_log)

lemma books_admit: "counting M P \<Longrightarrow> q_tool q \<in> T \<Longrightarrow> books T M S \<Longrightarrow> books T M (snd (admit P q S))"
  by (auto simp: admit_def split_def Let_def counting_def intro!: books_log split: option.split)

lemma books_prefix:
  assumes "counting M P" "q_tool q \<in> T" "books T M S"
  shows "books T M (snd (apply_prefix P q fwd S))"
proof -
  obtain a S1 where a: "admit P q S = (a, S1)" by (cases "admit P q S")
  then have S1: "books T M S1" using books_admit [OF assms] by simp
  have d: "books T M (snd (decide P q h (pol_of P q) i S1))" for h i using S1 by (rule books_decide)
  show ?thesis
    using S1 assms(1,2)
    by (auto simp: apply_prefix_def a Let_def split_def intro!: books_shadowForward books_log_decision books_replay d
        split: admission.split sum.split Decision.split)
qed

lemma books_Apply:
  assumes "counting M P" "q_tool q \<in> T" "books T M S"
  shows "books T M (snd (Apply P q fwd pc S))"
proof -
  note p = books_prefix [OF assms, of fwd]
  show ?thesis
  proof (cases rule: Apply_cases [of P q fwd S])
    case (1 out S1)
    then show ?thesis using p by (simp add: Apply_simps)
  next
    case (2 hash intent S1)
    then show ?thesis using p assms(1,2) by (auto simp: Apply_simps intro!: books_doForward books_log_decision)
  next
    case (3 hash intent S1 h S2)
    have "books T M S2" using books_acquireLeader [of T M hash S1] 3 p by simp
    then show ?thesis using 3 assms(1,2) by (auto simp: Apply_simps intro!: books_runLeader books_log_decision)
  next
    case (4 hash intent S1 h S2)
    have "books T M S2" using books_acquireLeader [of T M hash S1] 4 p by simp
    then show ?thesis using 4 assms(1,2) by (auto simp: Apply_simps follow_def intro!: books_log_decision split: outcome.split)
  qed
qed

lemma books_Lookup:
  assumes "counting M P" "q_tool q \<in> T" "books T M S"
  shows "books T M (snd (Lookup P q S))"
proof -
  obtain a S1 where a: "admit P q S = (a, S1)" by (cases "admit P q S")
  then have S1: "books T M S1" using books_admit [OF assms] by simp
  have d: "books T M (snd (decide P q h (pol_of P q) i S1))" for h i using S1 by (rule books_decide)
  show ?thesis
    using S1 assms(1,2)
    by (auto simp: Lookup_def a Let_def split_def intro!: books_log_decision books_replay d split: admission.split sum.split Decision.split)
qed

lemma books_Cache: "books T M S \<Longrightarrow> books T M (snd (Cache P q st rs S))"
  using books_put_entry [of T M S P q]
  by (auto simp: Cache_def Let_def split: sum.split prod.split) (metis snd_conv)+

text \<open>A process from its start, serving calls for tools of \<open>T\<close> one after the other.\<close>

inductive pl_run :: "('s, 'l) config \<Rightarrow> bytes set \<Rightarrow> ('s, 'l) pstate \<Rightarrow> bool" for P T where
  started: "pl_run P T (New_pipeline st)"
| applied: "pl_run P T S \<Longrightarrow> q_tool q \<in> T \<Longrightarrow> pl_run P T (snd (Apply P q fwd pc S))"
| looked_up: "pl_run P T S \<Longrightarrow> q_tool q \<in> T \<Longrightarrow> pl_run P T (snd (Lookup P q S))"
| cached: "pl_run P T S \<Longrightarrow> pl_run P T (snd (Cache P q status resp S))"

lemma books_run: "pl_run P T S \<Longrightarrow> counting M P \<Longrightarrow> books T M S"
proof (induction rule: pl_run.induct)
  case (started st)
  then show ?case by (simp add: books_def New_pipeline_def)
qed (blast intro: books_Apply books_Lookup books_Cache)+

lemma MustRegister_names: "MustRegister reg ns = Some reg' \<Longrightarrow> reg' = reg @ ns"
  by (induction ns arbitrary: reg) (fastforce split: if_splits)+

lemma fq_names:
  "fq_name (cv_opts decisions_vec) = ''potent_proxy_decisions_total''" "fq_name (cv_opts errors_vec) = ''potent_store_errors_total''"
  "fq_name (hv_opts latency_vec) = ''potent_proxy_upstream_latency_seconds''"
  by (simp_all add: decisions_vec_def latency_vec_def errors_vec_def NewCounterVec_def NewHistogramVec_def fq_name_def)

lemma metrics_New_fresh:
  assumes "metrics_New reg = Some m"
  shows "length (cv_labels (Decisions m)) = 3" "length (cv_labels (StoreErrors m)) = 1" "length (hv_labels (UpstreamLatency m)) = 1"
    "counter (Decisions m) l = 0" "counter (StoreErrors m) l = 0" "observations (UpstreamLatency m) l = 0"
    "set [''potent_proxy_decisions_total'', ''potent_proxy_upstream_latency_seconds'', ''potent_store_errors_total''] \<subseteq> set (Registry m)"
  using assms
proof -
  obtain reg' where "m = \<lparr>Registry = reg', Decisions = decisions_vec, UpstreamLatency = latency_vec, StoreErrors = errors_vec\<rparr>"
      "set [''potent_proxy_decisions_total'', ''potent_proxy_upstream_latency_seconds'', ''potent_store_errors_total''] \<subseteq> set reg'"
    using assms by (auto simp: metrics_New_def Let_def fq_names simp del: MustRegister.simps dest!: MustRegister_names split: option.splits)
  then show "length (cv_labels (Decisions m)) = 3" "length (cv_labels (StoreErrors m)) = 1" "length (hv_labels (UpstreamLatency m)) = 1"
    "counter (Decisions m) l = 0" "counter (StoreErrors m) l = 0" "observations (UpstreamLatency m) l = 0"
    "set [''potent_proxy_decisions_total'', ''potent_proxy_upstream_latency_seconds'', ''potent_store_errors_total''] \<subseteq> set (Registry m)"
    by (simp_all add: decisions_vec_def latency_vec_def errors_vec_def NewCounterVec_def NewHistogramVec_def counter_def observations_def)
qed

lemma decision_String_valid: "valid_utf8 (decision_String d)"
  by (cases d) (simp_all add: ascii_valid)

lemma store_ops_valid: "op \<in> store_ops_counted \<Longrightarrow> valid_utf8 op"
  by (auto simp: store_ops_counted_def ascii_valid)

section \<open>Properties of the component\<close>

text \<open>C32. The metrics agree with the audit log. Whatever sequence of calls a process has served, for tools and modes
  whose names are valid UTF-8: no counter has panicked; for every tool, mode and decision the counter
  \<open>potent_proxy_decisions_total\<close> is the number of audit records with them (the would-be decision, in shadow mode); store
  errors are counted under at most the four operations \<open>get\<close>, \<open>scan\<close>, \<open>put\<close> and \<open>increment_replay\<close>; and latencies are
  observed under the names of tools that were called.\<close>

theorem metrics_agree_audit:
  assumes m: "metrics_New reg = Some m" and run: "pl_run P T S" and P: "counting M P"
    and accepts: "\<forall>b. valid_utf8 b \<longrightarrow> accepts b" and T: "\<forall>t \<in> T \<union> M. valid_utf8 t"
  shows "\<exists>m'. counted accepts m S = Some m' \<and>
    (\<forall>tool mode d. counter (Decisions m') [tool, mode, d] = length (filter (\<lambda>rec. audit_key rec = (tool, mode, d)) (p_audit S))) \<and>
    (\<forall>op. counter (StoreErrors m') [op] = count_list (m_store_errors S) op \<and>
       (op \<notin> {''get'', ''scan'', ''put'', ''increment_replay''} \<longrightarrow> counter (StoreErrors m') [op] = 0)) \<and>
    (\<forall>tool. tool \<notin> T \<longrightarrow> observations (UpstreamLatency m') [tool] = 0)"
proof -
  note fresh = metrics_New_fresh [OF m]
  have b: "books T M S" using run P by (rule books_run)
  then have ev: "m_decisions S = map audit_key (p_audit S)" "set (m_decisions S) \<subseteq> T \<times> M \<times> range decision_String"
    "set (m_store_errors S) \<subseteq> store_ops_counted" "fst ` set (m_latency S) \<subseteq> T" by (simp_all add: books_def)
  have "\<forall>(t, md, d) \<in> set (m_decisions S). accepts t \<and> accepts md \<and> accepts d"
    using ev(2) accepts T decision_String_valid by fastforce
  then obtain v where v: "fold_opt (inc_decision accepts) m (m_decisions S) = Some (m\<lparr>Decisions := v\<rparr>)"
      "\<forall>t md d. counter v [t, md, d] = count_list (m_decisions S) (t, md, d)"
    using decisions_counted [of m "m_decisions S" accepts] fresh by auto
  have "\<forall>op \<in> set (m_store_errors S). accepts op" using ev(3) accepts store_ops_valid by blast
  then obtain w where w: "fold_opt (inc_store_error accepts) (m\<lparr>Decisions := v\<rparr>) (m_store_errors S) =
        Some (m\<lparr>Decisions := v, StoreErrors := w\<rparr>)" "\<forall>op. counter w [op] = count_list (m_store_errors S) op"
    using store_errors_counted [of "m\<lparr>Decisions := v\<rparr>" "m_store_errors S" accepts] fresh by auto
  have "\<forall>(t, d) \<in> set (m_latency S). accepts t" using ev(4) accepts T by fastforce
  then obtain u where u: "fold_opt (observe_latency accepts) (m\<lparr>Decisions := v, StoreErrors := w\<rparr>) (m_latency S) =
        Some (m\<lparr>Decisions := v, StoreErrors := w, UpstreamLatency := u\<rparr>)"
      "\<forall>t. observations u [t] = length (filter (\<lambda>e. fst e = t) (m_latency S))"
    using latency_observed [of "m\<lparr>Decisions := v, StoreErrors := w\<rparr>" "m_latency S" accepts] fresh by auto
  have c: "counted accepts m S = Some (m\<lparr>Decisions := v, StoreErrors := w, UpstreamLatency := u\<rparr>)"
    by (simp add: counted_def v(1) w(1) u(1))
  have "count_list (map f xs) y = length (filter (\<lambda>x. f x = y) xs)" for f y and xs :: "Record list"
    by (induction xs) auto
  then have "counter v [t, md, d] = length (filter (\<lambda>rec. audit_key rec = (t, md, d)) (p_audit S))" for t md d
    by (simp add: v(2) ev(1))
  moreover have "count_list (m_store_errors S) op = 0" if "op \<notin> store_ops_counted" for op
    using that ev(3) by (auto simp: count_list_0_iff)
  moreover have "filter (\<lambda>e. fst e = t) (m_latency S) = []" if "t \<notin> T" for t using that ev(4) by (auto simp: filter_empty_conv)
  ultimately show ?thesis using c w(2) u(2) by (auto simp: store_ops_counted_def)
qed

theorem metrics_agree_audit_witness:
  "\<exists>m m'. metrics_New None = Some m \<and>
     counted valid_utf8 m (snd (Apply demo_acl (demo_request\<lparr>q_caller := ''bob''\<rparr>) (FwdReturns 200 ''ok'' None) False
       (New_pipeline NewMemory))) = Some m' \<and>
     counter (Decisions m') [''send'', ''cache'', ''forbidden''] = 1"
proof -
  let ?q = "demo_request\<lparr>q_caller := ''bob''\<rparr>" and ?init = "New_pipeline NewMemory"
  let ?S = "snd (Apply demo_acl ?q (FwdReturns 200 ''ok'' None) False ?init)"
  obtain m where m: "metrics_New None = Some m" by (simp add: metrics_New_def fq_names)
  have run: "pl_run demo_acl {''send''} ?S" by (intro applied started) (simp add: demo_request_def)
  have P: "counting {''cache''} demo_acl"
    by (simp add: counting_def demo_acl_def demo_pipeline_def For_def demo_policy_def mode_defs)
  have "Apply demo_acl ?q (FwdReturns 200 ''ok'' None) False ?init = (Ret (refusal DecisionForbidden) None,
      writeAudit demo_acl None ''send'' ''cache'' DecisionForbidden no_match '''' ''''
        (recordDecision demo_acl ''send'' ''cache'' DecisionForbidden ?init))"
    using demo_acl_bob [of False ?init] by (simp add: Apply_simps prefix_simps demo_acl_def demo_pipeline_def)
  then have "p_audit ?S = [audit_record demo_acl None ''send'' ''cache'' DecisionForbidden no_match '''' '''']"
    by (simp add: writeAudit_def demo_acl_def demo_pipeline_def New_pipeline_def)
  then show ?thesis using metrics_agree_audit [OF m run P, of valid_utf8] m by (auto simp: ascii_valid)
qed

text \<open>A label value that the library refuses. The decision of a leader is counted after it has taken the slot of its
  fingerprint and before it runs: when the name of its tool is not accepted as a label the counter panics there, the
  slot is never released, and every later call that goes to the upstream with the same fingerprint waits for ever.\<close>

theorem label_panic_strands:
  assumes "apply_prefix P q fwd S = (GoForward hash intent True, S1)" "acquireLeader hash S1 = ((h, True), S2)"
    and "\<not> accepts (q_tool q)"
    and later: "apply_prefix P q' fwd' S2 = (GoForward hash intent' True, S3)" "q_ctx q' = None"
  shows "inc_decision accepts m (q_tool q, Mode (pol_of P q), decision_String DecisionForward) = None \<and>
    fst (Apply P q' fwd' pc S2) = Blocked"
proof
  show "inc_decision accepts m (q_tool q, Mode (pol_of P q), decision_String DecisionForward) = None"
    using assms(3) by (simp add: inc_decision_def Inc_def)
  have "p_inflight S3 = p_inflight S2" "p_handles S3 = p_handles S2" using prefix_table [OF later(1)] by simp_all
  moreover have "p_inflight S2 hash = Some h" "p_handles S2 h = new_handle"
    using assms(2) by (auto simp: acquireLeader_def Let_def split: option.splits)
  ultimately have "acquireLeader hash S3 = ((h, False), S3)" "p_handles S3 h = new_handle" by (simp_all add: acquireLeader_def)
  then show "fst (Apply P q' fwd' pc S2) = Blocked"
    using later by (simp add: Apply_simps waitForLeader_def new_handle_def)
qed

end
