(* ===== verification/Stdio.thy ===== *)
theory Stdio
  imports Pipeline_Properties Jsonrpc "HOL-Library.Multiset"
begin

text \<open>
  \<open>internal/mcp/stdio.go\<close>: the MCP stdio adapter. Two pumps run side by side, one from the client to
  the child process and one back, and a sweeper expires what the child never answers. \<open>sstep\<close>
  interleaves them at the points where the code gives up its lock: the client pump looks a call up and
  then enters it into the tables; the child pump takes a pending call, caches the response, and then
  collects the waiters. A write to the child or to the client happens within the step that causes it.

  The tables are association lists without duplicate keys; the order in which the sweeper visits
  \<open>pending\<close> is an argument. Five fields are ghosts. \<open>accepted\<close> and \<open>answered\<close>: the ids of the calls that entered
  the tables, and the ids the adapter has answered for them, with the frame that was written. \<open>orphans\<close>: calls
  whose entry in \<open>pending\<close> was overwritten by a later call with the same id, which the code does not check
  (line 201). \<open>late\<close>: responses of the child written through although no call is pending under their id
  (lines 217 to 219), such as the answer to a call that has timed out meanwhile. \<open>relayed\<close>: everything else on the
  client's stream, which is replays and refusals of calls that never entered the tables, and what the child sends
  by itself.
\<close>

section \<open>State\<close>

record pendingCall =
  pc_tool :: bytes
  pc_args :: bytes
  pc_hash :: bytes
  pc_deadline :: time

record inflightCall =
  waiters :: "bytes list"
  if_deadline :: time

datatype client_pump =
    CIdle
  | CLooked bytes Message bytes bytes Result    \<comment> \<open>line, frame, tool, arguments, result of \<open>Lookup\<close>\<close>

datatype child_pump =
    HIdle
  | HTook bytes bytes pendingCall      \<comment> \<open>id, line and call: taken from \<open>pending\<close>, not yet cached\<close>
  | HCached bytes bytes pendingCall    \<comment> \<open>cached, waiters not yet collected\<close>

record ('s, 'l) stdio =
  base :: "('s, 'l) pstate"
  pending :: "(bytes \<times> pendingCall) list"
  inflight :: "(bytes \<times> inflightCall) list"
  cpump :: client_pump
  hpump :: child_pump
  to_child :: "bytes list"
  to_client :: "bytes list"
  accepted :: "bytes list"
  answered :: "(bytes \<times> bytes) list"
  orphans :: "(bytes \<times> pendingCall) list"
  late :: "(bytes \<times> bytes) list"
  relayed :: "bytes list"

definition NewStdioHandler :: "'s \<Rightarrow> ('s, 'l) stdio" where
  "NewStdioHandler st = \<lparr>base = New_pipeline st, pending = [], inflight = [], cpump = CIdle, hpump = HIdle,
     to_child = [], to_client = [], accepted = [], answered = [], orphans = [], late = [], relayed = []\<rparr>"

definition writeLine :: "bytes \<Rightarrow> bytes" where
  "writeLine line = (if length line > 0 \<and> last line = CHR 0x0A then line else line @ [CHR 0x0A])"

definition send_child :: "bytes \<Rightarrow> ('s, 'l) stdio \<Rightarrow> ('s, 'l) stdio" where
  "send_child line s = s\<lparr>to_child := to_child s @ [writeLine line]\<rparr>"

definition writeClient :: "bytes \<Rightarrow> ('s, 'l) stdio \<Rightarrow> ('s, 'l) stdio" where
  "writeClient line s = s\<lparr>to_client := to_client s @ [writeLine line]\<rparr>"

definition relay :: "bytes \<Rightarrow> ('s, 'l) stdio \<Rightarrow> ('s, 'l) stdio" where
  "relay line s = (writeClient line s)\<lparr>relayed := relayed s @ [line]\<rparr>"

text \<open>A write that answers a tracked request.\<close>

definition answer :: "bytes \<times> bytes \<Rightarrow> ('s, 'l) stdio \<Rightarrow> ('s, 'l) stdio" where
  "answer a s = (writeClient (snd a) s)\<lparr>answered := answered s @ [a]\<rparr>"

section \<open>The client pump\<close>

definition stdio_request :: "request \<Rightarrow> bytes \<Rightarrow> bytes \<Rightarrow> request" where
  "stdio_request env tool args = env\<lparr>q_tool := tool, q_caller := '''', q_body := args, q_span := None\<rparr>"

definition cl_read :: "('s, 'l) config \<Rightarrow> request \<Rightarrow> bytes \<Rightarrow> ('s, 'l) stdio \<Rightarrow> ('s, 'l) stdio" where
  "cl_read P env line s =
     (case unmarshal_message line of
        Inl _ \<Rightarrow> send_child line s
      | Inr msg \<Rightarrow>
          if m_Method msg \<noteq> MethodToolsCall then send_child line s
          else case ParseToolsCall msg of
                 Inl _ \<Rightarrow> send_child line s
               | Inr (tool, args) \<Rightarrow>
                   (case Lookup P (stdio_request env tool args) (base s) of
                      (Inl _, S1) \<Rightarrow> send_child line (s\<lparr>base := S1\<rparr>)
                    | (Inr (res, _), S1) \<Rightarrow>
                        (case r_Decision res of
                           DecisionReplay \<Rightarrow> relay (reframeWithID (r_Body res) (m_ID msg)) (s\<lparr>base := S1\<rparr>)
                         | DecisionBlock \<Rightarrow>
                             relay (frame (NewErrorResponse (m_ID msg) (-32000) ''duplicate request blocked by policy''))
                               (s\<lparr>base := S1\<rparr>)
                         | _ \<Rightarrow> s\<lparr>base := S1, cpump := CLooked line msg tool args res\<rparr>)))"

definition deadline_of :: "duration \<Rightarrow> time \<Rightarrow> time" where
  "deadline_of requestTimeout now = (if requestTimeout > 0 then now + requestTimeout else 0)"

definition cl_enter :: "duration \<Rightarrow> time \<Rightarrow> ('s, 'l) stdio \<Rightarrow> ('s, 'l) stdio" where
  "cl_enter requestTimeout now s =
     (case cpump s of
        CIdle \<Rightarrow> s
      | CLooked line msg tool args res \<Rightarrow>
          let s1 = s\<lparr>cpump := CIdle, accepted := accepted s @ [m_ID msg]\<rparr>; dl = deadline_of requestTimeout now in
          (case map_of (inflight s) (r_Hash res) of
             Some ifc \<Rightarrow>
               s1\<lparr>inflight := AList.update (r_Hash res) (ifc\<lparr>waiters := waiters ifc @ [m_ID msg]\<rparr>) (inflight s)\<rparr>
           | None \<Rightarrow>
               send_child line
                 (s1\<lparr>pending := AList.update (m_ID msg) \<lparr>pc_tool = tool, pc_args = args, pc_hash = r_Hash res, pc_deadline = dl\<rparr> (pending s),
                     inflight := AList.update (r_Hash res) \<lparr>waiters = [], if_deadline = dl\<rparr> (inflight s),
                     orphans := orphans s @ (case map_of (pending s) (m_ID msg) of None \<Rightarrow> [] | Some old \<Rightarrow> [(m_ID msg, old)])\<rparr>)))"

section \<open>The child pump\<close>

definition ch_read :: "bytes \<Rightarrow> ('s, 'l) stdio \<Rightarrow> ('s, 'l) stdio" where
  "ch_read line s =
     (case unmarshal_message line of
        Inr msg \<Rightarrow>
          if IsResponse msg then
            (case map_of (pending s) (m_ID msg) of
               None \<Rightarrow> (writeClient line s)\<lparr>late := late s @ [(m_ID msg, line)]\<rparr>
             | Some call \<Rightarrow> s\<lparr>pending := AList.delete (m_ID msg) (pending s), hpump := HTook (m_ID msg) line call\<rparr>)
          else relay line s
      | Inl _ \<Rightarrow> relay line s)"

definition ch_cache :: "('s, 'l) config \<Rightarrow> request \<Rightarrow> ('s, 'l) stdio \<Rightarrow> ('s, 'l) stdio" where
  "ch_cache P env s =
     (case hpump s of
        HTook rid line call \<Rightarrow>
          s\<lparr>base := snd (Cache P (stdio_request env (pc_tool call) (pc_args call)) 200 line (base s)),
            hpump := HCached rid line call\<rparr>
      | _ \<Rightarrow> s)"

definition ch_collect :: "('s, 'l) stdio \<Rightarrow> ('s, 'l) stdio" where
  "ch_collect s =
     (case hpump s of
        HCached rid line call \<Rightarrow>
          let ws = (case map_of (inflight s) (pc_hash call) of Some ifc \<Rightarrow> waiters ifc | None \<Rightarrow> [])
          in fold answer ((rid, line) # map (\<lambda>w. (w, reframeWithID line w)) ws)
               (s\<lparr>inflight := AList.delete (pc_hash call) (inflight s), hpump := HIdle\<rparr>)
      | _ \<Rightarrow> s)"

section \<open>The sweeper\<close>

definition minSweepInterval :: duration where "minSweepInterval = 500 * Millisecond"

definition sweep_interval :: "duration \<Rightarrow> duration" where
  "sweep_interval requestTimeout = (let interval = go_div requestTimeout 4 in if interval < minSweepInterval then minSweepInterval else interval)"

definition overdue :: "time \<Rightarrow> pendingCall \<Rightarrow> bool" where
  "overdue now call \<longleftrightarrow> \<not> IsZero (pc_deadline call) \<and> pc_deadline call < now"

fun expire_loop ::
  "time \<Rightarrow> (bytes \<times> pendingCall) list \<Rightarrow> (bytes \<times> pendingCall) list \<Rightarrow> (bytes \<times> inflightCall) list \<Rightarrow> bytes list \<Rightarrow>
     (bytes \<times> pendingCall) list \<times> (bytes \<times> inflightCall) list \<times> bytes list" where
  "expire_loop now [] pend infl notify = (pend, infl, notify)"
| "expire_loop now ((rid, call) # rest) pend infl notify =
     (if overdue now call then
        (case map_of infl (pc_hash call) of
           Some ifc \<Rightarrow>
             expire_loop now rest (AList.delete rid pend) (AList.delete (pc_hash call) infl) (notify @ rid # waiters ifc)
         | None \<Rightarrow> expire_loop now rest (AList.delete rid pend) infl (notify @ [rid]))
      else expire_loop now rest pend infl notify)"

definition timeout_frame :: "bytes \<Rightarrow> bytes" where
  "timeout_frame rid = frame (NewErrorResponse rid (-32000) ''upstream timeout'')"

definition expireAt :: "time \<Rightarrow> (bytes \<times> pendingCall) list \<Rightarrow> ('s, 'l) stdio \<Rightarrow> nat \<times> ('s, 'l) stdio" where
  "expireAt now order s =
     (let (pend, infl, notify) = expire_loop now order (pending s) (inflight s) []
      in (length notify,
          fold answer (map (\<lambda>rid. (rid, timeout_frame rid)) notify) (s\<lparr>pending := pend, inflight := infl\<rparr>)))"

section \<open>Interleaving\<close>



inductive sstep :: "('s, 'l) config \<Rightarrow> duration \<Rightarrow> ('s, 'l) stdio \<Rightarrow> ('s, 'l) stdio \<Rightarrow> bool" for P T where
  reads: "cpump s = CIdle \<Longrightarrow> sstep P T s (cl_read P env line s)"
| enters: "cpump s = CLooked line msg tool args res \<Longrightarrow> sstep P T s (cl_enter T now s)"
| responds: "hpump s = HIdle \<Longrightarrow> sstep P T s (ch_read line s)"
| caches: "hpump s = HTook rid line call \<Longrightarrow> sstep P T s (ch_cache P env s)"
| collects: "hpump s = HCached rid line call \<Longrightarrow> sstep P T s (ch_collect s)"
| sweeps: "T > 0 \<Longrightarrow> mset order = mset (pending s) \<Longrightarrow> sstep P T s (snd (expireAt now order s))"

inductive sreach :: "('s, 'l) config \<Rightarrow> duration \<Rightarrow> ('s, 'l) stdio \<Rightarrow> bool" for P T where
  init: "sreach P T (NewStdioHandler st)"
| step: "sreach P T s \<Longrightarrow> sstep P T s s' \<Longrightarrow> sreach P T s'"

section \<open>The invariant\<close>

definition taken :: "child_pump \<Rightarrow> (bytes \<times> pendingCall) list" where
  "taken h = (case h of HIdle \<Rightarrow> [] | HTook rid _ call \<Rightarrow> [(rid, call)] | HCached rid _ call \<Rightarrow> [(rid, call)])"

text \<open>The calls that lead: those the child still owes an answer, and the one the child pump works on.\<close>

definition leading :: "('s, 'l) stdio \<Rightarrow> (bytes \<times> pendingCall) list" where
  "leading s = pending s @ taken (hpump s)"

definition queued :: "(bytes \<times> inflightCall) list \<Rightarrow> bytes list" where
  "queued infl = concat (map (waiters \<circ> snd) infl)"

definition hashes :: "(bytes \<times> pendingCall) list \<Rightarrow> bytes multiset" where
  "hashes cs = mset (map (pc_hash \<circ> snd) cs)"

definition sinv :: "('s, 'l) stdio \<Rightarrow> bool" where
  "sinv s \<longleftrightarrow> distinct (map fst (inflight s)) \<and> distinct (map fst (pending s)) \<and>
     hashes (leading s) + hashes (orphans s) = mset (map fst (inflight s)) \<and>
     mset (accepted s) = mset (map fst (leading s)) + mset (queued (inflight s)) + mset (map fst (answered s)) + mset (map fst (orphans s)) \<and>
     (orphans s \<noteq> [] \<longrightarrow> \<not> distinct (accepted s))"

lemma update_new: "k \<notin> set (map fst al) \<Longrightarrow> AList.update k v al = al @ [(k, v)]"
  by (induction al) auto

lemma mset_delete:
  fixes al :: "('a \<times> 'b) list"
  shows "map_of al k = Some v \<Longrightarrow> distinct (map fst al) \<Longrightarrow> mset al = add_mset (k, v) (mset (AList.delete k al))"
proof (induction al)
  case (Cons a al)
  have "AList.delete k bl = bl" if "k \<notin> fst ` set bl" for bl :: "('a \<times> 'b) list"
    using that by (induction bl) auto
  with Cons show ?case by (cases a) (auto split: if_splits)
qed simp

lemma hashes_simps [simp]:
  "hashes [] = {#}" "hashes ((rid, c) # cs) = add_mset (pc_hash c) (hashes cs)" "hashes (cs @ ds) = hashes cs + hashes ds"
  by (simp_all add: hashes_def)

lemma queued_simps [simp]:
  "queued [] = []" "queued ((h, c) # infl) = waiters c @ queued infl" "queued (a @ b) = queued a @ queued b"
  by (simp_all add: queued_def)

lemma delete_call:
  assumes "map_of cs rid = Some c" "distinct (map fst cs)"
  shows "hashes cs = add_mset (pc_hash c) (hashes (AList.delete rid cs))"
    "mset (map fst cs) = add_mset rid (mset (map fst (AList.delete rid cs)))"
  using arg_cong [OF mset_delete [OF assms], of "image_mset (pc_hash \<circ> snd)"] arg_cong [OF mset_delete [OF assms], of "image_mset fst"]
  by (simp_all add: hashes_def)

lemma mset_queued: "mset (queued infl) = \<Sum>\<^sub># (image_mset (\<lambda>x. mset (waiters (snd x))) (mset infl))"
  by (induction infl) auto

lemma delete_flight:
  assumes "map_of infl h = Some c" "distinct (map fst infl)"
  shows "mset (map fst infl) = add_mset h (mset (map fst (AList.delete h infl)))"
    "mset (queued infl) = mset (waiters c) + mset (queued (AList.delete h infl))"
    "distinct (map fst (AList.delete h infl))"
  using arg_cong [OF mset_delete [OF assms], of "image_mset fst"]
    arg_cong [OF mset_delete [OF assms], of "image_mset (\<lambda>x. mset (waiters (snd x)))"] assms(2)
  by (simp_all add: mset_queued distinct_delete)

lemma update_flight:
  assumes "map_of infl h = Some c" "distinct (map fst infl)" "waiters c' = waiters c @ [w]"
  shows "map fst (AList.update h c' infl) = map fst infl" "mset (queued (AList.update h c' infl)) = add_mset w (mset (queued infl))"
  using assms by (induction infl) (auto split: if_splits simp: image_iff)

lemma answer_simps [simp]:
  "pending (answer a s) = pending s" "inflight (answer a s) = inflight s" "hpump (answer a s) = hpump s"
  "accepted (answer a s) = accepted s" "answered (answer a s) = answered s @ [a]" "orphans (answer a s) = orphans s"
  "late (answer a s) = late s" "relayed (answer a s) = relayed s"
  "to_client (answer a s) = to_client s @ [writeLine (snd a)]"
  by (simp_all add: answer_def writeClient_def)

lemma answers:
  "pending (fold answer as s) = pending s" "inflight (fold answer as s) = inflight s" "hpump (fold answer as s) = hpump s"
  "cpump (fold answer as s) = cpump s" "accepted (fold answer as s) = accepted s" "answered (fold answer as s) = answered s @ as"
  "to_client (fold answer as s) = to_client s @ map (\<lambda>a. writeLine (snd a)) as" "to_child (fold answer as s) = to_child s"
  "orphans (fold answer as s) = orphans s" "late (fold answer as s) = late s" "relayed (fold answer as s) = relayed s"
  by (induction as arbitrary: s) (simp_all add: answer_def writeClient_def)

lemma sinv_flight:
  assumes "sinv s" "(rid, call) \<in> set (leading s)"
  obtains ifc where "map_of (inflight s) (pc_hash call) = Some ifc"
proof -
  have "pc_hash call \<in># hashes (leading s)" using assms(2) by (force simp: hashes_def)
  then have "pc_hash call \<in># mset (map fst (inflight s))" using assms(1) by (metis sinv_def union_iff)
  then have "pc_hash call \<in> set (map fst (inflight s))" by (metis set_mset_mset)
  then show ?thesis using that by (metis (no_types) map_of_eq_None_iff not_None_eq set_map)
qed

lemma sinv_pending: "sinv s \<Longrightarrow> distinct (map fst (pending s)) \<and> set (map fst (pending s)) \<subseteq> set (accepted s)"
proof -
  assume s: "sinv s"
  let ?ys = "map fst (taken (hpump s)) @ queued (inflight s) @ map fst (answered s) @ map fst (orphans s)"
  have m: "mset (accepted s) = mset (map fst (pending s) @ ?ys)" using s by (simp add: sinv_def leading_def)
  then have "set (accepted s) = set (map fst (pending s) @ ?ys)" by (rule mset_eq_setD)
  then show ?thesis using s by (auto simp: sinv_def)
qed

lemma tables_inv:
  assumes "sinv s" "pending s' = pending s" "inflight s' = inflight s" "taken (hpump s') = taken (hpump s)"
    "accepted s' = accepted s" "answered s' = answered s" "orphans s' = orphans s"
  shows "sinv s'"
  using assms by (simp add: sinv_def leading_def)

lemma cl_read_tables:
  "pending (cl_read P env line s) = pending s" "inflight (cl_read P env line s) = inflight s"
  "hpump (cl_read P env line s) = hpump s" "accepted (cl_read P env line s) = accepted s"
  "answered (cl_read P env line s) = answered s" "orphans (cl_read P env line s) = orphans s"
  "late (cl_read P env line s) = late s"
  by (auto simp: cl_read_def send_child_def writeClient_def relay_def split: sum.splits prod.splits Decision.splits)

lemma update_call:
  assumes "map_of cs rid = Some old" "distinct (map fst cs)"
  shows "map fst (AList.update rid c cs) = map fst cs"
    "add_mset (pc_hash old) (hashes (AList.update rid c cs)) = add_mset (pc_hash c) (hashes cs)"
  using assms by (induction cs) (auto split: if_splits simp: image_iff)

lemma cl_enter_inv:
  assumes "sinv s" "cpump s = CLooked line msg tool args res"
  shows "sinv (cl_enter T now s)"
proof (cases "map_of (inflight s) (r_Hash res)")
  case (Some ifc)
  have "distinct (map fst (inflight s))" using assms(1) by (simp add: sinv_def)
  note u = update_flight [OF Some this, of "ifc\<lparr>waiters := waiters ifc @ [m_ID msg]\<rparr>" "m_ID msg"]
  show ?thesis using assms Some u by (simp add: cl_enter_def Let_def sinv_def leading_def)
next
  case None
  then have h: "r_Hash res \<notin> set (map fst (inflight s))" by (simp add: map_of_eq_None_iff)
  let ?call = "\<lparr>pc_tool = tool, pc_args = args, pc_hash = r_Hash res, pc_deadline = deadline_of T now\<rparr>"
  show ?thesis
  proof (cases "map_of (pending s) (m_ID msg)")
    case p: None
    then have "m_ID msg \<notin> set (map fst (pending s))" by (simp add: map_of_eq_None_iff)
    then show ?thesis using assms None h p unfolding cl_enter_def
      by (simp add: Let_def sinv_def leading_def send_child_def update_new)
  next
    case (Some old)
    have d: "distinct (map fst (pending s))" using assms(1) by (simp add: sinv_def)
    have "m_ID msg \<in> set (map fst (pending s))" using Some by (force dest: map_of_SomeD)
    then have "m_ID msg \<in> set (accepted s)" using sinv_pending [OF assms(1)] by blast
    moreover note u = update_call [OF Some d, of ?call]
    have "add_mset (pc_hash old) (hashes (AList.update (m_ID msg) ?call (pending s)) + hashes (taken (hpump s)) + hashes (orphans s)) =
        add_mset (r_Hash res) (mset (map fst (inflight s)))"
    proof -
      have "hashes (pending s) + hashes (taken (hpump s)) + hashes (orphans s) = mset (map fst (inflight s))"
        using assms(1) by (simp add: sinv_def leading_def)
      then show ?thesis using u(2) by (metis (no_types) pendingCall.select_convs(3) union_mset_add_mset_left)
    qed
    ultimately show ?thesis
      using assms None h Some u(1) arg_cong [OF u(1), of mset] unfolding cl_enter_def
      by (simp add: Let_def sinv_def leading_def send_child_def update_new [OF h])
  qed
qed

lemma ch_read_inv:
  assumes "sinv s" "hpump s = HIdle"
  shows "sinv (ch_read line s)"
proof -
  have w: "sinv (relay line s)" "sinv ((writeClient line s)\<lparr>late := xs\<rparr>)" for xs
    using assms(1) by (auto intro!: tables_inv [of s] simp: writeClient_def relay_def)
  have "sinv (s\<lparr>pending := AList.delete rid (pending s), hpump := HTook rid line call\<rparr>)"
    if "map_of (pending s) rid = Some call" for rid call
    using delete_call [OF that] sinv_pending [OF assms(1)] assms by (simp add: sinv_def leading_def taken_def distinct_delete)
  then show ?thesis using w by (auto simp: ch_read_def split: sum.splits option.splits)
qed

lemma ch_collect_inv:
  assumes "sinv s" "hpump s = HCached rid line call"
  shows "sinv (ch_collect s)"
proof -
  have "(rid, call) \<in> set (leading s)" using assms(2) by (simp add: leading_def taken_def)
  then obtain ifc where ifc: "map_of (inflight s) (pc_hash call) = Some ifc" by (rule sinv_flight [OF assms(1)])
  have d: "distinct (map fst (inflight s))" using assms(1) by (simp add: sinv_def)
  note delete_flight [OF ifc d]
  then show ?thesis
    using assms ifc by (simp add: ch_collect_def sinv_def leading_def taken_def answers comp_def)
qed

text \<open>The sweep: what it removes from the tables is what it notifies.\<close>

lemma expire_loop_inv:
  assumes "expire_loop now order pend infl notify = (pend', infl', notify')"
    and "distinct (map fst pend)" "distinct (map fst order)" "set order \<subseteq> set pend"
    and "distinct (map fst infl)" "hashes pend + H = mset (map fst infl)"
  shows "distinct (map fst infl') \<and> hashes pend' + H = mset (map fst infl') \<and>
    mset (map fst pend') + mset (queued infl') + mset notify' = mset (map fst pend) + mset (queued infl) + mset notify \<and>
    pend' = filter (\<lambda>x. x \<notin> set order \<or> \<not> overdue now (snd x)) pend"
  using assms
proof (induction now order pend infl notify rule: expire_loop.induct)
  case (2 now rid call rest pend infl notify)
  have m: "map_of pend rid = Some call" using "2.prems"(2,4) by simp
  have ne: "(rid, c) \<notin> set rest" for c using "2.prems"(3) by force
  have dr: "distinct (map fst rest)" "set rest \<subseteq> set pend" using "2.prems"(3,4) by auto
  show ?case
  proof (cases "overdue now call")
    case True
    note dc = delete_call [OF m "2.prems"(2)]
    have "pc_hash call \<in># hashes pend + H" by (simp add: dc(1))
    then have "pc_hash call \<in> set (map fst infl)" using "2.prems"(6) by (metis set_mset_mset)
    then obtain ifc where ifc: "map_of infl (pc_hash call) = Some ifc" by (metis (no_types) map_of_eq_None_iff not_None_eq set_map)
    note df = delete_flight [OF ifc "2.prems"(5)]
    have e: "expire_loop now rest (AList.delete rid pend) (AList.delete (pc_hash call) infl) (notify @ rid # waiters ifc) =
        (pend', infl', notify')" using "2.prems"(1) True ifc by simp
    have sub: "set rest \<subseteq> set (AList.delete rid pend)" using "2.prems"(4) ne by (auto simp: AList.delete_eq)
    have "hashes (AList.delete rid pend) + H = mset (map fst (AList.delete (pc_hash call) infl))"
      using "2.prems"(6) dc(1) df(1) by simp
    from "2.IH"(2) [OF True ifc e distinct_delete [OF "2.prems"(2)] dr(1) sub df(3) this]
    have ih: "distinct (map fst infl')" "hashes pend' + H = mset (map fst infl')"
      "mset (map fst pend') + mset (queued infl') + mset notify' =
         mset (map fst (AList.delete rid pend)) + mset (queued (AList.delete (pc_hash call) infl)) + mset (notify @ rid # waiters ifc)"
      "pend' = filter (\<lambda>x. x \<notin> set rest \<or> \<not> overdue now (snd x)) (AList.delete rid pend)" by blast+
    have u: "x = (rid, call)" if "x \<in> set pend" "fst x = rid" for x
      using that m "2.prems"(2) by (metis map_of_is_SomeI option.inject prod.collapse)
    have "pend' = filter (\<lambda>x. x \<notin> set ((rid, call) # rest) \<or> \<not> overdue now (snd x)) pend"
      unfolding ih(4) AList.delete_eq filter_filter using True u ne by (intro filter_cong refl) fastforce
    then show ?thesis using ih(1-3) dc(2) df(2) by simp
  next
    case False
    then have "expire_loop now rest pend infl notify = (pend', infl', notify')" using "2.prems"(1) by simp
    from "2.IH"(3) [OF False this "2.prems"(2) dr "2.prems"(5,6)]
    have ih: "distinct (map fst infl')" "hashes pend' + H = mset (map fst infl')"
      "mset (map fst pend') + mset (queued infl') + mset notify' = mset (map fst pend) + mset (queued infl) + mset notify"
      "pend' = filter (\<lambda>x. x \<notin> set rest \<or> \<not> overdue now (snd x)) pend" by blast+
    have "pend' = filter (\<lambda>x. x \<notin> set ((rid, call) # rest) \<or> \<not> overdue now (snd x)) pend"
      unfolding ih(4) using False by (intro filter_cong refl) auto
    then show ?thesis using ih by simp
  qed
qed simp

lemma expireAt_loop:
  assumes "sinv s" "mset order = mset (pending s)"
  obtains infl notify where
    "expireAt now order s = (length notify, fold answer (map (\<lambda>rid. (rid, timeout_frame rid)) notify)
       (s\<lparr>pending := filter (\<lambda>x. \<not> overdue now (snd x)) (pending s), inflight := infl\<rparr>))"
    "distinct (map fst infl)"
    "hashes (filter (\<lambda>x. \<not> overdue now (snd x)) (pending s)) + (hashes (taken (hpump s)) + hashes (orphans s)) = mset (map fst infl)"
    "mset (map fst (filter (\<lambda>x. \<not> overdue now (snd x)) (pending s))) + mset (queued infl) + mset notify =
       mset (map fst (pending s)) + mset (queued (inflight s))"
proof -
  obtain pend infl notify where e: "expire_loop now order (pending s) (inflight s) [] = (pend, infl, notify)"
    by (metis prod_cases3)
  have so: "set order = set (pending s)" using assms(2) by (rule mset_eq_setD)
  have p: "distinct (map fst (pending s))" using sinv_pending [OF assms(1)] by simp
  have "mset (map fst order) = mset (map fst (pending s))" using assms(2) by simp
  then have o: "distinct (map fst order)" using p mset_eq_imp_distinct_iff by blast
  have "distinct (map fst (inflight s))" "hashes (pending s) + (hashes (taken (hpump s)) + hashes (orphans s)) = mset (map fst (inflight s))"
    using assms(1) by (simp_all add: sinv_def leading_def union_ac)
  note l = expire_loop_inv [OF e p o _ this]
  have f: "pend = filter (\<lambda>x. \<not> overdue now (snd x)) (pending s)" using l [OF equalityD1 [OF so]] so by (auto intro: filter_cong)
  have l': "distinct (map fst infl)" "hashes pend + (hashes (taken (hpump s)) + hashes (orphans s)) = mset (map fst infl)"
    "mset (map fst pend) + mset (queued infl) + mset notify = mset (map fst (pending s)) + mset (queued (inflight s))"
    using l [OF equalityD1 [OF so]] unfolding mset.simps(1) add_0_right by blast+
  show ?thesis by (rule that [of notify infl]) (use l' e in \<open>simp_all only: f expireAt_def Let_def prod.case\<close>)
qed

lemma expireAt_inv:
  assumes "sinv s" "mset order = mset (pending s)"
  shows "sinv (snd (expireAt now order s))"
proof (rule expireAt_loop [OF assms])
  fix infl notify
  assume "expireAt now order s = (length notify, fold answer (map (\<lambda>rid. (rid, timeout_frame rid)) notify)
       (s\<lparr>pending := filter (\<lambda>x. \<not> overdue now (snd x)) (pending s), inflight := infl\<rparr>))"
    "distinct (map fst infl)"
    "hashes (filter (\<lambda>x. \<not> overdue now (snd x)) (pending s)) + (hashes (taken (hpump s)) + hashes (orphans s)) = mset (map fst infl)"
    "mset (map fst (filter (\<lambda>x. \<not> overdue now (snd x)) (pending s))) + mset (queued infl) + mset notify =
       mset (map fst (pending s)) + mset (queued (inflight s))"
  then show ?thesis using assms(1)
    by (simp add: sinv_def leading_def answers comp_def distinct_map_filter) (simp add: union_ac)
qed

lemma sreach_inv: "sreach P T s \<Longrightarrow> sinv s"
proof (induction rule: sreach.induct)
  case (init st)
  then show ?case by (simp add: sinv_def NewStdioHandler_def leading_def taken_def)
next
  case (step s s')
  from step.hyps(2) show ?case
  proof cases
    case (reads env line)
    then show ?thesis using step.IH by (simp add: tables_inv cl_read_tables)
  next
    case (caches rid line call env)
    then show ?thesis using step.IH tables_inv [of s "ch_cache P env s"] by (simp add: ch_cache_def taken_def)
  qed (use step.IH in \<open>auto intro: cl_enter_inv ch_read_inv ch_collect_inv expireAt_inv\<close>)
qed

text \<open>Whom a sweep notifies for one overdue call: the leader, then its waiters.\<close>

definition flight_ids :: "(bytes \<times> inflightCall) list \<Rightarrow> bytes \<times> pendingCall \<Rightarrow> bytes list" where
  "flight_ids infl x = fst x # (case map_of infl (pc_hash (snd x)) of Some ifc \<Rightarrow> waiters ifc | None \<Rightarrow> [])"

lemma expire_loop_notify:
  assumes "distinct (map (pc_hash \<circ> snd) order)"
  shows "snd (snd (expire_loop now order pend infl notify)) =
    notify @ concat (map (flight_ids infl) (filter (\<lambda>x. overdue now (snd x)) order))"
  using assms
proof (induction now order pend infl notify rule: expire_loop.induct)
  case (2 now rid call rest pend infl notify)
  have "map_of (AList.delete (pc_hash call) infl) (pc_hash (snd x)) = map_of infl (pc_hash (snd x))" if "x \<in> set rest" for x
  proof -
    have "pc_hash (snd x) \<noteq> pc_hash call" using "2.prems" that by force
    then show ?thesis by (simp add: AList.delete_conv')
  qed
  then have "map (flight_ids (AList.delete (pc_hash call) infl)) (filter (\<lambda>x. overdue now (snd x)) rest) =
      map (flight_ids infl) (filter (\<lambda>x. overdue now (snd x)) rest)"
    by (auto simp: flight_ids_def)
  then show ?case using 2 by (auto simp: flight_ids_def [of _ "(rid, call)"] split: option.splits simp del: map_eq_conv)
qed simp

text \<open>Every frame on the client's stream is the answer to a tracked call, a late response of the child, or relayed.\<close>

definition stream_ok :: "('s, 'l) stdio \<Rightarrow> bool" where
  "stream_ok s \<longleftrightarrow>
     mset (to_client s) = mset (map writeLine (map snd (answered s))) + mset (map writeLine (map snd (late s))) + mset (map writeLine (relayed s))"

lemma stream_answers: "stream_ok s \<Longrightarrow> stream_ok (fold answer as s)"
  by (simp add: stream_ok_def answers comp_def)

lemma stream_same:
  "stream_ok s \<Longrightarrow> to_client s' = to_client s \<Longrightarrow> answered s' = answered s \<Longrightarrow> late s' = late s \<Longrightarrow> relayed s' = relayed s \<Longrightarrow> stream_ok s'"
  by (simp add: stream_ok_def)

lemma stream_relay: "stream_ok s \<Longrightarrow> stream_ok (relay line s)"
  by (simp add: stream_ok_def relay_def writeClient_def)

lemma stream_base [simp]: "stream_ok (s\<lparr>base := b\<rparr>) = stream_ok s" "stream_ok (s\<lparr>base := b, cpump := p\<rparr>) = stream_ok s"
  by (simp_all add: stream_ok_def)

lemma stream_step: "sstep P T s s' \<Longrightarrow> stream_ok s \<Longrightarrow> stream_ok s'"
proof (induction rule: sstep.induct)
  case (reads s env line)
  then show ?case
    by (auto simp: cl_read_def intro!: stream_relay stream_same [of s] split: sum.splits prod.splits Decision.splits)
       (simp_all add: send_child_def)
next
  case (enters s line msg tool args res now)
  then show ?case by (auto simp: cl_enter_def Let_def send_child_def intro: stream_same [of s] split: option.splits)
next
  case (responds s line)
  have "stream_ok ((writeClient line s)\<lparr>late := late s @ [(i, line)]\<rparr>)" "stream_ok (s\<lparr>pending := p, hpump := h\<rparr>)" for i p h
    using responds by (simp_all add: stream_ok_def writeClient_def)
  then show ?case using responds by (auto simp: ch_read_def intro: stream_relay split: sum.splits option.splits)
next
  case (caches s rid line call env)
  then show ?case by (auto simp: ch_cache_def intro: stream_same [of s])
next
  case (collects s rid line call)
  show ?case unfolding ch_collect_def collects(1) child_pump.case Let_def
    by (rule stream_answers, rule stream_same [OF collects(2)]) simp_all
next
  case (sweeps order s now)
  then have "stream_ok (s\<lparr>pending := p, inflight := f\<rparr>)" for p f by (simp add: stream_ok_def)
  then show ?case by (auto simp: expireAt_def split: prod.split intro!: stream_answers)
qed

lemma sreach_stream: "sreach P T s \<Longrightarrow> stream_ok s"
proof (induction rule: sreach.induct)
  case (step s s')
  then show ?case using stream_step by blast
qed (simp add: stream_ok_def NewStdioHandler_def)

section \<open>Properties\<close>

text \<open>C12. The books of the stdio adapter balance. In every reachable state, under every interleaving of the two
  pumps and the sweeper, each call that entered the tables is accounted for exactly once: it leads and waits for
  the child, it is being finished, it is queued behind a leader, it has been answered by the adapter, or its entry
  was overwritten by a later call that reused its id, which happens only if the client did use an id twice. Every
  fingerprint in flight belongs to such a leader or to an overwritten call, so as long as ids are distinct whoever
  is queued has a leader that is still owed an answer. The client's stream is the answers, each written once, the
  late responses and what is relayed. A late response is one that the child gives under an id no longer pending: it
  is written through, so a call that timed out can get its timeout error and afterwards its response.\<close>

theorem stdio_no_call_lost:
  assumes "sreach P T s"
  shows "mset (accepted s) = mset (map fst (pending s)) + mset (map fst (taken (hpump s))) +
      mset (queued (inflight s)) + mset (map fst (answered s)) + mset (map fst (orphans s)) \<and>
    (distinct (accepted s) \<longrightarrow> orphans s = []) \<and>
    (\<forall>h ifc. map_of (inflight s) h = Some ifc \<longrightarrow> (\<exists>x \<in> set (pending s @ taken (hpump s) @ orphans s). pc_hash (snd x) = h)) \<and>
    mset (to_client s) = mset (map (writeLine \<circ> snd) (answered s)) + mset (map (writeLine \<circ> snd) (late s)) +
      mset (map writeLine (relayed s))"
proof -
  have i: "sinv s" using assms by (rule sreach_inv)
  have "\<exists>x \<in> set (pending s @ taken (hpump s) @ orphans s). pc_hash (snd x) = h" if "map_of (inflight s) h = Some ifc" for h ifc
  proof -
    have "h \<in># mset (map fst (inflight s))" using that by (force dest: map_of_SomeD)
    then have "h \<in># hashes (pending s) + hashes (taken (hpump s)) + hashes (orphans s)"
      using i by (simp add: sinv_def leading_def)
    then show ?thesis by (auto simp: hashes_def)
  qed
  then show ?thesis using i sreach_stream [OF assms] by (auto simp: sinv_def leading_def stream_ok_def comp_def)
qed

text \<open>The price of a reused id: the flight of the overwritten call is never removed, so every later call with the
  same fingerprint is queued behind it and never answered.\<close>

lemma orphans_step: "sstep P T s s' \<Longrightarrow> set (orphans s) \<subseteq> set (orphans s')"
  by (induction rule: sstep.induct)
    (auto simp: cl_read_tables cl_enter_def ch_read_def ch_cache_def ch_collect_def expireAt_def Let_def send_child_def
      writeClient_def relay_def answers split: sum.splits prod.splits option.splits simp del: fold_simps)

theorem overwritten_call_blocks:
  assumes "sreach P T s" "(rid, call) \<in> set (orphans s)" "(sstep P T)\<^sup>*\<^sup>* s s'"
  shows "(rid, call) \<in> set (orphans s') \<and> (\<exists>ifc. map_of (inflight s') (pc_hash call) = Some ifc)"
proof -
  have "sreach P T s' \<and> (rid, call) \<in> set (orphans s')"
    using assms(3,1,2) by (induction rule: rtranclp_induct) (use orphans_step in \<open>blast intro: sreach.step\<close>)+
  then have o: "(rid, call) \<in> set (orphans s')" and i: "sinv s'" using sreach_inv by blast+
  then have "pc_hash call \<in># hashes (orphans s')" by (force simp: hashes_def)
  then have "pc_hash call \<in># mset (map fst (inflight s'))" using i by (metis sinv_def union_iff)
  then have "pc_hash call \<in> set (map fst (inflight s'))" by (metis set_mset_mset)
  then show ?thesis using o by (metis (no_types) map_of_eq_None_iff not_None_eq set_map)
qed

text \<open>A sweep answers exactly the overdue calls, whatever order it visits them in: each overdue leader
  and everyone queued behind it gets a timeout error, once; the count it returns is the number of
  frames written; nobody else is answered, and no call that is not overdue leaves the table.\<close>

theorem sweep_exact:
  assumes "sreach P T s" "mset order = mset (pending s)" "expireAt now order s = (n, s')"
  shows "answered s' = answered s @ map (\<lambda>rid. (rid, timeout_frame rid))
      (concat (map (flight_ids (inflight s)) (filter (\<lambda>x. overdue now (snd x)) order))) \<and>
    length (to_client s') = length (to_client s) + n \<and> n = length (answered s') - length (answered s) \<and>
    pending s' = filter (\<lambda>x. \<not> overdue now (snd x)) (pending s) \<and> sinv s'"
proof -
  have i: "sinv s" using assms(1) by (rule sreach_inv)
  obtain infl notify where e: "expireAt now order s = (length notify, fold answer (map (\<lambda>rid. (rid, timeout_frame rid)) notify)
       (s\<lparr>pending := filter (\<lambda>x. \<not> overdue now (snd x)) (pending s), inflight := infl\<rparr>))"
    using expireAt_loop [OF i assms(2), of now] by blast
  have "mset (map (pc_hash \<circ> snd) order) = hashes (pending s)" using assms(2) by (simp add: hashes_def)
  moreover have "hashes (pending s) + hashes (taken (hpump s)) + hashes (orphans s) = mset (map fst (inflight s))" "distinct (map fst (inflight s))"
    using i by (simp_all add: sinv_def leading_def)
  ultimately have "mset (map (pc_hash \<circ> snd) (order @ taken (hpump s) @ orphans s)) = mset (map fst (inflight s))"
    by (simp add: hashes_def union_ac)
  then have "distinct (map (pc_hash \<circ> snd) (order @ taken (hpump s) @ orphans s))"
    using \<open>distinct (map fst (inflight s))\<close> mset_eq_imp_distinct_iff by blast
  then have "distinct (map (pc_hash \<circ> snd) order)" by simp
  from expire_loop_notify [OF this, of now "pending s" "inflight s" "[]"]
  have "answered s' = answered s @ map (\<lambda>rid. (rid, timeout_frame rid))
      (concat (map (flight_ids (inflight s)) (filter (\<lambda>x. overdue now (snd x)) order)))"
    using assms(3) by (auto simp: expireAt_def answers split_def Let_def)
  moreover have "sinv s'" using expireAt_inv [OF i assms(2), of now] assms(3) by simp
  moreover have "length (answered s') = length (answered s) + n"
    using e assms(3) by (auto simp: answers)
  moreover have "n = length notify"
    "to_client s' = to_client s @ map (\<lambda>rid. writeLine (timeout_frame rid)) notify"
    "pending s' = filter (\<lambda>x. \<not> overdue now (snd x)) (pending s)"
    using e assms(3) by (auto simp: answers)
  ultimately show ?thesis by simp
qed

section \<open>Calls that the pipeline does not fingerprint\<close>

lemma Lookup_off:
  "Mode (pol_of P q) = ModeOff \<Longrightarrow> Lookup P q S = (Inr (zero_result, ''''), S)"
  by (simp add: Lookup_def admit_def)

lemma cl_read_off:
  assumes "unmarshal_message line = Inr msg" "ParseToolsCall msg = Inr (tool, args)" "Mode (For (policies P) tool) = ModeOff"
  shows "cl_read P env line s = s\<lparr>cpump := CLooked line msg tool args zero_result\<rparr>"
proof -
  have "m_Method msg = MethodToolsCall" using assms(2) by (auto simp: ParseToolsCall_def split: if_splits)
  moreover have "Lookup P (stdio_request env tool args) (base s) = (Inr (zero_result, ''''), base s)"
    using assms(3) by (intro Lookup_off) (simp add: stdio_request_def)
  ultimately show ?thesis using assms(1,2) by (simp add: cl_read_def zero_result_def)
qed

text \<open>A call of a tool whose mode is off carries no fingerprint, and the tables are keyed by the
  fingerprint. So while one such call is on its way, every other call of any tool whose mode is off is
  queued behind it: the child never sees it, and it will be answered with the response to the other
  call, whatever its tool and its arguments are.\<close>

theorem stdio_off_mode_coalesces:
  assumes "unmarshal_message line = Inr msg" "ParseToolsCall msg = Inr (tool, args)"
    and "Mode (For (policies P) tool) = ModeOff" "map_of (inflight s) '''' = Some ifc"
  shows "let s' = cl_enter T now (cl_read P env line s) in
    to_child s' = to_child s \<and> to_client s' = to_client s \<and> pending s' = pending s \<and>
    map_of (inflight s') '''' = Some (ifc\<lparr>waiters := waiters ifc @ [m_ID msg]\<rparr>)"
  using cl_read_off [OF assms(1-3), of env s] assms(4) by (simp add: cl_enter_def Let_def zero_result_def AList.update_conv')

section \<open>A concrete run\<close>

text \<open>Two calls of a tool whose mode is off, with ids 1 and 7: the first leads, the second is queued.\<close>

definition demo_off :: "(Memory, unit) config" where
  "demo_off = demo_pipeline\<lparr>policies := \<lparr>Defaults = zero_policy\<lparr>Mode := ModeOff\<rparr>, Tools = Map.empty\<rparr>\<rparr>"

definition demo_stdio :: "bytes list \<Rightarrow> (Memory, unit) stdio" where
  "demo_stdio ws = \<lparr>base = New_pipeline NewMemory, pending = [(''1'', \<lparr>pc_tool = ''send'', pc_args = '''', pc_hash = '''', pc_deadline = 15\<rparr>)],
     inflight = [('''', \<lparr>waiters = ws, if_deadline = 15\<rparr>)], cpump = CIdle, hpump = HIdle,
     to_child = [writeLine (frame (demo_frame ''1''))], to_client = [], accepted = ''1'' # ws, answered = [],
     orphans = [], late = [], relayed = []\<rparr>"

lemma demo_line:
  assumes "tight 9999 rid"
  shows "unmarshal_message (frame (demo_frame rid)) = Inr (demo_frame rid)"
  using unmarshal_marshal [OF demo_frame_wf [OF assms]] marshal_wf [OF demo_frame_wf [OF assms]] by (simp add: frame_def)

lemma demo_off_mode: "Mode (For (policies demo_off) ''send'') = ModeOff"
  by (simp add: demo_off_def For_def mergeDefaults_def zero_policy_def)

lemma demo_ids: "m_ID (demo_frame rid) = rid"
  by (simp add: demo_frame_def zero_message_def)

lemma demo_run:
  "sreach demo_off 10 (demo_stdio [])" "sreach demo_off 10 (demo_stdio [''7''])"
proof -
  let ?s0 = "NewStdioHandler NewMemory :: (Memory, unit) stdio"
  let ?l1 = "frame (demo_frame ''1'')" and ?l7 = "frame (demo_frame ''7'')"
  note r = cl_read_off [OF demo_line demo_parse demo_off_mode]
  have "sreach demo_off 10 (cl_read demo_off demo_request ?l1 ?s0)"
    by (rule sreach.step [OF sreach.init sstep.reads]) (simp add: NewStdioHandler_def)
  then have "sreach demo_off 10 (cl_enter 10 5 (cl_read demo_off demo_request ?l1 ?s0))"
    by (rule sreach.step) (rule sstep.enters, simp add: r [OF tight_number(1)])
  also have "cl_enter 10 5 (cl_read demo_off demo_request ?l1 ?s0) = demo_stdio []"
    by (simp add: r [OF tight_number(1)] NewStdioHandler_def cl_enter_def Let_def deadline_of_def send_child_def demo_ids
        demo_stdio_def zero_result_def)
  finally show one: "sreach demo_off 10 (demo_stdio [])" .
  have "sreach demo_off 10 (cl_read demo_off demo_request ?l7 (demo_stdio []))"
    by (rule sreach.step [OF one sstep.reads]) (simp add: demo_stdio_def)
  then have "sreach demo_off 10 (cl_enter 10 5 (cl_read demo_off demo_request ?l7 (demo_stdio [])))"
    by (rule sreach.step) (rule sstep.enters, simp add: r [OF tight_number(2)])
  also have "cl_enter 10 5 (cl_read demo_off demo_request ?l7 (demo_stdio [])) = demo_stdio [''7'']"
    by (simp add: r [OF tight_number(2)] cl_enter_def Let_def demo_ids demo_stdio_def zero_result_def)
  finally show "sreach demo_off 10 (demo_stdio [''7''])" .
qed

text \<open>Both calls time out, and then the child answers the first: its client gets the timeout error and the response.\<close>

lemma demo_timed_out:
  assumes "s = snd (expireAt 20 (pending (demo_stdio [''7''])) (demo_stdio [''7'']))"
  shows "pending s = []" "inflight s = []" "hpump s = HIdle" "accepted s = [''1'', ''7'']" "late s = []" "relayed s = []"
  using assms by (simp_all add: expireAt_def demo_stdio_def overdue_def IsZero_def answers del: fold_simps)

lemma demo_late:
  assumes "pending s = []"
  shows "ch_read (frame (NewToolsCallResponse ''1'' ''7'')) s =
    (writeClient (frame (NewToolsCallResponse ''1'' ''7'')) s)\<lparr>late := late s @ [(''1'', frame (NewToolsCallResponse ''1'' ''7''))]\<rparr>"
proof -
  have w: "wf_message (NewToolsCallResponse ''1'' ''7'')"
    by (simp add: wf_message_def NewToolsCallResponse_def zero_message_def tight_number ascii_valid tight_def [of _ "''''"])
  then have "unmarshal_message (frame (NewToolsCallResponse ''1'' ''7'')) = Inr (NewToolsCallResponse ''1'' ''7'')"
    using unmarshal_marshal [OF w] marshal_wf [OF w] by (simp add: frame_def)
  moreover have "IsResponse (NewToolsCallResponse ''1'' ''7'')" "m_ID (NewToolsCallResponse ''1'' ''7'') = ''1''"
    by (simp_all add: IsResponse_def NewToolsCallResponse_def zero_message_def)
  ultimately show ?thesis using assms by (simp add: ch_read_def)
qed

theorem stdio_no_call_lost_witness:
  "\<exists>s. sreach demo_off 10 s \<and> accepted s = [''1'', ''7''] \<and> mset (map fst (answered s)) = {#''1'', ''7''#} \<and>
     map fst (late s) = [''1''] \<and> length (to_client s) = 3"
proof -
  let ?s = "snd (expireAt 20 (pending (demo_stdio [''7''])) (demo_stdio [''7'']))"
  let ?t = "ch_read (frame (NewToolsCallResponse ''1'' ''7'')) ?s"
  note d = demo_timed_out [of ?s, OF refl]
  have "sreach demo_off 10 ?s" by (rule sreach.step [OF demo_run(2) sstep.sweeps]) simp_all
  then have r: "sreach demo_off 10 ?t" by (rule sreach.step) (rule sstep.responds [OF d(3)])
  have t: "pending ?t = []" "inflight ?t = []" "hpump ?t = HIdle" "accepted ?t = [''1'', ''7'']"
    "late ?t = [(''1'', frame (NewToolsCallResponse ''1'' ''7''))]" "relayed ?t = []"
    unfolding demo_late [OF d(1)] by (simp_all add: writeClient_def d)
  from stdio_no_call_lost [OF r] have a: "mset (map fst (answered ?t)) = {#''1'', ''7''#}"
    and c: "mset (to_client ?t) = mset (map (writeLine \<circ> snd) (answered ?t)) + mset (map (writeLine \<circ> snd) (late ?t))"
    unfolding t by (simp_all add: taken_def)
  have "length (to_client ?t) = length (answered ?t) + length (late ?t)"
    using arg_cong [OF c, of size] by (simp only: size_union size_mset length_map)
  moreover have "length (answered ?t) = 2" using arg_cong [OF a, of size] by (simp only: size_mset length_map) simp
  ultimately show ?thesis using r t a by (intro exI [of _ ?t]) simp
qed

theorem sweep_exact_witness:
  "answered (snd (expireAt 20 (pending (demo_stdio [''7''])) (demo_stdio [''7'']))) =
     [(''1'', timeout_frame ''1''), (''7'', timeout_frame ''7'')] \<and>
   pending (snd (expireAt 20 (pending (demo_stdio [''7''])) (demo_stdio [''7'']))) = []"
  using sweep_exact [OF demo_run(2) refl, of 20 "fst (expireAt 20 (pending (demo_stdio [''7''])) (demo_stdio [''7'']))"
      "snd (expireAt 20 (pending (demo_stdio [''7''])) (demo_stdio [''7'']))"]
  by (simp add: demo_stdio_def overdue_def IsZero_def flight_ids_def)

theorem stdio_off_mode_coalesces_witness:
  "sreach demo_off 10 (demo_stdio []) \<and>
   (let s' = cl_enter 10 5 (cl_read demo_off demo_request (frame (demo_frame ''7'')) (demo_stdio [])) in
    to_child s' = [writeLine (frame (demo_frame ''1''))] \<and> queued (inflight s') = [''7''])"
proof -
  have "map_of (inflight (demo_stdio [])) '''' = Some \<lparr>waiters = [], if_deadline = 15\<rparr>" by (simp add: demo_stdio_def)
  from stdio_off_mode_coalesces [OF demo_line [OF tight_number(2)] demo_parse demo_off_mode this, of 10 5 demo_request]
  have "to_child (cl_enter 10 5 (cl_read demo_off demo_request (frame (demo_frame ''7'')) (demo_stdio []))) = to_child (demo_stdio [])"
    by (simp add: Let_def)
  moreover have "queued (inflight (cl_enter 10 5 (cl_read demo_off demo_request (frame (demo_frame ''7'')) (demo_stdio [])))) = [''7'']"
    by (simp add: cl_read_off [OF demo_line [OF tight_number(2)] demo_parse demo_off_mode] cl_enter_def demo_stdio_def zero_result_def demo_ids)
  ultimately show ?thesis using demo_run(1) by (simp add: Let_def demo_stdio_def)
qed

end
