(* ===== verification/Stdio_Run.thy ===== *)
theory Stdio_Run
  imports Stdio
begin

text \<open>
  The life of a stdio adapter: \<open>NewStdioHandler\<close>, \<open>SetRequestTimeout\<close> and \<open>Run\<close> of \<open>internal/mcp/stdio.go\<close>. \<open>Run\<close>
  starts the child process, then two pumps and, for a positive timeout, the sweeper; it returns what \<open>cmd.Wait\<close>
  returns once both pumps have ended. A pump ends between two lines, when its input does. What the operating system
  answers is a parameter.
\<close>

definition DefaultRequestTimeout :: duration where "DefaultRequestTimeout = 60 * Second"

record StdioHandler =
  h_cmdPath :: bytes
  h_cmdArgs :: "bytes list"
  h_requestTimeout :: duration

definition new_handler :: "bytes \<Rightarrow> bytes list \<Rightarrow> StdioHandler" where
  "new_handler cmdPath cmdArgs = \<lparr>h_cmdPath = cmdPath, h_cmdArgs = cmdArgs, h_requestTimeout = DefaultRequestTimeout\<rparr>"

definition SetRequestTimeout :: "duration \<Rightarrow> StdioHandler \<Rightarrow> StdioHandler" where
  "SetRequestTimeout d h = h\<lparr>h_requestTimeout := d\<rparr>"

record ('s, 'l) srun =
  sio :: "('s, 'l) stdio"
  client_done :: bool                \<comment> \<open>\<open>pumpClientToChild\<close> has returned, the child's input is closed\<close>
  child_done :: bool                 \<comment> \<open>\<open>pumpChildToClient\<close> has returned\<close>
  sweep_stopped :: bool
  returned :: "unit result option"   \<comment> \<open>what \<open>Run\<close> has returned\<close>

text \<open>\<open>Run\<close> up to the pumps: the pipes and the start of the child.\<close>

definition start_run :: "unit result \<Rightarrow> unit result \<Rightarrow> unit result \<Rightarrow> 's \<Rightarrow> ('s, 'l) srun result" where
  "start_run stdinPipe stdoutPipe start st =
     (case stdinPipe of
        Inl err \<Rightarrow> Inl (Wrapped ''stdin pipe'' err)
      | Inr _ \<Rightarrow>
          (case stdoutPipe of
             Inl err \<Rightarrow> Inl (Wrapped ''stdout pipe'' err)
           | Inr _ \<Rightarrow>
               (case start of
                  Inl err \<Rightarrow> Inl (Wrapped ''start child'' err)
                | Inr _ \<Rightarrow> Inr \<lparr>sio = NewStdioHandler st, client_done = False, child_done = False, sweep_stopped = False,
                    returned = None\<rparr>)))"

text \<open>\<open>m\<close> is the timeout of the handler, \<open>waited\<close> the answer of \<open>cmd.Wait\<close>.\<close>

inductive rstep :: "('s, 'l) config \<Rightarrow> duration \<Rightarrow> ('s, 'l) srun \<Rightarrow> ('s, 'l) srun \<Rightarrow> bool" for P m where
  client_reads: "\<not> client_done s \<Longrightarrow> cpump (sio s) = CIdle \<Longrightarrow> rstep P m s (s\<lparr>sio := cl_read P env line (sio s)\<rparr>)"
| client_enters: "\<not> client_done s \<Longrightarrow> cpump (sio s) = CLooked line msg tool args res \<Longrightarrow>
    rstep P m s (s\<lparr>sio := cl_enter m now (sio s)\<rparr>)"
| client_eof: "\<not> client_done s \<Longrightarrow> cpump (sio s) = CIdle \<Longrightarrow> rstep P m s (s\<lparr>client_done := True\<rparr>)"
| child_reads: "\<not> child_done s \<Longrightarrow> hpump (sio s) = HIdle \<Longrightarrow> rstep P m s (s\<lparr>sio := ch_read line (sio s)\<rparr>)"
| child_caches: "\<not> child_done s \<Longrightarrow> hpump (sio s) = HTook rid line call \<Longrightarrow> rstep P m s (s\<lparr>sio := ch_cache P env (sio s)\<rparr>)"
| child_collects: "\<not> child_done s \<Longrightarrow> hpump (sio s) = HCached rid line call \<Longrightarrow> rstep P m s (s\<lparr>sio := ch_collect (sio s)\<rparr>)"
| child_eof: "\<not> child_done s \<Longrightarrow> hpump (sio s) = HIdle \<Longrightarrow> rstep P m s (s\<lparr>child_done := True\<rparr>)"
| sweep: "0 < m \<Longrightarrow> \<not> sweep_stopped s \<Longrightarrow> mset order = mset (pending (sio s)) \<Longrightarrow>
    rstep P m s (s\<lparr>sio := snd (expireAt now order (sio s))\<rparr>)"
| waits: "client_done s \<Longrightarrow> child_done s \<Longrightarrow> returned s = None \<Longrightarrow> rstep P m s (s\<lparr>sweep_stopped := True, returned := Some waited\<rparr>)"

inductive rreach :: "('s, 'l) config \<Rightarrow> duration \<Rightarrow> ('s, 'l) srun \<Rightarrow> bool" for P m where
  run_starts: "start_run stdinPipe stdoutPipe start st = Inr s \<Longrightarrow> rreach P m s"
| run_goes_on: "rreach P m s \<Longrightarrow> rstep P m s s' \<Longrightarrow> rreach P m s'"

lemma start_run_fresh: "start_run a b c st = Inr s \<Longrightarrow>
  s = \<lparr>sio = NewStdioHandler st, client_done = False, child_done = False, sweep_stopped = False, returned = None\<rparr>"
  by (auto simp: start_run_def split: sum.splits)

lemma rstep_sstep: "rstep P m s s' \<Longrightarrow> sstep P m (sio s) (sio s') \<or> sio s' = sio s"
  by (induction rule: rstep.induct) (auto intro: sstep.intros)

lemma rreach_sreach: "rreach P m s \<Longrightarrow> sreach P m (sio s)"
proof (induction rule: rreach.induct)
  case (run_starts a b c st s)
  show ?case unfolding start_run_fresh [OF run_starts] by (simp add: sreach.init)
next
  case (run_goes_on s s')
  then show ?case using rstep_sstep by (metis sreach.step)
qed

text \<open>A pump that has ended is idle, and \<open>Run\<close> has returned only after both.\<close>

definition run_inv :: "('s, 'l) srun \<Rightarrow> bool" where
  "run_inv s \<longleftrightarrow> (client_done s \<longrightarrow> cpump (sio s) = CIdle) \<and> (child_done s \<longrightarrow> hpump (sio s) = HIdle) \<and>
     (returned s \<noteq> None \<longrightarrow> client_done s \<and> child_done s \<and> sweep_stopped s)"

lemma pumps_apart:
  "hpump (cl_enter m now s) = hpump s" "cpump (ch_read line s) = cpump s" "cpump (ch_cache P env s) = cpump s"
  "cpump (ch_collect s) = cpump s" "cpump (snd (expireAt now order s)) = cpump s" "hpump (snd (expireAt now order s)) = hpump s"
  by (auto simp: cl_enter_def ch_read_def ch_cache_def ch_collect_def expireAt_def send_child_def writeClient_def relay_def answer_def answers Let_def
      split: client_pump.split child_pump.split sum.split option.split prod.split)

lemma run_inv_step: "rstep P m s s' \<Longrightarrow> run_inv s \<Longrightarrow> run_inv s'"
  by (induction rule: rstep.induct) (auto simp: run_inv_def pumps_apart cl_read_tables)

lemma run_inv_reach: "rreach P m s \<Longrightarrow> run_inv s"
proof (induction rule: rreach.induct)
  case (run_starts a b c st s)
  show ?case unfolding start_run_fresh [OF run_starts] by (simp add: run_inv_def)
qed (rule run_inv_step)

text \<open>Every run of \<open>Run\<close> is a run of the pumps and the sweeper, so what holds of their reachable states holds here. When
  \<open>Run\<close> has returned nothing moves any more, no call is half-way, and every call it accepted has been answered, is
  still owed by the child, is queued behind a fingerprint in flight, or was overwritten by a call with the same id.\<close>

theorem stdio_Run_quiescent:
  assumes "rreach P m s" "returned s = Some w"
  shows "sreach P m (sio s) \<and> (\<forall>s'. \<not> rstep P m s s') \<and> cpump (sio s) = CIdle \<and> hpump (sio s) = HIdle \<and>
    mset (accepted (sio s)) = mset (map fst (pending (sio s))) + mset (queued (inflight (sio s))) +
      mset (map fst (answered (sio s))) + mset (map fst (orphans (sio s)))"
proof -
  have i: "run_inv s" using assms(1) by (rule run_inv_reach)
  have r: "sreach P m (sio s)" using assms(1) by (rule rreach_sreach)
  have "\<not> rstep P m s s'" for s' using i assms(2) by (auto simp: run_inv_def elim: rstep.cases)
  then show ?thesis using i r assms(2) sreach_inv [OF r] by (simp add: run_inv_def sinv_def leading_def taken_def)
qed

end
