(* ===== verification/Pipeline_Options.thy ===== *)
theory Pipeline_Options
  imports Pipeline
begin

text \<open>
  Construction of a pipeline: \<open>New\<close> of \<open>internal/pipeline\<close> with its options. What \<open>New\<close> leaves nil is off: no
  embedder, no metrics, no audit, no shadow mode. The clock is not a field of the model (\<open>WithClock\<close> chooses where
  the instants of \<open>request\<close> come from). An option that comes later overrides an earlier one.
\<close>

datatype pl_option =
    WithEmbedder "(bytes \<Rightarrow> f32 list result) option"
  | WithMetrics bool
  | WithAudit bool
  | WithShadow bool

fun apply_pl_option :: "('s, 'l) config \<Rightarrow> pl_option \<Rightarrow> ('s, 'l) config" where
  "apply_pl_option P (WithEmbedder e) = P\<lparr>embedder := e\<rparr>"
| "apply_pl_option P (WithMetrics on) = P\<lparr>metrics := on\<rparr>"
| "apply_pl_option P (WithAudit on) = P\<lparr>audit := on\<rparr>"
| "apply_pl_option P (WithShadow on) = P\<lparr>shadow := on\<rparr>"

text \<open>\<open>R\<close> and \<open>L\<close> stand for the packages the pipeline links.\<close>

definition New_config :: "Config \<Rightarrow> 's store_ops \<Rightarrow> 'l rate_ops \<Rightarrow> lib \<Rightarrow> pl_option list \<Rightarrow> ('s, 'l) config" where
  "New_config p st R L opts =
     foldl apply_pl_option
       \<lparr>policies = p, store = st, rates = R, embedder = None, metrics = False, audit = False, shadow = False, libs = L\<rparr> opts"

lemma options_keep [simp]:
  "policies (foldl apply_pl_option P opts) = policies P" "store (foldl apply_pl_option P opts) = store P"
  "rates (foldl apply_pl_option P opts) = rates P" "libs (foldl apply_pl_option P opts) = libs P"
proof (induction opts arbitrary: P)
  case (Cons opt opts)
  { case 1 then show ?case using Cons.IH(1) by (cases opt) simp_all }
  { case 2 then show ?case using Cons.IH(2) by (cases opt) simp_all }
  { case 3 then show ?case using Cons.IH(3) by (cases opt) simp_all }
  { case 4 then show ?case using Cons.IH(4) by (cases opt) simp_all }
qed simp_all

end
