(* ===== verification/Http_Auth.thy ===== *)
theory Http_Auth
  imports Tracing
begin

text \<open>
  The HTTP layer the adapters share, and \<open>internal/auth/auth.go\<close>: bearer-token middleware in its
  three forms, with the loading of the token file and the loopback test of \<open>cmd/potent/main.go\<close>.

  A handler takes the response writer as far as it is filled in, the request and the state of the
  process, and ends with a response, by waiting for ever, or with a panic. The context of a request
  is what the code stores in it: the caller and the span. Header names are canonical, as
  \<open>Header.Get\<close> and \<open>Header.Set\<close> make them; a missing header reads as the empty string.
\<close>

section \<open>Requests, responses, handlers\<close>

record http_req =
  rq_method :: bytes
  rq_path :: bytes
  rq_query :: bytes         \<comment> \<open>\<open>URL.RawQuery\<close>\<close>
  rq_header :: "bytes \<Rightarrow> bytes"
  rq_body :: "bytes result"
  rq_caller :: bytes
  rq_span :: "SpanContext option"

record http_resp =
  rs_status :: int
  rs_header :: "bytes \<rightharpoonup> bytes"
  rs_body :: bytes

definition new_resp :: http_resp where
  "new_resp = \<lparr>rs_status = 200, rs_header = Map.empty, rs_body = ''''\<rparr>"

datatype http_out = Served http_resp | Waits | Panics bytes

type_synonym 'st handler = "http_resp \<Rightarrow> http_req \<Rightarrow> 'st \<Rightarrow> http_out \<times> 'st"

definition set_header :: "bytes \<Rightarrow> bytes \<Rightarrow> http_resp \<Rightarrow> http_resp" where
  "set_header k v w = w\<lparr>rs_header := (rs_header w)(k \<mapsto> v)\<rparr>"

definition respond :: "int \<Rightarrow> bytes \<Rightarrow> http_resp \<Rightarrow> http_out" where
  "respond code body w = Served (w\<lparr>rs_status := code, rs_body := rs_body w @ body\<rparr>)"

text \<open>\<open>http.Error\<close>: a plain-text body with a line break.\<close>

definition http_Error :: "bytes \<Rightarrow> int \<Rightarrow> http_resp \<Rightarrow> http_out" where
  "http_Error msg code w =
     respond code (msg @ [CHR 0x0A])
       (set_header ''X-Content-Type-Options'' ''nosniff'' (set_header ''Content-Type'' ''text/plain; charset=utf-8'' w))"

text \<open>Reading a request body, capped when \<open>maxBytes\<close> is positive (\<open>http.MaxBytesReader\<close>).\<close>

definition read_body :: "int \<Rightarrow> http_req \<Rightarrow> bytes result" where
  "read_body maxBytes r =
     (case rq_body r of
        Inl err \<Rightarrow> Inl err
      | Inr b \<Rightarrow> if 0 < maxBytes \<and> maxBytes < int (length b) then Inl (ErrMsg ''http: request body too large'') else Inr b)"

section \<open>Bearer tokens\<close>

text \<open>\<open>crypto/subtle\<close>: the differences of all bytes are collected before anything is decided.\<close>

definition ConstantTimeCompare :: "bytes \<Rightarrow> bytes \<Rightarrow> int" where
  "ConstantTimeCompare x y =
     (if length x \<noteq> length y then 0
      else if foldl (\<lambda>v (a, b). v OR (of_char a XOR of_char b :: 8 word)) 0 (zip x y) = 0 then 1 else 0)"

definition challenge :: "bytes \<Rightarrow> bytes" where
  "challenge realm = ''Bearer realm='' @ [CHR 0x22] @ (if realm = '''' then ''potent'' else realm) @ [CHR 0x22]"

definition unauthorized :: "bytes \<Rightarrow> http_resp \<Rightarrow> http_out" where
  "unauthorized realm w = http_Error ''unauthorized'' 401 (set_header ''Www-Authenticate'' (challenge realm) w)"

definition RequireBearer :: "bytes \<Rightarrow> bytes \<Rightarrow> 'st handler \<Rightarrow> 'st handler" where
  "RequireBearer token realm next =
     (if token = '''' then next
      else (\<lambda>w r st.
        if ConstantTimeCompare (rq_header r ''Authorization'') (''Bearer '' @ token) \<noteq> 1
        then (unauthorized realm w, st)
        else next w r st))"

definition auth_startsWith :: "bytes \<Rightarrow> bytes \<Rightarrow> bool" where
  "auth_startsWith s prefix \<longleftrightarrow> length prefix \<le> length s \<and> take (length prefix) s = prefix"

type_synonym verifier = "bytes \<Rightarrow> bytes result"

definition RequireBearerVerifier :: "verifier option \<Rightarrow> bytes \<Rightarrow> 'st handler \<Rightarrow> 'st handler" where
  "RequireBearerVerifier v realm next =
     (case v of
        None \<Rightarrow> next
      | Some Verify \<Rightarrow> (\<lambda>w r st.
          let header = rq_header r ''Authorization'' in
          if \<not> auth_startsWith header ''Bearer '' then (unauthorized realm w, st)
          else case Verify (drop (length ''Bearer '') header) of
                 Inl _ \<Rightarrow> (unauthorized realm w, st)
               | Inr caller \<Rightarrow> if caller = '''' then (unauthorized realm w, st)
                               else next w (r\<lparr>rq_caller := caller\<rparr>) st))"

text \<open>The token map, as the list of its entries in the order the \<open>range\<close> loop visits them.\<close>

fun match_entries :: "bytes \<Rightarrow> (bytes \<times> bytes) list \<Rightarrow> bytes \<Rightarrow> bytes" where
  "match_entries got [] matched = matched"
| "match_entries got ((expected, caller) # es) matched =
     match_entries got es (if ConstantTimeCompare got expected = 1 then caller else matched)"

definition RequireBearerCallers :: "(bytes \<times> bytes) list \<Rightarrow> bytes \<Rightarrow> 'st handler \<Rightarrow> 'st handler" where
  "RequireBearerCallers tokens realm next =
     (if length tokens = 0 then next
      else let entries = map (\<lambda>(token, caller). (''Bearer '' @ token, caller)) tokens in
        (\<lambda>w r st.
          let matched = match_entries (rq_header r ''Authorization'') entries '''' in
          if matched = '''' then (unauthorized realm w, st)
          else next w (r\<lparr>rq_caller := matched\<rparr>) st))"

section \<open>Startup\<close>

fun token_lines :: "bytes list \<Rightarrow> (bytes \<times> bytes) list \<Rightarrow> (bytes \<times> bytes) list result" where
  "token_lines [] tokens = Inr tokens"
| "token_lines (raw # rest) tokens =
     (let line0 = (case Index raw (CHR ''#'') of Some i \<Rightarrow> take i raw | None \<Rightarrow> raw);
          line = TrimSpace line0
      in if line = '''' then token_lines rest tokens
         else case Index line (CHR '':'') of
                None \<Rightarrow> Inl (ErrMsg ''expected caller-id: token'')
              | Some colon \<Rightarrow>
                  if colon = 0 then Inl (ErrMsg ''expected caller-id: token'')
                  else let caller = TrimSpace (take colon line); token = TrimSpace (drop (Suc colon) line)
                       in if caller = '''' \<or> token = '''' then Inl (ErrMsg ''empty caller or token'')
                          else if map_of tokens token \<noteq> None then Inl (ErrMsg ''duplicate token'')
                          else token_lines rest (tokens @ [(token, caller)]))"

text \<open>\<open>file\<close> is what reading the file gives.\<close>

definition loadAPITokens :: "bytes \<Rightarrow> bytes result \<Rightarrow> (bytes \<times> bytes) list result" where
  "loadAPITokens path file =
     (if path = '''' then Inr []
      else case file of
             Inl err \<Rightarrow> Inl (Wrapped ''read'' err)
           | Inr b \<Rightarrow> token_lines (Split (CHR 0x0A) b) [])"

definition isLoopbackBind :: "bytes \<Rightarrow> bool" where
  "isLoopbackBind addr =
     (let host = (case LastIndex addr (CHR '':'') of Some i \<Rightarrow> take i addr | None \<Rightarrow> addr)
      in host = ''127.0.0.1'' \<or> host = ''::1'' \<or> host = ''localhost'')"

text \<open>The check of \<open>run\<close> before it opens a listener.\<close>

definition refuse_unauthenticated :: "bytes \<Rightarrow> bytes \<Rightarrow> (bytes \<times> bytes) list \<Rightarrow> bytes \<Rightarrow> bytes \<Rightarrow> bool" where
  "refuse_unauthenticated mode apiToken apiTokens oidcJWKS addr \<longleftrightarrow>
     (mode = ''http'' \<or> mode = ''mcp-http'') \<and> apiToken = '''' \<and> length apiTokens = 0 \<and> oidcJWKS = '''' \<and>
     \<not> isLoopbackBind addr"

text \<open>How the HTTP adapters (\<open>Proxy.Handler\<close>, \<open>HTTPHandler.Handler\<close>) pick one of the three.\<close>

definition gate :: "verifier option \<Rightarrow> (bytes \<times> bytes) list \<Rightarrow> bytes \<Rightarrow> bytes \<Rightarrow> 'st handler \<Rightarrow> 'st handler" where
  "gate oidcVerifier apiTokens apiToken realm inner =
     (if oidcVerifier \<noteq> None then RequireBearerVerifier oidcVerifier realm inner
      else if length apiTokens > 0 then RequireBearerCallers apiTokens realm inner
      else RequireBearer apiToken realm inner)"

text \<open>\<open>tracing.Middleware\<close> around a handler: it sets the span of the context and echoes the header. The
  random source is part of the state; a source that never gives a usable block never returns.\<close>

definition traced :: "'r reader \<Rightarrow> 'st handler \<Rightarrow> ('st \<times> 'r) handler" where
  "traced read next w r s =
     (case Middleware read (rq_header r ''Traceparent'') (snd s) of
        None \<Rightarrow> (Waits, s)
      | Some (None, rnd) \<Rightarrow> (let (out, st) = next w r (fst s) in (out, (st, rnd)))
      | Some (Some (sc, hdr), rnd) \<Rightarrow>
          (let (out, st) = next (set_header ''Traceparent'' hdr w) (r\<lparr>rq_span := Some sc\<rparr>) (fst s) in (out, (st, rnd))))"

section \<open>What the comparisons decide\<close>

lemma of_char_word_inject: "(of_char a :: 8 word) = of_char b \<longleftrightarrow> a = b"
proof
  assume "(of_char a :: 8 word) = of_char b"
  then have "(of_nat (of_char a) :: 8 word) = of_nat (of_char b)" by (simp add: of_nat_of_char)
  then have "take_bit 8 (of_char a :: nat) = take_bit 8 (of_char b)" by (simp add: of_nat_eq_iff word_of_nat_eq_iff)
  moreover have "(of_char c :: nat) < 2 ^ 8" for c using nat_of_char_less_256 [of c] by simp
  ultimately have "(of_char a :: nat) = of_char b" by (simp add: take_bit_nat_eq_self)
  then show "a = b" by simp
qed simp

lemma xor_zero: "(a XOR b = (0 :: 8 word)) \<longleftrightarrow> a = b"
  by (auto simp: bit_eq_iff bit_xor_iff)

lemma or_zero: "(a OR b = (0 :: 8 word)) \<longleftrightarrow> a = 0 \<and> b = 0"
  by (auto simp: bit_eq_iff bit_or_iff)

lemma fold_diff:
  "length x = length y \<Longrightarrow>
     foldl (\<lambda>v (a, b). v OR (of_char a XOR of_char b :: 8 word)) v0 (zip x y) = 0 \<longleftrightarrow> v0 = 0 \<and> x = y"
  by (induction x y arbitrary: v0 rule: list_induct2) (auto simp: or_zero xor_zero of_char_word_inject)

lemma ConstantTimeCompare_eq: "ConstantTimeCompare x y = 1 \<longleftrightarrow> x = y"
  using fold_diff [of x y 0] by (auto simp: ConstantTimeCompare_def)

lemma auth_startsWith_iff: "auth_startsWith s p \<longleftrightarrow> (\<exists>r. s = p @ r)"
  using take_eq_iff_prefix [of p s] by (auto simp: auth_startsWith_def)

lemma match_entries_eq:
  "distinct (map fst es) \<Longrightarrow> match_entries got es m = (case map_of es got of Some c \<Rightarrow> c | None \<Rightarrow> m)"
proof (induction es arbitrary: m)
  case (Cons e es)
  obtain x c where e: "e = (x, c)" by (cases e)
  have "map_of es x = None" using Cons.prems e by (auto simp: map_of_eq_None_iff)
  then show ?case using Cons e by (auto simp: ConstantTimeCompare_eq split: option.splits)
qed simp

lemma map_of_prefixed: "map_of (map (\<lambda>(t, c). (p @ t, c)) ts) (p @ t) = map_of ts t"
  by (induction ts) auto

lemma map_of_prefixed_none: "(\<nexists>t. got = p @ t) \<Longrightarrow> map_of (map (\<lambda>(t, c). (p @ t, c)) ts) got = None"
  by (induction ts) auto

lemma distinct_prefixed: "distinct (map fst ts) \<Longrightarrow> distinct (map fst (map (\<lambda>(t, c). (p @ t, c)) ts))"
proof -
  have "map fst (map (\<lambda>(t, c). (p @ t, c)) ts) = map ((@) p) (map fst ts)" by (induction ts) auto
  then show "distinct (map fst ts) \<Longrightarrow> ?thesis" by (simp add: distinct_map inj_on_def del: map_map)
qed

text \<open>The credentials a request carries, as the three forms of the gate read them: the caller they stand
  for (empty when single-token or no authentication is in use), or nothing.\<close>

definition credentials :: "verifier option \<Rightarrow> (bytes \<times> bytes) list \<Rightarrow> bytes \<Rightarrow> bytes \<Rightarrow> bytes option" where
  "credentials oidcVerifier apiTokens apiToken header =
     (case (oidcVerifier, if auth_startsWith header ''Bearer '' then Some (drop (length ''Bearer '') header) else None) of
        (Some Verify, Some t) \<Rightarrow> (case Verify t of Inr c \<Rightarrow> if c = '''' then None else Some c | Inl _ \<Rightarrow> None)
      | (Some Verify, None) \<Rightarrow> None
      | (None, bearer) \<Rightarrow>
          if apiTokens \<noteq> [] then
            (case Option.bind bearer (map_of apiTokens) of Some c \<Rightarrow> if c = '''' then None else Some c | None \<Rightarrow> None)
          else if apiToken = '''' \<or> bearer = Some apiToken then Some '''' else None)"

lemma gate_eq:
  assumes "distinct (map fst apiTokens)"
  shows "gate v apiTokens apiToken realm inner w r st =
    (case credentials v apiTokens apiToken (rq_header r ''Authorization'') of
       None \<Rightarrow> (unauthorized realm w, st)
     | Some c \<Rightarrow> inner w (if c = '''' then r else r\<lparr>rq_caller := c\<rparr>) st)"
proof -
  let ?h = "rq_header r ''Authorization''" and ?b = "''Bearer ''"
  consider t where "?h = ?b @ t" | "\<nexists>t. ?h = ?b @ t" by blast
  then show ?thesis
  proof cases
    case (1 t)
    then have b: "auth_startsWith ?h ?b" "drop (length ?b) ?h = t" by (auto simp: auth_startsWith_iff)
    have m: "match_entries ?h (map (\<lambda>(token, caller). (?b @ token, caller)) apiTokens) '''' =
        (case map_of apiTokens t of Some c \<Rightarrow> c | None \<Rightarrow> '''')"
      unfolding 1 match_entries_eq [OF distinct_prefixed [OF assms]] map_of_prefixed ..
    show ?thesis
    proof (cases v)
      case None
      then show ?thesis
        using b m 1 by (auto simp: gate_def credentials_def RequireBearer_def RequireBearerCallers_def ConstantTimeCompare_eq Let_def
            split: option.splits)
    next
      case (Some V)
      then show ?thesis using b
        by (auto simp: gate_def credentials_def RequireBearerVerifier_def Let_def split: sum.splits)
    qed
  next
    case 2
    then have b: "\<not> auth_startsWith ?h ?b" by (auto simp: auth_startsWith_iff)
    have m: "match_entries ?h (map (\<lambda>(token, caller). (?b @ token, caller)) apiTokens) '''' = ''''"
      unfolding match_entries_eq [OF distinct_prefixed [OF assms]] map_of_prefixed_none [OF 2] by simp
    show ?thesis
    proof (cases v)
      case None
      then show ?thesis
        using b m 2 by (auto simp: gate_def credentials_def RequireBearer_def RequireBearerCallers_def ConstantTimeCompare_eq Let_def
            split: option.splits)
    next
      case (Some V)
      then show ?thesis using b by (simp add: gate_def credentials_def RequireBearerVerifier_def Let_def)
    qed
  qed
qed

lemma unauthorized_status: "\<exists>resp. unauthorized realm w = Served resp \<and> rs_status resp = 401"
  by (simp add: unauthorized_def http_Error_def respond_def)

lemma token_lines_inv:
  assumes "token_lines ls ts = Inr ts'" "distinct (map fst ts)" "\<forall>(t, c) \<in> set ts. t \<noteq> '''' \<and> c \<noteq> ''''"
  shows "distinct (map fst ts') \<and> (\<forall>(t, c) \<in> set ts'. t \<noteq> '''' \<and> c \<noteq> '''')"
  using assms
proof (induction ls ts rule: token_lines.induct)
  case (2 raw rest tokens)
  let ?l0 = "case Index raw (CHR ''#'') of Some i \<Rightarrow> take i raw | None \<Rightarrow> raw"
  let ?l = "TrimSpace ?l0"
  show ?case
  proof (cases "?l = ''''")
    case True
    then show ?thesis using 2 by (simp add: Let_def)
  next
    case False
    then obtain n where n: "Index ?l (CHR '':'') = Some n" "n \<noteq> 0"
      using "2.prems"(1) by (auto simp: Let_def split: option.splits if_splits)
    define c where "c = TrimSpace (take n ?l)"
    define t where "t = TrimSpace (drop (Suc n) ?l)"
    have step: "c \<noteq> ''''" "t \<noteq> ''''" "map_of tokens t = None" "token_lines rest (tokens @ [(t, c)]) = Inr ts'"
      using "2.prems"(1) False n by (auto simp: Let_def c_def t_def split: if_splits)
    have "distinct (map fst (tokens @ [(t, c)]))" "\<forall>(t, c) \<in> set (tokens @ [(t, c)]). t \<noteq> '''' \<and> c \<noteq> ''''"
      using step "2.prems"(2,3) by (auto simp: map_of_eq_None_iff)
    with "2.IH"(2) [OF refl refl False n(1) n(2) refl refl, folded c_def t_def] step(1-4) show ?thesis by blast
  qed
qed simp

section \<open>Properties\<close>

text \<open>C17. The gate of the HTTP adapters, in all three forms, lets a request through exactly when its
  \<open>Authorization\<close> header carries credentials for a caller, and then hands that caller to the next
  handler; any other request is answered 401 and touches no state. The scan over the token map visits
  every entry, yet neither its order nor the entries after the match change the answer.\<close>

theorem gate_decides:
  assumes "distinct (map fst apiTokens)"
  shows "gate v apiTokens apiToken realm inner w r st =
    (case credentials v apiTokens apiToken (rq_header r ''Authorization'') of
       None \<Rightarrow> (unauthorized realm w, st)
     | Some c \<Rightarrow> inner w (if c = '''' then r else r\<lparr>rq_caller := c\<rparr>) st)"
  using assms by (rule gate_eq)

definition demo_http :: "bytes \<Rightarrow> http_req" where
  "demo_http auth = \<lparr>rq_method = ''POST'', rq_path = ''/'', rq_query = '''', rq_header = (\<lambda>k. if k = ''Authorization'' then auth else ''''),
     rq_body = Inr '''', rq_caller = '''', rq_span = None\<rparr>"

definition echo_caller :: "nat handler" where
  "echo_caller w r st = (respond 200 (rq_caller r) w, Suc st)"

theorem gate_decides_witness:
  "gate None [(''s1'', ''alice''), (''s2'', ''bob'')] '''' ''potent'' echo_caller new_resp (demo_http ''Bearer s2'') 0 =
     (respond 200 ''bob'' new_resp, 1) \<and>
   gate None [(''s1'', ''alice''), (''s2'', ''bob'')] '''' ''potent'' echo_caller new_resp (demo_http ''Bearer s3'') 0 =
     (unauthorized ''potent'' new_resp, 0)"
proof -
  have d: "distinct (map fst [(''s1'', ''alice''), (''s2'', ''bob'')])" by simp
  have "credentials None [(''s1'', ''alice''), (''s2'', ''bob'')] '''' ''Bearer s2'' = Some ''bob''"
    "credentials None [(''s1'', ''alice''), (''s2'', ''bob'')] '''' ''Bearer s3'' = None"
    by (simp_all add: credentials_def auth_startsWith_def)
  then show ?thesis
    using gate_decides [OF d, of None "''''" "''potent''" echo_caller new_resp "demo_http ''Bearer s2''" 0]
      gate_decides [OF d, of None "''''" "''potent''" echo_caller new_resp "demo_http ''Bearer s3''" 0]
    by (simp add: demo_http_def echo_caller_def)
qed

text \<open>A token file that loads is usable: whatever the loader accepts has distinct, non-empty tokens
  with non-empty callers, so a request presenting any of its tokens is let through under the caller the
  file gives that token.\<close>

theorem loaded_tokens_admit:
  assumes "loadAPITokens path file = Inr tokens" "(token, caller) \<in> set tokens"
    and "rq_header r ''Authorization'' = ''Bearer '' @ token"
  shows "gate None tokens apiToken realm inner w r st = inner w (r\<lparr>rq_caller := caller\<rparr>) st"
proof -
  have inv: "distinct (map fst tokens)" "\<forall>(t, c) \<in> set tokens. t \<noteq> '''' \<and> c \<noteq> ''''"
    using assms(1) token_lines_inv [of _ "[]" tokens]
    by (auto simp: loadAPITokens_def split: if_splits sum.splits)
  then have "map_of tokens token = Some caller" using assms(2) by simp
  moreover have "caller \<noteq> ''''" "tokens \<noteq> []" using inv(2) assms(2) by auto
  ultimately have "credentials None tokens apiToken (''Bearer '' @ token) = Some caller"
    by (simp add: credentials_def auth_startsWith_def)
  then show ?thesis using gate_eq [OF inv(1), of None apiToken realm inner w r st] assms(3) \<open>caller \<noteq> ''''\<close> by simp
qed

theorem loaded_tokens_admit_witness:
  "\<exists>tokens. loadAPITokens ''tokens.yaml'' (Inr (''alice: s1 # ops'' @ [CHR 0x0A] @ '' bob : s2'')) = Inr tokens \<and>
     gate None tokens '''' ''potent'' echo_caller new_resp (demo_http ''Bearer s2'') 0 = (respond 200 ''bob'' new_resp, 1)"
proof -
  have l: "loadAPITokens ''tokens.yaml'' (Inr (''alice: s1 # ops'' @ [CHR 0x0A] @ '' bob : s2'')) =
      Inr [(''s1'', ''alice''), (''s2'', ''bob'')]"
  proof -
    have t: "TrimSpace ''alice: s1 '' = ''alice: s1''" "TrimSpace ''alice'' = ''alice''" "TrimSpace '' s1'' = ''s1''"
      "TrimSpace '' bob : s2'' = ''bob : s2''" "TrimSpace ''bob '' = ''bob''" "TrimSpace '' s2'' = ''s2''"
      by (simp_all add: TrimSpace_dropWhile IsSpace_def)
    show ?thesis by (simp add: loadAPITokens_def Index_def t Let_def)
  qed
  show ?thesis
    using loaded_tokens_admit [OF l, of "''s2''" "''bob''" "demo_http ''Bearer s2''" "''''" "''potent''" echo_caller new_resp 0] l
    by (simp add: demo_http_def echo_caller_def)
qed

end
