(* ===== verification/Proxy.thy ===== *)
theory Proxy
  imports Pipeline_Properties Http_Auth
begin

text \<open>
  \<open>internal/proxy/proxy.go\<close>: the HTTP reverse-proxy adapter. The tool comes from a request header, the
  body is the argument blob, the forwarder replays the request into the upstream and records what it
  writes, and the verdict of the pipeline becomes a status, headers and a body.

  \<open>net/http/httputil.ReverseProxy\<close> is the parameter \<open>px_upstream\<close>: given a response writer and a request
  it leaves the writer filled in, or panics (it does so when the client goes away). \<open>env\<close> carries what
  the environment answers during one call (clock, context, iteration order); its tool, caller, body and
  span are overwritten from the HTTP request. A response is what the handler hands to the response
  writer; the framing below it is \<open>net/http\<close>'s.
\<close>

section \<open>The handler\<close>

type_synonym upstream = "http_resp \<Rightarrow> http_req \<Rightarrow> bytes + http_resp"

record ('s, 'l) proxy =
  px_pipeline :: "('s, 'l) config"
  px_upstream :: upstream
  px_maxBodyBytes :: int
  px_apiToken :: bytes
  px_apiTokens :: "(bytes \<times> bytes) list"
  px_oidcVerifier :: "verifier option"
  px_format_f4 :: "f32 \<Rightarrow> bytes"     \<comment> \<open>\<open>strconv.FormatFloat(float64(x), 'f', 4, 32)\<close>\<close>

definition DefaultMaxBodyBytes :: int where "DefaultMaxBodyBytes = 2 ^ 20"

text \<open>\<open>New\<close> wraps the director: a valid span of the request goes out as its \<open>traceparent\<close>.\<close>

definition director :: "http_req \<Rightarrow> http_req" where
  "director r =
     (case rq_span r of
        Some sc \<Rightarrow> if Valid sc then r\<lparr>rq_header := (rq_header r)(''Traceparent'' := Header sc)\<rparr> else r
      | None \<Rightarrow> r)"

definition New_proxy ::
  "('s, 'l) config \<Rightarrow> upstream \<Rightarrow> int \<Rightarrow> bytes \<Rightarrow> (bytes \<times> bytes) list \<Rightarrow> verifier option \<Rightarrow> (f32 \<Rightarrow> bytes) \<Rightarrow> ('s, 'l) proxy" where
  "New_proxy P reverse maxBody token tokens v fmt =
     \<lparr>px_pipeline = P, px_upstream = (\<lambda>w r. reverse w (director r)), px_maxBodyBytes = maxBody, px_apiToken = token,
      px_apiTokens = tokens, px_oidcVerifier = v, px_format_f4 = fmt\<rparr>"

text \<open>\<open>recorder\<close>: status 200 until told otherwise, headers of its own.\<close>

definition forwarder :: "upstream \<Rightarrow> http_req \<Rightarrow> bytes \<Rightarrow> forward_outcome" where
  "forwarder up r body =
     (case up new_resp (r\<lparr>rq_body := Inr body\<rparr>) of
        Inl m \<Rightarrow> FwdPanics m
      | Inr resp \<Rightarrow> FwdReturns (rs_status resp) (rs_body resp) None)"

text \<open>\<open>w.WriteHeader\<close> panics on a code outside three digits.\<close>

definition write_response :: "int \<Rightarrow> bytes \<Rightarrow> http_resp \<Rightarrow> http_out" where
  "write_response code body w =
     (if code < 100 \<or> 999 < code then Panics (''invalid WriteHeader code '' @ Itoa code) else respond code body w)"

definition request_of :: "request \<Rightarrow> http_req \<Rightarrow> bytes \<Rightarrow> bytes \<Rightarrow> request" where
  "request_of env r tool body = env\<lparr>q_tool := tool, q_caller := rq_caller r, q_body := body, q_span := rq_span r\<rparr>"

definition match_headers :: "(f32 \<Rightarrow> bytes) \<Rightarrow> Match \<Rightarrow> http_resp \<Rightarrow> http_resp" where
  "match_headers fmt m w =
     (let w1 = set_header ''X-Potent-Status'' ''replayed'' w;
          w2 = (if Kind m \<noteq> '''' then set_header ''X-Potent-Match'' (Kind m) w1 else w1)
      in if flt_less (Fin 0) (f32_flt (Similarity m)) then set_header ''X-Potent-Similarity'' (fmt (Similarity m)) w2 else w2)"

definition write_verdict :: "(f32 \<Rightarrow> bytes) \<Rightarrow> Result \<Rightarrow> http_resp \<Rightarrow> http_out" where
  "write_verdict fmt res w0 =
     (let w = set_header ''X-Potent-Hash'' (r_Hash res) w0 in
      case r_Decision res of
        DecisionForbidden \<Rightarrow> http_Error ''tool not allowed for caller'' 403 w
      | DecisionRateLimited \<Rightarrow> http_Error ''rate limit exceeded'' 429 (set_header ''Retry-After'' ''1'' w)
      | DecisionReplay \<Rightarrow>
          write_response (r_StatusCode res) (r_Body res)
            (set_header ''Content-Type'' ''application/json'' (match_headers fmt (r_Match res) w))
      | DecisionBlock \<Rightarrow> http_Error ''duplicate request blocked by policy'' 409 w
      | DecisionForward \<Rightarrow>
          write_response (r_StatusCode res) (r_Body res)
            (set_header ''Content-Type'' ''application/json'' (set_header ''X-Potent-Status'' ''fresh'' w)))"

definition proxy_ServeHTTP :: "('s, 'l) proxy \<Rightarrow> request \<Rightarrow> bool \<Rightarrow> ('s, 'l) pstate handler" where
  "proxy_ServeHTTP X env prefer_ctx w r S =
     (let tool = rq_header r ''X-Potent-Tool'' in
      if tool = '''' then
        (case px_upstream X w r of Inl m \<Rightarrow> (Panics m, S) | Inr resp \<Rightarrow> (Served resp, S))
      else case read_body (px_maxBodyBytes X) r of
        Inl _ \<Rightarrow> (http_Error ''read body'' 413 w, S)
      | Inr body \<Rightarrow>
          (case Apply (px_pipeline X) (request_of env r tool body) (forwarder (px_upstream X) r body) prefer_ctx S of
             (Blocked, S1) \<Rightarrow> (Waits, S1)
           | (Panic m, S1) \<Rightarrow> (Panics m, S1)
           | (Ret res (Some _), S1) \<Rightarrow> (http_Error ''pipeline error'' 500 w, S1)
           | (Ret res None, S1) \<Rightarrow> (write_verdict (px_format_f4 X) res w, S1)))"

definition proxy_Handler :: "('s, 'l) proxy \<Rightarrow> 'r reader \<Rightarrow> request \<Rightarrow> bool \<Rightarrow> (('s, 'l) pstate \<times> 'r) handler" where
  "proxy_Handler X read env prefer_ctx =
     traced read (gate (px_oidcVerifier X) (px_apiTokens X) (px_apiToken X) ''potent'' (proxy_ServeHTTP X env prefer_ctx))"

section \<open>What the client sees, and what the upstream sees\<close>

lemma set_header_simps [simp]:
  "rs_header (set_header k v w) = (rs_header w)(k \<mapsto> v)" "rs_status (set_header k v w) = rs_status w"
  "rs_body (set_header k v w) = rs_body w"
  by (simp_all add: set_header_def)

lemma respond_simps:
  "respond c b w = Served resp \<longleftrightarrow> resp = w\<lparr>rs_status := c, rs_body := rs_body w @ b\<rparr>"
  by (auto simp: respond_def)

lemma http_Error_simps:
  "http_Error m c w = Served resp \<Longrightarrow> rs_status resp = c \<and>
     (k \<noteq> ''Content-Type'' \<longrightarrow> k \<noteq> ''X-Content-Type-Options'' \<longrightarrow> rs_header resp k = rs_header w k)"
  by (auto simp: http_Error_def respond_simps)

lemma write_response_simps:
  "write_response c b w = Served resp \<Longrightarrow>
     rs_status resp = c \<and> rs_header resp = rs_header w \<and> rs_body resp = rs_body w @ b"
  by (auto simp: write_response_def respond_simps split: if_splits)

lemma match_headers_status [simp]: "rs_header (match_headers f m w) ''X-Potent-Status'' = Some ''replayed''"
  by (simp add: match_headers_def Let_def)

lemma match_headers_body [simp]: "rs_body (match_headers f m w) = rs_body w"
  by (simp add: match_headers_def Let_def)

lemma write_verdict_status:
  assumes "write_verdict f res w = Served resp" "rs_header w ''X-Potent-Status'' \<noteq> Some ''fresh''"
  shows "rs_header resp ''X-Potent-Status'' = Some ''fresh'' \<longleftrightarrow> r_Decision res = DecisionForward"
  using assms
  by (cases "r_Decision res")
    (auto simp: write_verdict_def Let_def dest!: write_response_simps
      dest: http_Error_simps [where k = "''X-Potent-Status''"])

text \<open>The forwarder of this adapter returns no error, so an error of the pipeline means that nothing was
  forwarded, and a forward carries what the upstream wrote.\<close>

definition no_fwd_error :: "forward_outcome \<Rightarrow> bool" where
  "no_fwd_error fwd \<longleftrightarrow> (case fwd of FwdReturns _ _ err \<Rightarrow> err = None | FwdPanics _ \<Rightarrow> True)"

lemma prefix_returns_forward:
  assumes "apply_prefix P q fwd S = (Ended (Ret r err), S')"
  shows "(no_fwd_error fwd \<and> err \<noteq> None \<longrightarrow> p_calls S' = p_calls S) \<and>
    (err = None \<and> r_Decision r = DecisionForward \<longrightarrow> fwd = FwdReturns (r_StatusCode r) (r_Body r) None)"
proof -
  have S1: "p_calls S1 = p_calls S" if "admit P q S = (a, S1)" for a S1
    using admit_frame(2) [of P q S] that by simp
  show ?thesis
  proof (cases rule: admission_cases [of P q S])
    case (5 S1 hash intent)
    obtain d entry match S2 where dec: "decide P q hash (pol_of P q) intent S1 = ((d, entry, match), S2)"
      by (metis prod.exhaust)
    show ?thesis
    proof (cases "shadow P")
      case True
      then show ?thesis using assms 5 dec
        by (auto simp: apply_prefix_def Let_def shadowForward_out no_fwd_error_def split: forward_outcome.splits)
    next
      case False
      then show ?thesis using assms unfolding prefix_ok [OF 5 dec False]
        by (auto simp: Let_def blocked_result_def split: Decision.splits)
    qed
  qed (use assms S1 in \<open>auto simp: apply_prefix_def Let_def refusal_def shadowForward_out no_fwd_error_def
         split: if_splits forward_outcome.splits\<close>)
qed

lemma Apply_returns_forward:
  assumes "Apply P q fwd pc S = (Ret r err, S')"
  shows "(no_fwd_error fwd \<and> err \<noteq> None \<longrightarrow> p_calls S' = p_calls S) \<and>
    (err = None \<and> r_Decision r = DecisionForward \<longrightarrow> fwd = FwdReturns (r_StatusCode r) (r_Body r) None)"
proof (cases rule: Apply_cases [of P q fwd S])
  case (1 out S1)
  then show ?thesis using assms prefix_returns_forward [of P q fwd S r err S'] by (simp add: Apply_simps)
next
  case (2 hash intent S1)
  then show ?thesis
    using assms doForward_out [of P q hash intent "pol_of P q" fwd None
        "log_decision P q (pol_of P q) DecisionForward no_match hash '''' S1"]
    by (auto simp: Apply_simps no_fwd_error_def split: forward_outcome.splits)
next
  case (3 hash intent S1 h S2)
  then show ?thesis
    using assms runLeader_out [of P q hash intent "pol_of P q" fwd h
        "log_decision P q (pol_of P q) DecisionForward no_match hash '''' S2"]
    by (auto simp: Apply_simps doForward_out no_fwd_error_def split: forward_outcome.splits)
next
  case (4 hash intent S1 h S2)
  have "p_calls S2 = p_calls S" using acquireLeader_frame(1) [of hash S1] 4 prefix_calls [OF 4(1)] by simp
  then show ?thesis using assms 4 by (auto simp: Apply_simps dest: waitForLeader_Forward)
qed

lemma forwarder_no_error [simp]: "no_fwd_error (forwarder up r body)"
  by (simp add: no_fwd_error_def forwarder_def split: sum.split)

lemma forwarder_returns:
  "forwarder up r body = FwdReturns st rs None \<longleftrightarrow>
     (\<exists>resp. up new_resp (r\<lparr>rq_body := Inr body\<rparr>) = Inr resp \<and> st = rs_status resp \<and> rs = rs_body resp)"
  by (auto simp: forwarder_def split: sum.splits)

lemma request_of_simps [simp]:
  "q_tool (request_of env r tool body) = tool" "q_body (request_of env r tool body) = body"
  "q_caller (request_of env r tool body) = rq_caller r" "q_ctx (request_of env r tool body) = q_ctx env"
  "q_ctx2 (request_of env r tool body) = q_ctx2 env" "q_now (request_of env r tool body) = q_now env"
  "q_entry (request_of env r tool body) = q_entry env" "q_put (request_of env r tool body) = q_put env"
  by (simp_all add: request_of_def)

lemma write_verdict_body:
  assumes "write_verdict f res w = Served resp" "r_Decision res = DecisionForward \<or> r_Decision res = DecisionReplay"
  shows "rs_status resp = r_StatusCode res \<and> rs_body resp = rs_body w @ r_Body res"
  using assms by (auto simp: write_verdict_def Let_def dest!: write_response_simps)

definition blank :: "http_resp \<Rightarrow> bool" where
  "blank w \<longleftrightarrow> rs_header w ''X-Potent-Status'' = None \<and> rs_body w = ''''"

lemma blank_simps [simp]: "blank new_resp" "k \<noteq> ''X-Potent-Status'' \<Longrightarrow> blank (set_header k v w) = blank w"
  by (simp_all add: blank_def new_resp_def)

lemma served_fresh:
  assumes "proxy_ServeHTTP X env pc w r S = (Served resp, S')" "rs_header resp ''X-Potent-Status'' = Some ''fresh''" "blank w"
    "rq_header r ''X-Potent-Tool'' = tool" "tool \<noteq> ''''" "read_body (px_maxBodyBytes X) r = Inr body"
  shows "\<exists>res. Apply (px_pipeline X) (request_of env r tool body) (forwarder (px_upstream X) r body) pc S = (Ret res None, S') \<and>
    r_Decision res = DecisionForward \<and> write_verdict (px_format_f4 X) res w = Served resp"
proof -
  let ?a = "Apply (px_pipeline X) (request_of env r tool body) (forwarder (px_upstream X) r body) pc S"
  have n: "rs_header w ''X-Potent-Status'' = None" using assms(3) by (simp add: blank_def)
  then have ne: "http_Error ''pipeline error'' 500 w \<noteq> Served resp"
    using http_Error_simps [of "''pipeline error''" 500 w resp "''X-Potent-Status''"] assms(2) by auto
  obtain res where ap: "?a = (Ret res None, S')" and wv: "write_verdict (px_format_f4 X) res w = Served resp"
    using assms ne
    by (cases ?a; cases "fst ?a") (auto simp: proxy_ServeHTTP_def Let_def split: option.splits)
  then show ?thesis using write_verdict_status [OF wv] n assms(2) by simp
qed

text \<open>A concrete proxy: the demonstration pipeline in front of an upstream that answers \<open>ok\<close>.\<close>

definition demo_proxy :: "(Memory, unit) proxy" where
  "demo_proxy = New_proxy demo_pipeline (\<lambda>w r. Inr (w\<lparr>rs_body := ''ok''\<rparr>)) DefaultMaxBodyBytes ''secret'' [] None (\<lambda>_. ''1.0000'')"

definition demo_call :: http_req where
  "demo_call = (demo_http ''Bearer secret'')\<lparr>rq_header := (\<lambda>k. if k = ''X-Potent-Tool'' then ''send'' else '''')\<rparr>"

lemma demo_call_simps [simp]:
  "rq_header demo_call ''X-Potent-Tool'' = ''send''" "read_body n demo_call = Inr ''''"
  "request_of demo_request demo_call ''send'' '''' = demo_request" "px_pipeline demo_proxy = demo_pipeline"
  "forwarder (px_upstream demo_proxy) demo_call '''' = FwdReturns 200 ''ok'' None"
  by (simp_all add: demo_call_def demo_http_def read_body_def request_of_def demo_request_def demo_proxy_def New_proxy_def
      forwarder_def director_def new_resp_def)

lemma demo_first:
  obtains hash resp S1 where "analyse (libs demo_pipeline) '''' demo_policy = Inr (hash, '''')"
    "proxy_ServeHTTP demo_proxy demo_request False new_resp demo_call (New_pipeline NewMemory) = (Served resp, S1)"
    "rs_header resp ''X-Potent-Status'' = Some ''fresh''" "rs_status resp = 200" "rs_body resp = ''ok''"
    "Apply demo_pipeline demo_request (FwdReturns 200 ''ok'' None) False (New_pipeline NewMemory) =
       (Ret (forwarded hash 200 ''ok'') None, S1)"
proof -
  let ?f = "FwdReturns 200 ''ok'' None" and ?init = "New_pipeline NewMemory :: (Memory, unit) pstate"
  obtain hash h Sc where an: "analyse (libs demo_pipeline) '''' demo_policy = Inr (hash, '''')"
    and ap: "\<forall>fwd pc. Apply demo_pipeline demo_request fwd pc ?init = runLeader demo_pipeline demo_request hash '''' demo_policy fwd h
      (log_decision demo_pipeline demo_request demo_policy DecisionForward no_match hash '''' Sc)" by (rule demo_leader)
  obtain S1 where run: "Apply demo_pipeline demo_request ?f False ?init = (Ret (forwarded hash 200 ''ok'') None, S1)"
  proof -
    have "fst (Apply demo_pipeline demo_request ?f False ?init) = Ret (forwarded hash 200 ''ok'') None"
      by (simp add: ap runLeader_out doForward_out)
    then show ?thesis using that by (metis prod.collapse)
  qed
  obtain resp where wv: "write_verdict (px_format_f4 demo_proxy) (forwarded hash 200 ''ok'') new_resp = Served resp"
    by (simp add: write_verdict_def Let_def write_response_def respond_def)
  have "proxy_ServeHTTP demo_proxy demo_request False new_resp demo_call ?init = (Served resp, S1)"
    using run wv by (simp add: proxy_ServeHTTP_def Let_def)
  moreover have "rs_header resp ''X-Potent-Status'' = Some ''fresh''"
    using write_verdict_status [OF wv] by (simp add: new_resp_def)
  moreover have "rs_status resp = 200" "rs_body resp = ''ok''"
    using write_verdict_body [OF wv] by (simp_all add: new_resp_def)
  ultimately show ?thesis using that an run by blast
qed

text \<open>A call served fresh, then an equal one: the replay, whatever the tracing layer has put into the response headers.\<close>

lemma serve_replay:
  fixes X :: "('s, 'l) proxy" and S0 S1 :: "('s, 'l) pstate"
  defines "P \<equiv> px_pipeline X"
  assumes port: "store_port (store P) invar ready view nrm okkey storable order_ok"
    and tool: "rq_header r ''X-Potent-Tool'' = tool" "rq_header r' ''X-Potent-Tool'' = tool" "tool \<noteq> ''''"
    and bodies: "read_body (px_maxBodyBytes X) r = Inr body" "read_body (px_maxBodyBytes X) r' = Inr body'"
    and pol: "For (policies P) tool = pol" "\<not> shadow P" "caching pol" "hit_decision pol = DecisionReplay"
      "ReplayStrategy pol \<noteq> ReplaySynthesizedAck"
    and s: "invar (p_store S0)" "ready (p_store S0)" "okkey tool hash"
    and first: "proxy_ServeHTTP X env pc w r S0 = (Served resp, S1)"
      "rs_header resp ''X-Potent-Status'' = Some ''fresh''" "success (rs_status resp)" "rs_body resp \<noteq> ''''"
      "q_ctx2 env = None" "analyse (libs P) body pol = Inr (hash, intent)"
    and e: "e = stamp (q_put env) (buildEntry (q_entry env) tool hash body (rs_status resp) (rs_body resp) pol
        (embed_intent P pol intent))" "storable e"
    and second: "analyse (libs P) body' pol = Inr (hash, intent')" "fst (admit P (request_of env' r' tool body') S1) = AdmOk"
      "q_ctx env' = None" "\<not> Expired (nrm e) (q_now env')"
    and w: "blank w" "blank w'"
  shows "\<exists>resp' S2. proxy_ServeHTTP X env' pc' w' r' S1 = (Served resp', S2) \<and>
    rs_status resp' = rs_status resp \<and> rs_body resp' = rs_body resp \<and>
    rs_header resp' ''X-Potent-Status'' = Some ''replayed'' \<and> rs_header resp' ''X-Potent-Match'' = Some ''exact'' \<and>
    p_calls S2 = p_calls S1"
proof -
  let ?q = "request_of env r tool body" and ?q' = "request_of env' r' tool body'"
  obtain res where ap: "Apply P ?q (forwarder (px_upstream X) r body) pc S0 = (Ret res None, S1)"
    and fw: "r_Decision res = DecisionForward" and wv: "write_verdict (px_format_f4 X) res w = Served resp"
    using served_fresh [OF first(1,2) w(1)] tool(1,3) bodies(1) unfolding P_def by auto
  have rs: "rs_status resp = r_StatusCode res" "rs_body resp = r_Body res"
    using write_verdict_body [OF wv] fw w(1) by (simp_all add: blank_def)
  have f: "forwarder (px_upstream X) r body = FwdReturns (rs_status resp) (rs_body resp) None"
    using Apply_returns_forward [OF ap] fw rs by simp
  obtain S2 where ap2: "Apply P ?q' (forwarder (px_upstream X) r' body') pc' S1 =
      (Ret \<lparr>r_Decision = DecisionReplay, r_Match = exact_match, r_Hash = hash, r_StatusCode = rs_status resp,
        r_Body = rs_body resp\<rparr> None, S2)" and calls: "p_calls S2 = p_calls S1"
    using forward_then_replay [OF port, of ?q S0 hash "rs_status resp" "rs_body resp" pc res S1 intent e ?q' intent'
        "forwarder (px_upstream X) r' body'" pc'] ap f fw pol s tool(3) first(3,4,5,6) e second by auto
  have "\<not> (rs_status resp < 100 \<or> 999 < rs_status resp)" using first(3) by (auto simp: success_def)
  then obtain resp' where wv': "write_verdict (px_format_f4 X)
      \<lparr>r_Decision = DecisionReplay, r_Match = exact_match, r_Hash = hash, r_StatusCode = rs_status resp, r_Body = rs_body resp\<rparr>
      w' = Served resp'"
    by (auto simp: write_verdict_def Let_def write_response_def respond_def)
  then have "rs_status resp' = rs_status resp \<and> rs_body resp' = rs_body resp"
    using write_verdict_body [OF wv'] w(2) by (simp add: blank_def)
  moreover have "rs_header resp' ''X-Potent-Status'' = Some ''replayed''" "rs_header resp' ''X-Potent-Match'' = Some ''exact''"
    using wv' by (auto simp: write_verdict_def Let_def match_headers_def exact_match_def dest!: write_response_simps)
  ultimately show ?thesis
    using ap2 calls wv' bodies(2) tool(2,3) by (simp add: proxy_ServeHTTP_def Let_def P_def)
qed

section \<open>Properties\<close>

text \<open>C10. What the client is told is what happened: a tool call answered with \<open>X-Potent-Status: fresh\<close>
  reached the upstream exactly once, with the body the client sent, and carries the status and the
  body the upstream wrote; any other answer (a replay, a refusal, an oversized body, an error of the
  pipeline) means that the upstream was not called.\<close>

theorem fresh_iff_forwarded:
  assumes "proxy_ServeHTTP X env pc w r S = (Served resp, S')"
    and "rq_header r ''X-Potent-Tool'' \<noteq> ''''" "rs_header w ''X-Potent-Status'' = None" "rs_body w = ''''"
  shows "if rs_header resp ''X-Potent-Status'' = Some ''fresh''
    then \<exists>body up. rq_body r = Inr body \<and> p_calls S' = p_calls S @ [(rq_header r ''X-Potent-Tool'', body)] \<and>
      px_upstream X new_resp r = Inr up \<and> rs_status resp = rs_status up \<and> rs_body resp = rs_body up
    else p_calls S' = p_calls S"
proof (cases "read_body (px_maxBodyBytes X) r")
  case (Inl e)
  then show ?thesis
    using assms http_Error_simps [of "''read body''" 413 w resp "''X-Potent-Status''"]
    by (auto simp: proxy_ServeHTTP_def Let_def)
next
  case (Inr body)
  then have b: "rq_body r = Inr body" by (auto simp: read_body_def split: sum.splits if_splits)
  then have rb: "r\<lparr>rq_body := Inr body\<rparr> = r" by (metis http_req.surjective http_req.update_convs(5))
  let ?q = "request_of env r (rq_header r ''X-Potent-Tool'') body" and ?f = "forwarder (px_upstream X) r body"
  obtain out S1 where ap: "Apply (px_pipeline X) ?q ?f pc S = (out, S1)" by (metis prod.exhaust)
  obtain res err where out: "out = Ret res err"
    using assms(1,2) Inr ap by (cases out) (auto simp: proxy_ServeHTTP_def Let_def)
  have S1: "S1 = S'" using assms(1,2) Inr ap out by (auto simp: proxy_ServeHTTP_def Let_def split: option.splits)
  note ar = Apply_returns_forward [OF ap [unfolded out]] and ac = Apply_calls [OF ap [unfolded out]]
  show ?thesis
  proof (cases err)
    case None
    then have wv: "write_verdict (px_format_f4 X) res w = Served resp"
      using assms(1,2) Inr ap out by (simp add: proxy_ServeHTTP_def Let_def)
    have st: "rs_header resp ''X-Potent-Status'' = Some ''fresh'' \<longleftrightarrow> r_Decision res = DecisionForward"
      using write_verdict_status [OF wv] assms(3) by simp
    show ?thesis
    proof (cases "r_Decision res = DecisionForward")
      case True
      then obtain up where "px_upstream X new_resp r = Inr up" "r_StatusCode res = rs_status up" "r_Body res = rs_body up"
        using ar None rb by (auto simp: forwarder_returns)
      moreover have "rs_status resp = r_StatusCode res \<and> rs_body resp = r_Body res"
        using write_verdict_body [OF wv] True assms(4) by simp
      ultimately show ?thesis using st True ac None b S1 by (simp add: one_call_def)
    next
      case False
      then show ?thesis using st ac S1 by simp
    qed
  next
    case (Some e)
    then have "http_Error ''pipeline error'' 500 w = Served resp"
      using assms(1,2) Inr ap out by (simp add: proxy_ServeHTTP_def Let_def)
    then show ?thesis
      using http_Error_simps [of "''pipeline error''" 500 w resp "''X-Potent-Status''"] assms(3) ar Some S1 by simp
  qed
qed

theorem fresh_iff_forwarded_witness:
  "\<exists>resp S'. proxy_ServeHTTP demo_proxy demo_request False new_resp demo_call (New_pipeline NewMemory) = (Served resp, S') \<and>
     rs_header resp ''X-Potent-Status'' = Some ''fresh'' \<and> p_calls S' = [(''send'', '''')]"
proof (rule demo_first)
  fix hash resp S1
  assume run: "proxy_ServeHTTP demo_proxy demo_request False new_resp demo_call (New_pipeline NewMemory) = (Served resp, S1)"
    and f: "rs_header resp ''X-Potent-Status'' = Some ''fresh''"
  have "rq_body demo_call = Inr ''''" by (simp add: demo_call_def demo_http_def)
  then have "p_calls S1 = [(''send'', '''')]"
    using fresh_iff_forwarded [OF run] f by (auto simp: new_resp_def New_pipeline_def)
  then show ?thesis using run f by blast
qed

text \<open>C7. The program end to end, over HTTP and any store that keeps the port's contract: once a tool call
  was answered fresh with a success, a later request for the same tool whose body has the same
  fingerprint, admitted and made before the entry expires, gets the same status and the same body,
  marked \<open>X-Potent-Status: replayed\<close> and \<open>X-Potent-Match: exact\<close>, and the upstream is not called again.\<close>

theorem http_replay:
  fixes X :: "('s, 'l) proxy" and S0 S1 :: "('s, 'l) pstate"
  defines "P \<equiv> px_pipeline X"
  assumes port: "store_port (store P) invar ready view nrm okkey storable order_ok"
    and tool: "rq_header r ''X-Potent-Tool'' = tool" "rq_header r' ''X-Potent-Tool'' = tool" "tool \<noteq> ''''"
    and bodies: "read_body (px_maxBodyBytes X) r = Inr body" "read_body (px_maxBodyBytes X) r' = Inr body'"
    and pol: "For (policies P) tool = pol" "\<not> shadow P" "caching pol" "hit_decision pol = DecisionReplay"
      "ReplayStrategy pol \<noteq> ReplaySynthesizedAck"
    and s: "invar (p_store S0)" "ready (p_store S0)" "okkey tool hash"
    and first: "proxy_ServeHTTP X env pc new_resp r S0 = (Served resp, S1)"
      "rs_header resp ''X-Potent-Status'' = Some ''fresh''" "success (rs_status resp)" "rs_body resp \<noteq> ''''"
      "q_ctx2 env = None" "analyse (libs P) body pol = Inr (hash, intent)"
    and e: "e = stamp (q_put env) (buildEntry (q_entry env) tool hash body (rs_status resp) (rs_body resp) pol
        (embed_intent P pol intent))" "storable e"
    and second: "analyse (libs P) body' pol = Inr (hash, intent')" "fst (admit P (request_of env' r' tool body') S1) = AdmOk"
      "q_ctx env' = None" "\<not> Expired (nrm e) (q_now env')"
  shows "\<exists>resp' S2. proxy_ServeHTTP X env' pc' new_resp r' S1 = (Served resp', S2) \<and>
    rs_status resp' = rs_status resp \<and> rs_body resp' = rs_body resp \<and>
    rs_header resp' ''X-Potent-Status'' = Some ''replayed'' \<and> rs_header resp' ''X-Potent-Match'' = Some ''exact'' \<and>
    p_calls S2 = p_calls S1"
  by (rule serve_replay [OF port [unfolded P_def] tool bodies pol [unfolded P_def] s first [unfolded P_def] e [unfolded P_def]
      second [unfolded P_def] blank_simps(1) blank_simps(1), folded P_def])

theorem http_replay_witness:
  "\<exists>resp S1 resp' S2.
     proxy_ServeHTTP demo_proxy demo_request False new_resp demo_call (New_pipeline NewMemory) = (Served resp, S1) \<and>
     proxy_ServeHTTP demo_proxy demo_request False new_resp demo_call S1 = (Served resp', S2) \<and>
     rs_body resp' = ''ok'' \<and> rs_header resp' ''X-Potent-Status'' = Some ''replayed'' \<and> p_calls S2 = [(''send'', '''')]"
proof (rule demo_first)
  fix hash resp S1
  assume an: "analyse (libs demo_pipeline) '''' demo_policy = Inr (hash, '''')"
    and run: "proxy_ServeHTTP demo_proxy demo_request False new_resp demo_call (New_pipeline NewMemory) = (Served resp, S1)"
    and r: "rs_header resp ''X-Potent-Status'' = Some ''fresh''" "rs_status resp = 200" "rs_body resp = ''ok''"
    and ap: "Apply demo_pipeline demo_request (FwdReturns 200 ''ok'' None) False (New_pipeline NewMemory) =
       (Ret (forwarded hash 200 ''ok'') None, S1)"
  have k: "key_ok ''send'' hash" using analyse_hash [OF an] by (simp add: key_ok_def nul_free_def NUL_def)
  have calls: "p_calls S1 = [(''send'', '''')]" using Apply_calls [OF ap] by (simp add: New_pipeline_def one_call_def)
  have "\<exists>resp' S2. proxy_ServeHTTP demo_proxy demo_request False new_resp demo_call S1 = (Served resp', S2) \<and>
    rs_status resp' = rs_status resp \<and> rs_body resp' = rs_body resp \<and>
    rs_header resp' ''X-Potent-Status'' = Some ''replayed'' \<and> rs_header resp' ''X-Potent-Match'' = Some ''exact'' \<and>
    p_calls S2 = p_calls S1"
  proof (rule http_replay [of demo_proxy, OF mem.store_port_axioms [folded demo_request_simps(7), folded demo_call_simps(4)],
        of demo_call "''send''" demo_call "''''" "''''" demo_policy, OF _ _ _ _ _ _ _ _ _ _ _ _ _ run r(1) _ _ _ _ refl])
    show "keys_ok (p_store (New_pipeline NewMemory))" by (simp add: New_pipeline_def NewMemory_def keys_ok_def)
    show "\<not> Expired (stamp (q_put demo_request) (buildEntry (q_entry demo_request) ''send'' hash '''' (rs_status resp) (rs_body resp)
        demo_policy (embed_intent (px_pipeline demo_proxy) demo_policy ''''))) (q_now demo_request)"
      by (simp add: Expired_def Sub_def int64_defs stamp_def IsZero_def Second_def)
  qed (use an k r in \<open>simp_all add: replay_defs\<close>)
  then show ?thesis using run calls r by metis
qed

end
