(* ===== verification/Mcp_Http.thy ===== *)
theory Mcp_Http
  imports Proxy Jsonrpc
begin

text \<open>
  \<open>internal/mcp/http.go\<close>: the MCP Streamable-HTTP adapter. A POST that holds a \<open>tools/call\<close> frame goes
  through the pipeline; every other request is passed to the upstream server. \<open>http.Client\<close> is the
  parameter \<open>client\<close>: building a request may fail (a malformed method or address), and so may sending
  it; a response has a status, headers and a body whose reading may end in an error. Of a header with
  several values the first counts.
\<close>

section \<open>The upstream client\<close>

record out_req =
  o_method :: bytes
  o_path :: bytes
  o_query :: bytes
  o_header :: "bytes \<Rightarrow> bytes"
  o_body :: "bytes result"

record up_resp =
  u_status :: int
  u_header :: "bytes \<rightharpoonup> bytes"
  u_body :: bytes
  u_err :: "go_error option"    \<comment> \<open>the error that ends the body, if any\<close>

record client =
  c_build :: "out_req \<Rightarrow> go_error option"
  c_Do :: "out_req \<Rightarrow> up_resp result"

record ('s, 'l) HTTPHandler =
  mh_pipeline :: "('s, 'l) config"
  mh_path :: bytes              \<comment> \<open>the path of the upstream URL\<close>
  mh_client :: client
  mh_maxBodyBytes :: int
  mh_apiToken :: bytes
  mh_apiTokens :: "(bytes \<times> bytes) list"
  mh_oidcVerifier :: "verifier option"
  mh_format_f4 :: "f32 \<Rightarrow> bytes"

definition singleJoin :: "bytes \<Rightarrow> bytes \<Rightarrow> bytes" where
  "singleJoin a b =
     (if a = '''' \<or> a = ''/'' then b
      else if b = '''' \<or> b = ''/'' then a
      else if last a = CHR ''/'' \<and> hd b = CHR ''/'' then a @ tl b
      else if last a \<noteq> CHR ''/'' \<and> hd b \<noteq> CHR ''/'' then a @ ''/'' @ b
      else a @ b)"

definition inject :: "http_req \<Rightarrow> out_req \<Rightarrow> out_req" where
  "inject r req =
     (case rq_span r of
        Some sc \<Rightarrow> if Valid sc then req\<lparr>o_header := (o_header req)(''Traceparent'' := Header sc)\<rparr> else req
      | None \<Rightarrow> req)"

definition out_request :: "('s, 'l) HTTPHandler \<Rightarrow> bytes \<Rightarrow> http_req \<Rightarrow> bytes result \<Rightarrow> out_req" where
  "out_request H meth r body =
     \<lparr>o_method = meth, o_path = singleJoin (mh_path H) (rq_path r), o_query = rq_query r, o_header = rq_header r, o_body = body\<rparr>"

definition passthrough :: "('s, 'l) HTTPHandler \<Rightarrow> http_resp \<Rightarrow> http_req \<Rightarrow> bytes option \<Rightarrow> http_out" where
  "passthrough H w r body =
     (let req = out_request H (rq_method r) r (case body of Some b \<Rightarrow> Inr b | None \<Rightarrow> rq_body r) in
      if c_build (mh_client H) req \<noteq> None then http_Error ''build request'' 500 w
      else case c_Do (mh_client H) (inject r req) of
             Inl _ \<Rightarrow> http_Error ''upstream'' 502 w
           | Inr resp \<Rightarrow> write_response (u_status resp) (u_body resp) (w\<lparr>rs_header := u_header resp ++ rs_header w\<rparr>))"

definition forwardOnce :: "('s, 'l) HTTPHandler \<Rightarrow> http_req \<Rightarrow> bytes \<Rightarrow> int \<times> bytes \<times> go_error option" where
  "forwardOnce H r body =
     (let req = out_request H ''POST'' r (Inr body) in
      case c_build (mh_client H) req of
        Some err \<Rightarrow> (0, '''', Some (Wrapped ''build request'' err))
      | None \<Rightarrow>
          let req1 = (if o_header req ''Content-Type'' = ''''
                      then req\<lparr>o_header := (o_header req)(''Content-Type'' := ''application/json'')\<rparr> else req)
          in case c_Do (mh_client H) (inject r req1) of
               Inl err \<Rightarrow> (0, '''', Some err)
             | Inr resp \<Rightarrow> (case u_err resp of
                              Some err \<Rightarrow> (u_status resp, '''', Some err)
                            | None \<Rightarrow> (u_status resp, u_body resp, None)))"

section \<open>The handler\<close>

text \<open>\<open>json.NewEncoder(w).Encode\<close>: the frame and a line break, or nothing when it cannot be encoded.\<close>

definition rpc_line :: "Message \<Rightarrow> bytes" where
  "rpc_line m = (case marshal_message m of Inr b \<Rightarrow> b @ [CHR 0x0A] | Inl _ \<Rightarrow> '''')"

definition writeRPCError :: "http_resp \<Rightarrow> bytes \<Rightarrow> int \<Rightarrow> bytes \<Rightarrow> http_out" where
  "writeRPCError w rid code msg =
     respond 200 (rpc_line (NewErrorResponse rid code msg)) (set_header ''Content-Type'' ''application/json'' w)"

definition mcp_verdict :: "(f32 \<Rightarrow> bytes) \<Rightarrow> bytes \<Rightarrow> Result \<Rightarrow> http_resp \<Rightarrow> http_out" where
  "mcp_verdict fmt rid res w0 =
     (let w = set_header ''Content-Type'' ''application/json'' (set_header ''X-Potent-Hash'' (r_Hash res) w0) in
      case r_Decision res of
        DecisionForbidden \<Rightarrow> respond 200 (rpc_line (NewErrorResponse rid (-32003) ''tool not allowed for caller'')) w
      | DecisionRateLimited \<Rightarrow>
          respond 200 (rpc_line (NewErrorResponse rid (-32005) ''rate limit exceeded'')) (set_header ''Retry-After'' ''1'' w)
      | DecisionReplay \<Rightarrow> respond 200 (reframeWithID (r_Body res) rid) (match_headers fmt (r_Match res) w)
      | DecisionBlock \<Rightarrow> respond 200 (rpc_line (NewErrorResponse rid (-32000) ''duplicate request blocked by policy'')) w
      | DecisionForward \<Rightarrow>
          write_response (r_StatusCode res) (r_Body res) (set_header ''X-Potent-Status'' ''fresh'' w))"

definition mcp_forwarder :: "('s, 'l) HTTPHandler \<Rightarrow> http_req \<Rightarrow> bytes \<Rightarrow> forward_outcome" where
  "mcp_forwarder H r body = (let (st, b, err) = forwardOnce H r body in FwdReturns st b err)"

definition mcp_ServeHTTP :: "('s, 'l) HTTPHandler \<Rightarrow> request \<Rightarrow> bool \<Rightarrow> ('s, 'l) pstate handler" where
  "mcp_ServeHTTP H env prefer_ctx w r S =
     (if rq_method r \<noteq> ''POST'' then (passthrough H w r None, S)
      else case read_body (mh_maxBodyBytes H) r of
        Inl _ \<Rightarrow> (http_Error ''read body'' 413 w, S)
      | Inr body \<Rightarrow>
          (case unmarshal_message body of
             Inl _ \<Rightarrow> (passthrough H w r (Some body), S)
           | Inr msg \<Rightarrow>
               if m_Method msg \<noteq> MethodToolsCall then (passthrough H w r (Some body), S)
               else case ParseToolsCall msg of
                      Inl _ \<Rightarrow> (writeRPCError w (m_ID msg) (-32602) ''invalid tools/call params'', S)
                    | Inr (tool, args) \<Rightarrow>
                        (case Apply (mh_pipeline H) (request_of env r tool args) (mcp_forwarder H r body) prefer_ctx S of
                           (Blocked, S1) \<Rightarrow> (Waits, S1)
                         | (Panic m, S1) \<Rightarrow> (Panics m, S1)
                         | (Ret res (Some _), S1) \<Rightarrow> (writeRPCError w (m_ID msg) (-32603) ''pipeline error'', S1)
                         | (Ret res None, S1) \<Rightarrow> (mcp_verdict (mh_format_f4 H) (m_ID msg) res w, S1))))"

definition mcp_Handler :: "('s, 'l) HTTPHandler \<Rightarrow> 'r reader \<Rightarrow> request \<Rightarrow> bool \<Rightarrow> (('s, 'l) pstate \<times> 'r) handler" where
  "mcp_Handler H read env prefer_ctx =
     traced read (gate (mh_oidcVerifier H) (mh_apiTokens H) (mh_apiToken H) ''potent-mcp'' (mcp_ServeHTTP H env prefer_ctx))"

section \<open>Tool calls\<close>

definition is_call :: "('s, 'l) HTTPHandler \<Rightarrow> http_req \<Rightarrow> bytes \<Rightarrow> Message \<Rightarrow> bytes \<Rightarrow> bytes \<Rightarrow> bool" where
  "is_call H r body msg tool args \<longleftrightarrow> rq_method r = ''POST'' \<and> read_body (mh_maxBodyBytes H) r = Inr body \<and>
     unmarshal_message body = Inr msg \<and> ParseToolsCall msg = Inr (tool, args)"

lemma mcp_call:
  assumes "is_call H r body msg tool args"
  shows "mcp_ServeHTTP H env pc w r S =
    (case Apply (mh_pipeline H) (request_of env r tool args) (mcp_forwarder H r body) pc S of
       (Blocked, S1) \<Rightarrow> (Waits, S1)
     | (Panic m, S1) \<Rightarrow> (Panics m, S1)
     | (Ret res (Some _), S1) \<Rightarrow> (writeRPCError w (m_ID msg) (-32603) ''pipeline error'', S1)
     | (Ret res None, S1) \<Rightarrow> (mcp_verdict (mh_format_f4 H) (m_ID msg) res w, S1))"
proof -
  have "m_Method msg = MethodToolsCall" using assms by (auto simp: is_call_def ParseToolsCall_def split: if_splits)
  then show ?thesis using assms by (simp add: is_call_def mcp_ServeHTTP_def)
qed

lemma ParseToolsCall_name: "ParseToolsCall m = Inr (tool, args) \<Longrightarrow> tool \<noteq> ''''"
  by (auto simp: ParseToolsCall_def split: if_splits sum.splits)

lemma mcp_verdict_status:
  assumes "mcp_verdict f rid res w = Served resp" "rs_header w ''X-Potent-Status'' \<noteq> Some ''fresh''"
  shows "rs_header resp ''X-Potent-Status'' = Some ''fresh'' \<longleftrightarrow> r_Decision res = DecisionForward"
  using assms
  by (cases "r_Decision res") (auto simp: mcp_verdict_def Let_def respond_simps dest!: write_response_simps)

lemma mcp_verdict_forward:
  "mcp_verdict f rid res w = Served resp \<Longrightarrow> r_Decision res = DecisionForward \<Longrightarrow>
     rs_status resp = r_StatusCode res \<and> rs_body resp = rs_body w @ r_Body res"
  by (auto simp: mcp_verdict_def Let_def dest!: write_response_simps)

lemma writeRPCError_status:
  "writeRPCError w rid c m = Served resp \<Longrightarrow> rs_header resp ''X-Potent-Status'' = rs_header w ''X-Potent-Status''"
  by (auto simp: writeRPCError_def respond_simps)

lemma mcp_served:
  assumes "is_call H r body msg tool args" "mcp_ServeHTTP H env pc w r S = (Served resp, S')"
  obtains res where "Apply (mh_pipeline H) (request_of env r tool args) (mcp_forwarder H r body) pc S = (Ret res None, S')"
      "mcp_verdict (mh_format_f4 H) (m_ID msg) res w = Served resp"
  | res err where "Apply (mh_pipeline H) (request_of env r tool args) (mcp_forwarder H r body) pc S = (Ret res (Some err), S')"
      "writeRPCError w (m_ID msg) (-32603) ''pipeline error'' = Served resp"
proof -
  obtain out S1 where ap: "Apply (mh_pipeline H) (request_of env r tool args) (mcp_forwarder H r body) pc S = (out, S1)"
    by (metis prod.exhaust)
  show ?thesis
  proof (cases out)
    case (Ret res err)
    then show ?thesis using that assms(2) ap by (cases err) (auto simp: mcp_call [OF assms(1)])
  qed (use assms(2) ap in \<open>auto simp: mcp_call [OF assms(1)]\<close>)
qed

lemma forwarder_error:
  "no_fwd_error (mcp_forwarder H r body) \<longleftrightarrow> snd (snd (forwardOnce H r body)) = None"
  by (simp add: no_fwd_error_def mcp_forwarder_def split_def Let_def)

section \<open>Properties\<close>

text \<open>C11. What the status header says of a tool call over MCP is what happened: \<open>fresh\<close> means that the
  upstream was called once with this frame and that its status and body were passed on unchanged; any
  other answer means that it was not called, or that the call itself failed.\<close>

theorem mcp_fresh_iff_forwarded:
  assumes "is_call H r body msg tool args" "mcp_ServeHTTP H env pc new_resp r S = (Served resp, S')"
  shows "if rs_header resp ''X-Potent-Status'' = Some ''fresh''
    then p_calls S' = p_calls S @ [(tool, args)] \<and> forwardOnce H r body = (rs_status resp, rs_body resp, None)
    else p_calls S' = p_calls S \<or> snd (snd (forwardOnce H r body)) \<noteq> None \<and> p_calls S' = p_calls S @ [(tool, args)]"
  using assms
proof (cases rule: mcp_served)
  case (1 res)
  have f: "rs_header resp ''X-Potent-Status'' = Some ''fresh'' \<longleftrightarrow> r_Decision res = DecisionForward"
    using mcp_verdict_status [OF 1(2)] by (simp add: new_resp_def)
  note ac = Apply_calls [OF 1(1)]
  show ?thesis
  proof (cases "r_Decision res = DecisionForward")
    case True
    then have "rs_status resp = r_StatusCode res \<and> rs_body resp = r_Body res"
      using mcp_verdict_forward [OF 1(2)] by (simp add: new_resp_def)
    moreover have "mcp_forwarder H r body = FwdReturns (r_StatusCode res) (r_Body res) None"
      using Apply_returns_forward [OF 1(1)] True by simp
    ultimately show ?thesis using f True ac by (simp add: one_call_def mcp_forwarder_def split_def prod_eq_iff Let_def)
  qed (use f ac in simp)
next
  case (2 res err)
  have "rs_header resp ''X-Potent-Status'' \<noteq> Some ''fresh''"
    using writeRPCError_status [OF 2(2)] by (simp add: new_resp_def)
  then show ?thesis
    using Apply_calls [OF 2(1)] Apply_returns_forward [OF 2(1)] forwarder_error [of H r body] by (auto simp: one_call_def)
qed

text \<open>C8. An MCP client that repeats a tool call under a new id gets the first answer under its own id:
  over any store that keeps the port's contract, once a call was answered fresh with a success whose
  body is a well-formed response frame, an equal later call that is admitted and comes before the
  entry expires receives that frame with its id replaced, and the upstream is not called again.\<close>

theorem mcp_replay:
  fixes H :: "('s, 'l) HTTPHandler" and S0 S1 :: "('s, 'l) pstate"
  defines "P \<equiv> mh_pipeline H"
  assumes port: "store_port (store P) invar ready view nrm okkey storable order_ok"
    and calls: "is_call H r body msg tool args" "is_call H r' body' msg' tool args'"
    and pol: "For (policies P) tool = pol" "\<not> shadow P" "caching pol" "hit_decision pol = DecisionReplay"
      "ReplayStrategy pol \<noteq> ReplaySynthesizedAck"
    and s: "invar (p_store S0)" "ready (p_store S0)" "okkey tool hash"
    and first: "mcp_ServeHTTP H env pc new_resp r S0 = (Served resp, S1)"
      "rs_header resp ''X-Potent-Status'' = Some ''fresh''" "success (rs_status resp)" "rs_body resp \<noteq> ''''"
      "q_ctx2 env = None" "analyse (libs P) args pol = Inr (hash, intent)"
    and e: "e = stamp (q_put env) (buildEntry (q_entry env) tool hash args (rs_status resp) (rs_body resp) pol
        (embed_intent P pol intent))" "storable e"
    and second: "analyse (libs P) args' pol = Inr (hash, intent')" "fst (admit P (request_of env' r' tool args') S1) = AdmOk"
      "q_ctx env' = None" "\<not> Expired (nrm e) (q_now env')"
    and frame: "unmarshal_message (rs_body resp) = Inr m" "wf_message m" "m_ID msg' \<noteq> ''''" "tight 9999 (m_ID msg')"
  shows "\<exists>resp' S2. mcp_ServeHTTP H env' pc' new_resp r' S1 = (Served resp', S2) \<and>
    unmarshal_message (rs_body resp') = Inr (m\<lparr>m_ID := m_ID msg'\<rparr>) \<and>
    rs_header resp' ''X-Potent-Status'' = Some ''replayed'' \<and> p_calls S2 = p_calls S1"
proof -
  let ?q = "request_of env r tool args" and ?q' = "request_of env' r' tool args'"
  obtain res where ap: "Apply P ?q (mcp_forwarder H r body) pc S0 = (Ret res None, S1)"
    and wv: "mcp_verdict (mh_format_f4 H) (m_ID msg) res new_resp = Served resp"
    unfolding P_def
    by (rule mcp_served [OF calls(1) first(1)]) (use first(2) in \<open>auto dest: writeRPCError_status simp: new_resp_def\<close>)
  have fw: "r_Decision res = DecisionForward" using mcp_verdict_status [OF wv] first(2) by (simp add: new_resp_def)
  have rs: "rs_status resp = r_StatusCode res" "rs_body resp = r_Body res"
    using mcp_verdict_forward [OF wv fw] by (simp_all add: new_resp_def)
  have f: "mcp_forwarder H r body = FwdReturns (rs_status resp) (rs_body resp) None"
    using Apply_returns_forward [OF ap] fw rs by simp
  have t: "tool \<noteq> ''''" using calls(1) ParseToolsCall_name by (auto simp: is_call_def)
  obtain S2 where ap2: "Apply P ?q' (mcp_forwarder H r' body') pc' S1 =
      (Ret \<lparr>r_Decision = DecisionReplay, r_Match = exact_match, r_Hash = hash, r_StatusCode = rs_status resp,
        r_Body = rs_body resp\<rparr> None, S2)" and c2: "p_calls S2 = p_calls S1"
    using forward_then_replay [OF port, of ?q S0 hash "rs_status resp" "rs_body resp" pc res S1 intent e ?q' intent'
        "mcp_forwarder H r' body'" pc'] ap f fw pol s t first(3,4,5,6) e second by auto
  have "unmarshal_message (reframeWithID (rs_body resp) (m_ID msg')) = Inr (m\<lparr>m_ID := m_ID msg'\<rparr>)"
    using unmarshal_reframe [OF frame] .
  then show ?thesis
    using mcp_call [OF calls(2), of env' pc' new_resp S1] ap2 c2
    by (simp add: P_def mcp_verdict_def Let_def respond_simps) (simp add: respond_def new_resp_def)
qed

section \<open>A concrete exchange\<close>

definition demo_mcp :: "(Memory, unit) HTTPHandler" where
  "demo_mcp = \<lparr>mh_pipeline = demo_pipeline, mh_path = ''/mcp'',
     mh_client = \<lparr>c_build = (\<lambda>_. None),
       c_Do = (\<lambda>_. Inr \<lparr>u_status = 200, u_header = Map.empty, u_body = frame (NewToolsCallResponse ''1'' ''7''), u_err = None\<rparr>)\<rparr>,
     mh_maxBodyBytes = 0, mh_apiToken = '''', mh_apiTokens = [], mh_oidcVerifier = None, mh_format_f4 = (\<lambda>_. '''')\<rparr>"

definition demo_post :: "bytes \<Rightarrow> http_req" where
  "demo_post rid = (demo_http '''')\<lparr>rq_body := Inr (frame (demo_frame rid))\<rparr>"

lemma demo_is_call:
  assumes "tight 9999 rid"
  shows "is_call demo_mcp (demo_post rid) (frame (demo_frame rid)) (demo_frame rid) ''send'' ''''"
  using unmarshal_marshal [OF demo_frame_wf [OF assms]] marshal_wf [OF demo_frame_wf [OF assms]] demo_parse
  by (simp add: is_call_def demo_mcp_def demo_post_def demo_http_def read_body_def frame_def)

abbreviation demo_answer :: bytes where
  "demo_answer \<equiv> frame (NewToolsCallResponse ''1'' ''7'')"

lemma demo_mcp_simps [simp]:
  "mh_pipeline demo_mcp = demo_pipeline" "request_of demo_request (demo_post rid) ''send'' '''' = demo_request"
  "mcp_forwarder demo_mcp (demo_post rid) b = FwdReturns 200 demo_answer None"
  by (simp_all add: demo_mcp_def demo_post_def request_of_def demo_request_def demo_http_def mcp_forwarder_def
      forwardOnce_def out_request_def Let_def)

lemma demo_mcp_first:
  obtains hash resp S1 where "analyse (libs demo_pipeline) '''' demo_policy = Inr (hash, '''')"
    "mcp_ServeHTTP demo_mcp demo_request False new_resp (demo_post ''1'') (New_pipeline NewMemory) = (Served resp, S1)"
    "rs_header resp ''X-Potent-Status'' = Some ''fresh''" "rs_status resp = 200" "rs_body resp = demo_answer"
proof -
  let ?init = "New_pipeline NewMemory :: (Memory, unit) pstate"
  obtain hash h Sc where an: "analyse (libs demo_pipeline) '''' demo_policy = Inr (hash, '''')"
    and ap: "\<forall>fwd pc. Apply demo_pipeline demo_request fwd pc ?init = runLeader demo_pipeline demo_request hash '''' demo_policy fwd h
      (log_decision demo_pipeline demo_request demo_policy DecisionForward no_match hash '''' Sc)" by (rule demo_leader)
  have "fst (Apply demo_pipeline demo_request (FwdReturns 200 demo_answer None) False ?init) = Ret (forwarded hash 200 demo_answer) None"
    by (simp add: ap runLeader_out doForward_out)
  then obtain S1 where run: "Apply demo_pipeline demo_request (FwdReturns 200 demo_answer None) False ?init = (Ret (forwarded hash 200 demo_answer) None, S1)"
    by (metis prod.collapse)
  obtain resp where wv: "mcp_verdict (mh_format_f4 demo_mcp) ''1'' (forwarded hash 200 demo_answer) new_resp = Served resp"
    by (simp add: mcp_verdict_def Let_def write_response_def respond_def)
  have "mcp_ServeHTTP demo_mcp demo_request False new_resp (demo_post ''1'') ?init = (Served resp, S1)"
    using mcp_call [OF demo_is_call [OF tight_number(1)], of demo_request False new_resp ?init] run wv
    by (simp add: demo_frame_def zero_message_def)
  moreover have "rs_header resp ''X-Potent-Status'' = Some ''fresh''"
    using mcp_verdict_status [OF wv] by (simp add: new_resp_def)
  moreover have "rs_status resp = 200" "rs_body resp = demo_answer"
    using mcp_verdict_forward [OF wv] by (simp_all add: new_resp_def)
  ultimately show ?thesis using that an by blast
qed

theorem mcp_fresh_iff_forwarded_witness:
  "\<exists>resp S'. mcp_ServeHTTP demo_mcp demo_request False new_resp (demo_post ''1'') (New_pipeline NewMemory) = (Served resp, S') \<and>
     rs_body resp = demo_answer \<and> p_calls S' = [(''send'', '''')]"
proof (rule demo_mcp_first)
  fix hash resp S1
  assume run: "mcp_ServeHTTP demo_mcp demo_request False new_resp (demo_post ''1'') (New_pipeline NewMemory) = (Served resp, S1)"
    and f: "rs_header resp ''X-Potent-Status'' = Some ''fresh''" "rs_body resp = demo_answer"
  from mcp_fresh_iff_forwarded [OF demo_is_call [OF tight_number(1)] run] f
  have "p_calls S1 = [(''send'', '''')]" by (simp add: New_pipeline_def)
  then show ?thesis using run f by blast
qed

theorem mcp_replay_witness:
  "\<exists>resp S1 resp' S2.
     mcp_ServeHTTP demo_mcp demo_request False new_resp (demo_post ''1'') (New_pipeline NewMemory) = (Served resp, S1) \<and>
     mcp_ServeHTTP demo_mcp demo_request False new_resp (demo_post ''7'') S1 = (Served resp', S2) \<and>
     unmarshal_message (rs_body resp') = Inr (NewToolsCallResponse ''7'' ''7'') \<and> p_calls S2 = p_calls S1"
proof (rule demo_mcp_first)
  fix hash resp S1
  assume an: "analyse (libs demo_pipeline) '''' demo_policy = Inr (hash, '''')"
    and run: "mcp_ServeHTTP demo_mcp demo_request False new_resp (demo_post ''1'') (New_pipeline NewMemory) = (Served resp, S1)"
    and r: "rs_header resp ''X-Potent-Status'' = Some ''fresh''" "rs_status resp = 200" "rs_body resp = demo_answer"
  have k: "key_ok ''send'' hash" using analyse_hash [OF an] by (simp add: key_ok_def nul_free_def NUL_def)
  have w: "wf_message (NewToolsCallResponse ''1'' ''7'')"
    by (simp add: wf_message_def NewToolsCallResponse_def zero_message_def tight_number ascii_valid tight_def [of _ "''''"])
  have u: "unmarshal_message demo_answer = Inr (NewToolsCallResponse ''1'' ''7'')"
    using unmarshal_marshal [OF w] marshal_wf [OF w] by (simp add: frame_def)
  have ne: "demo_answer \<noteq> ''''" using marshal_wf [OF w] by (simp add: frame_def object_text_def)
  have "\<exists>resp' S2. mcp_ServeHTTP demo_mcp demo_request False new_resp (demo_post ''7'') S1 = (Served resp', S2) \<and>
    unmarshal_message (rs_body resp') = Inr ((NewToolsCallResponse ''1'' ''7'')\<lparr>m_ID := m_ID (demo_frame ''7'')\<rparr>) \<and>
    rs_header resp' ''X-Potent-Status'' = Some ''replayed'' \<and> p_calls S2 = p_calls S1"
  proof (rule mcp_replay [of demo_mcp, OF mem.store_port_axioms [folded demo_request_simps(7), folded demo_mcp_simps(1)]
        demo_is_call [OF tight_number(1)] demo_is_call [OF tight_number(2)], of demo_policy, OF _ _ _ _ _ _ _ _ run r(1) _ _ _ _ refl])
    show "keys_ok (p_store (New_pipeline NewMemory))" by (simp add: New_pipeline_def NewMemory_def keys_ok_def)
    show "\<not> Expired (stamp (q_put demo_request) (buildEntry (q_entry demo_request) ''send'' hash '''' (rs_status resp) (rs_body resp)
        demo_policy (embed_intent (mh_pipeline demo_mcp) demo_policy ''''))) (q_now demo_request)"
      by (simp add: Expired_def Sub_def int64_defs stamp_def IsZero_def Second_def)
    show "tight 9999 (m_ID (demo_frame ''7''))" "m_ID (demo_frame ''7'') \<noteq> ''''" by (simp_all add: demo_frame_def tight_number)
  qed (use an k r u w ne in \<open>simp_all add: replay_defs\<close>)
  then show ?thesis using run by (auto simp: demo_frame_def NewToolsCallResponse_def)
qed

end
