(* ===== verification/Http_Mux.thy ===== *)
theory Http_Mux
  imports Http_Auth
begin

text \<open>
  What the listeners use of \<open>net/http\<close> and \<open>net/url\<close>: routing by \<open>http.ServeMux\<close> and the parameters of a
  query. A pattern that ends in a slash serves every path below it, any other pattern one path; the longest
  pattern wins. A path that is not clean (\<open>//\<close>, \<open>.\<close> or \<open>..\<close>) is answered with a redirect to the cleaned
  one, and so is the name of a subtree without its slash. Paths are taken as they stand on the request line,
  without percent escapes; the body of a redirect is left out.
\<close>

section \<open>Paths\<close>

fun clean_segments :: "bytes list \<Rightarrow> bytes list \<Rightarrow> bytes list" where
  "clean_segments [] stack = rev stack"
| "clean_segments (s # ss) stack =
     (if s = '''' \<or> s = ''.'' then clean_segments ss stack
      else if s = ''..'' then clean_segments ss (tl stack)
      else clean_segments ss (s # stack))"

definition cleanPath :: "bytes \<Rightarrow> bytes" where
  "cleanPath p =
     (let np = CHR ''/'' # Join ''/'' (clean_segments (Split (CHR ''/'') p) [])
      in if p \<noteq> '''' \<and> last p = CHR ''/'' \<and> np \<noteq> ''/'' then np @ ''/'' else np)"

section \<open>Routing\<close>

type_synonym 'st mux = "(bytes \<times> 'st handler) list"

definition serves :: "bytes \<Rightarrow> bytes \<Rightarrow> bool" where
  "serves pat p \<longleftrightarrow> pat = p \<or> (last pat = CHR ''/'' \<and> HasPrefix p pat)"

fun longest :: "bytes \<Rightarrow> 'st mux \<Rightarrow> (bytes \<times> 'st handler) option \<Rightarrow> (bytes \<times> 'st handler) option" where
  "longest p [] best = best"
| "longest p ((pat, h) # ms) best =
     longest p ms
       (if serves pat p \<and> (case best of None \<Rightarrow> True | Some (b, _) \<Rightarrow> length b < length pat) then Some (pat, h) else best)"

definition redirect :: "bytes \<Rightarrow> http_req \<Rightarrow> http_resp \<Rightarrow> http_out" where
  "redirect path r w =
     respond 301 '''' (set_header ''Location'' (if rq_query r = '''' then path else path @ ''?'' @ rq_query r) w)"

definition mux_serve :: "'st mux \<Rightarrow> 'st handler" where
  "mux_serve ms w r st =
     (let p = (if rq_method r = ''CONNECT'' then rq_path r else cleanPath (rq_path r)) in
      if p \<notin> fst ` set ms \<and> p @ ''/'' \<in> fst ` set ms then (redirect (p @ ''/'') r w, st)
      else if p \<noteq> rq_path r then (redirect p r w, st)
      else case longest p ms None of
             Some (_, h) \<Rightarrow> h w r st
           | None \<Rightarrow> (http_Error ''404 page not found'' 404 w, st))"

section \<open>Queries\<close>

fun QueryUnescape :: "bytes \<Rightarrow> bytes option" where
  "QueryUnescape [] = Some []"
| "QueryUnescape (c # t) =
     (if c = CHR ''%'' then
        (case t of
           a # b # t' \<Rightarrow>
             (case (hex_val a, hex_val b, QueryUnescape t') of
                (Some x, Some y, Some r) \<Rightarrow> Some (char_of (16 * x + y) # r)
              | _ \<Rightarrow> None)
         | _ \<Rightarrow> None)
      else map_option ((#) (if c = CHR ''+'' then CHR '' '' else c)) (QueryUnescape t))"

definition query_pair :: "bytes \<Rightarrow> (bytes \<times> bytes) option" where
  "query_pair piece =
     (if CHR '';'' \<in> set piece \<or> piece = '''' then None
      else let (k, v) = (case Index piece (CHR ''='') of Some i \<Rightarrow> (take i piece, drop (Suc i) piece) | None \<Rightarrow> (piece, ''''))
           in case (QueryUnescape k, QueryUnescape v) of (Some k', Some v') \<Rightarrow> Some (k', v') | _ \<Rightarrow> None)"

definition ParseQuery :: "bytes \<Rightarrow> (bytes \<times> bytes) list" where
  "ParseQuery q = List.map_filter query_pair (Split (CHR ''&'') q)"

text \<open>\<open>URL.Query().Get(name)\<close>: the first value, or the empty string.\<close>

definition query_Get :: "bytes \<Rightarrow> bytes \<Rightarrow> bytes" where
  "query_Get q name = (case map_of (ParseQuery q) name of Some v \<Rightarrow> v | None \<Rightarrow> '''')"

section \<open>Paths that are clean\<close>

definition plain_segment :: "bytes \<Rightarrow> bool" where
  "plain_segment s \<longleftrightarrow> s \<noteq> '''' \<and> s \<noteq> ''.'' \<and> s \<noteq> ''..'' \<and> CHR ''/'' \<notin> set s"

lemma clean_segments_plain:
  "\<forall>s \<in> set ss. plain_segment s \<Longrightarrow> clean_segments ss stack = rev stack @ ss"
  by (induction ss arbitrary: stack) (auto simp: plain_segment_def)

lemma Split_Join:
  "ss \<noteq> [] \<Longrightarrow> \<forall>s \<in> set ss. c \<notin> set s \<Longrightarrow> Split c (Join [c] ss) = ss"
proof (induction ss)
  case (Cons s ss)
  then show ?case by (cases ss) auto
qed simp

lemma Join_last: "ss \<noteq> [] \<Longrightarrow> last ss \<noteq> '''' \<Longrightarrow> Join sep ss \<noteq> '''' \<and> last (Join sep ss) = last (last ss)"
  by (induction sep ss rule: Join.induct) (auto simp: last_append)

text \<open>A path of plain segments is served as it is.\<close>

lemma cleanPath_plain:
  assumes "ss \<noteq> []" "\<forall>s \<in> set ss. plain_segment s"
  shows "cleanPath (CHR ''/'' # Join ''/'' ss) = CHR ''/'' # Join ''/'' ss"
proof -
  have "Split (CHR ''/'') (CHR ''/'' # Join ''/'' ss) = [] # ss"
    using Split_Join [OF assms(1), of "CHR ''/''"] assms(2) by (simp add: plain_segment_def)
  then have c: "clean_segments (Split (CHR ''/'') (CHR ''/'' # Join ''/'' ss)) [] = ss"
    using clean_segments_plain [OF assms(2)] by simp
  have l: "plain_segment (last ss)" using assms last_in_set [OF assms(1)] by blast
  then have "last ss \<noteq> ''''" "last (last ss) \<noteq> CHR ''/''"
    using last_in_set [of "last ss"] unfolding plain_segment_def by metis+
  then have "last (CHR ''/'' # Join ''/'' ss) \<noteq> CHR ''/''" using Join_last [OF assms(1), of "''/''"] by simp
  then show ?thesis unfolding cleanPath_def c by simp
qed

lemma mux_serve_clean:
  assumes "cleanPath (rq_path r) = rq_path r" "rq_path r @ ''/'' \<in> fst ` set ms \<Longrightarrow> rq_path r \<in> fst ` set ms"
  shows "mux_serve ms w r st =
    (case longest (rq_path r) ms None of Some (_, h) \<Rightarrow> h w r st | None \<Rightarrow> (http_Error ''404 page not found'' 404 w, st))"
  using assms by (auto simp: mux_serve_def Let_def)

lemma longest_mem: "longest p ms best = Some (k, h) \<Longrightarrow> best = Some (k, h) \<or> (k, h) \<in> set ms"
  by (induction p ms best rule: longest.induct) (auto split: if_splits)

text \<open>Two states that no route tells apart give the same response.\<close>

lemma mux_serve_agree:
  assumes "\<And>k h w r. (k, h) \<in> set ms \<Longrightarrow> fst (h w r s) = fst (h w r s')"
  shows "fst (mux_serve ms w r s) = fst (mux_serve ms w r s')"
proof -
  have "\<exists>k. (k, h) \<in> set ms" if "longest p ms None = Some (k, h)" for p k h using longest_mem [OF that] by auto
  then show ?thesis using assms by (fastforce simp: mux_serve_def Let_def split: option.splits)
qed

lemma traced_agree:
  assumes "\<And>w r. fst (h w r s) = fst (h w r s')"
  shows "fst (traced read h w r (s, rnd)) = fst (traced read h w r (s', rnd))"
  using assms by (auto simp: traced_def Let_def split_def split: option.splits)

lemma traced_served:
  assumes "traced read h w r (s, rnd) = (Served resp, (s', rnd'))"
  obtains w' r' where "h w' r' s = (Served resp, s')" "rs_body w' = rs_body w" "rq_header r' = rq_header r" "rq_path r' = rq_path r" "rq_method r' = rq_method r" "rq_query r' = rq_query r"
proof (cases "Middleware read (rq_header r ''Traceparent'') rnd")
  case None
  then show ?thesis using assms by (simp add: traced_def)
next
  case (Some x)
  obtain sp rnd1 where x: "x = (sp, rnd1)" by (cases x)
  show ?thesis
  proof (cases sp)
    case None
    then show ?thesis using assms Some x by (intro that [of w r]) (auto simp: traced_def Let_def split: prod.splits)
  next
    case (Some y)
    then show ?thesis using assms \<open>Middleware read _ _ = Some x\<close> x
      by (intro that [of "set_header ''Traceparent'' (snd y) w" "r\<lparr>rq_span := Some (fst y)\<rparr>"])
        (auto simp: traced_def set_header_def Let_def split: prod.splits)
  qed
qed

text \<open>A source of random bytes that always fails leaves a request without a trace.\<close>

definition no_random :: "unit reader" where "no_random r n = (Inl (ErrMsg ''entropy''), r)"

lemma no_random_traced:
  assumes "rq_header r ''Traceparent'' = ''''"
  shows "traced no_random h w r (s, u) = (let (out, s') = h w r s in (out, (s', u)))"
proof -
  have "Parse '''' = None" by (simp add: Parse_def TrimSpace_dropWhile)
  then have "Middleware no_random '''' u = Some (None, u)" by (simp add: Middleware_def generate_def no_random_def)
  then show ?thesis using assms by (simp add: traced_def)
qed

end
