(* ===== verification/Oidc.thy ===== *)
theory Oidc
  imports Http_Auth Jsonrpc
begin

text \<open>
  \<open>internal/oidc/oidc.go\<close>: the verifier of JSON Web Tokens over a cached key set. Reading the key set
  (\<open>encoding/json\<close> into a slice of structs, \<open>encoding/base64\<close>, big-endian numbers) is written out. The
  signature check is the package \<open>golang-jwt/jwt\<close>, the parameter \<open>jwt_parser\<close>: it reads the header of a
  token, asks the caller for the key, and returns the claims when the token is valid under its options. The
  HTTP client is the answer it gives to the fetch.
\<close>

section \<open>Base64\<close>

definition b64_val :: "char \<Rightarrow> nat option" where
  "b64_val c =
     (let n = of_char c :: nat in
      if 65 \<le> n \<and> n \<le> 90 then Some (n - 65)
      else if 97 \<le> n \<and> n \<le> 122 then Some (n - 71)
      else if 48 \<le> n \<and> n \<le> 57 then Some (n + 4)
      else if c = CHR ''-'' then Some 62
      else if c = CHR ''_'' then Some 63
      else None)"

text \<open>Groups of four digits make three bytes; a last group of two or three makes one or two, and its spare
  bits are dropped.\<close>

fun b64_groups :: "nat list \<Rightarrow> nat list option" where
  "b64_groups [] = Some []"
| "b64_groups [a] = None"
| "b64_groups [a, b] = Some [4 * a + b div 16]"
| "b64_groups [a, b, c] = Some [4 * a + b div 16, 16 * (b mod 16) + c div 4]"
| "b64_groups (a # b # c # d # t) =
     map_option (\<lambda>r. (4 * a + b div 16) # (16 * (b mod 16) + c div 4) # (64 * (c mod 4) + d) # r) (b64_groups t)"

text \<open>\<open>base64.RawURLEncoding.DecodeString\<close>: line breaks are ignored, any other foreign character is an error.\<close>

definition b64_decode :: "bytes \<Rightarrow> bytes result" where
  "b64_decode s =
     (let ds = map b64_val (filter (\<lambda>c. c \<noteq> CHR 0x0A \<and> c \<noteq> CHR 0x0D) s) in
      if None \<in> set ds then Inl (ErrMsg ''illegal base64 data'')
      else case b64_groups (map the ds) of
             Some out \<Rightarrow> Inr (map char_of out)
           | None \<Rightarrow> Inl (ErrMsg ''illegal base64 data''))"

section \<open>Keys\<close>

datatype curve = P256 | P384 | P521

datatype pubkey = RSA_key nat int | EC_key curve nat nat

text \<open>\<open>big.Int.SetBytes\<close>.\<close>

definition SetBytes :: "bytes \<Rightarrow> nat" where
  "SetBytes buf = foldl (\<lambda>n b. 256 * n + of_char b) 0 buf"

text \<open>The exponent is a Go \<open>int\<close>: \<open>eInt = eInt<<8 + int(b)\<close> in 64 bits.\<close>

definition exponent :: "bytes \<Rightarrow> 64 word" where
  "exponent buf = foldl (\<lambda>e b. push_bit 8 e + of_char b) 0 buf"

definition rsaPublicKey :: "bytes \<Rightarrow> bytes \<Rightarrow> pubkey result" where
  "rsaPublicKey nB64 eB64 =
     (case b64_decode nB64 of
        Inl err \<Rightarrow> Inl (Wrapped ''n'' err)
      | Inr n \<Rightarrow>
          (case b64_decode eB64 of
             Inl err \<Rightarrow> Inl (Wrapped ''e'' err)
           | Inr e \<Rightarrow> Inr (RSA_key (SetBytes n) (sint (exponent e)))))"

definition curve_of :: "unicode \<Rightarrow> bytes \<Rightarrow> curve option" where
  "curve_of U crv =
     (let c = ToUpper U crv in
      if c = ''P-256'' then Some P256 else if c = ''P-384'' then Some P384 else if c = ''P-521'' then Some P521 else None)"

definition ecPublicKey :: "unicode \<Rightarrow> bytes \<Rightarrow> bytes \<Rightarrow> bytes \<Rightarrow> pubkey result" where
  "ecPublicKey U crv xB64 yB64 =
     (case curve_of U crv of
        None \<Rightarrow> Inl (ErrMsg ''unsupported curve'')
      | Some curve \<Rightarrow>
          (case b64_decode xB64 of
             Inl err \<Rightarrow> Inl (Wrapped ''x'' err)
           | Inr x \<Rightarrow>
               (case b64_decode yB64 of
                  Inl err \<Rightarrow> Inl (Wrapped ''y'' err)
                | Inr y \<Rightarrow> Inr (EC_key curve (SetBytes x) (SetBytes y)))))"

section \<open>The key set document\<close>

record jwk =
  k_Kty :: bytes
  k_Kid :: bytes
  k_Use :: bytes
  k_Alg :: bytes
  k_N :: bytes
  k_E :: bytes
  k_Crv :: bytes
  k_X :: bytes
  k_Y :: bytes

definition zero_jwk :: jwk where
  "zero_jwk = \<lparr>k_Kty = '''', k_Kid = '''', k_Use = '''', k_Alg = '''', k_N = '''', k_E = '''', k_Crv = '''', k_X = '''', k_Y = ''''\<rparr>"

definition set_jwk :: "bytes result \<Rightarrow> (bytes \<Rightarrow> jwk) \<Rightarrow> jwk result" where
  "set_jwk x put = (case x of Inl e \<Rightarrow> Inl e | Inr s \<Rightarrow> Inr (put s))"

definition jwk_field :: "bytes \<Rightarrow> bytes \<Rightarrow> jwk \<Rightarrow> jwk result" where
  "jwk_field name v k =
     (if name = ''kty'' then set_jwk (string_field v (k_Kty k)) (\<lambda>s. k\<lparr>k_Kty := s\<rparr>)
      else if name = ''kid'' then set_jwk (string_field v (k_Kid k)) (\<lambda>s. k\<lparr>k_Kid := s\<rparr>)
      else if name = ''use'' then set_jwk (string_field v (k_Use k)) (\<lambda>s. k\<lparr>k_Use := s\<rparr>)
      else if name = ''alg'' then set_jwk (string_field v (k_Alg k)) (\<lambda>s. k\<lparr>k_Alg := s\<rparr>)
      else if name = ''n'' then set_jwk (string_field v (k_N k)) (\<lambda>s. k\<lparr>k_N := s\<rparr>)
      else if name = ''e'' then set_jwk (string_field v (k_E k)) (\<lambda>s. k\<lparr>k_E := s\<rparr>)
      else if name = ''crv'' then set_jwk (string_field v (k_Crv k)) (\<lambda>s. k\<lparr>k_Crv := s\<rparr>)
      else if name = ''x'' then set_jwk (string_field v (k_X k)) (\<lambda>s. k\<lparr>k_X := s\<rparr>)
      else if name = ''y'' then set_jwk (string_field v (k_Y k)) (\<lambda>s. k\<lparr>k_Y := s\<rparr>)
      else Inr k)"

text \<open>The texts of the elements of an array.\<close>

function raw_elems :: "nat \<Rightarrow> bytes \<Rightarrow> bytes list option" where
  "raw_elems d s =
     (case raw_value d s of
        None \<Rightarrow> None
      | Some (v, r) \<Rightarrow>
          (case skip_ws r of
             c # t \<Rightarrow>
               if c = CHR '','' \<and> length t < length s then map_option ((#) v) (raw_elems d t) else Some [v]
           | [] \<Rightarrow> None))"
  by pat_completeness auto
termination
  by (relation "measure (length \<circ> snd)") auto

declare raw_elems.simps [simp del]

text \<open>The slice \<open>Keys\<close>: its backing array and its length. The decoder reuses the elements of the array it
  finds there, as it does when a document names \<open>keys\<close> twice; an empty array makes a new slice.\<close>

record jwks_doc =
  jd_buf :: "jwk list"
  jd_len :: nat

definition decode_jwk :: "bytes \<Rightarrow> jwk \<Rightarrow> jwk result" where
  "decode_jwk v k = unmarshal_struct jwk_field v k"

fun decode_jwks :: "bytes list \<Rightarrow> jwk list \<Rightarrow> jwk list result" where
  "decode_jwks [] buf = Inr buf"
| "decode_jwks (v # vs) buf =
     (case decode_jwk v (case buf of k # _ \<Rightarrow> k | [] \<Rightarrow> zero_jwk) of
        Inl err \<Rightarrow> Inl err
      | Inr k \<Rightarrow> (case decode_jwks vs (tl buf) of Inl err \<Rightarrow> Inl err | Inr ks \<Rightarrow> Inr (k # ks)))"

definition doc_field :: "bytes \<Rightarrow> bytes \<Rightarrow> jwks_doc \<Rightarrow> jwks_doc result" where
  "doc_field name v doc =
     (if name \<noteq> ''keys'' then Inr doc
      else if v = ''null'' then Inr \<lparr>jd_buf = [], jd_len = 0\<rparr>
      else case v of
             c # t \<Rightarrow>
               if c \<noteq> CHR ''['' then Inl (ErrMsg ''json: cannot unmarshal'')
               else if HasPrefix (skip_ws t) '']'' then Inr \<lparr>jd_buf = [], jd_len = 0\<rparr>
               else (case raw_elems 9998 t of
                       None \<Rightarrow> Inl (ErrMsg ''json: syntax error'')
                     | Some vs \<Rightarrow>
                         (case decode_jwks vs (jd_buf doc) of
                            Inl err \<Rightarrow> Inl err
                          | Inr ks \<Rightarrow> Inr \<lparr>jd_buf = ks, jd_len = length vs\<rparr>))
           | [] \<Rightarrow> Inl (ErrMsg ''json: syntax error''))"

definition unmarshal_doc :: "bytes \<Rightarrow> jwk list result" where
  "unmarshal_doc body =
     (case unmarshal_struct doc_field body \<lparr>jd_buf = [], jd_len = 0\<rparr> of
        Inl err \<Rightarrow> Inl err
      | Inr doc \<Rightarrow> Inr (take (jd_len doc) (jd_buf doc)))"

fun jwks_loop :: "unicode \<Rightarrow> jwk list \<Rightarrow> (bytes \<rightharpoonup> pubkey) \<Rightarrow> (bytes \<rightharpoonup> pubkey) result" where
  "jwks_loop U [] out = Inr out"
| "jwks_loop U (k # ks) out =
     (if k_Use k \<noteq> '''' \<and> k_Use k \<noteq> ''sig'' then jwks_loop U ks out
      else if ToUpper U (k_Kty k) = ''RSA'' then
        (case rsaPublicKey (k_N k) (k_E k) of
           Inl err \<Rightarrow> Inl (Wrapped ''rsa key'' err)
         | Inr pub \<Rightarrow> jwks_loop U ks (out(k_Kid k \<mapsto> pub)))
      else if ToUpper U (k_Kty k) = ''EC'' then
        (case ecPublicKey U (k_Crv k) (k_X k) (k_Y k) of
           Inl err \<Rightarrow> Inl (Wrapped ''ec key'' err)
         | Inr pub \<Rightarrow> jwks_loop U ks (out(k_Kid k \<mapsto> pub)))
      else jwks_loop U ks out)"

definition parseJWKS :: "unicode \<Rightarrow> bytes \<Rightarrow> (bytes \<rightharpoonup> pubkey) result" where
  "parseJWKS U body = (case unmarshal_doc body of Inl err \<Rightarrow> Inl err | Inr ks \<Rightarrow> jwks_loop U ks Map.empty)"

section \<open>The verifier\<close>

datatype claims = MapClaims "(bytes \<times> json) list" | OtherClaims

text \<open>The options given to the token parser.\<close>

record parser_opts =
  po_methods :: "bytes list"
  po_leeway :: duration
  po_issuer :: "bytes option"
  po_audience :: "bytes option"

text \<open>\<open>Parse\<close> of \<open>golang-jwt\<close>: options, key function on the members of the token's header, token.\<close>

type_synonym jwt_parser = "parser_opts \<Rightarrow> ((bytes \<times> json) list \<Rightarrow> pubkey result) \<Rightarrow> bytes \<Rightarrow> claims result"

record oidc_config =
  oc_JWKSURL :: bytes
  oc_Issuer :: bytes
  oc_Audience :: bytes
  oc_CallerClaim :: bytes
  oc_RefreshInterval :: duration

record Verifier =
  v_cfg :: oidc_config
  v_parser :: parser_opts
  v_keys :: "bytes \<rightharpoonup> pubkey"

definition DefaultRefreshInterval :: duration where "DefaultRefreshInterval = Hour"

definition NewVerifier :: "oidc_config \<Rightarrow> Verifier result" where
  "NewVerifier cfg0 =
     (if oc_JWKSURL cfg0 = '''' then Inl (ErrMsg ''oidc: JWKSURL is required'')
      else let cfg1 = (if oc_CallerClaim cfg0 = '''' then cfg0\<lparr>oc_CallerClaim := ''sub''\<rparr> else cfg0);
               cfg = (if oc_RefreshInterval cfg1 \<le> 0 then cfg1\<lparr>oc_RefreshInterval := DefaultRefreshInterval\<rparr> else cfg1)
           in Inr \<lparr>v_cfg = cfg,
                v_parser = \<lparr>po_methods = [''RS256'', ''RS384'', ''RS512'', ''ES256'', ''ES384'', ''ES512''], po_leeway = 30 * Second,
                  po_issuer = (if oc_Issuer cfg \<noteq> '''' then Some (oc_Issuer cfg) else None),
                  po_audience = (if oc_Audience cfg \<noteq> '''' then Some (oc_Audience cfg) else None)\<rparr>,
                v_keys = Map.empty\<rparr>)"

text \<open>What the fetch of the key set gives: an error of building or of sending the request, or a status and a
  body whose reading may fail.\<close>

datatype fetch = NoRequest go_error | NoAnswer go_error | Answer int "bytes result"

definition Refresh :: "unicode \<Rightarrow> fetch \<Rightarrow> Verifier \<Rightarrow> unit result \<times> Verifier" where
  "Refresh U f v =
     (case f of
        NoRequest err \<Rightarrow> (Inl (Wrapped ''build jwks request'' err), v)
      | NoAnswer err \<Rightarrow> (Inl (Wrapped ''fetch jwks'' err), v)
      | Answer status body \<Rightarrow>
          if status \<noteq> 200 then (Inl (ErrMsg (''jwks endpoint returned '' @ Itoa status)), v)
          else case body of
                 Inl err \<Rightarrow> (Inl (Wrapped ''read jwks'' err), v)
               | Inr b \<Rightarrow>
                   (case parseJWKS U (take (2 ^ 20) b) of
                      Inl err \<Rightarrow> (Inl (Wrapped ''parse jwks'' err), v)
                    | Inr ks \<Rightarrow> (Inr (), v\<lparr>v_keys := ks\<rparr>)))"

text \<open>The refresh loop: one refresh at once, then one per tick, until the context is done.\<close>

fun refresh_loop :: "unicode \<Rightarrow> fetch option list \<Rightarrow> Verifier \<Rightarrow> Verifier" where
  "refresh_loop U [] v = v"
| "refresh_loop U (None # evs) v = v"
| "refresh_loop U (Some f # evs) v = refresh_loop U evs (snd (Refresh U f v))"

definition oidc_Run :: "unicode \<Rightarrow> fetch \<Rightarrow> fetch option list \<Rightarrow> Verifier \<Rightarrow> Verifier" where
  "oidc_Run U first evs v = refresh_loop U evs (snd (Refresh U first v))"

definition key_of :: "(bytes \<rightharpoonup> pubkey) \<Rightarrow> (bytes \<times> json) list \<Rightarrow> pubkey result" where
  "key_of ks hdr =
     (let kid = (case map_of hdr ''kid'' of Some (JStr s) \<Rightarrow> s | _ \<Rightarrow> '''') in
      case ks kid of Some k \<Rightarrow> Inr k | None \<Rightarrow> Inl (ErrMsg (''no key for kid '' @ kid)))"

definition Verify :: "jwt_parser \<Rightarrow> Verifier \<Rightarrow> bytes \<Rightarrow> bytes result" where
  "Verify parse v token =
     (case parse (v_parser v) (key_of (v_keys v)) token of
        Inl err \<Rightarrow> Inl err
      | Inr OtherClaims \<Rightarrow> Inl (ErrMsg ''oidc: token claims not a json object'')
      | Inr (MapClaims cs) \<Rightarrow>
          (case map_of cs (oc_CallerClaim (v_cfg v)) of
             None \<Rightarrow> Inl (ErrMsg ''oidc: claim absent'')
           | Some (JStr caller) \<Rightarrow> if caller = '''' then Inl (ErrMsg ''oidc: claim is not a non-empty string'') else Inr caller
           | Some _ \<Rightarrow> Inl (ErrMsg ''oidc: claim is not a non-empty string'')))"

section \<open>Numbers\<close>

lemma SetBytes_snoc [simp]: "SetBytes (buf @ [b]) = 256 * SetBytes buf + of_char b"
  by (simp add: SetBytes_def)

lemma SetBytes_bound: "SetBytes buf < 256 ^ length buf"
proof (induction buf rule: rev_induct)
  case (snoc b buf)
  have "of_char b < (256 :: nat)" by (rule nat_of_char_less_256)
  then have "256 * SetBytes buf + of_char b < 256 * (SetBytes buf + 1)" by simp
  also have "\<dots> \<le> 256 * 256 ^ length buf" using snoc by simp
  finally show ?case by simp
qed (simp add: SetBytes_def)

text \<open>The 64-bit exponent is the number reduced modulo \<open>2 ^ 64\<close>.\<close>

lemma exponent_value: "exponent buf = of_nat (SetBytes buf)"
proof (induction buf rule: rev_induct)
  case (snoc b buf)
  have "exponent (buf @ [b]) = push_bit 8 (exponent buf) + of_char b" by (simp add: exponent_def)
  also have "\<dots> = of_nat (256 * SetBytes buf + of_char b)" using snoc by (simp add: push_bit_eq_mult mult.commute of_nat_of_char)
  finally show ?case by simp
qed (simp add: exponent_def SetBytes_def)

lemma exponent_wraps: "sint (exponent buf) = int64_wrap (int (SetBytes buf))"
  by (simp add: exponent_value int64_wrap_word)

lemma exponent_exact: "length buf \<le> 7 \<Longrightarrow> sint (exponent buf) = int (SetBytes buf)"
proof -
  assume "length buf \<le> 7"
  then have "SetBytes buf < 256 ^ 7" using SetBytes_bound [of buf] power_increasing [of "length buf" 7 "256 :: nat"] by simp
  then have "in_int64 (int (SetBytes buf))" by (simp add: int64_defs)
  then show ?thesis by (simp add: exponent_wraps)
qed

section \<open>Base64 reads back what an encoder writes\<close>

text \<open>The encoder of RFC 4648, section 5, without padding, as a reference.\<close>

definition b64_digit :: "nat \<Rightarrow> char" where
  "b64_digit n =
     (if n < 26 then char_of (65 + n) else if n < 52 then char_of (71 + n) else if n < 62 then char_of (n - 4)
      else if n = 62 then CHR ''-'' else CHR ''_'')"

fun b64_split :: "nat list \<Rightarrow> nat list" where
  "b64_split [] = []"
| "b64_split [a] = [a div 4, 16 * (a mod 4)]"
| "b64_split [a, b] = [a div 4, 16 * (a mod 4) + b div 16, 4 * (b mod 16)]"
| "b64_split (a # b # c # t) =
     a div 4 # (16 * (a mod 4) + b div 16) # (4 * (b mod 16) + c div 64) # (c mod 64) # b64_split t"

definition b64_encode :: "bytes \<Rightarrow> bytes" where
  "b64_encode s = map b64_digit (b64_split (map of_char s))"

lemma b64_split_range: "\<forall>b \<in> set buf. b < 256 \<Longrightarrow> \<forall>d \<in> set (b64_split buf). d < 64"
  by (induction buf rule: b64_split.induct) (auto intro: add_less_le_mono [of _ 48 _ 16, simplified])

lemma b64_groups_split: "\<forall>b \<in> set buf. b < 256 \<Longrightarrow> b64_groups (b64_split buf) = Some buf"
proof (induction buf rule: b64_split.induct)
  case (4 a b c t)
  have "4 * (a div 4) + (16 * (a mod 4) + b div 16) div 16 = a" "16 * ((16 * (a mod 4) + b div 16) mod 16) + (4 * (b mod 16) + c div 64) div 4 = b"
    "64 * ((4 * (b mod 16) + c div 64) mod 4) + c mod 64 = c"
    using 4(2) by (auto simp: div_mult_self1 mod_mult_self1)
  with 4 show ?case by simp
qed (auto)

lemma b64_digits: "n < 64 \<Longrightarrow> b64_val (b64_digit n) = Some n \<and> b64_digit n \<noteq> CHR 0x0A \<and> b64_digit n \<noteq> CHR 0x0D"
proof -
  assume n: "n < 64"
  then have "n \<ge> 26 \<Longrightarrow> n \<ge> 52 \<Longrightarrow> n \<ge> 62 \<Longrightarrow> n = 62 \<or> n = 63" by linarith
  with n have "b64_val (b64_digit n) = Some n" by (auto simp: b64_val_def b64_digit_def Let_def not_less)
  moreover have "b64_val (CHR 0x0A) = None" "b64_val (CHR 0x0D) = None" by (simp_all add: b64_val_def)
  ultimately show ?thesis by (metis option.distinct(1))
qed

lemma b64_roundtrip: "b64_decode (b64_encode s) = Inr s"
proof -
  let ?ds = "b64_split (map of_char s)"
  have r: "\<forall>b \<in> set (map of_char s). b < (256 :: nat)" by (auto intro: nat_of_char_less_256)
  have d: "\<forall>n \<in> set ?ds. n < 64" using b64_split_range [OF r] .
  have f: "filter (\<lambda>c. c \<noteq> CHR 0x0A \<and> c \<noteq> CHR 0x0D) (map b64_digit ?ds) = map b64_digit ?ds"
    using d b64_digits by (auto simp: filter_id_conv)
  have m: "map b64_val (map b64_digit ?ds) = map Some ?ds" using d b64_digits by auto
  show ?thesis
    unfolding b64_decode_def b64_encode_def Let_def f m using b64_groups_split [OF r] by (auto simp: comp_def)
qed

section \<open>Key set documents\<close>

text \<open>The text an identity provider would publish for a list of keys.\<close>

definition jwk_members :: "jwk \<Rightarrow> (bytes \<times> bytes) list" where
  "jwk_members k = map (\<lambda>(name, v). (name, marshal_string v))
     [(''kty'', k_Kty k), (''kid'', k_Kid k), (''use'', k_Use k), (''alg'', k_Alg k), (''n'', k_N k), (''e'', k_E k),
      (''crv'', k_Crv k), (''x'', k_X k), (''y'', k_Y k)]"

definition doc_text :: "jwk list \<Rightarrow> bytes" where
  "doc_text ks = object_text [(''keys'', CHR ''['' # Join '','' (map (object_text \<circ> jwk_members) ks) @ '']'')]"

definition jwk_valid :: "jwk \<Rightarrow> bool" where
  "jwk_valid k \<longleftrightarrow> valid_utf8 (k_Kty k) \<and> valid_utf8 (k_Kid k) \<and> valid_utf8 (k_Use k) \<and> valid_utf8 (k_Alg k) \<and>
     valid_utf8 (k_N k) \<and> valid_utf8 (k_E k) \<and> valid_utf8 (k_Crv k) \<and> valid_utf8 (k_X k) \<and> valid_utf8 (k_Y k)"

lemma jwk_names [simp]:
  "fold_key ''kty'' = ''kty''" "fold_key ''kid'' = ''kid''" "fold_key ''use'' = ''use''" "fold_key ''alg'' = ''alg''"
  "fold_key ''n'' = ''n''" "fold_key ''e'' = ''e''" "fold_key ''crv'' = ''crv''" "fold_key ''x'' = ''x''" "fold_key ''y'' = ''y''"
  "fold_key ''keys'' = ''keys''"
  by (simp_all add: fold_key_lower)

lemma jwk_names_valid [simp]:
  "valid_utf8 ''kty''" "valid_utf8 ''kid''" "valid_utf8 ''use''" "valid_utf8 ''alg''" "valid_utf8 ''n''" "valid_utf8 ''e''"
  "valid_utf8 ''crv''" "valid_utf8 ''x''" "valid_utf8 ''y''" "valid_utf8 ''keys''"
  by (simp_all add: ascii_valid)

lemma jwk_members_ok:
  assumes "jwk_valid k"
  shows "\<forall>(n, c) \<in> set (jwk_members k). valid_utf8 n \<and> parses d c" "jwk_members k \<noteq> []"
  using assms by (auto simp: jwk_members_def jwk_valid_def intro: reads_parses [OF reads_string])

lemma decode_jwk_text:
  assumes "jwk_valid k"
  shows "decode_jwk (object_text (jwk_members k)) old = Inr k"
proof -
  have "decode_fields jwk_field (jwk_members k) old = Inr k"
    using assms by (simp add: jwk_members_def jwk_valid_def jwk_field_def set_jwk_def)
  then show ?thesis using raw_object_text [OF jwk_members_ok [OF assms]] by (simp add: decode_jwk_def unmarshal_struct_def)
qed

lemma decode_jwks_text:
  assumes "\<forall>k \<in> set ks. jwk_valid k" "length buf \<le> length ks"
  shows "decode_jwks (map (object_text \<circ> jwk_members) ks) buf = Inr ks"
  using assms by (induction ks arbitrary: buf) (auto simp: decode_jwk_text)

lemma raw_elems_Join:
  assumes "\<forall>c \<in> set cs. parses d c" "cs \<noteq> []"
  shows "raw_elems d (Join '','' cs @ CHR '']'' # rest) = Some cs"
  using assms
proof (induction cs)
  case (Cons c cs)
  then have v: "raw_value d (c @ r) = Some (c, r)" if "delim r" for r using raw_value_parses that by simp
  show ?case
  proof (cases cs)
    case Nil
    with v show ?thesis by (subst raw_elems.simps) simp
  next
    case (Cons c2 cs2)
    with Cons.IH Cons.prems have "raw_elems d (Join '','' (c2 # cs2) @ CHR '']'' # rest) = Some (c2 # cs2)" by simp
    with Cons v show ?thesis by (subst raw_elems.simps) simp
  qed
qed simp

lemma parses_array:
  assumes "\<forall>c \<in> set cs. parses d c" "cs \<noteq> []"
  shows "parses (Suc d) (CHR ''['' # Join '','' cs @ '']'')"
proof -
  have "\<exists>vs. \<forall>rest. parse_elems syn_num d (Join '','' cs @ CHR '']'' # rest) = Some (vs, rest)"
    using assms
  proof (induction cs)
    case (Cons c cs)
    then obtain j where v: "\<And>r. delim r \<Longrightarrow> parse_value syn_num d (c @ r) = Some (j, r)" by (auto simp: parses_def)
    show ?case
    proof (cases cs)
      case Nil
      with v show ?thesis by (intro exI [of _ "[j]"] allI) (subst parse_elems.simps, simp)
    next
      case (Cons c2 cs2)
      with Cons.IH Cons.prems obtain vs where
        "\<forall>rest. parse_elems syn_num d (Join '','' (c2 # cs2) @ CHR '']'' # rest) = Some (vs, rest)" by auto
      with Cons v show ?thesis by (intro exI [of _ "j # vs"] allI) (subst parse_elems.simps, simp)
    qed
  qed simp
  then obtain vs where vs: "\<And>rest. parse_elems syn_num d (Join '','' cs @ CHR '']'' # rest) = Some (vs, rest)" by blast
  obtain c t where c: "Join '','' cs = c # t" "opens c"
    using assms by (cases cs; cases "tl cs") (auto simp: parses_def)
  then have "skip_ws (Join '','' cs @ r) = Join '','' cs @ r" "c \<noteq> CHR '']''" for r by (auto simp: opens_def)
  then have "parse_value syn_num (Suc d) ((CHR ''['' # Join '','' cs @ '']'') @ rest) = Some (JArr vs, rest)" for rest
    using vs [of rest] c by (subst parse_value.simps) (simp add: dq_def skip_ws_def is_ws_def)
  moreover have "opens (CHR ''['')" by (simp add: opens_def is_ws_def)
  ultimately show ?thesis unfolding parses_def by blast
qed

lemma unmarshal_doc_text:
  assumes "\<forall>k \<in> set ks. jwk_valid k" "ks \<noteq> []"
  shows "unmarshal_doc (doc_text ks) = Inr ks"
proof -
  let ?cs = "map (object_text \<circ> jwk_members) ks" and ?arr = "CHR ''['' # Join '','' (map (object_text \<circ> jwk_members) ks) @ '']''"
  have "parses (Suc 9997) (object_text (jwk_members k))" if "jwk_valid k" for k
    by (rule parses_object [OF jwk_members_ok [OF that]])
  then have p: "\<forall>c \<in> set ?cs. parses 9998 c" using assms(1) by simp
  have "parses (Suc 9998) ?arr" using parses_array [OF p] assms(2) by simp
  then have "\<forall>(k, c) \<in> set [(''keys'', ?arr)]. valid_utf8 k \<and> parses 9999 c" by simp
  from raw_object_text [OF this] have r: "raw_object (doc_text ks) = Inr [(''keys'', ?arr)]" by (simp add: doc_text_def)
  obtain c t where c: "Join '','' ?cs = c # t" "opens c"
    using p assms(2) by (cases ks; cases "tl ks") (auto simp: parses_def)
  then have "\<not> HasPrefix (skip_ws (Join '','' ?cs @ '']'')) '']''" by (auto simp: HasPrefix_def opens_def)
  moreover have "raw_elems 9998 (Join '','' ?cs @ '']'') = Some ?cs" using raw_elems_Join [OF p, of "[]"] assms(2) by simp
  ultimately show ?thesis
    using r decode_jwks_text [OF assms(1), of "[]"] by (simp add: unmarshal_doc_def unmarshal_struct_def doc_field_def)
qed

text \<open>What one entry of the set contributes: nothing, an error, or a key.\<close>

definition jwk_key :: "unicode \<Rightarrow> jwk \<Rightarrow> pubkey result option" where
  "jwk_key U k =
     (if k_Use k \<noteq> '''' \<and> k_Use k \<noteq> ''sig'' then None
      else if ToUpper U (k_Kty k) = ''RSA'' then Some (rsaPublicKey (k_N k) (k_E k))
      else if ToUpper U (k_Kty k) = ''EC'' then Some (ecPublicKey U (k_Crv k) (k_X k) (k_Y k))
      else None)"

definition add_key :: "unicode \<Rightarrow> (bytes \<rightharpoonup> pubkey) \<Rightarrow> jwk \<Rightarrow> (bytes \<rightharpoonup> pubkey)" where
  "add_key U out k = (case jwk_key U k of Some (Inr pub) \<Rightarrow> out(k_Kid k \<mapsto> pub) | _ \<Rightarrow> out)"

lemma jwks_loop_Cons:
  "jwks_loop U (k # ks) out = Inr m \<longleftrightarrow>
     (\<forall>err. jwk_key U k \<noteq> Some (Inl err)) \<and> jwks_loop U ks (add_key U out k) = Inr m"
  by (auto simp: jwk_key_def add_key_def split: sum.split)

lemma jwks_loop_iff:
  "jwks_loop U ks out = Inr m \<longleftrightarrow>
     (\<forall>k \<in> set ks. \<forall>err. jwk_key U k \<noteq> Some (Inl err)) \<and>
     m = foldl (add_key U) out ks"
  by (induction ks arbitrary: out) (auto simp del: jwks_loop.simps(2) simp: jwks_loop_Cons)

text \<open>The fetches a run of the refresh loop performs, and the keys of the last one that brought any.\<close>

definition fetched :: "fetch option list \<Rightarrow> fetch list" where
  "fetched evs = map the (takeWhile (\<lambda>e. e \<noteq> None) evs)"

definition fetch_keys :: "unicode \<Rightarrow> fetch \<Rightarrow> (bytes \<rightharpoonup> pubkey) option" where
  "fetch_keys U f =
     (case f of Answer status (Inr b) \<Rightarrow>
        if status = 200 then (case parseJWKS U (take (2 ^ 20) b) of Inr ks \<Rightarrow> Some ks | Inl _ \<Rightarrow> None) else None
      | _ \<Rightarrow> None)"

lemma Refresh_keys:
  "snd (Refresh U f v) = (case fetch_keys U f of Some ks \<Rightarrow> v\<lparr>v_keys := ks\<rparr> | None \<Rightarrow> v)"
  "fst (Refresh U f v) = Inr () \<longleftrightarrow> fetch_keys U f \<noteq> None"
  by (auto simp: Refresh_def fetch_keys_def split: fetch.split sum.split)

definition latest :: "unicode \<Rightarrow> (bytes \<rightharpoonup> pubkey) \<Rightarrow> fetch list \<Rightarrow> (bytes \<rightharpoonup> pubkey)" where
  "latest U = foldl (\<lambda>ks f. case fetch_keys U f of Some ks' \<Rightarrow> ks' | None \<Rightarrow> ks)"

lemma oidc_Run_keys: "oidc_Run U f evs v = v\<lparr>v_keys := latest U (v_keys v) (f # fetched evs)\<rparr>"
proof -
  have "refresh_loop U evs v = v\<lparr>v_keys := latest U (v_keys v) (fetched evs)\<rparr>" for v
    by (induction U evs v rule: refresh_loop.induct) (auto simp: fetched_def latest_def Refresh_keys split: option.split)
  then show ?thesis by (simp add: oidc_Run_def Refresh_keys latest_def split: option.split)
qed

lemma latest_split:
  "latest U ks0 fs = ks0 \<and> (\<forall>g \<in> set fs. fetch_keys U g = None) \<or>
   (\<exists>fs1 f fs2. fs = fs1 @ f # fs2 \<and> fetch_keys U f = Some (latest U ks0 fs) \<and> (\<forall>g \<in> set fs2. fetch_keys U g = None))"
proof (induction fs rule: rev_induct)
  case (snoc f fs)
  show ?case
  proof (cases "fetch_keys U f")
    case None
    then have l: "latest U ks0 (fs @ [f]) = latest U ks0 fs" by (simp add: latest_def)
    from snoc show ?thesis
    proof (elim disjE exE conjE)
      fix fs1 g fs2 assume g: "fs = fs1 @ g # fs2" "fetch_keys U g = Some (latest U ks0 fs)" "\<forall>g \<in> set fs2. fetch_keys U g = None"
      then have "fs @ [f] = fs1 @ g # (fs2 @ [f]) \<and> (\<forall>g \<in> set (fs2 @ [f]). fetch_keys U g = None)" using None by simp
      with g(2) show ?thesis unfolding l by blast
    qed (use None l in simp)
  next
    case (Some ks)
    then have "fetch_keys U f = Some (latest U ks0 (fs @ [f]))" by (simp add: latest_def)
    then show ?thesis by (intro disjI2 exI [of _ fs] exI [of _ f] exI [of _ "[]"]) simp
  qed
qed (simp add: latest_def)

text \<open>The entry a key comes from: the last one with its \<open>kid\<close> that contributes a key.\<close>

lemma jwks_loop_last:
  assumes "jwks_loop U ks Map.empty = Inr m" "m kid = Some pub"
  obtains pre j post where "ks = pre @ j # post" "k_Kid j = kid" "jwk_key U j = Some (Inr pub)"
    "\<forall>j' \<in> set post. k_Kid j' = kid \<longrightarrow> jwk_key U j' = None"
proof -
  have ok: "\<forall>k \<in> set ks. \<forall>err. jwk_key U k \<noteq> Some (Inl err)" and m: "m = foldl (add_key U) Map.empty ks"
    using assms(1) unfolding jwks_loop_iff by auto
  have "foldl (add_key U) Map.empty ks kid = Some pub \<Longrightarrow> \<forall>k \<in> set ks. \<forall>err. jwk_key U k \<noteq> Some (Inl err) \<Longrightarrow>
    \<exists>pre j post. ks = pre @ j # post \<and> k_Kid j = kid \<and> jwk_key U j = Some (Inr pub) \<and>
      (\<forall>j' \<in> set post. k_Kid j' = kid \<longrightarrow> jwk_key U j' = None)" for ks
  proof (induction ks rule: rev_induct)
    case (snoc k ks)
    show ?case
    proof (cases "k_Kid k = kid \<and> jwk_key U k \<noteq> None")
      case True
      then obtain p where "jwk_key U k = Some (Inr p)" using snoc.prems(2) by (metis in_set_conv_decomp not_Some_eq obj_sumE)
      then have "jwk_key U k = Some (Inr pub)" using snoc.prems(1) True by (simp add: add_key_def)
      then show ?thesis using True by (intro exI [of _ ks] exI [of _ k] exI [of _ "[]"]) simp
    next
      case False
      then have "add_key U out k kid = out kid" for out by (auto simp: add_key_def split: option.split sum.split)
      then have "foldl (add_key U) Map.empty ks kid = Some pub" using snoc.prems(1) by simp
      then obtain pre j post where j: "ks = pre @ j # post" "k_Kid j = kid" "jwk_key U j = Some (Inr pub)"
        "\<forall>j' \<in> set post. k_Kid j' = kid \<longrightarrow> jwk_key U j' = None" using snoc by auto
      then show ?thesis using False by (intro exI [of _ pre] exI [of _ j] exI [of _ "post @ [k]"]) auto
    qed
  qed simp
  from this [OF _ ok] assms(2) m that show ?thesis by blast
qed

section \<open>Publishing keys\<close>

text \<open>An identity provider's keys and the entries RFC 7517 and 7518 prescribe for them: numbers as big-endian bytes
  in base64, coordinates padded to the size of the curve's field.\<close>

datatype published_key = Rsa_pub nat nat | Ec_pub curve nat nat | Oct_pub | Okp_pub

record published =
  pub_kid :: bytes
  pub_use :: bytes
  pub_key :: published_key

fun be_bytes :: "nat \<Rightarrow> bytes" where
  "be_bytes n = (if n = 0 then [] else be_bytes (n div 256) @ [char_of (n mod 256)])"

declare be_bytes.simps [simp del]

definition be_padded :: "nat \<Rightarrow> nat \<Rightarrow> bytes" where
  "be_padded len n = replicate (len - length (be_bytes n)) (char_of (0 :: nat)) @ be_bytes n"

fun curve_name :: "curve \<Rightarrow> bytes" where
  "curve_name P256 = ''P-256''" | "curve_name P384 = ''P-384''" | "curve_name P521 = ''P-521''"

fun curve_size :: "curve \<Rightarrow> nat" where
  "curve_size P256 = 32" | "curve_size P384 = 48" | "curve_size P521 = 66"

definition jwk_of :: "published \<Rightarrow> jwk" where
  "jwk_of p =
     (let k = zero_jwk\<lparr>k_Kid := pub_kid p, k_Use := pub_use p\<rparr> in
      case pub_key p of
        Rsa_pub n e \<Rightarrow> k\<lparr>k_Kty := ''RSA'', k_N := b64_encode (be_bytes n), k_E := b64_encode (be_bytes e)\<rparr>
      | Ec_pub c x y \<Rightarrow> k\<lparr>k_Kty := ''EC'', k_Crv := curve_name c, k_X := b64_encode (be_padded (curve_size c) x),
          k_Y := b64_encode (be_padded (curve_size c) y)\<rparr>
      | Oct_pub \<Rightarrow> k\<lparr>k_Kty := ''oct''\<rparr>
      | Okp_pub \<Rightarrow> k\<lparr>k_Kty := ''OKP''\<rparr>)"

text \<open>The keys a verifier should hold: RSA and EC keys not reserved for another use than signing, and of several
  with one \<open>kid\<close> the last.\<close>

definition signing_key :: "published \<Rightarrow> (bytes \<times> pubkey) option" where
  "signing_key p =
     (if pub_use p = '''' \<or> pub_use p = ''sig'' then
        (case pub_key p of
           Rsa_pub n e \<Rightarrow> Some (pub_kid p, RSA_key n (int e))
         | Ec_pub c x y \<Rightarrow> Some (pub_kid p, EC_key c x y)
         | _ \<Rightarrow> None)
      else None)"

definition signing_keys :: "published list \<Rightarrow> bytes \<rightharpoonup> pubkey" where
  "signing_keys ps = map_of (rev (List.map_filter signing_key ps))"

lemma SetBytes_be [simp]: "SetBytes (be_bytes n) = n"
proof (induction n rule: be_bytes.induct)
  case (1 n)
  then show ?case by (subst be_bytes.simps) (simp add: SetBytes_def)
qed

lemma SetBytes_padded [simp]: "SetBytes (be_padded len n) = n"
proof -
  have "SetBytes (replicate k (char_of (0 :: nat)) @ buf) = SetBytes buf" for k buf
    by (induction k) (simp_all add: SetBytes_def)
  then show ?thesis by (simp add: be_padded_def)
qed

lemma b64_encode_ascii: "\<forall>c \<in> set (b64_encode s). of_char c < (128 :: nat)"
proof -
  have "\<forall>d \<in> set (b64_split (map of_char s)). d < 64"
    by (rule b64_split_range) (auto intro: nat_of_char_less_256)
  then show ?thesis by (auto simp: b64_encode_def b64_digit_def)
qed

lemma ToUpper_upper:
  assumes "\<forall>c \<in> set s. of_char c < (97 :: nat)"
  shows "ToUpper U s = s"
proof -
  have a: "\<forall>c \<in> set s. of_char c < (128 :: nat)" using assms by auto
  have "map (rune_upper U) (map of_char s) = map of_char s" using assms by (auto simp: rune_upper_def)
  then show ?thesis using ascii_utf8 [OF a] by (simp add: ToUpper_def del: map_map)
qed

lemma ToUpper_oct: "ToUpper U ''oct'' \<noteq> ''RSA''" "ToUpper U ''oct'' \<noteq> ''EC''"
proof -
  have "char_of (79 :: nat) = CHR ''O''" by code_simp
  then show "ToUpper U ''oct'' \<noteq> ''RSA''" "ToUpper U ''oct'' \<noteq> ''EC''"
    by (simp_all add: ToUpper_def ascii_utf8 rune_upper_def utf8_encode_def encode_rune_def encode_codes_def)
qed

lemma ToUpper_names [simp]:
  "ToUpper U ''RSA'' = ''RSA''" "ToUpper U ''EC'' = ''EC''" "ToUpper U ''OKP'' = ''OKP''" "ToUpper U (curve_name c) = curve_name c"
  by (intro ToUpper_upper; cases c; simp)+

lemma curve_of_name [simp]: "curve_of U (curve_name c) = Some c"
  by (cases c) (simp_all add: curve_of_def del: curve_name.simps, simp_all)

text \<open>One entry reads back as the key it was made from.\<close>

lemma jwk_of_key:
  assumes "\<forall>n e. pub_key p = Rsa_pub n e \<longrightarrow> e < 2 ^ 63"
  shows "jwk_key U (jwk_of p) = map_option (\<lambda>x. Inr (snd x)) (signing_key p)"
    "\<And>x. signing_key p = Some x \<Longrightarrow> fst x = k_Kid (jwk_of p)"
proof -
  have "int64_wrap (int e) = int e" if "pub_key p = Rsa_pub n e" for n e
    using assms that by (intro int64_wrap_id) (simp add: int64_defs)
  then show "jwk_key U (jwk_of p) = map_option (\<lambda>x. Inr (snd x)) (signing_key p)"
    by (cases "pub_key p") (simp_all add: jwk_of_def jwk_key_def signing_key_def zero_jwk_def rsaPublicKey_def ecPublicKey_def
        b64_roundtrip exponent_wraps ToUpper_oct Let_def)
  show "\<And>x. signing_key p = Some x \<Longrightarrow> fst x = k_Kid (jwk_of p)"
    by (cases "pub_key p") (auto simp: jwk_of_def signing_key_def Let_def split: if_splits)
qed

lemma jwk_of_valid: "valid_utf8 (pub_kid p) \<Longrightarrow> valid_utf8 (pub_use p) \<Longrightarrow> jwk_valid (jwk_of p)"
  by (cases "pub_key p"; (cases "case pub_key p of Ec_pub c x y \<Rightarrow> c | _ \<Rightarrow> P256")?)
    (simp_all add: jwk_of_def jwk_valid_def zero_jwk_def ascii_valid b64_encode_ascii)

lemma add_key_published:
  assumes "\<forall>n e. pub_key p = Rsa_pub n e \<longrightarrow> e < 2 ^ 63"
  shows "add_key U out (jwk_of p) = (case signing_key p of None \<Rightarrow> out | Some x \<Rightarrow> out(fst x \<mapsto> snd x))"
  using jwk_of_key [OF assms] by (cases "signing_key p") (simp_all add: add_key_def)

lemma published_keys_fold:
  assumes "\<forall>p \<in> set ps. \<forall>n e. pub_key p = Rsa_pub n e \<longrightarrow> e < 2 ^ 63"
  shows "foldl (add_key U) Map.empty (map jwk_of ps) = signing_keys ps"
  using assms
proof (induction ps rule: rev_induct)
  case (snoc p ps)
  then show ?case
    by (cases "signing_key p") (auto simp: signing_keys_def add_key_published List.map_filter_def)
qed (simp add: signing_keys_def)

section \<open>Properties\<close>

text \<open>What \<open>golang-jwt\<close> documents of \<open>Parse\<close>: a token that is accepted has a header, the key function gave a
  key for it, the signature of the token verifies under that key, and the claims satisfy the options (an issuer
  that is asked for is the one claimed).\<close>

definition jwt_sound :: "(bytes \<Rightarrow> (bytes \<times> json) list option) \<Rightarrow> (pubkey \<Rightarrow> bytes \<Rightarrow> bool) \<Rightarrow> jwt_parser \<Rightarrow> bool" where
  "jwt_sound header verifies parse \<longleftrightarrow> (\<forall>opts kf tok cl. parse opts kf tok = Inr cl \<longrightarrow>
     (\<exists>hdr k. header tok = Some hdr \<and> kf hdr = Inr k \<and> verifies k tok) \<and>
     (\<forall>iss cs. po_issuer opts = Some iss \<longrightarrow> cl = MapClaims cs \<longrightarrow> map_of cs ''iss'' = Some (JStr iss)))"

definition header_kid :: "(bytes \<times> json) list \<Rightarrow> bytes" where
  "header_kid hdr = (case map_of hdr ''kid'' of Some (JStr s) \<Rightarrow> s | _ \<Rightarrow> '''')"

text \<open>C18. A bearer token is only accepted under a key that the identity provider currently publishes for signing.
  When \<open>Verify\<close> returns a caller after any run of the refresh loop, the key under the token's \<open>kid\<close> in the
  verifier's key set verifies the token's signature; that key set is the one parsed from the last fetch that
  succeeded, every later fetch having failed; and the key is the one of the last entry of that document with this
  \<open>kid\<close> that gives a key, which is an RSA or EC entry meant for signatures. So a key that was rotated out is not
  accepted once a newer set has been fetched. The caller is the value of the configured claim (\<open>sub\<close> by default),
  never empty, and a configured issuer is the issuer the token claims.\<close>

theorem Verify_trusts_current_keys:
  assumes "jwt_sound header verifies parse" "NewVerifier cfg = Inr v0" "v = oidc_Run U first evs v0" "Verify parse v tok = Inr caller"
  shows "(\<exists>hdr k fs1 body fs2 pre j post.
      header tok = Some hdr \<and> verifies k tok \<and> v_keys v (header_kid hdr) = Some k \<and>
      first # fetched evs = fs1 @ Answer 200 (Inr body) # fs2 \<and> (\<forall>f \<in> set fs2. \<forall>w. fst (Refresh U f w) \<noteq> Inr ()) \<and>
      parseJWKS U (take (2 ^ 20) body) = Inr (v_keys v) \<and> unmarshal_doc (take (2 ^ 20) body) = Inr (pre @ j # post) \<and>
      k_Kid j = header_kid hdr \<and> (k_Use j = '''' \<or> k_Use j = ''sig'') \<and> jwk_key U j = Some (Inr k) \<and>
      (\<forall>j' \<in> set post. k_Kid j' = header_kid hdr \<longrightarrow> jwk_key U j' = None)) \<and>
    caller \<noteq> '''' \<and>
    (\<exists>cs. parse (v_parser v) (key_of (v_keys v)) tok = Inr (MapClaims cs) \<and>
      map_of cs (if oc_CallerClaim cfg = '''' then ''sub'' else oc_CallerClaim cfg) = Some (JStr caller) \<and>
      (oc_Issuer cfg \<noteq> '''' \<longrightarrow> map_of cs ''iss'' = Some (JStr (oc_Issuer cfg))))"
proof -
  have v0: "v_keys v0 = Map.empty" "oc_Issuer cfg \<noteq> '''' \<longrightarrow> po_issuer (v_parser v0) = Some (oc_Issuer cfg)"
    "oc_CallerClaim (v_cfg v0) = (if oc_CallerClaim cfg = '''' then ''sub'' else oc_CallerClaim cfg)"
    using assms(2) by (auto simp: NewVerifier_def Let_def split: if_splits)
  have v: "v_keys v = latest U Map.empty (first # fetched evs)" "v_parser v = v_parser v0" "v_cfg v = v_cfg v0"
    using v0(1) by (simp_all add: assms(3) oidc_Run_keys)
  obtain cs where cs: "parse (v_parser v) (key_of (v_keys v)) tok = Inr (MapClaims cs)" "caller \<noteq> ''''"
    "map_of cs (oc_CallerClaim (v_cfg v)) = Some (JStr caller)"
    using assms(4) by (auto simp: Verify_def split: sum.splits claims.splits option.splits json.splits if_splits)
  then obtain hdr k where k: "header tok = Some hdr" "key_of (v_keys v) hdr = Inr k" "verifies k tok"
    using assms(1) unfolding jwt_sound_def by blast
  have kid: "v_keys v (header_kid hdr) = Some k"
    using k(2) by (auto simp: key_of_def header_kid_def Let_def split: option.splits)
  then have "v_keys v \<noteq> Map.empty" by auto
  then obtain fs1 f fs2 where f: "first # fetched evs = fs1 @ f # fs2" "fetch_keys U f = Some (v_keys v)" "\<forall>g \<in> set fs2. fetch_keys U g = None"
    using latest_split [of U Map.empty "first # fetched evs"] v(1) by auto
  then obtain body ks where b: "f = Answer 200 (Inr body)" "unmarshal_doc (take (2 ^ 20) body) = Inr ks"
      "jwks_loop U ks Map.empty = Inr (v_keys v)" "parseJWKS U (take (2 ^ 20) body) = Inr (v_keys v)"
    by (auto simp: fetch_keys_def parseJWKS_def split: fetch.splits sum.splits if_splits)
  obtain pre j post where j: "ks = pre @ j # post" "k_Kid j = header_kid hdr" "jwk_key U j = Some (Inr k)"
    "\<forall>j' \<in> set post. k_Kid j' = header_kid hdr \<longrightarrow> jwk_key U j' = None" by (rule jwks_loop_last [OF b(3) kid])
  have use: "k_Use j = '''' \<or> k_Use j = ''sig''" using j(3) by (auto simp: jwk_key_def split: if_splits)
  have late: "\<forall>g \<in> set fs2. \<forall>w. fst (Refresh U g w) \<noteq> Inr ()" using f(3) Refresh_keys(2) by metis
  have iss: "oc_Issuer cfg \<noteq> '''' \<longrightarrow> map_of cs ''iss'' = Some (JStr (oc_Issuer cfg))"
    using assms(1) cs(1) v0(2) v(2) unfolding jwt_sound_def by metis
  have claim: "map_of cs (if oc_CallerClaim cfg = '''' then ''sub'' else oc_CallerClaim cfg) = Some (JStr caller)"
    using cs(3) unfolding v(3) v0(3) .
  have claims: "\<exists>cs. parse (v_parser v) (key_of (v_keys v)) tok = Inr (MapClaims cs) \<and>
      map_of cs (if oc_CallerClaim cfg = '''' then ''sub'' else oc_CallerClaim cfg) = Some (JStr caller) \<and>
      (oc_Issuer cfg \<noteq> '''' \<longrightarrow> map_of cs ''iss'' = Some (JStr (oc_Issuer cfg)))"
    by (intro exI [of _ cs] conjI cs(1) claim iss)
  have key: "header tok = Some hdr \<and> verifies k tok \<and> v_keys v (header_kid hdr) = Some k \<and>
      first # fetched evs = fs1 @ Answer 200 (Inr body) # fs2 \<and> (\<forall>f \<in> set fs2. \<forall>w. fst (Refresh U f w) \<noteq> Inr ()) \<and>
      parseJWKS U (take (2 ^ 20) body) = Inr (v_keys v) \<and> unmarshal_doc (take (2 ^ 20) body) = Inr (pre @ j # post) \<and>
      k_Kid j = header_kid hdr \<and> (k_Use j = '''' \<or> k_Use j = ''sig'') \<and> jwk_key U j = Some (Inr k) \<and>
      (\<forall>j' \<in> set post. k_Kid j' = header_kid hdr \<longrightarrow> jwk_key U j' = None)"
    by (intro conjI k(1) k(3) kid f(1) [unfolded b(1)] late b(4) b(2) [unfolded j(1)] j(2) use j(3) j(4))
  show ?thesis
    by (rule conjI [OF _ conjI [OF cs(2) claims]]) (intro exI, rule key)
qed

text \<open>C39. The keys that a provider publishes are the keys the verifier holds. From the document that lists RSA keys,
  EC keys and keys of other types, numbers written as big-endian bytes in base64, \<open>parseJWKS\<close> makes the map from
  \<open>kid\<close> to key that holds the RSA keys and the EC keys without a \<open>use\<close> or with the use \<open>sig\<close>, each with its own
  modulus and exponent or curve and coordinates, the last of several with the same \<open>kid\<close>, and nothing else. The
  exponents are those a Go \<open>int\<close> holds; a longer one would wrap around.\<close>

theorem jwks_roundtrip:
  assumes "ps \<noteq> []" "\<forall>p \<in> set ps. valid_utf8 (pub_kid p) \<and> valid_utf8 (pub_use p)"
    and "\<forall>p \<in> set ps. \<forall>n e. pub_key p = Rsa_pub n e \<longrightarrow> e < 2 ^ 63"
  shows "parseJWKS U (doc_text (map jwk_of ps)) = Inr (signing_keys ps)"
proof -
  have "unmarshal_doc (doc_text (map jwk_of ps)) = Inr (map jwk_of ps)"
    using assms(1,2) by (intro unmarshal_doc_text) (auto intro: jwk_of_valid)
  moreover have "jwk_key U (jwk_of p) \<noteq> Some (Inl err)" if "p \<in> set ps" for p err
    using jwk_of_key(1) [of p U] assms(3) that by auto
  ultimately show ?thesis
    using published_keys_fold [OF assms(3), of U] by (simp add: parseJWKS_def jwks_loop_iff)
qed

section \<open>Instances\<close>

definition demo_uni :: unicode where "demo_uni = \<lparr>uni_lower = (\<lambda>r. r), uni_upper = (\<lambda>r. r)\<rparr>"

text \<open>Two key sets of one provider. The second has a new key under the \<open>kid\<close> 1, next to an encryption key with the
  same \<open>kid\<close> and an EC key.\<close>

definition demo_old :: "published list" where
  "demo_old = [\<lparr>pub_kid = ''1'', pub_use = ''sig'', pub_key = Rsa_pub 3233 65537\<rparr>]"

definition demo_new :: "published list" where
  "demo_new = [\<lparr>pub_kid = ''1'', pub_use = ''sig'', pub_key = Rsa_pub 3127 3\<rparr>, \<lparr>pub_kid = ''2'', pub_use = '''', pub_key = Ec_pub P256 5 7\<rparr>,
     \<lparr>pub_kid = ''1'', pub_use = ''enc'', pub_key = Rsa_pub 15 3\<rparr>, \<lparr>pub_kid = ''3'', pub_use = ''sig'', pub_key = Oct_pub\<rparr>]"

definition demo_oidc :: oidc_config where
  "demo_oidc = \<lparr>oc_JWKSURL = ''u'', oc_Issuer = ''i'', oc_Audience = '''', oc_CallerClaim = '''', oc_RefreshInterval = 0\<rparr>"

definition demo_header :: "(bytes \<times> json) list" where "demo_header = [(''kid'', JStr ''1'')]"

text \<open>A parser whose tokens are signed with the new key.\<close>

definition demo_jwt :: jwt_parser where
  "demo_jwt opts kf tok =
     (case kf demo_header of
        Inl e \<Rightarrow> Inl e
      | Inr k \<Rightarrow>
          if k \<noteq> RSA_key 3127 3 then Inl (ErrMsg ''token signature is invalid'')
          else Inr (MapClaims ((''sub'', JStr ''alice'') # (case po_issuer opts of Some iss \<Rightarrow> [(''iss'', JStr iss)] | None \<Rightarrow> []))))"

lemma demo_jwt_sound: "jwt_sound (\<lambda>_. Some demo_header) (\<lambda>k _. k = RSA_key 3127 3) demo_jwt"
  by (auto simp: jwt_sound_def demo_jwt_def split: sum.splits option.splits if_splits)

lemma demo_new_keys: "signing_keys demo_new = [''1'' \<mapsto> RSA_key 3127 3, ''2'' \<mapsto> EC_key P256 5 7]"
  by (auto simp: signing_keys_def demo_new_def signing_key_def)

lemma demo_published:
  "demo_old \<noteq> []" "\<forall>p \<in> set demo_old. valid_utf8 (pub_kid p) \<and> valid_utf8 (pub_use p)"
  "\<forall>p \<in> set demo_old. \<forall>n e. pub_key p = Rsa_pub n e \<longrightarrow> e < 2 ^ 63"
  "demo_new \<noteq> []" "\<forall>p \<in> set demo_new. valid_utf8 (pub_kid p) \<and> valid_utf8 (pub_use p)"
  "\<forall>p \<in> set demo_new. \<forall>n e. pub_key p = Rsa_pub n e \<longrightarrow> e < 2 ^ 63"
  by (simp_all add: demo_old_def demo_new_def ascii_valid)

theorem jwks_roundtrip_witness:
  "\<exists>m. parseJWKS demo_uni (doc_text (map jwk_of demo_new)) = Inr m \<and>
     m ''1'' = Some (RSA_key 3127 3) \<and> m ''2'' = Some (EC_key P256 5 7) \<and> m ''3'' = None"
  using jwks_roundtrip [OF demo_published(4-6), of demo_uni] by (simp add: demo_new_keys)

text \<open>The provider rotates its key: the last set that could be fetched has the new one.\<close>

lemma demo_new_short: "length (doc_text (map jwk_of demo_new)) < 1000"
  by code_simp

theorem Verify_trusts_current_keys_witness:
  "\<exists>v0 v hdr. NewVerifier demo_oidc = Inr v0 \<and>
     v = oidc_Run demo_uni (Answer 200 (Inr (doc_text (map jwk_of demo_old))))
       [Some (Answer 200 (Inr (doc_text (map jwk_of demo_new)))), Some (Answer 500 (Inr ''''))] v0 \<and>
     Verify demo_jwt v ''token'' = Inr ''alice'' \<and> v_keys v (header_kid hdr) = Some (RSA_key 3127 3)"
proof -
  obtain v0 where v0: "NewVerifier demo_oidc = Inr v0" "v_keys v0 = Map.empty" "oc_CallerClaim (v_cfg v0) = ''sub''" "po_issuer (v_parser v0) = Some ''i''"
    by (simp add: NewVerifier_def demo_oidc_def)
  let ?f = "Answer 200 (Inr (doc_text (map jwk_of demo_old)))" and ?h = "Answer 500 (Inr '''')"
    and ?g = "Answer 200 (Inr (doc_text (map jwk_of demo_new)))"
  have "take (2 ^ 20) (doc_text (map jwk_of demo_new)) = doc_text (map jwk_of demo_new)" using demo_new_short by simp
  moreover have "jwk_key demo_uni (jwk_of p) \<noteq> Some (Inl err)" if "p \<in> set demo_new" for p err
    using jwk_of_key(1) [of p demo_uni] demo_published(6) that by auto
  then have "parseJWKS demo_uni (doc_text (map jwk_of demo_new)) = Inr (signing_keys demo_new)"
    using published_keys_fold [OF demo_published(6), of demo_uni] unmarshal_doc_text [of "map jwk_of demo_new"] demo_published(4,5)
    by (simp add: parseJWKS_def jwks_loop_iff jwk_of_valid)
  ultimately have "fetch_keys demo_uni ?g = Some (signing_keys demo_new)" "fetch_keys demo_uni ?h = None"
    by (simp_all add: fetch_keys_def)
  then have r: "oidc_Run demo_uni ?f [Some ?g, Some ?h] v0 = v0\<lparr>v_keys := signing_keys demo_new\<rparr>"
    by (simp add: oidc_Run_keys latest_def fetched_def)
  have "Verify demo_jwt (oidc_Run demo_uni ?f [Some ?g, Some ?h] v0) ''token'' = Inr ''alice''"
    unfolding r using v0 by (simp add: Verify_def demo_jwt_def key_of_def demo_header_def demo_new_keys)
  from this Verify_trusts_current_keys [OF demo_jwt_sound v0(1) refl this] v0(1) show ?thesis by blast
qed

end
