(* ===== verification/Policy_Loader.thy ===== *)
theory Policy_Loader
  imports Policy Strconv
begin

text \<open>
  \<open>internal/policy/loader.go\<close>: the reader of the YAML subset in which policies are written. The
  parser keeps a stack of open blocks (its top first here); each line pops the blocks that its
  indentation closes and then opens a block, or sets one key of the policy the top block names.
  The order in which \<open>Validate\<close> ranges over the map of tools is an argument.
\<close>

section \<open>Scalars and lists\<close>

definition stripComment :: "bytes \<Rightarrow> bytes" where
  "stripComment s = (case Index s (CHR ''#'') of Some i \<Rightarrow> take i s | None \<Rightarrow> s)"

definition leadingSpaces :: "bytes \<Rightarrow> nat" where
  "leadingSpaces s = length (takeWhile (\<lambda>c. c = CHR '' '') s)"

definition splitKV :: "bytes \<Rightarrow> (bytes \<times> bytes) option" where
  "splitKV s =
     (case Index s (CHR '':'') of
        None \<Rightarrow> None
      | Some idx \<Rightarrow> Some (TrimSpace (take idx s), TrimSpace (drop (idx + 1) s)))"

definition parseDuration :: "strconv \<Rightarrow> bytes \<Rightarrow> duration result" where
  "parseDuration C s =
     (if s = '''' then Inl (ErrMsg ''empty duration'')
      else if last s = CHR ''d'' \<or> last s = CHR ''w'' then
        (case Atoi (butlast s) of
           Inl err \<Rightarrow> Inl (Wrapped ''invalid duration'' err)
         | Inr n \<Rightarrow>
             let mult = (if last s = CHR ''w'' then 7 * 24 * Hour else 24 * Hour)
             in Inr (int64_wrap (n * mult)))
      else ParseDuration C s)"

definition trimQuotes :: "bytes \<Rightarrow> bytes" where
  "trimQuotes s =
     (if 2 \<le> length s \<and>
         (hd s = CHR 0x22 \<and> last s = CHR 0x22 \<or> hd s = CHR 0x27 \<and> last s = CHR 0x27)
      then butlast (tl s) else s)"

fun list_loop :: "bytes list \<Rightarrow> bytes list" where
  "list_loop [] = []"
| "list_loop (p # ps) =
     (let q = trimQuotes (TrimSpace p) in if q \<noteq> '''' then q # list_loop ps else list_loop ps)"

definition parseInlineList :: "bytes \<Rightarrow> bytes list" where
  "parseInlineList s0 =
     (let s = TrimSpace s0 in
      if s = '''' then []
      else if \<not> HasPrefix s ''['' \<or> \<not> HasSuffix s '']'' then [trimQuotes s]
      else let inner = TrimSpace (butlast (tl s)) in
           if inner = '''' then [] else list_loop (Split (CHR '','') inner))"

section \<open>Blocks\<close>

record stackFrame =
  indent :: nat
  kind :: string
  tool :: string

definition selectPolicy :: "Config \<Rightarrow> stackFrame \<Rightarrow> ToolPolicy" where
  "selectPolicy cfg frame =
     (if kind frame = ''defaults'' then Defaults cfg
      else case Tools cfg (tool frame) of Some p \<Rightarrow> p | None \<Rightarrow> zero_policy)"

definition writePolicy :: "Config \<Rightarrow> stackFrame \<Rightarrow> ToolPolicy \<Rightarrow> Config" where
  "writePolicy cfg frame p =
     (if kind frame = ''defaults'' then cfg\<lparr>Defaults := p\<rparr>
      else cfg\<lparr>Tools := (Tools cfg)(tool frame \<mapsto> p)\<rparr>)"

text \<open>The \<open>switch key\<close> of \<open>applyScalarOrOpenBlock\<close>.\<close>

definition set_scalar :: "strconv \<Rightarrow> bytes \<Rightarrow> bytes \<Rightarrow> ToolPolicy \<Rightarrow> ToolPolicy result" where
  "set_scalar C key val tp =
     (if key = ''mode'' then Inr (tp\<lparr>Mode := TrimSpace val\<rparr>)
      else if key = ''ttl'' then
        (case parseDuration C (TrimSpace val) of
           Inl err \<Rightarrow> Inl (Wrapped ''ttl'' err)
         | Inr d \<Rightarrow> Inr (tp\<lparr>TTL := d\<rparr>))
      else if key = ''semantic_threshold'' then
        (case ParseFloat C (TrimSpace val) of
           None \<Rightarrow> Inl (Wrapped ''semantic_threshold'' (ErrMsg ''strconv.ParseFloat''))
         | Some f \<Rightarrow> Inr (tp\<lparr>SemanticThreshold := f\<rparr>))
      else if key = ''require_human_confirm_on_replay'' then
        Inr (tp\<lparr>RequireHumanConfirmOnReplay := (TrimSpace val = ''true'')\<rparr>)
      else if key = ''fingerprint_fields'' then Inr (tp\<lparr>FingerprintFields := parseInlineList val\<rparr>)
      else if key = ''allowed_callers'' then Inr (tp\<lparr>AllowedCallers := parseInlineList val\<rparr>)
      else if key = ''replay_strategy'' then
        (let v = TrimSpace val in
         if v = ReplayCachedResponse \<or> v = ReplaySynthesizedAck \<or> v = ''''
         then Inr (tp\<lparr>ReplayStrategy := v\<rparr>)
         else Inl (ErrMsg ''replay_strategy: unknown value''))
      else if key = ''synthesized_response'' then
        Inr (tp\<lparr>SynthesizedResponse := TrimCut {CHR 0x22, CHR 0x27} (TrimSpace val)\<rparr>)
      else if key = ''redact_request_body'' then
        Inr (tp\<lparr>RedactRequestBody := (TrimSpace val = ''true'')\<rparr>)
      else Inl (ErrMsg ''unknown key''))"

type_synonym parser = "Config \<times> stackFrame list"

definition applyScalarOrOpenBlock :: "strconv \<Rightarrow> parser \<Rightarrow> bytes \<Rightarrow> nat \<Rightarrow> parser result" where
  "applyScalarOrOpenBlock C st trim ind =
     (let cfg = fst st; stack = snd st; top = hd stack in
      if trim = ''normalize:'' then
        Inr (cfg, \<lparr>indent = ind, kind = ''normalize'', tool = tool top\<rparr> # stack)
      else if trim = ''rate_limit:'' then
        Inr (cfg, \<lparr>indent = ind, kind = ''rate_limit'', tool = tool top\<rparr> # stack)
      else case splitKV trim of
        None \<Rightarrow> Inl (ErrMsg ''expected key: value'')
      | Some (key, val) \<Rightarrow>
          (case set_scalar C key val (selectPolicy cfg top) of
             Inl err \<Rightarrow> Inl err
           | Inr tp \<Rightarrow> Inr (writePolicy cfg top tp, stack)))"

text \<open>A line of a \<open>normalize\<close> and of a \<open>rate_limit\<close> block.\<close>

definition tool_policy :: "Config \<Rightarrow> string \<Rightarrow> ToolPolicy" where
  "tool_policy cfg t = (case Tools cfg t of Some p \<Rightarrow> p | None \<Rightarrow> zero_policy)"

definition normalize_line :: "Config \<Rightarrow> string \<Rightarrow> bytes \<Rightarrow> Config result" where
  "normalize_line cfg t trim =
     (case splitKV trim of
        None \<Rightarrow> Inl (ErrMsg ''expected key: value in normalize block'')
      | Some (field, val) \<Rightarrow>
          let tp = tool_policy cfg t;
              tp' = tp\<lparr>Normalize := (Normalize tp)(field \<mapsto> parseInlineList val)\<rparr>
          in Inr (cfg\<lparr>Tools := (Tools cfg)(t \<mapsto> tp')\<rparr>))"

definition rate_limit_line :: "strconv \<Rightarrow> Config \<Rightarrow> string \<Rightarrow> bytes \<Rightarrow> Config result" where
  "rate_limit_line C cfg t trim =
     (case splitKV trim of
        None \<Rightarrow> Inl (ErrMsg ''expected key: value in rate_limit block'')
      | Some (field, val) \<Rightarrow>
          let tp = tool_policy cfg t;
              set = (\<lambda>rl. Inr (cfg\<lparr>Tools := (Tools cfg)(t \<mapsto> tp\<lparr>RateLimit := rl\<rparr>)\<rparr>))
          in if field = ''rps'' then
               (case ParseFloat C (TrimSpace val) of
                  None \<Rightarrow> Inl (Wrapped ''rate_limit.rps'' (ErrMsg ''strconv.ParseFloat''))
                | Some f \<Rightarrow> set ((RateLimit tp)\<lparr>RPS := f\<rparr>))
             else if field = ''burst'' then
               (case Atoi (TrimSpace val) of
                  Inl err \<Rightarrow> Inl (Wrapped ''rate_limit.burst'' err)
                | Inr n \<Rightarrow> set ((RateLimit tp)\<lparr>Burst := n\<rparr>))
             else Inl (ErrMsg ''unknown rate_limit key''))"

section \<open>Documents\<close>

fun pop_stack :: "nat \<Rightarrow> stackFrame list \<Rightarrow> stackFrame list" where
  "pop_stack ind [] = []"
| "pop_stack ind (frame # stack) = (if ind \<le> indent frame then pop_stack ind stack else frame # stack)"

definition top_kind :: "stackFrame list \<Rightarrow> string \<Rightarrow> bool" where
  "top_kind stack k \<longleftrightarrow> stack \<noteq> [] \<and> kind (hd stack) = k"

text \<open>The body of the loop of \<open>parse\<close> for a line that is not blank.\<close>

definition parse_line :: "strconv \<Rightarrow> bytes \<Rightarrow> parser \<Rightarrow> parser result" where
  "parse_line C line st =
     (let cfg = fst st; ind = leadingSpaces line; trim = TrimSpace line;
          stack = pop_stack ind (snd st); t = tool (hd stack)
      in
      if ind = 0 \<and> trim = ''defaults:'' then
        Inr (cfg, \<lparr>indent = ind, kind = ''defaults'', tool = ''''\<rparr> # stack)
      else if ind = 0 \<and> trim = ''tools:'' then
        Inr (cfg, \<lparr>indent = ind, kind = ''tools'', tool = ''''\<rparr> # stack)
      else if top_kind stack ''tools'' \<and> HasSuffix trim '':'' then
        (let currentTool = TrimSuffix trim '':'' in
         Inr (cfg\<lparr>Tools := (Tools cfg)(currentTool \<mapsto> zero_policy)\<rparr>,
              \<lparr>indent = ind, kind = ''tool'', tool = currentTool\<rparr> # stack))
      else if top_kind stack ''defaults'' \<or> top_kind stack ''tool'' then
        applyScalarOrOpenBlock C (cfg, stack) trim ind
      else if top_kind stack ''normalize'' then
        (case normalize_line cfg t trim of Inl err \<Rightarrow> Inl err | Inr cfg' \<Rightarrow> Inr (cfg', stack))
      else if top_kind stack ''rate_limit'' then
        (case rate_limit_line C cfg t trim of Inl err \<Rightarrow> Inl err | Inr cfg' \<Rightarrow> Inr (cfg', stack))
      else Inl (ErrMsg ''unexpected token''))"

fun parse_loop :: "strconv \<Rightarrow> nat \<Rightarrow> bytes list \<Rightarrow> parser \<Rightarrow> parser result" where
  "parse_loop C i [] st = Inr st"
| "parse_loop C i (raw # lines) st =
     (let line = stripComment raw in
      if TrimSpace line = '''' then parse_loop C (Suc i) lines st
      else case parse_line C line st of
             Inl err \<Rightarrow> Inl (Wrapped (''line '' @ Itoa (int i + 1)) err)
           | Inr st' \<Rightarrow> parse_loop C (Suc i) lines st')"

definition empty_config :: Config where
  "empty_config = \<lparr>Defaults = zero_policy, Tools = Map.empty\<rparr>"

definition parse :: "strconv \<Rightarrow> bytes \<Rightarrow> Config result" where
  "parse C src =
     (case parse_loop C 0 (Split (CHR 0x0A) src) (empty_config, []) of
        Inl err \<Rightarrow> Inl err
      | Inr st \<Rightarrow> Inr (fst st))"

section \<open>Validation and loading\<close>

fun Validate :: "string list \<Rightarrow> Config \<Rightarrow> unit result" where
  "Validate [] c = Inr ()"
| "Validate (name # names) c =
     (let p = tool_policy c name in
      if \<not> (Mode p = '''' \<or> Mode p = ModeStrict \<or> Mode p = ModeCache \<or> Mode p = ModeLogOnly \<or> Mode p = ModeOff)
        then Inl (ErrMsg ''unknown mode'')
      else if flt_less (SemanticThreshold p) (Fin 0) \<or> flt_less (Fin 1) (SemanticThreshold p)
        then Inl (ErrMsg ''semantic_threshold must be in [0,1]'')
      else Validate names c)"

text \<open>\<open>file\<close> is what \<open>os.ReadFile\<close> returns, \<open>order\<close> the order in which the tools are visited.\<close>

definition Load :: "strconv \<Rightarrow> (Config \<Rightarrow> string list) \<Rightarrow> bytes result \<Rightarrow> Config result" where
  "Load C order file =
     (case file of
        Inl err \<Rightarrow> Inl (Wrapped ''read policy'' err)
      | Inr b \<Rightarrow>
          (case parse C b of
             Inl err \<Rightarrow> Inl (Wrapped ''parse policy'' err)
           | Inr cfg \<Rightarrow>
               (case Validate (order cfg) cfg of
                  Inl err \<Rightarrow> Inl (Wrapped ''validate policy'' err)
                | Inr _ \<Rightarrow> Inr cfg)))"


section \<open>What a loaded configuration satisfies\<close>

definition valid_mode :: "Mode \<Rightarrow> bool" where
  "valid_mode m \<longleftrightarrow> m \<in> {'''', ModeStrict, ModeCache, ModeLogOnly, ModeOff}"

definition valid_policy :: "ToolPolicy \<Rightarrow> bool" where
  "valid_policy p \<longleftrightarrow> valid_mode (Mode p) \<and>
     (SemanticThreshold p = NaN \<or> (\<exists>x. SemanticThreshold p = Fin x \<and> 0 \<le> x \<and> x \<le> 1))"

lemma threshold_range:
  "\<not> flt_less x (Fin 0) \<and> \<not> flt_less (Fin 1) x \<longleftrightarrow> x = NaN \<or> (\<exists>r. x = Fin r \<and> 0 \<le> r \<and> r \<le> 1)"
  by (cases x) auto

lemma Validate_iff: "is_ok (Validate names c) \<longleftrightarrow> (\<forall>n \<in> set names. valid_policy (tool_policy c n))"
  using threshold_range
  by (induction names c rule: Validate.induct) (auto simp: valid_policy_def valid_mode_def Let_def)

text \<open>Every policy of a loaded file is valid, whatever the order of the visit.\<close>

lemma Load_valid:
  assumes "Load C order file = Inr cfg" "set (order cfg) = dom (Tools cfg)" "Tools cfg t = Some p"
  shows "valid_policy p"
proof -
  have "is_ok (Validate (order cfg) cfg)"
    using assms(1) by (auto simp: Load_def split: sum.splits)
  with assms(2,3) have "valid_policy (tool_policy cfg t)" by (auto simp: Validate_iff)
  with assms(3) show ?thesis by (simp add: tool_policy_def)
qed

section \<open>Durations\<close>

lemma parseDuration_days:
  assumes "in_int64 n"
  shows "parseDuration C (Itoa n @ ''d'') = Inr (int64_wrap (n * (24 * Hour)))"
    "parseDuration C (Itoa n @ ''w'') = Inr (int64_wrap (n * (7 * 24 * Hour)))"
  using assms by (simp_all add: parseDuration_def Atoi_Itoa)

lemma parseDuration_range: "parseDuration C s = Inr d \<Longrightarrow> in_int64 d"
  by (auto simp: parseDuration_def Let_def dest: ParseDuration_range split: if_splits sum.splits)

section \<open>The parser\<close>

text \<open>Blank lines and comments change nothing but the line numbers of errors.\<close>

definition blank_line :: "bytes \<Rightarrow> bool" where
  "blank_line raw \<longleftrightarrow> TrimSpace (stripComment raw) = ''''"

definition significant :: "bytes list \<Rightarrow> bytes list" where
  "significant lines = map stripComment (filter (\<lambda>l. \<not> blank_line l) lines)"

fun strip_line :: "'a result \<Rightarrow> 'a option" where
  "strip_line (Inr x) = Some x"
| "strip_line (Inl _) = None"

lemma stripComment_simps [simp]:
  "CHR ''#'' \<notin> set a \<Longrightarrow> stripComment a = a"
  "CHR ''#'' \<notin> set a \<Longrightarrow> stripComment (a @ CHR ''#'' # b) = a"
  by (simp_all add: stripComment_def Index_None [THEN iffD2])

lemma stripComment_idem [simp]: "stripComment (stripComment s) = stripComment s"
proof (cases "CHR ''#'' \<in> set s")
  case True
  then obtain a b where "s = a @ CHR ''#'' # b" "CHR ''#'' \<notin> set a" using split_list_first by metis
  then show ?thesis by simp
qed simp

lemma parse_loop_significant:
  "strip_line (parse_loop C i lines st) = strip_line (parse_loop C j (significant lines) st)"
proof (induction lines arbitrary: i j st)
  case (Cons raw lines)
  show ?case
  proof (cases "blank_line raw")
    case True
    with Cons [of "Suc i" st j] show ?thesis by (simp add: significant_def blank_line_def Let_def)
  next
    case False
    with Cons [of "Suc i" _ "Suc j"] show ?thesis
      by (auto simp: significant_def blank_line_def Let_def split: sum.split)
  qed
qed (simp add: significant_def)

text \<open>The stack of blocks: indentation grows strictly towards the top, and a block of a tool names
  a tool of the configuration.\<close>

fun stack_sorted :: "stackFrame list \<Rightarrow> bool" where
  "stack_sorted (f # g # fs) = (indent g < indent f \<and> stack_sorted (g # fs))"
| "stack_sorted _ = True"

definition parser_ok :: "parser \<Rightarrow> bool" where
  "parser_ok st \<longleftrightarrow> stack_sorted (snd st) \<and>
     (\<forall>f \<in> set (snd st). kind f = ''tool'' \<longrightarrow> tool f \<in> dom (Tools (fst st)))"

lemma stack_sorted_tl: "stack_sorted (f # fs) \<Longrightarrow> stack_sorted fs"
  by (cases fs) auto

lemma pop_stack_sorted: "stack_sorted fs \<Longrightarrow> stack_sorted (pop_stack i fs)"
  by (induction i fs rule: pop_stack.induct) (auto dest: stack_sorted_tl)

lemma pop_stack_subset: "set (pop_stack i fs) \<subseteq> set fs"
  by (induction i fs rule: pop_stack.induct) auto

lemma pop_stack_top: "pop_stack i fs = f # gs \<Longrightarrow> indent f < i"
  by (induction i fs rule: pop_stack.induct) (auto split: if_splits)

lemma push_sorted:
  "stack_sorted fs \<Longrightarrow> indent f = i \<Longrightarrow> stack_sorted (f # pop_stack i fs)"
  by (cases "pop_stack i fs") (auto dest: pop_stack_top pop_stack_sorted [of _ i])

lemma parser_ok_pop: "parser_ok (cfg, fs) \<Longrightarrow> parser_ok (cfg, pop_stack i fs)"
  using pop_stack_subset by (fastforce simp: parser_ok_def pop_stack_sorted)

lemma parser_ok_push:
  "parser_ok (cfg, fs) \<Longrightarrow> k \<noteq> ''tool'' \<Longrightarrow> parser_ok (cfg, \<lparr>indent = i, kind = k, tool = t\<rparr> # pop_stack i fs)"
  using parser_ok_pop [of cfg fs i] by (auto simp: parser_ok_def push_sorted)

lemma parser_ok_grow:
  "parser_ok (cfg, fs) \<Longrightarrow> dom (Tools cfg) \<subseteq> dom (Tools cfg') \<Longrightarrow> parser_ok (cfg', fs)"
  by (simp add: parser_ok_def) blast

lemma writePolicy_dom: "dom (Tools cfg) \<subseteq> dom (Tools (writePolicy cfg f p))"
  by (auto simp: writePolicy_def)

lemma normalize_line_dom: "normalize_line cfg t l = Inr cfg' \<Longrightarrow> dom (Tools cfg) \<subseteq> dom (Tools cfg')"
  by (auto simp: normalize_line_def Let_def split: option.splits)

lemma rate_limit_line_dom: "rate_limit_line C cfg t l = Inr cfg' \<Longrightarrow> dom (Tools cfg) \<subseteq> dom (Tools cfg')"
  by (auto simp: rate_limit_line_def Let_def split: option.splits sum.splits if_splits)

lemma applyScalar_ok:
  assumes ok: "parser_ok (cfg, fs)" and a: "applyScalarOrOpenBlock C (cfg, pop_stack i fs) trim i = Inr st"
  shows "parser_ok st"
proof -
  have w: "parser_ok (writePolicy cfg f p, pop_stack i fs)" for f p
    using parser_ok_pop [OF ok] writePolicy_dom by (rule parser_ok_grow)
  have push: "parser_ok (cfg, \<lparr>indent = i, kind = k, tool = t\<rparr> # pop_stack i fs)" if "k \<noteq> ''tool''" for k t
    using ok that by (rule parser_ok_push)
  show ?thesis
    using a unfolding applyScalarOrOpenBlock_def Let_def fst_conv snd_conv
    by (auto simp: w push split: if_splits option.splits sum.splits)
qed

lemma parse_line_ok:
  assumes ok: "parser_ok (cfg, fs)" and p: "parse_line C line (cfg, fs) = Inr st"
  shows "parser_ok st"
proof -
  let ?i = "leadingSpaces line"
  let ?stack = "pop_stack ?i fs"
  have pop: "parser_ok (cfg, ?stack)" using ok by (rule parser_ok_pop)
  have push: "parser_ok (cfg, \<lparr>indent = i, kind = k, tool = ''''\<rparr> # pop_stack i fs)" if "k \<noteq> ''tool''" for k i
    using ok that by (rule parser_ok_push)
  have new: "parser_ok (cfg\<lparr>Tools := (Tools cfg)(t \<mapsto> zero_policy)\<rparr>,
      \<lparr>indent = ?i, kind = ''tool'', tool = t\<rparr> # ?stack)" for t
    using pop push_sorted [of fs _ ?i] ok by (auto simp: parser_ok_def)
  show ?thesis
    using p unfolding parse_line_def Let_def fst_conv snd_conv
    by (auto simp: push new split: if_splits sum.splits
        dest: applyScalar_ok [OF ok] normalize_line_dom rate_limit_line_dom intro: parser_ok_grow [OF pop])
qed

lemma parse_loop_ok: "parser_ok st \<Longrightarrow> parse_loop C i lines st = Inr st' \<Longrightarrow> parser_ok st'"
proof (induction lines arbitrary: i st)
  case (Cons raw lines)
  then show ?case
    by (cases st) (auto simp: Let_def split: if_splits sum.splits dest: parse_line_ok)
qed simp

end
