(* ===== verification/Gateway.thy ===== *)
theory Gateway
  imports Pipeline_Options Mcp_Http Http_Mux Oidc Policy_Loader
begin

text \<open>
  \<open>cmd/potent/main.go\<close>: the process. \<open>run\<close> turns the flags and what it finds in its environment into a
  gateway that serves, or into an error; the choices of store, embedder, audit sinks and upstream TLS are
  functions of their own, and the options of the two HTTP adapters are applied as \<open>New\<close> and
  \<open>NewHTTPHandler\<close> apply them. \<open>world\<close> holds what the environment answers: variables, files, the libraries
  that open a database or load a certificate. What \<open>run\<close> does on its way is the list of its \<open>actions\<close>, so
  that the order of opening, starting, refusing and closing is visible.

  Signals, sockets and the loop of \<open>http.Server\<close> are outside the model: serving is a value that says what
  is served, and \<open>serveDual\<close> ends with what stops it.
\<close>

section \<open>Flags and environment\<close>

record flags =
  f_mode :: bytes
  f_addr :: bytes
  f_metricsAddr :: bytes
  f_upstream :: bytes
  f_policyPath :: bytes
  f_backend :: bytes
  f_dbPath :: bytes
  f_embedDim :: int
  f_embedN :: int
  f_embedBackend :: bytes
  f_embedURL :: bytes
  f_embedTimeout :: duration
  f_auditPath :: bytes
  f_auditS3URL :: bytes
  f_auditS3FlushInterval :: duration
  f_auditS3FlushBytes :: int
  f_adminAddr :: bytes
  f_maxBodyBytes :: int
  f_stdioTimeout :: duration
  f_compactInterval :: duration
  f_tokensFile :: bytes
  f_upstreamCA :: bytes
  f_upstreamCert :: bytes
  f_upstreamKey :: bytes
  f_upstreamSkipVerify :: bool
  f_shadowMode :: bool
  f_oidcJWKS :: bytes
  f_oidcIssuer :: bytes
  f_oidcAudience :: bytes
  f_oidcCallerClaim :: bytes
  f_oidcRefreshInterval :: duration

definition default_flags :: flags where
  "default_flags = \<lparr>f_mode = ''http'', f_addr = '':8080'', f_metricsAddr = '':9090'', f_upstream = '''',
     f_policyPath = ''configs/policy.yaml'', f_backend = ''memory'', f_dbPath = ''potent.db'', f_embedDim = 384, f_embedN = 4,
     f_embedBackend = ''hashing'', f_embedURL = '''', f_embedTimeout = 10 * Second, f_auditPath = '''', f_auditS3URL = '''',
     f_auditS3FlushInterval = 5 * Minute, f_auditS3FlushBytes = 5 * 1024 * 1024, f_adminAddr = '''', f_maxBodyBytes = 2 ^ 20,
     f_stdioTimeout = 60 * Second, f_compactInterval = Hour, f_tokensFile = '''', f_upstreamCA = '''', f_upstreamCert = '''',
     f_upstreamKey = '''', f_upstreamSkipVerify = False, f_shadowMode = False, f_oidcJWKS = '''', f_oidcIssuer = '''',
     f_oidcAudience = '''', f_oidcCallerClaim = ''sub'', f_oidcRefreshInterval = Hour\<rparr>"

record world =
  e_API_TOKEN :: bytes
  e_ADMIN_TOKEN :: bytes
  e_PG_DSN :: bytes
  e_EMBED_API_KEY :: bytes
  w_tokensFile :: "bytes result"
  w_policyFile :: "bytes result"
  w_bolt :: "unit result"                  \<comment> \<open>\<open>store.OpenBolt\<close>\<close>
  w_postgres :: "bytes \<Rightarrow> unit result"     \<comment> \<open>\<open>store.OpenPostgres\<close> for a DSN\<close>
  w_auditStat :: "unit result option"
  w_auditOpen :: "unit result"
  w_awsConfig :: "unit result"
  w_readCA :: "bytes result"
  w_hasCerts :: "bytes \<Rightarrow> bool"            \<comment> \<open>\<open>AppendCertsFromPEM\<close>\<close>
  w_keyPair :: "bytes \<Rightarrow> bytes \<Rightarrow> unit result"
  w_urlParse :: "bytes \<Rightarrow> bytes result"    \<comment> \<open>\<open>url.Parse\<close>, giving the path\<close>

section \<open>Store, embedder, audit sinks, TLS\<close>

datatype backend = MemoryStore | BoltStore bytes | PostgresStore bytes

definition openStore :: "world \<Rightarrow> bytes \<Rightarrow> bytes \<Rightarrow> backend result" where
  "openStore W backend dbPath =
     (if backend = ''memory'' then Inr MemoryStore
      else if backend = ''bolt'' then
        (case w_bolt W of Inl err \<Rightarrow> Inl (Wrapped ''open bolt store'' err) | Inr _ \<Rightarrow> Inr (BoltStore dbPath))
      else if backend = ''postgres'' then
        (if e_PG_DSN W = '''' then Inl (ErrMsg ''-store=postgres requires POTENT_PG_DSN environment variable'')
         else case w_postgres W (e_PG_DSN W) of
                Inl err \<Rightarrow> Inl (Wrapped ''open postgres store'' err)
              | Inr _ \<Rightarrow> Inr (PostgresStore (e_PG_DSN W)))
      else Inl (ErrMsg (''unknown store backend '' @ backend)))"

datatype embedder_choice = Hashing HashingTFIDF | Remote HTTPEmbedder "bytes \<rightharpoonup> bytes"

definition buildEmbedder :: "world \<Rightarrow> bytes \<Rightarrow> int \<Rightarrow> int \<Rightarrow> bytes \<Rightarrow> duration \<Rightarrow> embedder_choice result" where
  "buildEmbedder W backend d ngram u t =
     (if backend = ''hashing'' \<or> backend = '''' then
        (case NewHashingTFIDF d ngram of Inl err \<Rightarrow> Inl err | Inr h \<Rightarrow> Inr (Hashing h))
      else if backend = ''http'' then
        (if u = '''' then Inl (ErrMsg ''-embed-backend=http requires -embed-url'')
         else let headers = (if e_EMBED_API_KEY W \<noteq> '''' then [''Authorization'' \<mapsto> ''Bearer '' @ e_EMBED_API_KEY W] else Map.empty);
                  optsDim = (if d = 384 then 0 else d)
              in case NewHTTPEmbedder u optsDim t of Inl err \<Rightarrow> Inl err | Inr e \<Rightarrow> Inr (Remote e headers))
      else Inl (ErrMsg (''unknown embedder backend '' @ backend)))"

text \<open>The sinks \<open>buildAuditSinks\<close> has opened, whose goroutines run, and what it returns: on the way out with an
  error the first may hold a sink the second does not.\<close>

datatype sink_choice = FileSink bytes fileSink | S3Sink S3SinkOptions

definition buildAuditSinks :: "world \<Rightarrow> bytes \<Rightarrow> bytes \<Rightarrow> duration \<Rightarrow> int \<Rightarrow> sink_choice list \<times> sink_choice list result" where
  "buildAuditSinks W filePath s3URL s3Interval s3Bytes =
     (let files = (if filePath \<noteq> '''' then
                     (case NewFileSink filePath 1024 (w_auditStat W) (w_auditOpen W) of
                        Inl err \<Rightarrow> Inl (Wrapped ''file sink'' err)
                      | Inr fs \<Rightarrow> Inr [FileSink filePath fs])
                   else Inr [])
      in case files of
           Inl err \<Rightarrow> ([], Inl err)
         | Inr sinks1 \<Rightarrow>
             if s3URL \<noteq> '''' then
               (case ParseS3URL s3URL of
                  Inl err \<Rightarrow> (sinks1, Inl err)
                | Inr (bkt, pfx) \<Rightarrow>
                    (case NewS3Sink \<lparr>Bucket = bkt, Prefix = pfx, FlushInterval = s3Interval, FlushBytes = s3Bytes, Capacity = 0\<rparr> (w_awsConfig W) of
                       Inl err \<Rightarrow> (sinks1, Inl (Wrapped ''s3 sink'' err))
                     | Inr s \<Rightarrow> (sinks1 @ [S3Sink s], Inr (sinks1 @ [S3Sink s]))))
             else (sinks1, Inr sinks1))"

record tls_config =
  MinVersion :: nat
  InsecureSkipVerify :: bool
  RootCAs :: "bytes option"              \<comment> \<open>the PEM added to the system pool; \<open>None\<close> for the default\<close>
  Certificates :: "(bytes \<times> bytes) list"

definition VersionTLS12 :: nat where "VersionTLS12 = 0x0303"

definition buildUpstreamTLS :: "world \<Rightarrow> bytes \<Rightarrow> bytes \<Rightarrow> bytes \<Rightarrow> bool \<Rightarrow> tls_config option result" where
  "buildUpstreamTLS W caPath certPath keyPath skipVerify =
     (if caPath = '''' \<and> certPath = '''' \<and> keyPath = '''' \<and> \<not> skipVerify then Inr None
      else let cfg = \<lparr>MinVersion = VersionTLS12, InsecureSkipVerify = skipVerify, RootCAs = None, Certificates = []\<rparr>;
               withCA = (if caPath \<noteq> '''' then
                           (case w_readCA W of
                              Inl err \<Rightarrow> Inl (Wrapped ''read ca'' err)
                            | Inr pem \<Rightarrow>
                                if \<not> w_hasCerts W pem then Inl (ErrMsg ''ca file contained no certificates'')
                                else Inr (cfg\<lparr>RootCAs := Some pem\<rparr>))
                         else Inr cfg)
           in case withCA of
                Inl err \<Rightarrow> Inl err
              | Inr cfg1 \<Rightarrow>
                  if (certPath = '''') \<noteq> (keyPath = '''')
                  then Inl (ErrMsg ''-upstream-cert and -upstream-key must be supplied together'')
                  else if certPath \<noteq> '''' then
                    (case w_keyPair W certPath keyPath of
                       Inl err \<Rightarrow> Inl (Wrapped ''load client cert'' err)
                     | Inr _ \<Rightarrow> Inr (Some (cfg1\<lparr>Certificates := [(certPath, keyPath)]\<rparr>)))
                  else Inr (Some cfg1))"

text \<open>What \<open>compactReporter\<close> logs, if anything.\<close>

datatype compact_log = CompactFailed bytes go_error | CompactRemoved bytes nat

definition compactReporter :: "bytes \<Rightarrow> nat result \<Rightarrow> compact_log option" where
  "compactReporter backend outcome =
     (case outcome of
        Inl err \<Rightarrow> Some (CompactFailed backend err)
      | Inr removed \<Rightarrow> if removed > 0 then Some (CompactRemoved backend removed) else None)"

section \<open>The HTTP adapters, with their options\<close>

datatype adapter_option =
    WithMaxBodyBytes int
  | WithAPIToken bytes
  | WithAPITokensFile "(bytes \<times> bytes) list"
  | WithUpstreamTLS "tls_config option"
  | WithOIDCVerifier "verifier option"

record adapter_opts =
  ao_maxBodyBytes :: int
  ao_apiToken :: bytes
  ao_apiTokens :: "(bytes \<times> bytes) list"
  ao_tls :: "tls_config option"
  ao_oidcVerifier :: "verifier option"

definition default_opts :: adapter_opts where
  "default_opts = \<lparr>ao_maxBodyBytes = DefaultMaxBodyBytes, ao_apiToken = '''', ao_apiTokens = [], ao_tls = None, ao_oidcVerifier = None\<rparr>"

fun apply_option :: "adapter_option \<Rightarrow> adapter_opts \<Rightarrow> adapter_opts" where
  "apply_option (WithMaxBodyBytes n) p = p\<lparr>ao_maxBodyBytes := n\<rparr>"
| "apply_option (WithAPIToken token) p = p\<lparr>ao_apiToken := token\<rparr>"
| "apply_option (WithAPITokensFile tokens) p = p\<lparr>ao_apiTokens := tokens\<rparr>"
| "apply_option (WithUpstreamTLS cfg) p = p\<lparr>ao_tls := cfg\<rparr>"
| "apply_option (WithOIDCVerifier v) p = p\<lparr>ao_oidcVerifier := v\<rparr>"

text \<open>\<open>reverse\<close> is the reverse proxy for a transport configuration; \<open>transport\<close> the HTTP client for one.\<close>

definition New :: "('s, 'l) config \<Rightarrow> (tls_config option \<Rightarrow> upstream) \<Rightarrow> (f32 \<Rightarrow> bytes) \<Rightarrow> adapter_option list \<Rightarrow> ('s, 'l) proxy" where
  "New P reverse fmt opts =
     (let p = fold apply_option opts default_opts
      in New_proxy P (reverse (ao_tls p)) (ao_maxBodyBytes p) (ao_apiToken p) (ao_apiTokens p) (ao_oidcVerifier p) fmt)"

text \<open>\<open>WithHTTPUpstreamTLS\<close> leaves the client alone when it is given nil.\<close>

fun apply_http_option :: "adapter_option \<Rightarrow> adapter_opts \<Rightarrow> adapter_opts" where
  "apply_http_option (WithUpstreamTLS None) h = h"
| "apply_http_option opt h = apply_option opt h"

definition NewHTTPHandler ::
  "('s, 'l) config \<Rightarrow> bytes \<Rightarrow> (tls_config option \<Rightarrow> client) \<Rightarrow> (f32 \<Rightarrow> bytes) \<Rightarrow> adapter_option list \<Rightarrow> ('s, 'l) HTTPHandler" where
  "NewHTTPHandler P path transport fmt opts =
     (let h = fold apply_http_option opts default_opts
      in \<lparr>mh_pipeline = P, mh_path = path, mh_client = transport (ao_tls h), mh_maxBodyBytes = ao_maxBodyBytes h,
          mh_apiToken = ao_apiToken h, mh_apiTokens = ao_apiTokens h, mh_oidcVerifier = ao_oidcVerifier h, mh_format_f4 = fmt\<rparr>)"

section \<open>Serving\<close>

text \<open>The routes of the listener: liveness and readiness beside the adapter.\<close>

definition app_mux :: "'st handler \<Rightarrow> 'st mux" where
  "app_mux app =
     [(''/healthz'', \<lambda>w r st. (respond 200 ''ok'' w, st)), (''/readyz'', \<lambda>w r st. (respond 200 ''ready'' w, st)), (''/'', app)]"

datatype serve_end = Signalled | ServerFailed bytes go_error

text \<open>\<open>shutdown\<close> is the answer of \<open>srv.Shutdown\<close>.\<close>

definition serveDual :: "serve_end \<Rightarrow> unit result \<Rightarrow> unit result" where
  "serveDual ended shutdown =
     (case ended of
        Signalled \<Rightarrow> shutdown
      | ServerFailed which err \<Rightarrow> Inl (Wrapped which err))"

text \<open>\<open>strings.Fields\<close>: the words between runs of white space.\<close>

function fields_from :: "bytes \<Rightarrow> bytes \<Rightarrow> bytes list" where
  "fields_from word s =
     (if s = [] then (if word = '''' then [] else [word])
      else let (r, n) = decode_rune s in
           if IsSpace r then (if word = '''' then [] else [word]) @ fields_from '''' (drop n s)
           else fields_from (word @ take n s) (drop n s))"
  by pat_completeness auto
termination
  by (relation "measure (length \<circ> snd)") (use decode_rune_progress in \<open>auto simp: prod_eq_iff\<close>)

declare fields_from.simps [simp del]

definition Fields :: "bytes \<Rightarrow> bytes list" where "Fields s = fields_from '''' s"

section \<open>Startup\<close>

text \<open>Whatever startup sets going: a store opened; the signal context of the compactor, made whether or not the
  store has a compactor, and the compactor; each audit sink, by the constructor that starts its goroutine, and the
  writer that owns them; the admin server; and the refresh of keys under its signal context.\<close>

datatype action =
    OpenStore backend
  | WatchCompactor
  | StartCompactor backend duration
  | OpenSink sink_choice
  | NewAudit "sink_choice list"
  | StartAdmin bytes bytes               \<comment> \<open>address and token\<close>
  | StartOIDC Verifier

text \<open>What \<open>run\<close> has deferred when it returns, in the order in which it happens then. Closing the writer closes
  its sinks.\<close>

datatype deferred = StopOIDC | CloseAudit "sink_choice list" | StopCompactor | CloseStore backend

datatype service_mode =
    HTTPMode bytes bytes bytes "adapter_option list"       \<comment> \<open>address, metrics address, path of the upstream, options\<close>
  | MCPHTTPMode bytes bytes bytes "adapter_option list"
  | StdioMode bytes "bytes list" duration                  \<comment> \<open>command, arguments, request timeout\<close>

record service =
  sv_policy :: Config
  sv_store :: backend
  sv_embedder :: embedder_choice
  sv_sinks :: "sink_choice list"
  sv_shadow :: bool
  sv_mode :: service_mode

definition adapter_options :: "flags \<Rightarrow> world \<Rightarrow> (bytes \<times> bytes) list \<Rightarrow> tls_config option \<Rightarrow> verifier option \<Rightarrow> adapter_option list" where
  "adapter_options f W apiTokens tlsCfg oidcAuth =
     [WithMaxBodyBytes (f_maxBodyBytes f), WithAPIToken (e_API_TOKEN W), WithAPITokensFile apiTokens, WithUpstreamTLS tlsCfg,
      WithOIDCVerifier oidcAuth]"

definition runHTTP :: "flags \<Rightarrow> world \<Rightarrow> adapter_option list \<Rightarrow> service_mode result" where
  "runHTTP f W opts =
     (case w_urlParse W (f_upstream f) of
        Inl err \<Rightarrow> Inl err
      | Inr path \<Rightarrow> Inr (HTTPMode (f_addr f) (f_metricsAddr f) path opts))"

definition runMCPHTTP :: "flags \<Rightarrow> world \<Rightarrow> adapter_option list \<Rightarrow> service_mode result" where
  "runMCPHTTP f W opts =
     (case w_urlParse W (f_upstream f) of
        Inl err \<Rightarrow> Inl err
      | Inr path \<Rightarrow> Inr (MCPHTTPMode (f_addr f) (f_metricsAddr f) path opts))"

definition runMCPStdio :: "flags \<Rightarrow> service_mode result" where
  "runMCPStdio f =
     (case Fields (f_upstream f) of
        [] \<Rightarrow> Inl (ErrMsg ''mcp-stdio: -upstream must be a command to exec'')
      | cmd # args \<Rightarrow> Inr (StdioMode cmd args (f_stdioTimeout f)))"

definition run_mode :: "flags \<Rightarrow> world \<Rightarrow> adapter_option list \<Rightarrow> service_mode result" where
  "run_mode f W opts =
     (if f_mode f = ''http'' then runHTTP f W opts
      else if f_mode f = ''mcp-http'' then runMCPHTTP f W opts
      else if f_mode f = ''mcp-stdio'' then runMCPStdio f
      else Inl (ErrMsg (''unknown mode '' @ f_mode f)))"

text \<open>From the admin server on. \<open>verify\<close> is the method \<open>Verify\<close> of a verifier, whatever keys it will hold.\<close>

definition run_listen ::
  "(Verifier \<Rightarrow> verifier) \<Rightarrow> flags \<Rightarrow> world \<Rightarrow> (bytes \<times> bytes) list \<Rightarrow> action list \<times> service_mode result \<times> deferred list" where
  "run_listen verify f W apiTokens =
     (if f_adminAddr f \<noteq> '''' \<and> e_ADMIN_TOKEN W = ''''
      then ([], Inl (ErrMsg ''admin server requested via -admin-addr but POTENT_ADMIN_TOKEN is empty''), [])
      else let admin = (if f_adminAddr f \<noteq> '''' then [StartAdmin (f_adminAddr f) (e_ADMIN_TOKEN W)] else []) in
        if refuse_unauthenticated (f_mode f) (e_API_TOKEN W) apiTokens (f_oidcJWKS f) (f_addr f)
        then (admin, Inl (ErrMsg ''refusing to expose unauthenticated proxy''), [])
        else
          let oidc = (if f_oidcJWKS f \<noteq> '''' then
                        (case NewVerifier \<lparr>oc_JWKSURL = f_oidcJWKS f, oc_Issuer = f_oidcIssuer f, oc_Audience = f_oidcAudience f,
                            oc_CallerClaim = f_oidcCallerClaim f, oc_RefreshInterval = f_oidcRefreshInterval f\<rparr> of
                           Inl err \<Rightarrow> Inl (Wrapped ''oidc verifier'' err)
                         | Inr v \<Rightarrow> Inr (Some v))
                      else Inr None) in
          case oidc of
            Inl err \<Rightarrow> (admin, Inl err, [])
          | Inr oidcVerifier \<Rightarrow>
              let acts = admin @ (case oidcVerifier of Some v \<Rightarrow> [StartOIDC v] | None \<Rightarrow> []);
                  undo = (case oidcVerifier of Some v \<Rightarrow> [StopOIDC] | None \<Rightarrow> []) in
              case buildUpstreamTLS W (f_upstreamCA f) (f_upstreamCert f) (f_upstreamKey f) (f_upstreamSkipVerify f) of
                Inl err \<Rightarrow> (acts, Inl (Wrapped ''upstream tls'' err), undo)
              | Inr tlsCfg \<Rightarrow>
                  (acts, run_mode f W (adapter_options f W apiTokens tlsCfg (map_option verify oidcVerifier)), undo))"

definition start_compactor :: "flags \<Rightarrow> backend \<Rightarrow> action list" where
  "start_compactor f st =
     (if f_compactInterval f > 0
      then WatchCompactor # (if st \<noteq> MemoryStore then [StartCompactor st (f_compactInterval f)] else [])
      else [])"

definition run ::
  "strconv \<Rightarrow> (Config \<Rightarrow> string list) \<Rightarrow> (Verifier \<Rightarrow> verifier) \<Rightarrow> flags \<Rightarrow> world \<Rightarrow>
     action list \<times> service result \<times> deferred list" where
  "run C order verify f W =
     (case loadAPITokens (f_tokensFile f) (w_tokensFile W) of
        Inl err \<Rightarrow> ([], Inl (Wrapped ''load -api-tokens-file'' err), [])
      | Inr apiTokens \<Rightarrow>
          if f_upstream f = '''' then ([], Inl (ErrMsg ''flag -upstream is required''), [])
          else case Load C order (w_policyFile W) of
            Inl err \<Rightarrow> ([], Inl err, [])
          | Inr cfg \<Rightarrow>
              (case openStore W (f_backend f) (f_dbPath f) of
                 Inl err \<Rightarrow> ([], Inl err, [])
               | Inr st \<Rightarrow>
                   let acts = OpenStore st # start_compactor f st;
                       undo = (if f_compactInterval f > 0 then [StopCompactor] else []) @ [CloseStore st] in
                   case buildEmbedder W (f_embedBackend f) (f_embedDim f) (f_embedN f) (f_embedURL f) (f_embedTimeout f) of
                     Inl err \<Rightarrow> (acts, Inl (Wrapped ''embedder'' err), undo)
                   | Inr emb \<Rightarrow>
                       (case buildAuditSinks W (f_auditPath f) (f_auditS3URL f) (f_auditS3FlushInterval f) (f_auditS3FlushBytes f) of
                          (opened, Inl err) \<Rightarrow> (acts @ map OpenSink opened, Inl (Wrapped ''audit'' err), undo)
                        | (opened, Inr auditSinks) \<Rightarrow>
                            let (acts2, out, undo2) = run_listen verify f W apiTokens in
                            (acts @ map OpenSink opened @ NewAudit auditSinks # acts2,
                             map_sum id (\<lambda>m. \<lparr>sv_policy = cfg, sv_store = st, sv_embedder = emb, sv_sinks = auditSinks,
                                sv_shadow = f_shadowMode f, sv_mode = m\<rparr>) out,
                             undo2 @ CloseAudit auditSinks # undo))))"

text \<open>The pipeline a service runs on, for the store and the libraries it was opened with: \<open>pipeline.New\<close> with
  its options.\<close>

definition pipeline_of ::
  "'s store_ops \<Rightarrow> 'l rate_ops \<Rightarrow> (embedder_choice \<Rightarrow> bytes \<Rightarrow> f32 list result) \<Rightarrow> lib \<Rightarrow> service \<Rightarrow> ('s, 'l) config" where
  "pipeline_of S R emb L sv =
     New_config (sv_policy sv) S R L
       ([WithMetrics True, WithEmbedder (Some (emb (sv_embedder sv))), WithAudit True] @
        (if sv_shadow sv then [WithShadow True] else []))"

lemma pipeline_of_fields:
  "pipeline_of S R emb L sv =
     \<lparr>policies = sv_policy sv, store = S, rates = R, embedder = Some (emb (sv_embedder sv)), metrics = True, audit = True,
      shadow = sv_shadow sv, libs = L\<rparr>"
  by (simp add: pipeline_of_def New_config_def)

text \<open>The handler a service listens with, if it listens.\<close>

definition listener ::
  "('s, 'l) config \<Rightarrow> (bytes \<Rightarrow> tls_config option \<Rightarrow> upstream) \<Rightarrow> (tls_config option \<Rightarrow> client) \<Rightarrow> (f32 \<Rightarrow> bytes) \<Rightarrow>
     'r reader \<Rightarrow> request \<Rightarrow> bool \<Rightarrow> service_mode \<Rightarrow> (bytes \<times> (('s, 'l) pstate \<times> 'r) handler) option" where
  "listener P reverse transport fmt read env prefer_ctx m =
     (case m of
        HTTPMode addr _ path opts \<Rightarrow> Some (addr, mux_serve (app_mux (proxy_Handler (New P (reverse path) fmt opts) read env prefer_ctx)))
      | MCPHTTPMode addr _ path opts \<Rightarrow>
          Some (addr, mux_serve (app_mux (mcp_Handler (NewHTTPHandler P path transport fmt opts) read env prefer_ctx)))
      | StdioMode _ _ _ \<Rightarrow> None)"

section \<open>What startup promises\<close>

text \<open>What undoes an action. Two actions have no undoing of their own: a sink is closed by the writer that owns it,
  and the compactor ends with its signal context. Nothing undoes the start of the admin server: it runs until the
  process ends.\<close>

fun closes :: "action \<Rightarrow> deferred list" where
  "closes (OpenStore st) = [CloseStore st]"
| "closes WatchCompactor = [StopCompactor]"
| "closes (NewAudit ss) = [CloseAudit ss]"
| "closes (StartOIDC v) = [StopOIDC]"
| "closes (StartCompactor st d) = []"
| "closes (OpenSink s) = []"
| "closes (StartAdmin a t) = []"

definition sinks_opened :: "action list \<Rightarrow> sink_choice list" where
  "sinks_opened acts = concat (map (\<lambda>a. case a of OpenSink s \<Rightarrow> [s] | _ \<Rightarrow> []) acts)"

definition sinks_closed :: "deferred list \<Rightarrow> sink_choice list" where
  "sinks_closed cl = concat (map (\<lambda>d. case d of CloseAudit ss \<Rightarrow> ss | _ \<Rightarrow> []) cl)"

lemma sinks_simps [simp]:
  "sinks_opened [] = []" "sinks_opened (a # acts) = (case a of OpenSink s \<Rightarrow> [s] | _ \<Rightarrow> []) @ sinks_opened acts"
  "sinks_opened (acts @ acts') = sinks_opened acts @ sinks_opened acts'" "sinks_opened (map OpenSink ss) = ss"
  "sinks_closed [] = []" "sinks_closed (d # cl) = (case d of CloseAudit ss \<Rightarrow> ss | _ \<Rightarrow> []) @ sinks_closed cl"
  "sinks_closed (cl @ cl') = sinks_closed cl @ sinks_closed cl'"
  by (auto simp: sinks_opened_def sinks_closed_def comp_def)

lemma compactor_watched: "StartCompactor b d \<in> set (start_compactor f st) \<Longrightarrow> f_compactInterval f > 0"
  by (simp add: start_compactor_def split: if_splits)

lemma start_compactor_actions: "a \<in> set (start_compactor f st) \<Longrightarrow> a = WatchCompactor \<or> (\<exists>d. a = StartCompactor st d)"
  by (auto simp: start_compactor_def split: if_splits)

lemma closes_sinks [simp]: "concat (map closes (rev (map OpenSink ss))) = []"
  by (induction ss) auto

lemma start_compactor_closes [simp]:
  "concat (map closes (rev (start_compactor f st))) = (if f_compactInterval f > 0 then [StopCompactor] else [])"
  "StartAdmin a t \<notin> set (start_compactor f st)" "sinks_opened (start_compactor f st) = []"
  "distinct (start_compactor f st)" "OpenSink s \<notin> set (start_compactor f st)" "OpenStore b \<notin> set (start_compactor f st)"
  "NewAudit ss \<notin> set (start_compactor f st)" "StartOIDC v \<notin> set (start_compactor f st)"
  by (simp_all add: start_compactor_def split: if_splits)

text \<open>The sinks opened are those returned, or one file sink and the error of the S3 sink.\<close>

lemma buildAuditSinks_opened:
  assumes "buildAuditSinks W path u n b = (opened, res)"
  shows "distinct opened"
    and "case res of Inr ss \<Rightarrow> ss = opened | Inl err \<Rightarrow> opened = [] \<or> path \<noteq> '''' \<and> u \<noteq> '''' \<and> (\<exists>fs. opened = [FileSink path fs])"
  using assms by (auto simp: buildAuditSinks_def Let_def split: if_splits sum.splits prod.splits)



definition admin_guarded :: "flags \<Rightarrow> world \<Rightarrow> action list \<Rightarrow> bool" where
  "admin_guarded f W acts \<longleftrightarrow>
     {(a, t). StartAdmin a t \<in> set acts} \<subseteq> {(f_adminAddr f, e_ADMIN_TOKEN W)} \<inter> {(a, t). t \<noteq> ''''}"

lemma run_listen_unwinds:
  "run_listen verify f W ts = (acts, out, cl) \<Longrightarrow>
     distinct acts \<and> cl = concat (map closes (rev acts)) \<and> sinks_opened acts = [] \<and> sinks_closed cl = [] \<and>
     (\<forall>a \<in> set acts. case a of StartAdmin _ _ \<Rightarrow> True | StartOIDC _ \<Rightarrow> True | _ \<Rightarrow> False) \<and> admin_guarded f W acts"
  by (auto simp: run_listen_def Let_def admin_guarded_def split: if_splits sum.splits option.splits)

lemma map_sum_Inr: "map_sum id g x = Inr y \<longleftrightarrow> (\<exists>m. x = Inr m \<and> y = g m)"
  by (cases x) auto

lemma run_unwinds:
  assumes "run C order verify f W = (acts, out, cl)"
  shows "distinct acts \<and> cl = concat (map closes (rev acts)) \<and>
    ((\<exists>st d. StartCompactor st d \<in> set acts) \<longrightarrow> StopCompactor \<in> set cl) \<and>
    (sinks_closed cl = sinks_opened acts \<or>
      sinks_closed cl = [] \<and> f_auditS3URL f \<noteq> '''' \<and>
        (\<exists>fs err. sinks_opened acts = [FileSink (f_auditPath f) fs] \<and> out = Inl (Wrapped ''audit'' err))) \<and>
    (case out of Inr sv \<Rightarrow> sv_sinks sv = sinks_opened acts \<and> OpenStore (sv_store sv) \<in> set acts | Inl _ \<Rightarrow> True) \<and>
    admin_guarded f W acts"
proof -
  let ?A = "\<lambda>st. OpenStore st # start_compactor f st" and ?U = "\<lambda>st. (if f_compactInterval f > 0 then [StopCompactor] else []) @ [CloseStore st]"
  consider (nothing) err where "acts = []" "out = Inl err" "cl = []"
    | (store) st' err where "acts = ?A st'" "out = Inl err" "cl = ?U st'"
    | (sinks) st' opened err where "acts = ?A st' @ map OpenSink opened" "out = Inl (Wrapped ''audit'' err)" "cl = ?U st'"
        "buildAuditSinks W (f_auditPath f) (f_auditS3URL f) (f_auditS3FlushInterval f) (f_auditS3FlushBytes f) = (opened, Inl err)"
    | (listen) st' opened ss ts acts2 m cl2 where
        "buildAuditSinks W (f_auditPath f) (f_auditS3URL f) (f_auditS3FlushInterval f) (f_auditS3FlushBytes f) = (opened, Inr ss)"
        "run_listen verify f W ts = (acts2, m, cl2)"
        "acts = ?A st' @ map OpenSink opened @ NewAudit ss # acts2" "cl = cl2 @ CloseAudit ss # ?U st'"
        "\<And>sv. out = Inr sv \<Longrightarrow> sv_sinks sv = ss \<and> sv_store sv = st'"
  proof -
    let ?b = "buildAuditSinks W (f_auditPath f) (f_auditS3URL f) (f_auditS3FlushInterval f) (f_auditS3FlushBytes f)"
    note [simp] = run_def Let_def
    show thesis
    proof (cases "acts = []")
      case True
      then have "\<exists>err. out = Inl err \<and> cl = []" using assms by (auto split: if_splits sum.splits prod.splits)
      then obtain err where "out = Inl err" "cl = []" by blast
      then show ?thesis by (rule that(1) [OF True])
    next
      case False
      then obtain ts cfg st' where up: "loadAPITokens (f_tokensFile f) (w_tokensFile W) = Inr ts" "f_upstream f \<noteq> ''''"
        "Load C order (w_policyFile W) = Inr cfg" "openStore W (f_backend f) (f_dbPath f) = Inr st'"
        using assms by (auto split: if_splits sum.splits)
      show ?thesis
      proof (cases "buildEmbedder W (f_embedBackend f) (f_embedDim f) (f_embedN f) (f_embedURL f) (f_embedTimeout f)")
        case (Inl err)
        have "acts = ?A st' \<and> out = Inl (Wrapped ''embedder'' err) \<and> cl = ?U st'" using assms up Inl by simp
        then show ?thesis using that(2) by blast
      next
        case (Inr emb)
        obtain opened res where b: "?b = (opened, res)" by fastforce
        obtain acts2 m cl2 where l: "run_listen verify f W ts = (acts2, m, cl2)" by (metis prod_cases3)
        show ?thesis
        proof (cases res)
          case (Inl err)
          have "acts = ?A st' @ map OpenSink opened \<and> out = Inl (Wrapped ''audit'' err) \<and> cl = ?U st'"
            using assms up Inr b Inl by simp
          then show ?thesis using that(3) b Inl by blast
        next
          case (Inr ss)
          have "acts = ?A st' @ map OpenSink opened @ NewAudit ss # acts2 \<and> cl = cl2 @ CloseAudit ss # ?U st' \<and>
            (\<forall>sv. out = Inr sv \<longrightarrow> sv_sinks sv = ss \<and> sv_store sv = st')"
            using assms up b l Inr \<open>_ = Inr emb\<close> by (auto simp: map_sum_Inr)
          then show ?thesis using that(4) [OF _ l] b Inr by blast
        qed
      qed
    qed
  qed
  then show ?thesis
  proof cases
    case nothing
    then show ?thesis by (simp add: admin_guarded_def)
  next
    case store
    then show ?thesis by (auto simp: admin_guarded_def dest: compactor_watched)
  next
    case (sinks st' opened err)
    note b = buildAuditSinks_opened [OF sinks(4)]
    show ?thesis using sinks(1-3) b by (auto simp: admin_guarded_def distinct_map inj_on_def dest: compactor_watched)
  next
    case (listen st' opened ss ts acts2 m cl2)
    note b = buildAuditSinks_opened [OF listen(1)] and l = run_listen_unwinds [OF listen(2)]
    have d: "distinct acts"
      using l b(1) listen(3) by (auto simp: distinct_map inj_on_def split: action.splits dest!: start_compactor_actions)
    have c: "cl = concat (map closes (rev acts))" using l listen(3,4) by simp
    have "sinks_closed cl = sinks_opened acts" "admin_guarded f W acts"
      using l b(2) listen(3,4) by (auto simp: admin_guarded_def)
    with d c show ?thesis using b(2) l listen(3-5) by (auto split: sum.splits dest: compactor_watched)
  qed
qed

text \<open>A service that listens has the options of the flags, and startup has let it pass.\<close>

lemma loadAPITokens_distinct: "loadAPITokens path file = Inr tokens \<Longrightarrow> distinct (map fst tokens)"
  using token_lines_inv [of _ "[]" tokens] by (auto simp: loadAPITokens_def split: if_splits sum.splits)

definition gated :: "(bytes \<times> bytes) list \<Rightarrow> flags \<Rightarrow> world \<Rightarrow> adapter_option list \<Rightarrow> bytes \<Rightarrow> bool" where
  "gated ts f W opts addr \<longleftrightarrow> distinct (map fst ts) \<and>
     (\<exists>tls v. opts = adapter_options f W ts tls v \<and> (isLoopbackBind addr \<or> e_API_TOKEN W \<noteq> '''' \<or> ts \<noteq> [] \<or> v \<noteq> None))"

lemma run_listen_gated:
  assumes "run_listen verify f W ts = (acts, Inr m, cl)" "distinct (map fst ts)"
  shows "case m of HTTPMode addr _ _ opts \<Rightarrow> gated ts f W opts addr | MCPHTTPMode addr _ _ opts \<Rightarrow> gated ts f W opts addr
    | StdioMode _ _ _ \<Rightarrow> True"
  using assms
  by (fastforce simp: run_listen_def Let_def run_mode_def runHTTP_def runMCPHTTP_def runMCPStdio_def gated_def
      refuse_unauthenticated_def split: if_splits sum.splits option.splits list.splits)

lemma run_gated:
  assumes "run C order verify f W = (acts, Inr sv, cl)"
  obtains ts where "case sv_mode sv of HTTPMode addr _ _ opts \<Rightarrow> gated ts f W opts addr
    | MCPHTTPMode addr _ _ opts \<Rightarrow> gated ts f W opts addr | StdioMode _ _ _ \<Rightarrow> True"
proof -
  obtain ts acts2 m cl2 where "run_listen verify f W ts = (acts2, Inr m, cl2)" "sv_mode sv = m" "distinct (map fst ts)"
    using assms by (auto simp: run_def Let_def map_sum_Inr dest: loadAPITokens_distinct split: if_splits sum.splits prod.splits)
  then show ?thesis using run_listen_gated that by metis
qed

text \<open>The routes of the listener.\<close>

lemma longest_app:
  "longest p (app_mux app) None =
     (if p = ''/healthz'' then Some (''/healthz'', \<lambda>w r st. (respond 200 ''ok'' w, st))
      else if p = ''/readyz'' then Some (''/readyz'', \<lambda>w r st. (respond 200 ''ready'' w, st))
      else if HasPrefix p ''/'' then Some (''/'', app) else None)"
  by (auto simp: app_mux_def serves_def HasPrefix_def)

lemma app_mux_cases:
  obtains (redirected) loc where "mux_serve (app_mux app) w r st = (redirect loc r w, st)"
  | (unknown) "mux_serve (app_mux app) w r st = (http_Error ''404 page not found'' 404 w, st)"
  | (live) "rq_path r = ''/healthz''" "mux_serve (app_mux app) w r st = (respond 200 ''ok'' w, st)"
  | (ready) "rq_path r = ''/readyz''" "mux_serve (app_mux app) w r st = (respond 200 ''ready'' w, st)"
  | (adapter) "mux_serve (app_mux app) w r st = app w r st"
proof -
  let ?p = "if rq_method r = ''CONNECT'' then rq_path r else cleanPath (rq_path r)" and ?ms = "app_mux app"
  consider "?p \<notin> fst ` set ?ms \<and> ?p @ ''/'' \<in> fst ` set ?ms \<or> ?p \<noteq> rq_path r"
    | "\<not> (?p \<notin> fst ` set ?ms \<and> ?p @ ''/'' \<in> fst ` set ?ms)" "?p = rq_path r" by blast
  then show ?thesis
  proof cases
    case 1
    then show ?thesis using redirected by (cases "?p \<notin> fst ` set ?ms \<and> ?p @ ''/'' \<in> fst ` set ?ms") (simp_all add: mux_serve_def Let_def)
  next
    case 2
    then have "mux_serve ?ms w r st =
        (case longest (rq_path r) ?ms None of Some (_, h) \<Rightarrow> h w r st | None \<Rightarrow> (http_Error ''404 page not found'' 404 w, st))"
      by (simp only: mux_serve_def Let_def if_False not_True_eq_False simp_thms if_True)
    then show ?thesis using that(2-5) by (simp add: longest_app split: if_splits)
  qed
qed

text \<open>The options reach the gate.\<close>

lemma New_options:
  fixes X P reverse fmt f W ts tls v
  defines "X \<equiv> New P reverse fmt (adapter_options f W ts tls v)"
  shows "px_pipeline X = P" "px_upstream X = (\<lambda>w r. reverse tls w (director r))" "px_maxBodyBytes X = f_maxBodyBytes f"
    "px_format_f4 X = fmt" "proxy_Handler X read env pc =
      traced read (gate v ts (e_API_TOKEN W) ''potent'' (proxy_ServeHTTP X env pc))"
  by (simp_all add: X_def New_def New_proxy_def adapter_options_def default_opts_def proxy_Handler_def)

lemma NewHTTPHandler_options:
  fixes H P path transport fmt f W ts tls v
  defines "H \<equiv> NewHTTPHandler P path transport fmt (adapter_options f W ts tls v)"
  shows "mh_pipeline H = P" "mh_path H = path" "mh_client H = transport tls" "mh_maxBodyBytes H = f_maxBodyBytes f"
    "mcp_Handler H read env pc = traced read (gate v ts (e_API_TOKEN W) ''potent-mcp'' (mcp_ServeHTTP H env pc))"
  by (cases tls; simp add: H_def NewHTTPHandler_def adapter_options_def default_opts_def mcp_Handler_def)+

lemma listener_gated:
  assumes "listener P reverse transport fmt read env pc m = Some (addr, h)"
    "case m of HTTPMode addr _ _ opts \<Rightarrow> gated ts f W opts addr | MCPHTTPMode addr _ _ opts \<Rightarrow> gated ts f W opts addr
      | StdioMode _ _ _ \<Rightarrow> True"
  obtains v realm inner where "h = mux_serve (app_mux (traced read (gate v ts (e_API_TOKEN W) realm inner)))"
    "distinct (map fst ts)" "isLoopbackBind addr \<or> v \<noteq> None \<or> ts \<noteq> [] \<or> e_API_TOKEN W \<noteq> ''''"
  using assms
  by (cases m) (fastforce simp: listener_def gated_def New_options(5) NewHTTPHandler_options(5))+

lemma gate_refuses:
  assumes "distinct (map fst ts)" "v \<noteq> None \<or> ts \<noteq> [] \<or> tok \<noteq> ''''"
    "\<not> auth_startsWith (rq_header r ''Authorization'') ''Bearer ''"
  shows "gate v ts tok realm inner w r st = (unauthorized realm w, st)"
proof -
  have "credentials v ts tok (rq_header r ''Authorization'') = None"
    using assms(2,3) by (auto simp: credentials_def split: option.splits)
  then show ?thesis using gate_eq [OF assms(1), of v tok realm inner w r st] by simp
qed

section \<open>Properties\<close>

text \<open>C23. Startup undoes what it did, but for a file sink left behind a failing S3 sink. However \<open>run\<close> ends, no
  action was taken twice, and what it deferred is, in the opposite order of the actions, one close for each store,
  signal context of a compactor, audit writer and refresh of keys; a compactor that was started has its context
  stopped. The sinks that were opened, each with a goroutine, are exactly the ones the deferred close of the writer
  closes, with the one exception that the code has: when the S3 sink cannot be built, the run ends with an audit
  error and the file sink opened before it stays open. A run that comes to serve has closed or will close all of
  its sinks and its own store. The admin server is the one thing nothing stops; it is started at the address of its
  flag only, and never with an empty token.\<close>

theorem startup_unwinds:
  "case run C order verify f W of (acts, out, cl) \<Rightarrow>
     distinct acts \<and> cl = concat (map closes (rev acts)) \<and>
     ((\<exists>st d. StartCompactor st d \<in> set acts) \<longrightarrow> StopCompactor \<in> set cl) \<and>
     (sinks_closed cl = sinks_opened acts \<or>
       sinks_closed cl = [] \<and> f_auditS3URL f \<noteq> '''' \<and>
         (\<exists>fs err. sinks_opened acts = [FileSink (f_auditPath f) fs] \<and> out = Inl (Wrapped ''audit'' err))) \<and>
     (case out of Inr sv \<Rightarrow> sv_sinks sv = sinks_opened acts \<and> OpenStore (sv_store sv) \<in> set acts | Inl _ \<Rightarrow> True) \<and>
     {(a, t). StartAdmin a t \<in> set acts} \<subseteq> {(f_adminAddr f, e_ADMIN_TOKEN W)} \<inter> {(a, t). t \<noteq> ''''}"
  using run_unwinds by (simp add: admin_guarded_def split: prod.splits)

text \<open>C22. The gateway end to end is never open: whatever the flags, the environment and the mode, once \<open>run\<close>
  has come to serve on an address other than loopback, a request without a bearer header changes no state of
  the pipeline and is answered 401, a redirect, 404, or the text of the two health routes.\<close>

theorem exposed_gateway_authenticates:
  assumes "run C order verify f W = (acts, Inr sv, cl)"
    and "listener (pipeline_of S R emb L sv) reverse transport fmt read env pc (sv_mode sv) = Some (addr, h)"
    and "\<not> isLoopbackBind addr" "\<not> auth_startsWith (rq_header r ''Authorization'') ''Bearer ''"
    and "h w r (st, rnd) = (out, (st', rnd'))"
  shows "st' = st \<and> (case out of Waits \<Rightarrow> True | Panics _ \<Rightarrow> False | Served resp \<Rightarrow>
    rs_status resp \<in> {401, 301, 404} \<or>
    (rq_path r, rs_status resp, rs_body resp) \<in> {(''/healthz'', 200, rs_body w @ ''ok''), (''/readyz'', 200, rs_body w @ ''ready'')})"
proof -
  obtain ts where g: "case sv_mode sv of HTTPMode addr _ _ opts \<Rightarrow> gated ts f W opts addr
    | MCPHTTPMode addr _ _ opts \<Rightarrow> gated ts f W opts addr | StdioMode _ _ _ \<Rightarrow> True"
    using run_gated [OF assms(1)] .
  define tok where "tok = e_API_TOKEN W"
  obtain v realm inner where h: "h = mux_serve (app_mux (traced read (gate v ts tok realm inner)))"
    and ok: "distinct (map fst ts)" "v \<noteq> None \<or> ts \<noteq> [] \<or> tok \<noteq> ''''"
    unfolding tok_def using listener_gated [OF assms(2) g] assms(3) by metis
  have refused: "gate v ts tok realm inner w' r' st1 = (unauthorized realm w', st1)" if "rq_header r' = rq_header r" for w' r' st1
    by (rule gate_refuses [OF ok]) (use assms(4) that in simp)
  have "traced read (gate v ts tok realm inner) w r (st, rnd) = (out, (st', rnd')) \<Longrightarrow>
      st' = st \<and> (case out of Waits \<Rightarrow> True | Panics _ \<Rightarrow> False | Served resp \<Rightarrow> rs_status resp = 401)"
    by (auto simp: traced_def refused unauthorized_def http_Error_def respond_def Let_def split: option.splits prod.splits)
  then show ?thesis using assms(5) unfolding h
    by (cases rule: app_mux_cases [of "traced read (gate v ts tok realm inner)" w r "(st, rnd)"])
      (auto simp: redirect_def http_Error_def respond_def set_header_def split: http_out.splits)
qed

text \<open>The bracketed form, the only one in which \<open>net.Listen\<close> takes an IPv6 address with a port, is not recognised.\<close>

lemma bracketed_loopback: "isLoopbackBind ''::1:8080'' \<and> \<not> isLoopbackBind ''[::1]:8080''"
  by code_simp

section \<open>A concrete gateway\<close>

definition demo_flags :: flags where
  "demo_flags = default_flags\<lparr>f_upstream := ''http://u''\<rparr>"

definition demo_world :: world where
  "demo_world = \<lparr>e_API_TOKEN = ''secret'', e_ADMIN_TOKEN = '''', e_PG_DSN = '''', e_EMBED_API_KEY = '''',
     w_tokensFile = Inl ErrNotFound, w_policyFile = Inr '''', w_bolt = Inl ErrNotFound, w_postgres = (\<lambda>_. Inl ErrNotFound),
     w_auditStat = None, w_auditOpen = Inl ErrNotFound, w_awsConfig = Inl ErrNotFound, w_readCA = Inl ErrNotFound,
     w_hasCerts = (\<lambda>_. False), w_keyPair = (\<lambda>_ _. Inl ErrNotFound), w_urlParse = (\<lambda>_. Inr '''')\<rparr>"

definition demo_service :: service where
  "demo_service = \<lparr>sv_policy = empty_config, sv_store = MemoryStore, sv_embedder = Hashing \<lparr>dim = 384, nGramN = 4\<rparr>, sv_sinks = [],
     sv_shadow = False, sv_mode = HTTPMode '':8080'' '':9090'' '''' (adapter_options demo_flags demo_world [] None None)\<rparr>"

lemmas demo_fields = demo_flags_def default_flags_def demo_world_def

text \<open>The run, for any policy file that loads.\<close>

lemma demo_gateway_run_with:
  assumes "Load C (\<lambda>_. []) (Inr b) = Inr cfg"
  shows "run C (\<lambda>_. []) verify demo_flags (demo_world\<lparr>w_policyFile := Inr b\<rparr>) =
     ([OpenStore MemoryStore, WatchCompactor, NewAudit []], Inr (demo_service\<lparr>sv_policy := cfg\<rparr>),
      [CloseAudit [], StopCompactor, CloseStore MemoryStore])"
proof -
  let ?W = "demo_world\<lparr>w_policyFile := Inr b\<rparr>"
  have d: "run_listen verify demo_flags ?W [] = ([], Inr (sv_mode demo_service), [])"
    by (simp add: run_listen_def demo_fields refuse_unauthenticated_def buildUpstreamTLS_def run_mode_def runHTTP_def demo_service_def
        adapter_options_def)
  have "loadAPITokens (f_tokensFile demo_flags) (w_tokensFile ?W) = Inr []" "f_upstream demo_flags \<noteq> ''''"
    "w_policyFile ?W = Inr b" "openStore ?W (f_backend demo_flags) (f_dbPath demo_flags) = Inr MemoryStore"
    "buildEmbedder ?W (f_embedBackend demo_flags) (f_embedDim demo_flags) (f_embedN demo_flags) (f_embedURL demo_flags)
       (f_embedTimeout demo_flags) = Inr (sv_embedder demo_service)"
    "buildAuditSinks ?W (f_auditPath demo_flags) (f_auditS3URL demo_flags) (f_auditS3FlushInterval demo_flags)
       (f_auditS3FlushBytes demo_flags) = ([], Inr [])" "f_compactInterval demo_flags > 0" "\<not> f_shadowMode demo_flags"
    by (simp_all add: demo_fields loadAPITokens_def openStore_def buildEmbedder_def NewHashingTFIDF_def buildAuditSinks_def
        demo_service_def Hour_def Minute_def Second_def)
  then show ?thesis
    by (simp add: run_def assms d start_compactor_def) (simp add: demo_service_def)
qed

lemma demo_gateway_run:
  "run C (\<lambda>_. []) verify demo_flags demo_world =
     ([OpenStore MemoryStore, WatchCompactor, NewAudit []], Inr demo_service, [CloseAudit [], StopCompactor, CloseStore MemoryStore])"
proof -
  have "Load C (\<lambda>_. []) (Inr '''') = Inr empty_config"
    by (simp add: Load_def parse_def TrimSpace_dropWhile)
  from demo_gateway_run_with [OF this] show ?thesis by (simp add: demo_world_def demo_service_def)
qed

definition demo_strconv :: strconv where
  "demo_strconv = \<lparr>ParseFloat = (\<lambda>_. None), frac_ns = (\<lambda>_ _. 0)\<rparr>"

text \<open>An audit file and an S3 URL that is none: startup fails and leaves the file sink open.\<close>

definition demo_sinks_run :: "bytes \<Rightarrow> unit result \<Rightarrow> action list \<times> service result \<times> deferred list" where
  "demo_sinks_run u aws = run demo_strconv (\<lambda>_. []) (Verify (\<lambda>_ _ _. Inl ErrNotFound))
     (demo_flags\<lparr>f_auditPath := ''a.log'', f_auditS3URL := u\<rparr>) (demo_world\<lparr>w_auditOpen := Inr (), w_awsConfig := aws\<rparr>)"

lemma demo_sinks_run:
  "sinks_opened (fst (demo_sinks_run ''http://b'' aws)) = [FileSink ''a.log'' (newFileSinkWriter 1024)]"
  "sinks_closed (snd (snd (demo_sinks_run ''http://b'' aws))) = []"
  "last (snd (snd (demo_sinks_run ''http://b'' aws))) = CloseStore MemoryStore"
  "fst (snd (demo_sinks_run ''http://b'' aws)) = Inl (Wrapped ''audit'' (ErrMsg ''audit: s3 url must start with s3://''))"
proof -
  have "Load C order (w_policyFile (demo_world\<lparr>w_auditOpen := Inr (), w_awsConfig := aws\<rparr>)) = Inr empty_config"
    if "order = (\<lambda>_. [])" for C order
    by (simp add: that Load_def parse_def TrimSpace_dropWhile demo_world_def)
  then show "sinks_opened (fst (demo_sinks_run ''http://b'' aws)) = [FileSink ''a.log'' (newFileSinkWriter 1024)]"
    "sinks_closed (snd (snd (demo_sinks_run ''http://b'' aws))) = []"
    "last (snd (snd (demo_sinks_run ''http://b'' aws))) = CloseStore MemoryStore"
    "fst (snd (demo_sinks_run ''http://b'' aws)) = Inl (Wrapped ''audit'' (ErrMsg ''audit: s3 url must start with s3://''))"
    by (simp_all add: demo_sinks_run_def run_def demo_fields loadAPITokens_def openStore_def buildEmbedder_def NewHashingTFIDF_def
        buildAuditSinks_def NewFileSink_def ParseS3URL_def HasPrefix_def start_compactor_def)
qed

theorem startup_unwinds_witness:
  "case demo_sinks_run ''http://b'' (Inr ()) of (acts, out, cl) \<Rightarrow>
     sinks_opened acts = [FileSink ''a.log'' (newFileSinkWriter 1024)] \<and> sinks_closed cl = [] \<and>
     cl = concat (map closes (rev acts)) \<and> out = Inl (Wrapped ''audit'' (ErrMsg ''audit: s3 url must start with s3://'')) \<and>
     last cl = CloseStore MemoryStore"
proof -
  obtain acts out cl where r: "demo_sinks_run ''http://b'' (Inr ()) = (acts, out, cl)" by (metis prod_cases3)
  show ?thesis
    using startup_unwinds [where C = demo_strconv and order = "\<lambda>_. []" and verify = "Verify (\<lambda>_ _ _. Inl ErrNotFound)"
      and f = "demo_flags\<lparr>f_auditPath := ''a.log'', f_auditS3URL := ''http://b''\<rparr>"
      and W = "demo_world\<lparr>w_auditOpen := Inr (), w_awsConfig := Inr ()\<rparr>"]
      demo_sinks_run [of "Inr ()"] r
    by (simp add: demo_sinks_run_def)
qed

abbreviation demo_listen :: "service_mode \<Rightarrow> (bytes \<times> ((Memory, unit) pstate \<times> unit) handler) option" where
  "demo_listen \<equiv> listener (pipeline_of Memory_ops \<lparr>NewLimiter = (\<lambda>_ _. ()), Allow = (\<lambda>l _. (True, l))\<rparr> (\<lambda>_ _. Inr [])
     (libs demo_pipeline) demo_service) (\<lambda>_ _ w r. Inr w) (\<lambda>_. mh_client demo_mcp) (\<lambda>_. '''') no_random demo_request False"

theorem exposed_gateway_authenticates_witness:
  "run demo_strconv (\<lambda>_. []) (Verify (\<lambda>_ _ _. Inl ErrNotFound)) demo_flags demo_world =
     ([OpenStore MemoryStore, WatchCompactor, NewAudit []], Inr demo_service, [CloseAudit [], StopCompactor, CloseStore MemoryStore]) \<and>
   (\<exists>h resp st. demo_listen (sv_mode demo_service) = Some ('':8080'', h) \<and>
     h new_resp (demo_http '''') (New_pipeline NewMemory, ()) = (Served resp, st) \<and> fst st = New_pipeline NewMemory \<and> rs_status resp = 401)"
proof -
  let ?r = "demo_http ''''" and ?S = "New_pipeline NewMemory :: (Memory, unit) pstate"
  obtain h where l: "demo_listen (sv_mode demo_service) = Some ('':8080'', h)"
    by (simp add: demo_service_def listener_def)
  obtain out st' u where o: "h new_resp ?r (?S, ()) = (out, (st', u))" by (metis prod.exhaust)
  have b: "\<not> isLoopbackBind '':8080''" by code_simp
  have t: "rq_header ?r ''Traceparent'' = ''''" by (simp add: demo_http_def)
  have a: "\<not> auth_startsWith (rq_header ?r ''Authorization'') ''Bearer ''" by (simp add: demo_http_def auth_startsWith_def)
  have m: "mux_serve (app_mux app) w ?r s = app w ?r s" for app :: "'x handler" and w s
    by (simp add: mux_serve_def app_mux_def demo_http_def cleanPath_def serves_def HasPrefix_def)
  have "\<exists>resp. out = Served resp \<and> rs_status resp = 401"
    using o l by (auto simp: demo_service_def listener_def New_options(5) m no_random_traced [OF t] gate_refuses [OF _ _ a]
        demo_fields unauthorized_def http_Error_def respond_def split: if_splits)
  then show ?thesis
    using exposed_gateway_authenticates [OF demo_gateway_run l b a o] demo_gateway_run l o by fastforce
qed

end
