(* ===== verification/Admin.thy ===== *)
theory Admin
  imports Http_Mux Jsonrpc Store_Engines Embedding
begin

text \<open>
  \<open>internal/admin/admin.go\<close>: the operators' interface to the fingerprint cache. Statistics and listings scan
  the store; \<open>DELETE\<close> removes one fingerprint. The store is any implementation of the port of theory
  \<open>Store\<close>; \<open>admin_env\<close> is what a request finds when it reaches the store: the state of its context, the clock
  and the order in which the store visits its entries. The JSON text of an instant is a parameter; an instant
  beyond the year 9999 has none, and then the encoder writes nothing.
\<close>

section \<open>State\<close>

record 's admin =
  ad_in :: "'s store_ops"              \<comment> \<open>the \<open>Inspector\<close>\<close>
  ad_er :: "'s store_ops option"       \<comment> \<open>the \<open>Eraser\<close>, \<open>None\<close> for nil\<close>
  ad_token :: bytes
  ad_time :: "time \<Rightarrow> bytes option"
  ad_fp :: fp_ops

record admin_env =
  ae_ctx :: ctx
  ae_now :: time
  ae_order :: "bytes list"

record ToolStats =
  Entries :: int
  Replays :: int
  OldestEntry :: time
  NewestEntry :: time

record FingerprintView =
  fv_Tool :: bytes
  fv_Hash :: bytes
  fv_StatusCode :: int
  fv_CreatedAt :: time
  fv_ReplayCount :: int
  fv_TTLSeconds :: int

section \<open>JSON\<close>

definition writeJSON :: "http_resp \<Rightarrow> int \<Rightarrow> bytes option \<Rightarrow> http_out" where
  "writeJSON w status v =
     respond status (case v of Some t \<Rightarrow> t @ [CHR 0x0A] | None \<Rightarrow> '''') (set_header ''Content-Type'' ''application/json'' w)"

definition those_texts :: "bytes option list \<Rightarrow> bytes list option" where
  "those_texts xs = (if None \<in> set xs then None else Some (map the xs))"

definition tool_stats_text :: "'s admin \<Rightarrow> ToolStats \<Rightarrow> bytes option" where
  "tool_stats_text A st =
     (case (ad_time A (OldestEntry st), ad_time A (NewestEntry st)) of
        (Some old, Some new) \<Rightarrow>
          Some (object_text [(''entries'', Itoa (Entries st)), (''replays'', Itoa (Replays st)), (''oldest_entry'', old), (''newest_entry'', new)])
      | _ \<Rightarrow> None)"

definition stats_text :: "'s admin \<Rightarrow> (bytes \<times> ToolStats) list \<Rightarrow> bytes option" where
  "stats_text A tools =
     (case those_texts (map (tool_stats_text A \<circ> snd) tools) of
        Some ts \<Rightarrow> Some (object_text [(''tools'', object_text (zip (map fst tools) ts))])
      | None \<Rightarrow> None)"

definition view_text :: "'s admin \<Rightarrow> FingerprintView \<Rightarrow> bytes option" where
  "view_text A v =
     (case ad_time A (fv_CreatedAt v) of
        Some created \<Rightarrow>
          Some (object_text [(''tool'', marshal_string (fv_Tool v)), (''hash'', marshal_string (fv_Hash v)),
            (''status_code'', Itoa (fv_StatusCode v)), (''created_at'', created), (''replay_count'', Itoa (fv_ReplayCount v)),
            (''ttl_seconds'', Itoa (fv_TTLSeconds v))])
      | None \<Rightarrow> None)"

definition views_text :: "'s admin \<Rightarrow> FingerprintView list \<Rightarrow> bytes option" where
  "views_text A vs = map_option (\<lambda>ts. ''['' @ Join '','' ts @ '']'') (those_texts (map (view_text A) vs))"

section \<open>Statistics\<close>

definition stats_visit :: "ToolStats \<Rightarrow> Entry \<Rightarrow> ToolStats \<times> bool" where
  "stats_visit st e =
     (let st1 = st\<lparr>Entries := Entries st + 1, Replays := int64_wrap (Replays st + ReplayCount e)\<rparr>;
          st2 = (if IsZero (OldestEntry st1) \<or> CreatedAt e < OldestEntry st1 then st1\<lparr>OldestEntry := CreatedAt e\<rparr> else st1);
          st3 = (if NewestEntry st2 < CreatedAt e then st2\<lparr>NewestEntry := CreatedAt e\<rparr> else st2)
      in (st3, True))"

text \<open>The error of \<open>Scan\<close> is ignored. In the port it comes before any entry was visited, as it does with the in-memory and
  the BoltDB adapter and with a PostgreSQL query that is refused; rows that stop coming half-way, after which the code
  reports the entries seen so far, are outside the model.\<close>

definition computeStats :: "'s admin \<Rightarrow> admin_env \<Rightarrow> bytes \<Rightarrow> 's \<Rightarrow> (bytes \<times> ToolStats) list" where
  "computeStats A env tool s =
     (if tool = '''' then []
      else [(tool,
        (case s_Scan (ad_in A) s (ae_ctx env) (ae_now env) (ae_order env) tool of
           Inr es \<Rightarrow> visit_loop stats_visit \<lparr>Entries = 0, Replays = 0, OldestEntry = 0, NewestEntry = 0\<rparr> es
         | Inl _ \<Rightarrow> \<lparr>Entries = 0, Replays = 0, OldestEntry = 0, NewestEntry = 0\<rparr>))])"

section \<open>Listings\<close>

text \<open>\<open>int64(d.Seconds())\<close>: whole seconds and the fraction are added as \<open>float64\<close>, and the sum is truncated.\<close>

definition Seconds :: "fp_ops \<Rightarrow> duration \<Rightarrow> flt" where
  "Seconds F d =
     (let sec = go_div d Second; nsec = d - sec * Second
      in f_add (R64 F) (R64 F (of_int sec)) (f_div (R64 F) (R64 F (of_int nsec)) (Fin 1000000000)))"

definition view_entry :: "'s admin \<Rightarrow> Entry \<Rightarrow> FingerprintView" where
  "view_entry A e =
     \<lparr>fv_Tool = Tool e, fv_Hash = Hash e, fv_StatusCode = StatusCode e, fv_CreatedAt = CreatedAt e,
      fv_ReplayCount = ReplayCount e, fv_TTLSeconds = trunc_int (Seconds (ad_fp A) (TTL e))\<rparr>"

fun error_text :: "go_error \<Rightarrow> bytes" where
  "error_text ErrNotFound = ''store: not found''"
| "error_text ErrCtx = ''context canceled''"
| "error_text (ErrMsg m) = m"
| "error_text (Wrapped m e) = m @ '': '' @ error_text e"

definition listFingerprints :: "'s admin \<Rightarrow> admin_env \<Rightarrow> http_resp \<Rightarrow> http_req \<Rightarrow> 's \<Rightarrow> http_out" where
  "listFingerprints A env w r s =
     (let tool = query_Get (rq_query r) ''tool'' in
      if tool = '''' then http_Error ''tool query param is required'' 400 w
      else case s_Scan (ad_in A) s (ae_ctx env) (ae_now env) (ae_order env) tool of
             Inl err \<Rightarrow> http_Error (error_text err) 500 w
           | Inr es \<Rightarrow> writeJSON w 200 (views_text A (visit_loop (\<lambda>out e. (out @ [view_entry A e], True)) [] es)))"

section \<open>The endpoints\<close>

definition splitToolHash :: "bytes \<Rightarrow> (bytes \<times> bytes) option" where
  "splitToolHash path =
     (if \<not> HasPrefix path ''/fingerprints/'' then None
      else let rest = TrimPrefix path ''/fingerprints/'' in
           case LastIndex rest (CHR ''/'') of
             None \<Rightarrow> None
           | Some idx \<Rightarrow>
               if idx = 0 \<or> Suc idx = length rest then None else Some (take idx rest, drop (Suc idx) rest))"

definition serve_stats :: "'s admin \<Rightarrow> admin_env \<Rightarrow> 's handler" where
  "serve_stats A env w r s = (writeJSON w 200 (stats_text A (computeStats A env (query_Get (rq_query r) ''tool'') s)), s)"

definition serve_list :: "'s admin \<Rightarrow> admin_env \<Rightarrow> 's handler" where
  "serve_list A env w r s =
     (if rq_method r = ''GET'' then listFingerprints A env w r s else http_Error ''method not allowed'' 405 w, s)"

definition serve_delete :: "'s admin \<Rightarrow> admin_env \<Rightarrow> 's handler" where
  "serve_delete A env w r s =
     (if rq_method r \<noteq> ''DELETE'' then (http_Error ''method not allowed'' 405 w, s)
      else case ad_er A of
             None \<Rightarrow> (http_Error ''delete not configured'' 501 w, s)
           | Some er \<Rightarrow>
               (case splitToolHash (rq_path r) of
                  None \<Rightarrow> (http_Error ''expected /fingerprints/{tool}/{hash}'' 400 w, s)
                | Some (tool, hash) \<Rightarrow>
                    (case s_Delete er s (ae_ctx env) tool hash of
                       (Inl err, s') \<Rightarrow> (http_Error (error_text err) 500 w, s')
                     | (Inr _, s') \<Rightarrow> (respond 204 '''' w, s'))))"

definition admin_mux :: "'s admin \<Rightarrow> admin_env \<Rightarrow> 's mux" where
  "admin_mux A env = [(''/stats'', serve_stats A env), (''/fingerprints'', serve_list A env), (''/fingerprints/'', serve_delete A env)]"

definition admin_Handler :: "'s admin \<Rightarrow> 'r reader \<Rightarrow> admin_env \<Rightarrow> ('s \<times> 'r) handler" where
  "admin_Handler A read env = traced read (RequireBearer (ad_token A) ''potent-admin'' (mux_serve (admin_mux A env)))"

section \<open>Lemmas\<close>



lemma splitToolHash_path:
  assumes "tool \<noteq> ''''" "hash \<noteq> ''''" "CHR ''/'' \<notin> set hash"
  shows "splitToolHash (''/fingerprints/'' @ tool @ ''/'' @ hash) = Some (tool, hash)"
  using LastIndex_split [OF assms(3), of tool] assms(1,2)
  by (simp add: splitToolHash_def HasPrefix_def TrimPrefix_def)

lemma admin_route:
  assumes "cleanPath (rq_path r) = rq_path r"
  shows "mux_serve (admin_mux A env) w r s =
    (if rq_path r = ''/stats'' then serve_stats A env w r s
     else if rq_path r = ''/fingerprints'' then serve_list A env w r s
     else if HasPrefix (rq_path r) ''/fingerprints/'' then serve_delete A env w r s
     else (http_Error ''404 page not found'' 404 w, s))"
proof -
  have s: "serves ''/stats'' p \<longleftrightarrow> p = ''/stats''" "serves ''/fingerprints'' p \<longleftrightarrow> p = ''/fingerprints''"
    "serves ''/fingerprints/'' p \<longleftrightarrow> HasPrefix p ''/fingerprints/''" for p
    by (auto simp: serves_def HasPrefix_iff)
  have "\<not> HasPrefix ''/stats'' ''/fingerprints/''" "\<not> HasPrefix ''/fingerprints'' ''/fingerprints/''"
    by (simp_all add: HasPrefix_def)
  with s have l: "longest (rq_path r) (admin_mux A env) None =
    (if rq_path r = ''/stats'' then Some (''/stats'', serve_stats A env)
     else if rq_path r = ''/fingerprints'' then Some (''/fingerprints'', serve_list A env)
     else if HasPrefix (rq_path r) ''/fingerprints/'' then Some (''/fingerprints/'', serve_delete A env) else None)"
    by (auto simp: admin_mux_def)
  have "rq_path r @ ''/'' \<in> fst ` set (admin_mux A env) \<Longrightarrow> rq_path r \<in> fst ` set (admin_mux A env)"
    by (auto simp: admin_mux_def snoc_eq_iff_butlast)
  from mux_serve_clean [OF assms this, of w s] show ?thesis unfolding l by simp
qed

text \<open>What a listing shows of an entry.\<close>

definition public :: "Entry \<Rightarrow> Entry" where
  "public e = e\<lparr>Request := '''', Response := '''', Embedding := []\<rparr>"

definition scan_public :: "'s store_ops \<Rightarrow> admin_env \<Rightarrow> bytes \<Rightarrow> 's \<Rightarrow> Entry list result" where
  "scan_public S env tool s = map_sum id (map public) (s_Scan S s (ae_ctx env) (ae_now env) (ae_order env) tool)"

lemma public_simps [simp]:
  "Tool (public e) = Tool e" "Hash (public e) = Hash e" "StatusCode (public e) = StatusCode e" "CreatedAt (public e) = CreatedAt e"
  "ReplayCount (public e) = ReplayCount e" "TTL (public e) = TTL e"
  by (simp_all add: public_def)

lemma stats_public: "visit_loop stats_visit st (map public es) = visit_loop stats_visit st es"
  by (induction es arbitrary: st) (auto simp: stats_visit_def Let_def)

lemma stats_cong: "map public es = map public es' \<Longrightarrow> visit_loop stats_visit st es = visit_loop stats_visit st es'"
  by (metis stats_public)

lemma views_visit: "visit_loop (\<lambda>out e. (out @ [f e], True)) acc es = acc @ map f es"
  by (induction es arbitrary: acc) auto

lemma scan_public_cases:
  assumes "scan_public S env tool s = scan_public S env tool s'"
  shows "(\<exists>err. s_Scan S s (ae_ctx env) (ae_now env) (ae_order env) tool = Inl err \<and>
      s_Scan S s' (ae_ctx env) (ae_now env) (ae_order env) tool = Inl err) \<or>
    (\<exists>es es'. s_Scan S s (ae_ctx env) (ae_now env) (ae_order env) tool = Inr es \<and>
      s_Scan S s' (ae_ctx env) (ae_now env) (ae_order env) tool = Inr es' \<and> map public es = map public es')"
  using assms
  by (cases "s_Scan S s (ae_ctx env) (ae_now env) (ae_order env) tool";
      cases "s_Scan S s' (ae_ctx env) (ae_now env) (ae_order env) tool") (auto simp: scan_public_def)

lemma view_public: "map public es = map public es' \<Longrightarrow> map (view_entry A) es = map (view_entry A) es'"
proof -
  have "view_entry A = view_entry A \<circ> public" by (simp add: fun_eq_iff view_entry_def)
  then show "map public es = map public es' \<Longrightarrow> ?thesis" by (metis list.map_comp)
qed

lemma reads_public:
  assumes "\<And>tool. scan_public (ad_in A) env tool s = scan_public (ad_in A) env tool s'"
  shows "computeStats A env tool s = computeStats A env tool s'" "listFingerprints A env w r s = listFingerprints A env w r s'"
  using scan_public_cases [OF assms [of tool]] scan_public_cases [OF assms [of "query_Get (rq_query r) ''tool''"]]
  by (auto simp: computeStats_def listFingerprints_def Let_def views_visit dest: stats_cong view_public [of _ _ A])

lemma RequireBearer_pass:
  assumes "token = '''' \<or> rq_header r ''Authorization'' = ''Bearer '' @ token"
  shows "RequireBearer token realm h w r s = h w r s"
  using assms by (auto simp: RequireBearer_def ConstantTimeCompare_eq)

text \<open>The life of a fingerprint under \<open>DELETE\<close>, for every store that keeps the contract.\<close>

context store_port
begin

lemma delete_request:
  assumes "inv s" "ready s" "okkey t h" "ad_er A = Some S" "ae_ctx env = None" "rq_method r = ''DELETE''"
    "splitToolHash (rq_path r) = Some (t, h)"
  shows "\<exists>s'. serve_delete A env w r s =
      (if view s (t, h) = None then http_Error ''store: not found'' 500 w else respond 204 '''' w, s') \<and>
    view s' = (view s)((t, h) := None) \<and> fst (s_Get S s' None now t h) = Inl ErrNotFound"
proof (cases "view s (t, h)")
  case None
  then have "(view s)((t, h) := None) = view s" by auto
  with None show ?thesis using assms delete_miss get_miss by (simp add: serve_delete_def)
next
  case (Some e)
  then obtain s' where "s_Delete S s None t h = (Inr (), s')" "inv s'" "ready s'" "view s' = (view s)((t, h) := None)"
    using delete [OF assms(1-3)] by auto
  with Some show ?thesis using assms get_miss by (simp add: serve_delete_def)
qed

lemma list_request:
  assumes "inv s" "ready s" "okkey t []" "order_ok s (ae_order env)" "ad_in A = S" "ae_ctx env = None" "t \<noteq> ''''"
    "query_Get (rq_query r) ''tool'' = t"
  shows "\<exists>es. set es = {e. \<exists>h. view s (t, h) = Some e \<and> \<not> Expired e (ae_now env)} \<and>
    listFingerprints A env w r s = writeJSON w 200 (views_text A (map (view_entry A) es)) \<and>
    computeStats A env t s = [(t, foldl (\<lambda>st e. fst (stats_visit st e)) \<lparr>Entries = 0, Replays = 0, OldestEntry = 0, NewestEntry = 0\<rparr> es)]"
proof -
  have v: "\<And>st e. snd (stats_visit st e)" by (simp add: stats_visit_def Let_def)
  obtain es where "s_Scan S s None (ae_now env) (ae_order env) t = Inr es" "set es = {e. \<exists>h. view s (t, h) = Some e \<and> \<not> Expired e (ae_now env)}"
    using scan [OF assms(1-4)] by blast
  then show ?thesis
    using assms(5-8) by (intro exI [of _ es]) (simp add: listFingerprints_def computeStats_def views_visit visit_loop_all [OF v])
qed

end

lemma fst_serve_delete:
  "fst (serve_delete A env w r s) =
     (if rq_method r \<noteq> ''DELETE'' then http_Error ''method not allowed'' 405 w
      else case ad_er A of
             None \<Rightarrow> http_Error ''delete not configured'' 501 w
           | Some er \<Rightarrow>
               (case splitToolHash (rq_path r) of
                  None \<Rightarrow> http_Error ''expected /fingerprints/{tool}/{hash}'' 400 w
                | Some (tool, hash) \<Rightarrow>
                    (case fst (s_Delete er s (ae_ctx env) tool hash) of
                       Inl err \<Rightarrow> http_Error (error_text err) 500 w
                     | Inr _ \<Rightarrow> respond 204 '''' w)))"
  by (auto simp: serve_delete_def split: option.split prod.split sum.split)

lemma int64_wrap_add: "int64_wrap (int64_wrap a + b) = int64_wrap (a + b)"
  unfolding int64_wrap_word by (simp flip: wi_hom_add)

abbreviation stats_of :: "ToolStats \<Rightarrow> Entry list \<Rightarrow> ToolStats" where
  "stats_of \<equiv> foldl (\<lambda>st e. fst (stats_visit st e))"

lemma stats_counts:
  "Entries (stats_of st es) = Entries st + int (length es)"
  "in_int64 (Replays st) \<Longrightarrow> Replays (stats_of st es) = int64_wrap (Replays st + sum_list (map ReplayCount es))"
  by (induction es arbitrary: st) (simp_all add: stats_visit_def Let_def int64_wrap_add add.assoc)

lemma stats_newest: "NewestEntry (stats_of st es) = Max (insert (NewestEntry st) (CreatedAt ` set es))"
proof (induction es arbitrary: st)
  case (Cons e es)
  have "NewestEntry (fst (stats_visit st e)) = max (NewestEntry st) (CreatedAt e)" by (simp add: stats_visit_def Let_def)
  then show ?case using Cons [of "fst (stats_visit st e)"] by (cases "es = []") (simp_all add: Max_insert max.assoc)
qed simp

lemma stats_oldest:
  assumes "\<forall>e \<in> set es. 0 < CreatedAt e" "0 < OldestEntry st"
  shows "OldestEntry (stats_of st es) = Min (insert (OldestEntry st) (CreatedAt ` set es))"
  using assms
proof (induction es arbitrary: st)
  case (Cons e es)
  then have o1: "OldestEntry (fst (stats_visit st e)) = min (OldestEntry st) (CreatedAt e)"
    by (simp add: stats_visit_def Let_def IsZero_def)
  then have "OldestEntry (stats_of (fst (stats_visit st e)) es) = Min (insert (min (OldestEntry st) (CreatedAt e)) (CreatedAt ` set es))"
    using Cons by simp
  then show ?case by (cases "es = []") (simp_all add: Min_insert min.assoc)
qed simp

lemma stats_first:
  assumes "\<forall>e \<in> set es. 0 < CreatedAt e" "es \<noteq> []" "OldestEntry st = 0"
  shows "OldestEntry (stats_of st es) = Min (CreatedAt ` set es)"
proof -
  obtain e es' where es: "es = e # es'" using assms(2) by (cases es) auto
  have "OldestEntry (fst (stats_visit st e)) = CreatedAt e" using assms(3) by (simp add: stats_visit_def Let_def IsZero_def)
  then show ?thesis using stats_oldest [of es' "fst (stats_visit st e)"] assms(1) es by simp
qed

section \<open>Properties\<close>

text \<open>C19. The admin interface does not leak payloads: whatever is requested, the response depends on the
  stored requests, responses and embeddings in no way. Two stores that agree on everything else (and on
  whether a deletion succeeds) give the same response, byte for byte, through the whole handler.\<close>

theorem admin_hides_payloads:
  assumes "\<And>tool. scan_public (ad_in A) env tool s = scan_public (ad_in A) env tool s'"
    and "\<And>er t h. ad_er A = Some er \<Longrightarrow> fst (s_Delete er s (ae_ctx env) t h) = fst (s_Delete er s' (ae_ctx env) t h)"
  shows "fst (admin_Handler A read env w r (s, rnd)) = fst (admin_Handler A read env w r (s', rnd))"
proof -
  have d: "fst (serve_delete A env w r s) = fst (serve_delete A env w r s')" for w r
    using assms(2) unfolding fst_serve_delete by (auto split: option.split)
  have "fst (h w r s) = fst (h w r s')" if "(k, h) \<in> set (admin_mux A env)" for k h w r
    using that d reads_public [OF assms(1)] by (auto simp: admin_mux_def serve_stats_def serve_list_def)
  then have "fst (mux_serve (admin_mux A env) w r s) = fst (mux_serve (admin_mux A env) w r s')" for w r
    by (rule mux_serve_agree)
  then show ?thesis
    unfolding admin_Handler_def by (intro traced_agree) (simp add: RequireBearer_def)
qed

text \<open>C20. \<open>DELETE /fingerprints/{tool}/{hash}\<close> on the in-memory store, through authentication and tracing: an
  authorized request removes exactly that fingerprint (204), or answers 500 when there is none, and afterwards
  a lookup at any time misses; a request without the token gets 401 and changes nothing. The tool may contain
  slashes.\<close>

theorem admin_delete_removes:
  assumes m: "keys_ok m" "key_ok t h" "t \<noteq> ''''" "h \<noteq> ''''" "CHR ''/'' \<notin> set h"
    and A: "ad_er A = Some Memory_ops" "ae_ctx env = None"
    and r: "rq_method r = ''DELETE''" "rq_path r = ''/fingerprints/'' @ t @ ''/'' @ h" "cleanPath (rq_path r) = rq_path r"
    and served: "admin_Handler A read env w r (m, rnd) = (Served resp, (m', rnd'))"
  shows "if ad_token A = '''' \<or> rq_header r ''Authorization'' = ''Bearer '' @ ad_token A
    then rs_status resp = (if view_of m (t, h) = None then 500 else 204) \<and> view_of m' = (view_of m)((t, h) := None) \<and>
      (\<forall>now. fst (mem_Get m' None now t h) = Inl ErrNotFound)
    else rs_status resp = 401 \<and> m' = m"
proof -
  obtain w' r' where h: "RequireBearer (ad_token A) ''potent-admin'' (mux_serve (admin_mux A env)) w' r' m = (Served resp, m')"
    and r': "rq_header r' = rq_header r" "rq_path r' = rq_path r" "rq_method r' = rq_method r"
    using traced_served [OF served [unfolded admin_Handler_def]] by metis
  show ?thesis
  proof (cases "ad_token A = '''' \<or> rq_header r ''Authorization'' = ''Bearer '' @ ad_token A")
    case True
    have "HasPrefix (rq_path r) ''/fingerprints/''" "rq_path r \<noteq> ''/stats''" "rq_path r \<noteq> ''/fingerprints''"
      by (simp_all add: r(2) HasPrefix_def)
    then have "mux_serve (admin_mux A env) w' r' m = serve_delete A env w' r' m"
      using admin_route [of r' A env w' m] r' r(3) by simp
    then have sd: "serve_delete A env w' r' m = (Served resp, m')"
      using h RequireBearer_pass [of "ad_token A" r' "''potent-admin''" "mux_serve (admin_mux A env)" w' m] True r' by simp
    have sp: "splitToolHash (rq_path r') = Some (t, h)" using splitToolHash_path m(3-5) r(2) r'(2) by simp
    have "rs_status resp = (if view_of m (t, h) = None then 500 else 204) \<and> view_of m' = (view_of m)((t, h) := None) \<and>
      fst (mem_Get m' None now t h) = Inl ErrNotFound" for now
      using mem.delete_request [OF m(1) TrueI m(2) A _ sp, of w' now] r(1) r'(3) sd
      by (auto simp: Memory_ops_def http_Error_def respond_def split: if_splits)
    then show ?thesis using True by simp
  next
    case False
    then show ?thesis using h r'
      by (auto simp: RequireBearer_def ConstantTimeCompare_eq unauthorized_def http_Error_def respond_def)
  qed
qed

text \<open>Statistics and listing of a tool, on the in-memory store: both report exactly the entries of the tool
  that have not expired. The listing has one view per entry; the statistics count the entries, add up their
  replays (in 64-bit arithmetic) and give the earliest and the latest creation time.\<close>

theorem admin_reports_live_entries:
  assumes "keys_ok m" "key_ok t []" "t \<noteq> ''''" "mem_order_ok m (ae_order env)" "ad_in A = Memory_ops" "ae_ctx env = None"
    "query_Get (rq_query r) ''tool'' = t" "rq_method r = ''GET''"
  shows "\<exists>es st. set es = {e. \<exists>h. view_of m (t, h) = Some e \<and> \<not> Expired e (ae_now env)} \<and>
    serve_list A env w r m = (writeJSON w 200 (views_text A (map (view_entry A) es)), m) \<and>
    serve_stats A env w r m = (writeJSON w 200 (stats_text A [(t, st)]), m) \<and>
    Entries st = int (length es) \<and> Replays st = int64_wrap (sum_list (map ReplayCount es)) \<and>
    (es \<noteq> [] \<longrightarrow> (\<forall>e \<in> set es. 0 < CreatedAt e) \<longrightarrow>
      OldestEntry st = Min (CreatedAt ` set es) \<and> NewestEntry st = Max (CreatedAt ` set es))"
proof -
  let ?z = "\<lparr>Entries = 0, Replays = 0, OldestEntry = 0, NewestEntry = 0\<rparr>"
  obtain es where es: "set es = {e. \<exists>h. view_of m (t, h) = Some e \<and> \<not> Expired e (ae_now env)}"
    "listFingerprints A env w r m = writeJSON w 200 (views_text A (map (view_entry A) es))"
    "computeStats A env t m = [(t, stats_of ?z es)]"
    using mem.list_request [OF assms(1) TrueI assms(2,4-6,3,7), of w] by blast
  have "Max (insert 0 (CreatedAt ` set es)) = Max (CreatedAt ` set es)" if "es \<noteq> []" "\<forall>e \<in> set es. 0 < CreatedAt e"
  proof -
    have "0 \<le> Max (CreatedAt ` set es)" using that by (metis Max_ge List.finite_set finite_imageI imageI less_le_trans less_imp_le list.set_sel(1))
    then show ?thesis using that by (simp add: Max_insert)
  qed
  then show ?thesis
    using es stats_counts [of ?z es] stats_newest [of ?z es] stats_first [of es ?z] assms(7,8)
    by (intro exI [of _ es] exI [of _ "stats_of ?z es"]) (simp add: serve_list_def serve_stats_def in_int64_def int64_min_def int64_max_def)
qed

section \<open>Instances\<close>

definition demo_entry :: "bytes \<Rightarrow> Entry" where
  "demo_entry body = \<lparr>Tool = ''t'', Hash = ''h'', Request = body, Response = body, StatusCode = 200, CreatedAt = 5, ReplayCount = 2,
     TTL = 0, Embedding = []\<rparr>"

definition demo_memory :: "bytes \<Rightarrow> Memory" where
  "demo_memory body = [key ''t'' ''h'' \<mapsto> demo_entry body]"

definition demo_admin :: "Memory admin" where
  "demo_admin = \<lparr>ad_in = Memory_ops, ad_er = Some Memory_ops, ad_token = ''s'', ad_time = (\<lambda>t. Some (Itoa t)), ad_fp = exact_fp\<rparr>"

definition demo_admin_env :: admin_env where
  "demo_admin_env = \<lparr>ae_ctx = None, ae_now = 7, ae_order = [key ''t'' ''h'']\<rparr>"

definition demo_admin_req :: "bytes \<Rightarrow> bytes \<Rightarrow> bytes \<Rightarrow> http_req" where
  "demo_admin_req meth path query = \<lparr>rq_method = meth, rq_path = path, rq_query = query,
     rq_header = (\<lambda>k. if k = ''Authorization'' then ''Bearer s'' else ''''), rq_body = Inr '''', rq_caller = '''', rq_span = None\<rparr>"

lemma demo_admin_simps [simp]:
  "ad_in demo_admin = Memory_ops" "ad_er demo_admin = Some Memory_ops" "ad_token demo_admin = ''s''"
  "ae_ctx demo_admin_env = None" "ae_now demo_admin_env = 7" "ae_order demo_admin_env = [key ''t'' ''h'']"
  by (simp_all add: demo_admin_def demo_admin_env_def)

lemma demo_view: "view_of (demo_memory b) (''t'', ''h'') = Some (demo_entry b)" "keys_ok (demo_memory b)"
  "key_ok ''t'' ''h''" "key_ok ''t'' ''''" "mem_order_ok (demo_memory b) [key ''t'' ''h'']"
proof -
  have "key_ok ''t'' ''h''" by (simp add: key_ok_def nul_free_def NUL_def)
  then show "keys_ok (demo_memory b)" by (auto simp: demo_memory_def keys_ok_def split: if_splits)
qed (auto simp: view_of_def demo_memory_def key_ok_def nul_free_def NUL_def mem_order_ok_def split: if_splits)

theorem admin_hides_payloads_witness:
  "demo_memory ''x'' \<noteq> demo_memory ''y'' \<and>
   fst (admin_Handler demo_admin no_random demo_admin_env new_resp (demo_admin_req ''GET'' ''/fingerprints'' ''tool=t'') (demo_memory ''x'', ())) =
   fst (admin_Handler demo_admin no_random demo_admin_env new_resp (demo_admin_req ''GET'' ''/fingerprints'' ''tool=t'') (demo_memory ''y'', ()))"
proof -
  have "demo_memory ''x'' (key ''t'' ''h'') \<noteq> demo_memory ''y'' (key ''t'' ''h'')" by (simp add: demo_memory_def demo_entry_def)
  then have ne: "demo_memory ''x'' \<noteq> demo_memory ''y''" by metis
  have sc: "scan_public (ad_in demo_admin) demo_admin_env tool (demo_memory b) = Inr (if startsWith (key ''t'' ''h'') (tool @ [NUL]) then [public (demo_entry '''')] else [])" for tool b
    by (simp add: scan_public_def Memory_ops_def mem_Scan_def demo_memory_def Expired_def demo_entry_def public_def)
  have "fst (s_Delete er (demo_memory ''x'') (ae_ctx demo_admin_env) t h) = fst (s_Delete er (demo_memory ''y'') (ae_ctx demo_admin_env) t h)"
    if "ad_er demo_admin = Some er" for er t h
    using that by (auto simp: Memory_ops_def mem_Delete_def demo_memory_def Let_def)
  from admin_hides_payloads [OF _ this, of demo_admin] sc ne show ?thesis by simp
qed

theorem admin_delete_removes_witness:
  "\<exists>resp m'. admin_Handler demo_admin no_random demo_admin_env new_resp (demo_admin_req ''DELETE'' ''/fingerprints/t/h'' '''') (demo_memory '''', ()) =
     (Served resp, (m', ())) \<and> rs_status resp = 204 \<and> fst (mem_Get m' None 7 ''t'' ''h'') = Inl ErrNotFound"
proof -
  let ?r = "demo_admin_req ''DELETE'' ''/fingerprints/t/h'' ''''"
  have "cleanPath (CHR ''/'' # Join ''/'' [''fingerprints'', ''t'', ''h'']) = CHR ''/'' # Join ''/'' [''fingerprints'', ''t'', ''h'']"
    by (rule cleanPath_plain) (simp_all add: plain_segment_def)
  then have c: "cleanPath (rq_path ?r) = rq_path ?r" by (simp add: demo_admin_req_def)
  have b: "RequireBearer ''s'' realm h w ?r s = h w ?r s" for realm w s and h :: "Memory handler"
    by (rule RequireBearer_pass) (simp add: demo_admin_req_def)
  have t: "rq_header ?r ''Traceparent'' = ''''" by (simp add: demo_admin_req_def)
  have mx: "mux_serve (admin_mux demo_admin demo_admin_env) new_resp ?r (demo_memory '''') =
      serve_delete demo_admin demo_admin_env new_resp ?r (demo_memory '''')"
    unfolding admin_route [OF c] by (simp add: demo_admin_req_def HasPrefix_def)
  have "\<exists>out m'. admin_Handler demo_admin no_random demo_admin_env new_resp ?r (demo_memory '''', ()) = (out, (m', ())) \<and>
      serve_delete demo_admin demo_admin_env new_resp ?r (demo_memory '''') = (out, m')"
    unfolding admin_Handler_def no_random_traced [OF t] demo_admin_simps b mx by (simp split: prod.split)
  then obtain out m' where o1: "admin_Handler demo_admin no_random demo_admin_env new_resp ?r (demo_memory '''', ()) = (out, (m', ()))"
    "serve_delete demo_admin demo_admin_env new_resp ?r (demo_memory '''') = (out, m')" by blast
  have sp: "splitToolHash (rq_path ?r) = Some (''t'', ''h'')"
    using splitToolHash_path [of "''t''" "''h''"] by (simp add: demo_admin_req_def)
  have "out = respond 204 '''' new_resp"
    using o1(2) mem.delete_request [OF demo_view(2) [of "''''"] TrueI demo_view(3), where A = demo_admin and env = demo_admin_env and r = ?r and w = new_resp]
      sp demo_view(1) [of "''''"] by (simp add: demo_admin_req_def)
  then obtain resp where resp: "out = Served resp" by (auto simp: respond_def)
  from admin_delete_removes [OF demo_view(2,3) _ _ _ _ _ _ _ c o1(1) [unfolded resp]]
  have "rs_status resp = 204 \<and> (\<forall>now. fst (mem_Get m' None now ''t'' ''h'') = Inl ErrNotFound)"
    by (simp add: demo_admin_req_def demo_view(1))
  then show ?thesis using o1(1) resp by blast
qed

theorem admin_reports_live_entries_witness:
  "\<exists>es st. set es = {demo_entry ''''} \<and>
     serve_stats demo_admin demo_admin_env new_resp (demo_admin_req ''GET'' ''/stats'' ''tool=t'') (demo_memory '''') =
       (writeJSON new_resp 200 (stats_text demo_admin [(''t'', st)]), demo_memory '''') \<and>
     Entries st = int (length es) \<and> OldestEntry st = 5"
proof -
  let ?r = "demo_admin_req ''GET'' ''/stats'' ''tool=t''"
  have q: "query_Get (rq_query ?r) ''tool'' = ''t''"
    by (simp add: demo_admin_req_def query_Get_def ParseQuery_def query_pair_def Index_def map_filter_simps)
  have "{e. \<exists>h. view_of (demo_memory '''') (''t'', h) = Some e \<and> \<not> Expired e 7} = {demo_entry ''''}"
    using demo_view(3) by (auto simp: view_of_def demo_memory_def Expired_def demo_entry_def key_def split: if_splits)
  note live = this
  have "rq_method ?r = ''GET''" by (simp add: demo_admin_req_def)
  from admin_reports_live_entries [OF demo_view(2) [of "''''"] demo_view(4) _ _ _ _ q this, where env = demo_admin_env and A = demo_admin and w = new_resp]
    demo_view(5) have "\<exists>es st. set es = {demo_entry ''''} \<and>
      serve_stats demo_admin demo_admin_env new_resp ?r (demo_memory '''') =
       (writeJSON new_resp 200 (stats_text demo_admin [(''t'', st)]), demo_memory '''') \<and> Entries st = int (length es) \<and>
      (es \<noteq> [] \<longrightarrow> (\<forall>e \<in> set es. 0 < CreatedAt e) \<longrightarrow> OldestEntry st = Min (CreatedAt ` set es))"
    unfolding demo_admin_simps live by blast
  then obtain es st where es: "set es = {demo_entry ''''}"
     "serve_stats demo_admin demo_admin_env new_resp ?r (demo_memory '''') =
       (writeJSON new_resp 200 (stats_text demo_admin [(''t'', st)]), demo_memory '''')"
     "Entries st = int (length es)" "es \<noteq> [] \<longrightarrow> (\<forall>e \<in> set es. 0 < CreatedAt e) \<longrightarrow> OldestEntry st = Min (CreatedAt ` set es)"
    by blast
  have "es \<noteq> []" using es(1) by auto
  then have "OldestEntry st = 5" using es(4) unfolding es(1) by (simp add: demo_entry_def)
  with es show ?thesis by blast
qed

end
