(* ===== verification/Listeners.thy ===== *)
theory Listeners
  imports Gateway Admin
begin

text \<open>
  The listeners a started process has beside the gateway's own (\<open>cmd/potent/main.go\<close>): the metrics server of
  \<open>serveDual\<close>, the wait for a signal or a failure of either server, and the admin server of \<open>runAdmin\<close>. A server's
  \<open>ListenAndServe\<close> ends with an error; \<open>ErrServerClosed\<close> is not one to report.
\<close>

section \<open>Serving two ports\<close>

text \<open>\<open>m.Handler()\<close>, of the Prometheus library, is the argument.\<close>

definition metrics_mux :: "'st handler \<Rightarrow> 'st mux" where
  "metrics_mux h = [(''/metrics'', h)]"

definition ErrServerClosed :: go_error where "ErrServerClosed = ErrMsg ''http: Server closed''"

datatype serve_event = Signal | AppEnds "go_error option" | MetricsEnds "go_error option"

text \<open>What a server puts into \<open>errCh\<close> when it ends.\<close>

definition server_error :: "bytes \<Rightarrow> go_error option \<Rightarrow> (bytes \<times> go_error) option" where
  "server_error which res =
     (case res of None \<Rightarrow> None | Some err \<Rightarrow> if errors_Is err ErrServerClosed then None else Some (which, err))"

text \<open>The \<open>select\<close> of \<open>serveDual\<close> on what happens in turn; \<open>None\<close> while it waits.\<close>

fun serve_select :: "serve_event list \<Rightarrow> serve_end option" where
  "serve_select [] = None"
| "serve_select (Signal # evs) = Some Signalled"
| "serve_select (AppEnds res # evs) =
     (case server_error ''proxy server'' res of Some (which, err) \<Rightarrow> Some (ServerFailed which err) | None \<Rightarrow> serve_select evs)"
| "serve_select (MetricsEnds res # evs) =
     (case server_error ''metrics server'' res of Some (which, err) \<Rightarrow> Some (ServerFailed which err) | None \<Rightarrow> serve_select evs)"

definition serveDual_returns :: "serve_event list \<Rightarrow> unit result \<Rightarrow> unit result option" where
  "serveDual_returns evs shutdown = map_option (\<lambda>e. serveDual e shutdown) (serve_select evs)"

section \<open>The admin server\<close>

definition admin_of :: "'s store_ops \<Rightarrow> bytes \<Rightarrow> (time \<Rightarrow> bytes option) \<Rightarrow> fp_ops \<Rightarrow> 's admin" where
  "admin_of st token tm F = \<lparr>ad_in = st, ad_er = Some st, ad_token = token, ad_time = tm, ad_fp = F\<rparr>"

text \<open>The handler it serves, and what it logs when it ends.\<close>

definition runAdmin ::
  "'s store_ops \<Rightarrow> bytes \<Rightarrow> (time \<Rightarrow> bytes option) \<Rightarrow> fp_ops \<Rightarrow> 'r reader \<Rightarrow> admin_env \<Rightarrow> ('s \<times> 'r) handler" where
  "runAdmin st token tm F read env = admin_Handler (admin_of st token tm F) read env"

definition runAdmin_logs :: "go_error option \<Rightarrow> go_error option" where
  "runAdmin_logs res = map_option snd (server_error ''admin server'' res)"

section \<open>Lemmas\<close>

text \<open>The metrics port serves one path; every other request is redirected or not found.\<close>

lemma metrics_port:
  assumes "mux_serve (metrics_mux h) w r st = (out, st')"
  shows "rq_path r = ''/metrics'' \<and> (out, st') = h w r st \<or>
    st' = st \<and> (\<exists>p. out = redirect p r w) \<or> st' = st \<and> out = http_Error ''404 page not found'' 404 w"
  using assms by (auto simp: mux_serve_def metrics_mux_def serves_def Let_def split: if_splits)

text \<open>\<open>serveDual\<close> returns an error of a server only when that server failed, and the answer of \<open>Shutdown\<close> otherwise.\<close>

lemma serve_select_cases:
  assumes "serve_select evs = Some e"
  shows "e = Signalled \<and> Signal \<in> set evs \<or>
    (\<exists>err. \<not> errors_Is err ErrServerClosed \<and>
       (e = ServerFailed ''proxy server'' err \<and> AppEnds (Some err) \<in> set evs \<or>
        e = ServerFailed ''metrics server'' err \<and> MetricsEnds (Some err) \<in> set evs))"
  using assms
  by (induction evs rule: serve_select.induct) (auto simp: server_error_def split: option.splits if_splits)

section \<open>Properties of the component\<close>

text \<open>The admin port of a started process. If startup, whatever way it ended, has started an admin server, then its
  token is the one of the environment and not empty; a request without that token gets 401, whatever store, path and
  method, and changes nothing.\<close>

theorem admin_port_guarded:
  assumes run: "run C order verify f W = (acts, out, undo)" "StartAdmin addr token \<in> set acts"
    and r: "rq_header r ''Authorization'' \<noteq> ''Bearer '' @ token"
    and served: "runAdmin S token tm F read env w r (s, rnd) = (Served resp, (s', rnd'))"
  shows "addr = f_adminAddr f \<and> token = e_ADMIN_TOKEN W \<and> token \<noteq> '''' \<and> rs_status resp = 401 \<and> s' = s"
proof -
  have t: "addr = f_adminAddr f" "token = e_ADMIN_TOKEN W" "token \<noteq> ''''"
    using run_unwinds [OF run(1)] run(2) by (auto simp: admin_guarded_def)
  obtain w' r' where h: "RequireBearer token ''potent-admin'' (mux_serve (admin_mux (admin_of S token tm F) env)) w' r' s = (Served resp, s')"
    and r': "rq_header r' = rq_header r"
    using traced_served [OF served [unfolded runAdmin_def admin_Handler_def]] by (metis admin_of_def admin.select_convs(3))
  then show ?thesis using t r
    by (auto simp: RequireBearer_def ConstantTimeCompare_eq unauthorized_def http_Error_def respond_def split: if_splits)
qed

definition client_get :: http_req where
  "client_get = demo_admin_req ''GET'' ''/stats'' ''''\<lparr>rq_header := (\<lambda>_. '''')\<rparr>"

theorem admin_port_guarded_witness:
  "\<exists>acts out undo resp. run demo_strconv (\<lambda>_. []) undefined (demo_flags\<lparr>f_adminAddr := '':9''\<rparr>) (demo_world\<lparr>e_ADMIN_TOKEN := ''s''\<rparr>) = (acts, out, undo) \<and>
     StartAdmin '':9'' ''s'' \<in> set acts \<and>
     runAdmin Memory_ops ''s'' (\<lambda>_. None) exact_fp no_random demo_admin_env new_resp client_get (NewMemory, ()) = (Served resp, (NewMemory, ())) \<and>
     rs_status resp = 401"
proof -
  let ?f = "demo_flags\<lparr>f_adminAddr := '':9''\<rparr>" and ?W = "demo_world\<lparr>e_ADMIN_TOKEN := ''s''\<rparr>" and ?ts = "[] :: (bytes \<times> bytes) list"
  have d: "fst (run_listen undefined ?f ?W ?ts) = [StartAdmin '':9'' ''s'']"
    by (simp add: run_listen_def demo_fields refuse_unauthenticated_def buildUpstreamTLS_def)
  have l: "Load demo_strconv (\<lambda>_. []) (w_policyFile ?W) = Inr empty_config"
    by (simp add: Load_def parse_def TrimSpace_dropWhile demo_world_def)
  have w: "loadAPITokens (f_tokensFile ?f) (w_tokensFile ?W) = Inr []" "f_upstream ?f \<noteq> ''''"
    "openStore ?W (f_backend ?f) (f_dbPath ?f) = Inr MemoryStore"
    "\<exists>e. buildEmbedder ?W (f_embedBackend ?f) (f_embedDim ?f) (f_embedN ?f) (f_embedURL ?f) (f_embedTimeout ?f) = Inr e"
    "buildAuditSinks ?W (f_auditPath ?f) (f_auditS3URL ?f) (f_auditS3FlushInterval ?f) (f_auditS3FlushBytes ?f) = ([], Inr [])"
    by (simp_all add: demo_fields loadAPITokens_def openStore_def buildEmbedder_def NewHashingTFIDF_def buildAuditSinks_def Let_def)
  obtain acts out undo where run: "run demo_strconv (\<lambda>_. []) undefined ?f ?W = (acts, out, undo)" by (metis prod_cases3)
  have a: "StartAdmin '':9'' ''s'' \<in> set acts" using run w l d by (auto simp: run_def Let_def split: prod.splits)
  have "\<exists>resp. runAdmin Memory_ops ''s'' (\<lambda>_. None) exact_fp no_random demo_admin_env new_resp client_get (NewMemory, ()) =
      (Served resp, (NewMemory, ()))"
    by (simp add: runAdmin_def admin_Handler_def no_random_traced client_get_def RequireBearer_def admin_of_def ConstantTimeCompare_eq
        unauthorized_def http_Error_def respond_def)
  then obtain resp where s: "runAdmin Memory_ops ''s'' (\<lambda>_. None) exact_fp no_random demo_admin_env new_resp client_get (NewMemory, ()) =
      (Served resp, (NewMemory, ()))" by blast
  have "rq_header client_get ''Authorization'' \<noteq> ''Bearer '' @ ''s''" by (simp add: client_get_def)
  with admin_port_guarded [OF run a this s] run a s show ?thesis by blast
qed

end
