(* ===== verification/Gateway_Replay.thy ===== *)
theory Gateway_Replay
  imports Gateway
begin

text \<open>
  The program end to end: a gateway started by \<open>run\<close>, its listener, tracing, the gate, the reverse-proxy
  adapter, the pipeline and the store behind it. The lemmas carry a request through one layer each; the
  property composes them.
\<close>

section \<open>Through the layers\<close>

text \<open>A path that the listener hands to the adapter.\<close>

definition routed :: "http_req \<Rightarrow> bool" where
  "routed r \<longleftrightarrow> cleanPath (rq_path r) = rq_path r \<and> HasPrefix (rq_path r) ''/'' \<and> rq_path r \<noteq> ''/healthz'' \<and> rq_path r \<noteq> ''/readyz''"

lemma routed_adapter:
  assumes "routed r"
  shows "mux_serve (app_mux app) w r st = app w r st"
proof -
  have "rq_path r \<noteq> ''''" using assms by (auto simp: routed_def HasPrefix_def)
  then have "rq_path r @ ''/'' \<notin> fst ` set (app_mux app)" using assms by (auto simp: app_mux_def routed_def)
  then show ?thesis using assms mux_serve_clean [of r "app_mux app" w st] by (auto simp: routed_def longest_app)
qed

text \<open>What tracing and the gate leave as it is.\<close>

definition same_call :: "http_req \<Rightarrow> http_req \<Rightarrow> bool" where
  "same_call r r' \<longleftrightarrow> rq_header r' = rq_header r \<and> rq_body r' = rq_body r \<and> rq_caller r' = rq_caller r"

lemma same_call_body: "same_call r r' \<Longrightarrow> read_body n r' = read_body n r"
  by (simp add: same_call_def read_body_def)

lemma traced_passes:
  assumes "traced read h w r (st, rnd) = (out, (st', rnd'))" "Middleware read (rq_header r ''Traceparent'') rnd \<noteq> None"
  obtains w' r' where "h w' r' st = (out, st')" "blank w' = blank w" "same_call r r'"
proof (cases "Middleware read (rq_header r ''Traceparent'') rnd")
  case (Some x)
  obtain sp rnd1 where x: "x = (sp, rnd1)" by (cases x)
  show ?thesis
  proof (cases sp)
    case None
    then show ?thesis using assms Some x by (intro that [of w r]) (auto simp: traced_def same_call_def Let_def split: prod.splits)
  next
    case (Some y)
    then show ?thesis using assms \<open>Middleware read _ _ = Some x\<close> x
      by (intro that [of "set_header ''Traceparent'' (snd y) w" "r\<lparr>rq_span := Some (fst y)\<rparr>"])
        (auto simp: traced_def same_call_def Let_def split: prod.splits)
  qed
qed (use assms in \<open>simp add: traced_def\<close>)

lemma listener_passes:
  assumes "mux_serve (app_mux (traced read (gate v ts tok realm inner))) w r (st, rnd) = (out, (st', rnd'))"
    and "routed r" "distinct (map fst ts)" "Middleware read (rq_header r ''Traceparent'') rnd \<noteq> None"
  obtains (refused) w' where "credentials v ts tok (rq_header r ''Authorization'') = None" "out = unauthorized realm w'" "blank w' = blank w"
  | (admitted) c w' r' where "credentials v ts tok (rq_header r ''Authorization'') = Some c" "inner w' r' st = (out, st')"
      "blank w' = blank w" "same_call (if c = '''' then r else r\<lparr>rq_caller := c\<rparr>) r'"
proof -
  have "traced read (gate v ts tok realm inner) w r (st, rnd) = (out, (st', rnd'))"
    using assms(1,2) by (simp add: routed_adapter)
  then obtain w' r' where p: "gate v ts tok realm inner w' r' st = (out, st')" "blank w' = blank w" "same_call r r'"
    using assms(4) by (rule traced_passes)
  then have g: "(case credentials v ts tok (rq_header r ''Authorization'') of None \<Rightarrow> (unauthorized realm w', st)
     | Some c \<Rightarrow> inner w' (if c = '''' then r' else r'\<lparr>rq_caller := c\<rparr>) st) = (out, st')"
    using gate_eq [OF assms(3), of v tok realm inner w' r' st] by (simp add: same_call_def)
  show ?thesis
  proof (cases "credentials v ts tok (rq_header r ''Authorization'')")
    case None
    then show ?thesis using g p(2) refused by auto
  next
    case (Some c)
    then show ?thesis
      using g p(2,3) by (intro admitted [of c w' "if c = '''' then r' else r'\<lparr>rq_caller := c\<rparr>"]) (auto simp: same_call_def)
  qed
qed

lemma served_traced: "routed r \<Longrightarrow> mux_serve (app_mux (traced read h)) w r (st, rnd) = (Served resp, s) \<Longrightarrow>
    Middleware read (rq_header r ''Traceparent'') rnd \<noteq> None"
  by (auto simp: routed_adapter traced_def split: option.splits)

text \<open>Without a rate limit a call is admitted by its caller alone.\<close>

lemma admit_unlimited:
  assumes "caching (pol_of P q)" "flt_le (RPS (RateLimit (pol_of P q))) (Fin 0)"
  shows "fst (admit P q S) = AdmOk \<longleftrightarrow> AllowsCaller (pol_of P q) (q_caller q)"
  using assms by (auto simp: admit_def limiterFor_def caching_def mode_defs Let_def)

lemma unauthorized_plain: "Served resp = unauthorized realm w \<Longrightarrow> blank w \<Longrightarrow> rs_header resp ''X-Potent-Status'' = None"
  by (auto simp: unauthorized_def http_Error_def respond_def blank_def)

section \<open>Property\<close>

text \<open>C6. The gateway end to end, from its flags to the second answer: a process that \<open>run\<close> has brought to serve
  HTTP, whatever its flags, credentials and tracing, over any store that keeps the port's contract. Once it
  answered a tool call fresh with a success, a later call of the same client for the same tool, whose body has
  the same fingerprint and which comes before the entry expires, is answered with the same status and body,
  marked as an exact replay, and the upstream is not called again (given a random source from which the
  tracing layer gets its ids, or none needs). The tool's policy caches, replays stored responses and has no rate limit.\<close>

theorem gateway_replay:
  fixes S :: "'s store_ops" and st st1 :: "('s, 'l) pstate"
  assumes P0: "P = pipeline_of S R emb L sv"
    and up: "run C order verify f W = (acts, Inr sv, cl)" "sv_mode sv = HTTPMode addr maddr path opts"
    and serve: "listener P reverse transport fmt read env pc (sv_mode sv) = Some (addr, h)"
      "listener P reverse transport fmt read env' pc' (sv_mode sv) = Some (addr, h')"
    and port: "store_port S invar ready view nrm okkey storable order_ok"
    and req: "routed r" "rq_header r ''X-Potent-Tool'' = name" "name \<noteq> ''''" "read_body (f_maxBodyBytes f) r = Inr body"
    and req': "routed r'" "rq_header r' ''X-Potent-Tool'' = name" "read_body (f_maxBodyBytes f) r' = Inr body'"
      "rq_header r' ''Authorization'' = rq_header r ''Authorization''" "rq_caller r' = rq_caller r"
    and pol: "For (sv_policy sv) name = pol" "\<not> sv_shadow sv" "caching pol" "hit_decision pol = DecisionReplay"
      "ReplayStrategy pol \<noteq> ReplaySynthesizedAck" "flt_le (RPS (RateLimit pol)) (Fin 0)"
    and s: "invar (p_store st)" "ready (p_store st)" "okkey name hash"
    and first: "h new_resp r (st, rnd) = (Served resp, (st1, rnd1))" "rs_header resp ''X-Potent-Status'' = Some ''fresh''"
      "success (rs_status resp)" "rs_body resp \<noteq> ''''" "q_ctx2 env = None" "analyse L body pol = Inr (hash, intent)"
    and e: "e = stamp (q_put env) (buildEntry (q_entry env) name hash body (rs_status resp) (rs_body resp) pol
        (embed_intent P pol intent))" "storable e"
    and second: "analyse L body' pol = Inr (hash, intent')" "q_ctx env' = None" "\<not> Expired (nrm e) (q_now env')"
      "h' new_resp r' (st1, rnd1) = (out, (st2, rnd2))" "Middleware read (rq_header r' ''Traceparent'') rnd1 \<noteq> None"
  shows "\<exists>resp'. out = Served resp' \<and> rs_status resp' = rs_status resp \<and> rs_body resp' = rs_body resp \<and>
    rs_header resp' ''X-Potent-Status'' = Some ''replayed'' \<and> rs_header resp' ''X-Potent-Match'' = Some ''exact'' \<and>
    p_calls st2 = p_calls st1"
proof -
  obtain ts tls v where ok: "distinct (map fst ts)" and opts: "opts = adapter_options f W ts tls v"
    by (rule run_gated [OF up(1)]) (auto simp: gated_def up(2) intro: that)
  define X where "X = New P (reverse path) fmt opts"
  have X: "px_pipeline X = P" "px_maxBodyBytes X = f_maxBodyBytes f" by (simp_all add: X_def opts New_options)
  have P: "store P = S" "policies P = sv_policy sv" "shadow P = sv_shadow sv" "libs P = L"
    by (simp_all add: P0 pipeline_of_fields)
  let ?gate = "\<lambda>env pc. mux_serve (app_mux (traced read (gate v ts (e_API_TOKEN W) ''potent'' (proxy_ServeHTTP X env pc))))"
  have h: "h = ?gate env pc" "h' = ?gate env' pc'"
    using serve up(2) by (simp_all add: listener_def X_def opts New_options(5))
  let ?cred = "credentials v ts (e_API_TOKEN W) (rq_header r ''Authorization'')"
  obtain c w1 r1 where a1: "?cred = Some c" "proxy_ServeHTTP X env pc w1 r1 st = (Served resp, st1)" "blank w1"
      "same_call (if c = '''' then r else r\<lparr>rq_caller := c\<rparr>) r1"
  proof (rule listener_passes [OF first(1) [unfolded h(1)] req(1) ok served_traced [OF req(1) first(1) [unfolded h(1)]]])
    fix w' assume "Served resp = unauthorized ''potent'' w'" "blank w' = blank new_resp"
    then show ?thesis using unauthorized_plain [of resp "''potent''" w'] first(2) by simp
  next
    fix c w' r' assume "?cred = Some c" "proxy_ServeHTTP X env pc w' r' st = (Served resp, st1)" "blank w' = blank new_resp"
      "same_call (if c = '''' then r else r\<lparr>rq_caller := c\<rparr>) r'"
    then show ?thesis by (intro that) simp_all
  qed
  obtain c' w2 r2 where a2: "credentials v ts (e_API_TOKEN W) (rq_header r' ''Authorization'') = Some c'"
      "proxy_ServeHTTP X env' pc' w2 r2 st1 = (out, st2)" "blank w2" "same_call (if c' = '''' then r' else r'\<lparr>rq_caller := c'\<rparr>) r2"
  proof (rule listener_passes [OF second(4) [unfolded h(2)] req'(1) ok second(5)])
    fix c w' r'' assume "credentials v ts (e_API_TOKEN W) (rq_header r' ''Authorization'') = Some c"
      "proxy_ServeHTTP X env' pc' w' r'' st1 = (out, st2)" "blank w' = blank new_resp"
      "same_call (if c = '''' then r' else r'\<lparr>rq_caller := c\<rparr>) r''"
    then show ?thesis by (intro that) simp_all
  qed (use a1(1) req'(4) in simp)
  have c: "c' = c" using a1(1) a2(1) req'(4) by simp
  have q: "rq_header r1 ''X-Potent-Tool'' = name" "rq_header r2 ''X-Potent-Tool'' = name" "rq_caller r2 = rq_caller r1"
      "read_body (px_maxBodyBytes X) r1 = Inr body" "read_body (px_maxBodyBytes X) r2 = Inr body'"
    using a1(4) a2(4) req req' c same_call_body [of _ r1] same_call_body [of _ r2]
    by (auto simp: same_call_def X read_body_def split: if_splits)
  obtain res where ap: "Apply P (request_of env r1 name body) (forwarder (px_upstream X) r1 body) pc st = (Ret res None, st1)"
    and fw: "r_Decision res = DecisionForward"
    using served_fresh [OF a1(2) first(2) a1(3) q(1) req(3) q(4)] unfolding X by auto
  have f: "forwarder (px_upstream X) r1 body = FwdReturns (r_StatusCode res) (r_Body res) None"
    using Apply_returns_forward [OF ap] fw by simp
  have "AllowsCaller pol (rq_caller r1)"
  proof (rule forwarded_path [OF ap [unfolded f] fw])
    fix Sa assume "admit P (request_of env r1 name body) st = (AdmOk, Sa)"
    then show ?thesis
      using admit_unlimited [of "P" "request_of env r1 name body" st] pol by (simp add: P request_of_def)
  qed (use pol first(6) in \<open>simp_all add: P request_of_def\<close>)
  then have adm: "fst (admit P (request_of env' r2 name body') st1) = AdmOk"
    using admit_unlimited [of "P" "request_of env' r2 name body'" st1] pol q(3) by (simp add: P request_of_def)
  have "\<exists>resp' S2. proxy_ServeHTTP X env' pc' w2 r2 st1 = (Served resp', S2) \<and>
    rs_status resp' = rs_status resp \<and> rs_body resp' = rs_body resp \<and>
    rs_header resp' ''X-Potent-Status'' = Some ''replayed'' \<and> rs_header resp' ''X-Potent-Match'' = Some ''exact'' \<and>
    p_calls S2 = p_calls st1"
  proof -
    have "store_port (store (px_pipeline X)) invar ready view nrm okkey storable order_ok" using port by (simp add: X P)
    note replay = serve_replay [OF this q(1,2) req(3) q(4,5) _ _ pol(3-5) s a1(2) first(2-5) _ _ e(2) _ _ second(2,3) a1(3) a2(3)]
    show ?thesis by (rule replay) (use pol first e(1) second adm in \<open>simp_all add: X P\<close>)
  qed
  then show ?thesis using a2(2) by auto
qed

section \<open>A concrete exchange\<close>

definition cache_policy :: bytes where
  "cache_policy = ''defaults:'' @ [CHR 0x0A] @ ''  mode: cache''"

definition cache_config :: Config where
  "cache_config = \<lparr>Defaults = zero_policy\<lparr>Mode := ModeCache\<rparr>, Tools = Map.empty\<rparr>"

lemma cache_policy_loads: "Load C (\<lambda>_. []) (Inr cache_policy) = Inr cache_config"

proof -
  have t: "TrimSpace ''defaults:'' = ''defaults:''" "TrimSpace ''  mode: cache'' = ''mode: cache''" "TrimSpace ''mode'' = ''mode''"
    "TrimSpace '' cache'' = ''cache''" "TrimSpace ''cache'' = ''cache''"
    by (simp_all add: TrimSpace_dropWhile IsSpace_def)
  let ?f = "\<lparr>indent = 0, kind = ''defaults'', tool = ''''\<rparr>"
  have 1: "parse_line C ''defaults:'' (empty_config, []) = Inr (empty_config, [?f])"
    by (simp add: parse_line_def leadingSpaces_def t(1))
  have kv: "splitKV ''mode: cache'' = Some (''mode'', ''cache'')" by (simp add: splitKV_def Index_def t)
  have 2: "parse_line C ''  mode: cache'' (empty_config, [?f]) = Inr (cache_config, [?f])"
    by (simp add: parse_line_def leadingSpaces_def t(2) top_kind_def HasSuffix_def applyScalarOrOpenBlock_def kv Let_def)
      (simp add: set_scalar_def t(5) selectPolicy_def writePolicy_def cache_config_def empty_config_def mode_defs)
  have "Split (CHR 0x0A) cache_policy = [''defaults:'', ''  mode: cache'']" by (simp add: cache_policy_def)
  moreover have "stripComment ''defaults:'' = ''defaults:''" "stripComment ''  mode: cache'' = ''  mode: cache''"
    by (simp_all add: stripComment_def Index_def)
  ultimately have "parse C cache_policy = Inr cache_config"
    by (simp only: parse_def parse_loop.simps Let_def t(1,2) 1 2 sum.case) simp
  then show ?thesis by (simp add: Load_def)
qed

definition cached_world :: world where
  "cached_world = demo_world\<lparr>w_policyFile := Inr cache_policy\<rparr>"

definition cached_service :: service where
  "cached_service = demo_service\<lparr>sv_policy := cache_config\<rparr>"

definition cached_pipeline :: "(Memory, unit) config" where
  "cached_pipeline = pipeline_of Memory_ops \<lparr>NewLimiter = (\<lambda>_ _. ()), Allow = (\<lambda>l _. (True, l))\<rparr> (\<lambda>_ _. Inr []) (libs demo_pipeline) cached_service"

lemma cached_run:
  "run demo_strconv (\<lambda>_. []) verify demo_flags cached_world =
     ([OpenStore MemoryStore, WatchCompactor, NewAudit []], Inr cached_service, [CloseAudit [], StopCompactor, CloseStore MemoryStore])"
  unfolding cached_world_def cached_service_def by (rule demo_gateway_run_with [OF cache_policy_loads])

definition cached_listener :: "(bytes \<times> ((Memory, unit) pstate \<times> unit) handler) option" where
  "cached_listener = listener cached_pipeline (\<lambda>_ _ w r. Inr (w\<lparr>rs_body := ''ok''\<rparr>)) (\<lambda>_. mh_client demo_mcp) (\<lambda>_. '''') no_random
     demo_request False (sv_mode cached_service)"

definition client_call :: http_req where
  "client_call = (demo_http '''')\<lparr>rq_header := (\<lambda>k. if k = ''X-Potent-Tool'' then ''send'' else if k = ''Authorization'' then ''Bearer secret'' else '''')\<rparr>"

abbreviation cached_proxy :: "(Memory, unit) proxy" where
  "cached_proxy \<equiv> New cached_pipeline (\<lambda>_ w r. Inr (w\<lparr>rs_body := ''ok''\<rparr>)) (\<lambda>_. '''') (adapter_options demo_flags demo_world [] None None)"

text \<open>A request of the client reaches the proxy as it is.\<close>

lemma client_passes:
  obtains h where "cached_listener = Some ('':8080'', h)" "\<And>s. h new_resp client_call (s, ()) =
    (let (out, s') = proxy_ServeHTTP cached_proxy demo_request False new_resp client_call s in (out, (s', ())))"
proof -
  have r: "routed client_call" by (simp add: routed_def client_call_def demo_http_def cleanPath_def HasPrefix_def)
  have t: "rq_header client_call ''Traceparent'' = ''''" by (simp add: client_call_def)
  have c: "credentials None [] (e_API_TOKEN demo_world) (rq_header client_call ''Authorization'') = Some ''''"
    by (simp add: credentials_def client_call_def demo_world_def auth_startsWith_def)
  have g: "gate None [] (e_API_TOKEN demo_world) realm inner w client_call s = inner w client_call s" for realm w s
      and inner :: "(Memory, unit) pstate handler"
    using gate_eq [of "[]" None "e_API_TOKEN demo_world" realm inner w client_call s] c by simp
  let ?h = "mux_serve (app_mux (proxy_Handler cached_proxy no_random demo_request False))"
  have "cached_listener = Some ('':8080'', ?h)"
    by (simp add: cached_listener_def cached_service_def demo_service_def listener_def)
  moreover have "?h new_resp client_call (s, ()) =
      (let (out, s') = proxy_ServeHTTP cached_proxy demo_request False new_resp client_call s in (out, (s', ())))" for s
    by (simp add: New_options(5) routed_adapter [OF r] no_random_traced [OF t] g)
  ultimately show ?thesis by (rule that)
qed

lemma cached_simps [simp]:
  "store cached_pipeline = Memory_ops" "\<not> shadow cached_pipeline" "For (policies cached_pipeline) ''send'' = zero_policy\<lparr>Mode := ModeCache\<rparr>"
  "libs cached_pipeline = libs demo_pipeline"
  by (simp_all add: cached_pipeline_def pipeline_of_fields cached_service_def demo_service_def cache_config_def For_def)

lemma client_first:
  obtains hash resp S1 where "analyse (libs demo_pipeline) '''' (zero_policy\<lparr>Mode := ModeCache\<rparr>) = Inr (hash, '''')"
    "proxy_ServeHTTP cached_proxy demo_request False new_resp client_call (New_pipeline NewMemory) = (Served resp, S1)"
    "rs_header resp ''X-Potent-Status'' = Some ''fresh''" "rs_status resp = 200" "rs_body resp = ''ok''" "p_calls S1 = [(''send'', '''')]"
proof -
  let ?f = "FwdReturns 200 ''ok'' None" and ?init = "New_pipeline NewMemory :: (Memory, unit) pstate"
  let ?q = "request_of demo_request client_call ''send'' ''''"
  have q: "?q = demo_request" by (simp add: request_of_def client_call_def demo_http_def demo_request_def)
  obtain h where "Exact zero_num (JObj []) = Inr h" using Exact_total [of zero_num "JObj []"] by auto
  then have an: "analyse (libs demo_pipeline) '''' (zero_policy\<lparr>Mode := ModeCache\<rparr>) = Inr (h, '''')"
    by (simp add: analyse_def demo_pipeline_def)
  have pol: "caching (zero_policy\<lparr>Mode := ModeCache\<rparr>)" by (simp add: caching_def)
  have adm: "admit cached_pipeline demo_request ?init = (AdmOk, ?init)"
    by (simp add: admit_def limiterFor_def zero_policy_def mode_defs AllowsCaller_def)
  have l: "\<exists>i Sc. \<forall>fwd pc. Apply cached_pipeline demo_request fwd pc ?init = runLeader cached_pipeline demo_request h ''''
      (pol_of cached_pipeline demo_request) fwd i
      (log_decision cached_pipeline demo_request (pol_of cached_pipeline demo_request) DecisionForward no_match h '''' Sc)"
    by (rule fresh_leader [of cached_pipeline demo_request h]) (use an pol adm in \<open>simp_all, blast\<close>)
  have "fst (Apply cached_pipeline demo_request ?f False ?init) = Ret (forwarded h 200 ''ok'') None"
    using l by (auto simp: runLeader_out doForward_out)
  then obtain S1 where run: "Apply cached_pipeline demo_request ?f False ?init = (Ret (forwarded h 200 ''ok'') None, S1)"
    by (metis prod.collapse)
  have fw: "forwarder (\<lambda>w r. Inr (w\<lparr>rs_body := ''ok''\<rparr>)) client_call '''' = ?f"
    by (simp add: forwarder_def new_resp_def)
  obtain resp where wv: "write_verdict (\<lambda>_. '''') (forwarded h 200 ''ok'') new_resp = Served resp"
    by (simp add: write_verdict_def Let_def write_response_def respond_def)
  have b: "read_body n client_call = Inr ''''" "rq_header client_call ''X-Potent-Tool'' = ''send''" for n
    by (simp_all add: client_call_def demo_http_def read_body_def)
  have "proxy_ServeHTTP cached_proxy demo_request False new_resp client_call ?init = (Served resp, S1)"
    using run wv by (simp add: proxy_ServeHTTP_def Let_def b fw q New_options)
  moreover have "rs_header resp ''X-Potent-Status'' = Some ''fresh''"
    using write_verdict_status [OF wv] by (simp add: new_resp_def)
  moreover have "rs_status resp = 200" "rs_body resp = ''ok''"
    using write_verdict_body [OF wv] by (simp_all add: new_resp_def)
  moreover have "p_calls S1 = [(''send'', '''')]" using Apply_calls [OF run] by (simp add: New_pipeline_def one_call_def)
  ultimately show ?thesis using that an by blast
qed

theorem gateway_replay_witness:
  "\<exists>h resp S1 out S2. cached_listener = Some ('':8080'', h) \<and>
     h new_resp client_call (New_pipeline NewMemory, ()) = (Served resp, (S1, ())) \<and> rs_body resp = ''ok'' \<and>
     h new_resp client_call (S1, ()) = (Served out, (S2, ())) \<and> rs_body out = ''ok'' \<and>
     rs_header out ''X-Potent-Status'' = Some ''replayed'' \<and> p_calls S2 = [(''send'', '''')]"
proof (rule client_first, rule client_passes)
  fix hash resp S1 h
  assume an: "analyse (libs demo_pipeline) '''' (zero_policy\<lparr>Mode := ModeCache\<rparr>) = Inr (hash, '''')"
    and first: "proxy_ServeHTTP cached_proxy demo_request False new_resp client_call (New_pipeline NewMemory) = (Served resp, S1)"
    and r: "rs_header resp ''X-Potent-Status'' = Some ''fresh''" "rs_status resp = 200" "rs_body resp = ''ok''" "p_calls S1 = [(''send'', '''')]"
    and l: "cached_listener = Some ('':8080'', h)"
    and h: "\<And>s. h new_resp client_call (s, ()) =
      (let (out, s') = proxy_ServeHTTP cached_proxy demo_request False new_resp client_call s in (out, (s', ())))"
  obtain out S2 where o: "proxy_ServeHTTP cached_proxy demo_request False new_resp client_call S1 = (out, S2)" by (metis prod.exhaust)
  have k: "key_ok ''send'' hash" using analyse_hash [OF an] by (simp add: key_ok_def nul_free_def NUL_def)
  have rt: "routed client_call" by (simp add: routed_def client_call_def demo_http_def cleanPath_def HasPrefix_def)
  have b: "read_body n client_call = Inr ''''" "rq_header client_call ''X-Potent-Tool'' = ''send''" for n
    by (simp_all add: client_call_def demo_http_def read_body_def)
  have w: "Middleware no_random (rq_header client_call ''Traceparent'') () \<noteq> None"
    by (simp add: client_call_def Parse_def TrimSpace_dropWhile Middleware_def generate_def no_random_def)
  have zp: "ReplayStrategy zero_policy \<noteq> ''synthesized_ack''" "flt_le (RPS (RateLimit zero_policy)) (Fin 0)"
    by (simp_all add: zero_policy_def)
  have p: "cached_pipeline = pipeline_of Memory_ops \<lparr>NewLimiter = (\<lambda>_ _. ()), Allow = (\<lambda>l _. (True, l))\<rparr> (\<lambda>_ _. Inr [])
      (libs demo_pipeline) cached_service" by (rule cached_pipeline_def)
  have m: "sv_mode cached_service = HTTPMode '':8080'' '':9090'' '''' (adapter_options demo_flags demo_world [] None None)"
    by (simp add: cached_service_def demo_service_def)
  have "\<exists>resp'. out = Served resp' \<and> rs_status resp' = rs_status resp \<and> rs_body resp' = rs_body resp \<and>
    rs_header resp' ''X-Potent-Status'' = Some ''replayed'' \<and> rs_header resp' ''X-Potent-Match'' = Some ''exact'' \<and>
    p_calls S2 = p_calls S1"
  proof (rule gateway_replay [OF p cached_run m l [unfolded cached_listener_def] l [unfolded cached_listener_def]
        mem.store_port_axioms rt b(2) _ b(1) rt b(2) b(1) refl refl, where pol = "zero_policy\<lparr>Mode := ModeCache\<rparr>" and hash = hash
        and e = "stamp 8 (buildEntry 7 ''send'' hash '''' 200 ''ok'' (zero_policy\<lparr>Mode := ModeCache\<rparr>) [])" and intent = "''''"])
    show "h new_resp client_call (New_pipeline NewMemory, ()) = (Served resp, (S1, ()))" using h first by simp
    show "h new_resp client_call (S1, ()) = (out, (S2, ()))" using h o by simp
    show "keys_ok (p_store (New_pipeline NewMemory))" by (simp add: New_pipeline_def NewMemory_def keys_ok_def)
    show "For (sv_policy cached_service) ''send'' = zero_policy\<lparr>Mode := ModeCache\<rparr>"
      by (simp add: cached_service_def cache_config_def For_def)
    show "\<not> sv_shadow cached_service" by (simp add: cached_service_def demo_service_def)
    show "caching (zero_policy\<lparr>Mode := ModeCache\<rparr>)" "hit_decision (zero_policy\<lparr>Mode := ModeCache\<rparr>) = DecisionReplay"
      by (simp_all add: caching_def hit_decision_def mode_defs)
    show "stamp 8 (buildEntry 7 ''send'' hash '''' 200 ''ok'' (zero_policy\<lparr>Mode := ModeCache\<rparr>) []) =
      stamp (q_put demo_request) (buildEntry (q_entry demo_request) ''send'' hash '''' (rs_status resp) (rs_body resp)
        (zero_policy\<lparr>Mode := ModeCache\<rparr>) (embed_intent cached_pipeline (zero_policy\<lparr>Mode := ModeCache\<rparr>) ''''))"
      using r by (simp add: demo_request_def embed_intent_def split: option.split)
    show "\<not> Expired (stamp 8 (buildEntry 7 ''send'' hash '''' 200 ''ok'' (zero_policy\<lparr>Mode := ModeCache\<rparr>) [])) (q_now demo_request)"
      by (simp add: Expired_def stamp_def buildEntry_def zero_policy_def Let_def)
  qed (use an k r w zp in \<open>simp_all add: replay_defs\<close>)
  then show ?thesis using l h first o r by auto
qed

end
