(* ===== verification/Pipeline_Matching.thy ===== *)
theory Pipeline_Matching
  imports Pipeline_Properties
begin

text \<open>
  How the pipeline matches a call with what it has seen: the fields that make two calls the same, the
  semantic search among the stored entries, and what happens when the store cannot be read.
\<close>

section \<open>A store that fails\<close>

lemma store_errors_grow:
  "set (m_store_errors S) \<subseteq> set (m_store_errors (snd (runLeader P q h i pol fwd lh S)))"
proof -
  have "set (m_store_errors S) \<subseteq> set (m_store_errors (snd (doForward P q h i pol fwd (Some lh) S)))"
    by (auto simp: doForward_def Let_def put_entry_def split_def set_handle_def call_upstream_def recordStoreError_def
        recordUpstreamLatency_def split: forward_outcome.split option.split)
  then show ?thesis
    by (auto simp: runLeader_def releaseLeader_def set_handle_def split: prod.splits outcome.splits)
qed

text \<open>C29. The store is not a single point of failure: when reading the cache fails with anything but
  "not found" and no leader is in flight, the call is forwarded, its answer returned, and the failure
  counted.\<close>

theorem store_error_fails_open:
  assumes P: "\<not> shadow P" "caching (pol_of P q)" and adm: "fst (admit P q S) = AdmOk"
    and an: "analyse (libs P) (q_body q) (pol_of P q) = Inr (hash, intent)" and free: "p_inflight S hash = None"
    and err: "fst (s_Get (store P) (p_store S) (q_ctx q) (q_now q) (q_tool q) hash) = Inl e" "\<not> errors_Is e ErrNotFound"
  shows "\<exists>S'. Apply P q (FwdReturns status resp ferr) pc S = (Ret (forwarded hash status resp) ferr, S') \<and>
    p_calls S' = p_calls S @ [(q_tool q, q_body q)] \<and> (metrics P \<longrightarrow> ''get'' \<in> set (m_store_errors S'))"
proof -
  let ?f = "FwdReturns status resp ferr"
  obtain Sa where Sa: "admit P q S = (AdmOk, Sa)" using adm by (metis prod.collapse)
  have st: "p_store Sa = p_store S" "p_calls Sa = p_calls S" "p_inflight Sa = p_inflight S"
    using admit_frame(1-3) [of P q S] Sa by simp_all
  obtain s' where g: "s_Get (store P) (p_store Sa) (q_ctx q) (q_now q) (q_tool q) hash = (Inl e, s')"
    using err(1) st by (metis prod.collapse)
  let ?Sb = "recordStoreError P ''get'' (Sa\<lparr>p_store := s'\<rparr>)"
  have dec: "decide P q hash (pol_of P q) intent Sa = ((DecisionForward, zero_entry, no_match), ?Sb)"
    using g P(2) err(2) by (auto simp: decide_def Let_def caching_def mode_defs)
  have go: "apply_prefix P q ?f S = (GoForward hash intent True, ?Sb)"
    using prefix_ok [OF Sa an dec P(1), of ?f] P(2) by (simp add: Let_def)
  have "p_inflight ?Sb hash = None" using st free by simp
  then obtain h Sc where al: "acquireLeader hash ?Sb = ((h, True), Sc)" and Sc: "m_store_errors Sc = m_store_errors ?Sb"
    by (simp add: acquireLeader_def Let_def)
  let ?Sd = "log_decision P q (pol_of P q) DecisionForward no_match hash '''' Sc"
  have run: "Apply P q ?f pc S = (Ret (forwarded hash status resp) ferr, snd (runLeader P q hash intent (pol_of P q) ?f h ?Sd))"
    using Apply_simps(3) [OF go al, of pc] by (simp add: runLeader_out doForward_out prod_eq_iff)
  moreover have "p_calls (snd (runLeader P q hash intent (pol_of P q) ?f h ?Sd)) = p_calls S @ [(q_tool q, q_body q)]"
    using acquireLeader_frame(1) [of hash ?Sb] al st by (simp add: one_call_def)
  moreover have "metrics P \<longrightarrow> ''get'' \<in> set (m_store_errors ?Sd)" using Sc by (simp add: recordStoreError_def)
  ultimately show ?thesis using store_errors_grow [of ?Sd P q hash intent "pol_of P q" ?f h] by blast
qed

theorem store_error_fails_open_witness:
  "\<exists>S' hash. Apply demo_pipeline (demo_request\<lparr>q_ctx := Some ErrCtx\<rparr>) (FwdReturns 200 ''ok'' None) False
     (New_pipeline NewMemory) = (Ret (forwarded hash 200 ''ok'') None, S') \<and> ''get'' \<in> set (m_store_errors S')"
proof -
  let ?q = "demo_request\<lparr>q_ctx := Some ErrCtx\<rparr>" and ?init = "New_pipeline NewMemory"
  obtain hash where an: "analyse (libs demo_pipeline) '''' demo_policy = Inr (hash, '''')" by (rule demo_analyse)
  have "fst (admit demo_pipeline ?q ?init) = AdmOk"
    by (simp add: admit_def limiterFor_def demo_policy_def zero_policy_def mode_defs AllowsCaller_def)
  moreover have "fst (s_Get Memory_ops NewMemory (Some ErrCtx) 5 ''send'' hash) = Inl ErrCtx" by (simp add: mem_defs)
  moreover have "metrics demo_pipeline" by (simp add: demo_pipeline_def)
  ultimately show ?thesis
    using store_error_fails_open [of demo_pipeline ?q ?init hash "''''" ErrCtx 200 "''ok''" None False] an
    by (auto simp: New_pipeline_def)
qed

section \<open>Semantic search\<close>

lemma flt_not_less: "\<not> flt_less a b \<Longrightarrow> a \<noteq> NaN \<Longrightarrow> b \<noteq> NaN \<Longrightarrow> flt_le b a"
  by (cases a; cases b) auto

lemma flt_le_not_NaN: "flt_le a b \<Longrightarrow> a \<noteq> NaN \<and> b \<noteq> NaN"
  by auto

lemma flt_less_le: "flt_less a b \<Longrightarrow> flt_le a b"
  by (simp add: flt_le_def)

lemma flt_le_refl: "a \<noteq> NaN \<Longrightarrow> flt_le a a"
  by (cases a) auto

lemma f32_flt_0 [simp]: "f32_flt 0 = Fin 0"
  by (simp add: f32_flt_def)

text \<open>An entry is a candidate with a score when it has an embedding of the right length and the score
  is positive and reaches the threshold.\<close>

definition scores :: "fp_ops \<Rightarrow> f32 list \<Rightarrow> flt \<Rightarrow> Entry \<Rightarrow> f32 \<Rightarrow> bool" where
  "scores F v threshold e s \<longleftrightarrow> Embedding e \<noteq> [] \<and> Cosine F v (Embedding e) = Inr s \<and>
     flt_le (f32_flt (f32_of F threshold)) (f32_flt s) \<and> flt_less (Fin 0) (f32_flt s)"

definition best_of :: "fp_ops \<Rightarrow> f32 list \<Rightarrow> flt \<Rightarrow> Entry list \<Rightarrow> Entry \<Rightarrow> f32 \<Rightarrow> bool \<Rightarrow> bool" where
  "best_of F v th es best score found \<longleftrightarrow>
     (if found then best \<in> set es \<and> scores F v th best score \<and>
       (\<forall>e \<in> set es. \<forall>s. scores F v th e s \<longrightarrow> flt_le (f32_flt s) (f32_flt score))
     else score = 0 \<and> best = zero_entry \<and> (\<forall>e \<in> set es. \<forall>s. \<not> scores F v th e s))"

lemma visit_best_step:
  assumes "best_of F v th es best score found" "visit_best F v th (best, score, found) e = ((b, s, f), go)"
  shows "go \<and> best_of F v th (es @ [e]) b s f"
proof (cases "Embedding e = [] \<or> (\<forall>x. Cosine F v (Embedding e) \<noteq> Inr x)")
  case True
  then show ?thesis
    using assms by (cases "Cosine F v (Embedding e)") (auto simp: visit_best_def best_of_def scores_def split: if_splits)
next
  case False
  then obtain x where x: "Embedding e \<noteq> []" "Cosine F v (Embedding e) = Inr x" by auto
  let ?t = "f32_flt (f32_of F th)"
  have pos: "flt_le (Fin 0) (f32_flt score)" using assms(1) by (auto simp: best_of_def scores_def flt_less_le split: if_splits)
  have sc: "scores F v th e y \<longleftrightarrow> y = x \<and> flt_le ?t (f32_flt x) \<and> flt_less (Fin 0) (f32_flt x)" for y
    using x by (auto simp: scores_def)
  show ?thesis
  proof (cases "flt_le ?t (f32_flt x) \<and> flt_less (f32_flt score) (f32_flt x)")
    case True
    then have up: "flt_less (Fin 0) (f32_flt x)" using pos by (cases "f32_flt score"; cases "f32_flt x") auto
    have "flt_le (f32_flt y) (f32_flt x)" if "scores F v th e' y" "e' \<in> set es" for e' y
      using assms(1) that flt_le_trans [OF _ flt_less_le] True by (simp add: best_of_def split: if_splits) blast
    with up True x assms sc show ?thesis
      by (auto simp: visit_best_def best_of_def flt_le_refl dest: flt_le_not_NaN)
  next
    case False
    then have "(b, s, f) = (best, score, found)" "go" using assms(2) x by (auto simp: visit_best_def)
    moreover have "flt_le (f32_flt x) (f32_flt score)" if "flt_le ?t (f32_flt x)"
      using False that flt_not_less [of "f32_flt score" "f32_flt x"] flt_le_not_NaN pos that by blast
    moreover have "found" if "flt_le ?t (f32_flt x)" "flt_less (Fin 0) (f32_flt x)"
      using False that assms(1) by (cases found) (auto simp: best_of_def)
    ultimately show ?thesis using assms(1) sc by (auto simp: best_of_def split: if_splits)
  qed
qed

lemma visit_best_loop:
  assumes "best_of F v th seen best score found"
    "visit_loop (visit_best F v th) (best, score, found) es = (b, s, f)"
  shows "best_of F v th (seen @ es) b s f"
  using assms
proof (induction es arbitrary: best score found seen)
  case (Cons e es)
  obtain b1 s1 f1 go where st: "visit_best F v th (best, score, found) e = ((b1, s1, f1), go)" by (metis prod.exhaust)
  have "go \<and> best_of F v th (seen @ [e]) b1 s1 f1" using visit_best_step Cons.prems(1) st by blast
  then show ?case using Cons.IH [of "seen @ [e]" b1 s1 f1] Cons.prems(2) st by auto
qed simp

text \<open>Semantic search returns the most similar entry: of the entries the store offers for the tool,
  the one returned has a score that reaches the threshold (rounded to \<open>float32\<close>) and is positive,
  and no entry has a higher one; it reports that nothing was found exactly when no entry has such a
  score. Entries without an embedding, or with one of another dimension, are never returned.\<close>

theorem semanticSearch_best:
  assumes "emb intent = Inr v" "s_Scan (store P) (p_store S) (q_ctx q) (q_now q) (q_order q) (q_tool q) = Inr es"
    "semanticSearch P q emb intent threshold S = ((best, score, found), S')"
  shows "S' = S \<and>
    (if found then best \<in> set es \<and> scores (l_fp (libs P)) v threshold best score \<and>
       (\<forall>e \<in> set es. \<forall>s. scores (l_fp (libs P)) v threshold e s \<longrightarrow> flt_le (f32_flt s) (f32_flt score))
     else (\<forall>e \<in> set es. \<forall>s. \<not> scores (l_fp (libs P)) v threshold e s))"
proof -
  have "visit_loop (visit_best (l_fp (libs P)) v threshold) (zero_entry, 0, False) es = (best, score, found)" "S' = S"
    using assms by (auto simp: semanticSearch_def)
  then show ?thesis
    using visit_best_loop [of "l_fp (libs P)" v threshold "[]" zero_entry 0 False es best score found]
    by (auto simp: best_of_def split: if_splits)
qed

definition demo_near :: Entry where
  "demo_near = zero_entry\<lparr>Tool := ''send'', Hash := ''ab'', Embedding := [0x3F800000]\<rparr>"

theorem semanticSearch_best_witness:
  "fst (semanticSearch demo_pipeline (demo_request\<lparr>q_order := [key ''send'' ''ab'']\<rparr>) (\<lambda>_. Inr [0x3F800000]) ''to=a'' (Fin 1)
      (New_pipeline [key ''send'' ''ab'' \<mapsto> demo_near])) = (demo_near, 0x3F800000, True)"
proof -
  let ?P = demo_pipeline and ?q = "demo_request\<lparr>q_order := [key ''send'' ''ab'']\<rparr>"
    and ?S = "New_pipeline [key ''send'' ''ab'' \<mapsto> demo_near]"
  have one: "f32_flt 0x3F800000 = Fin 1" by (rule f32_one)
  have "startsWith (key ''send'' ''ab'') (''send'' @ [NUL])" by (simp add: startsWith_iff key_def)
  then have scan: "s_Scan (store ?P) (p_store ?S) (q_ctx ?q) (q_now ?q) (q_order ?q) (q_tool ?q) = Inr [demo_near]"
    by (simp add: mem_defs New_pipeline_def demo_near_def zero_entry_def Expired_def)
  have fp: "l_fp (libs ?P) = exact_fp" by (simp add: demo_pipeline_def)
  have c: "Cosine exact_fp [0x3F800000] [0x3F800000] = Inr 0x3F800000"
    by (simp add: Cosine_def exact_fp_def one Let_def)
  then have sc: "scores exact_fp [0x3F800000] (Fin 1) demo_near 0x3F800000"
    using one by (simp add: scores_def demo_near_def exact_fp_def)
  obtain best score found S' where run:
    "semanticSearch ?P ?q (\<lambda>_. Inr [0x3F800000]) ''to=a'' (Fin 1) ?S = ((best, score, found), S')"
    by (metis prod.exhaust)
  have "found \<and> best = demo_near \<and> scores exact_fp [0x3F800000] (Fin 1) best score"
    using semanticSearch_best [OF _ scan run, of "[0x3F800000]"] sc unfolding fp by (auto split: if_splits)
  then show ?thesis using run c by (auto simp: scores_def demo_near_def)
qed

section \<open>What makes two calls the same\<close>

lemma sort_fst_eq_iff:
  assumes "distinct (map fst xs)" "distinct (map fst ys)"
  shows "sort_key fst xs = sort_key fst ys \<longleftrightarrow> map_of xs = map_of ys"
proof
  assume "sort_key fst xs = sort_key fst ys"
  then have "set xs = set ys" by (metis set_sort)
  then show "map_of xs = map_of ys" using assms by (simp add: map_of_inject_set)
next
  assume "map_of xs = map_of ys"
  then have s: "set xs = set ys" using assms by (simp add: map_of_inject_set)
  show "sort_key fst xs = sort_key fst ys"
  proof (rule map_sorted_distinct_set_unique [of fst])
    show "inj_on fst (set (sort_key fst xs) \<union> set (sort_key fst ys))"
      using s assms by (simp add: distinct_map)
    show "distinct (map fst (sort_key fst xs))" "distinct (map fst (sort_key fst ys))"
      using assms by (simp_all add: distinct_map)
  qed (use s in auto)
qed

lemma map_of_select_fields:
  "map_of (select_fields raw fs acc) k = (if k \<in> set fs \<and> map_of raw k \<noteq> None then map_of raw k else map_of acc k)"
  by (induction raw fs acc rule: select_fields.induct) (auto simp: update_conv' split: option.splits)

lemma distinct_select_fields: "distinct (map fst acc) \<Longrightarrow> distinct (map fst (select_fields raw fs acc))"
  by (induction raw fs acc rule: select_fields.induct) (auto simp: distinct_update split: option.splits)

lemma map_of_keyed: "map_of (map (\<lambda>(k, v). (k, f k v)) xs) k = map_option (f k) (map_of xs k)"
  by (induction xs) auto

lemma distinct_keyed: "distinct (map fst xs) \<Longrightarrow> distinct (map fst (map (\<lambda>(k, v). (k, f v)) xs))"
  by (simp add: comp_def case_prod_unfold)

text \<open>The value of a field as the fingerprint sees it.\<close>

definition field_value :: "unicode \<Rightarrow> ToolPolicy \<Rightarrow> (bytes \<times> json) list \<Rightarrow> bytes \<Rightarrow> json option" where
  "field_value U pol raw k =
     (if FingerprintFields pol = [] \<or> k \<in> set (FingerprintFields pol)
      then map_option (\<lambda>v. sort_keys (normalize_field U pol k v)) (map_of raw k) else None)"

lemma selected_value:
  "map_of (map (\<lambda>(k, v). (k, sort_keys v)) (selected_fields U pol raw)) = field_value U pol raw"
  by (rule ext)
     (auto simp: map_of_keyed selected_fields_def Let_def field_value_def map_of_select_fields option.map_comp comp_def
       split: option.splits)

text \<open>C16. Two calls get the same fingerprint exactly when they agree on the fields that count: the
  fields the policy lists, or all fields when it lists none, after the policy's normalizations and
  up to the order of object keys, a listed field that is missing on one side having to be missing on
  the other; unless SHA-256 collides. Fields that are not listed never matter.\<close>

theorem analyse_identifies:
  assumes b: "b1 \<noteq> ''''" "b2 \<noteq> ''''" "unmarshal_object (l_num L) b1 = Inr raw1" "unmarshal_object (l_num L) b2 = Inr raw2"
    and h: "analyse L b1 pol = Inr (h1, i1)" "analyse L b2 pol = Inr (h2, i2)"
    and wf: "wf_json (l_num L) (JObj (selected_fields (l_uni L) pol raw1))" "wf_json (l_num L) (JObj (selected_fields (l_uni L) pol raw2))"
      "json_depth (JObj (selected_fields (l_uni L) pol raw1)) \<le> 10000" "json_depth (JObj (selected_fields (l_uni L) pol raw2)) \<le> 10000"
    and no_collision: "\<And>x y. canonicalize (l_num L) (JObj (selected_fields (l_uni L) pol raw1)) = Inr x \<Longrightarrow>
      canonicalize (l_num L) (JObj (selected_fields (l_uni L) pol raw2)) = Inr y \<Longrightarrow> Sum256 x = Sum256 y \<Longrightarrow> x = y"
  shows "h1 = h2 \<longleftrightarrow> (\<forall>k. field_value (l_uni L) pol raw1 k = field_value (l_uni L) pol raw2 k)"
proof -
  let ?s1 = "selected_fields (l_uni L) pol raw1" and ?s2 = "selected_fields (l_uni L) pol raw2"
  have e: "Exact (l_num L) (JObj ?s1) = Inr h1" "Exact (l_num L) (JObj ?s2) = Inr h2"
    using h b by (auto simp: analyse_def Let_def split: sum.splits)
  have "h1 = h2 \<longleftrightarrow> sort_keys (JObj ?s1) = sort_keys (JObj ?s2)"
    using Exact_eq_iff [OF wf no_collision] unfolding e sum.inject by blast
  also have "\<dots> \<longleftrightarrow> field_value (l_uni L) pol raw1 = field_value (l_uni L) pol raw2"
    using sort_fst_eq_iff [OF distinct_keyed [of ?s1 sort_keys] distinct_keyed [of ?s2 sort_keys]] wf(1,2)
    unfolding selected_value sort_keys.simps json.inject wf_json.simps by blast
  finally show ?thesis by (simp add: fun_eq_iff)
qed

text \<open>Two calls that differ in a field the policy does not list and in the case of one that
  it does.\<close>

definition demo_fields :: ToolPolicy where
  "demo_fields = demo_policy\<lparr>FingerprintFields := [''to''], Normalize := [''to'' \<mapsto> [''lowercase'']]\<rparr>"

definition demo_body1 :: bytes where
  "demo_body1 = CHR ''{'' # CHR 0x22 # ''to'' @ CHR 0x22 # '':'' @ CHR 0x22 # ''A@b'' @ CHR 0x22 # ''}''"

definition demo_body2 :: bytes where
  "demo_body2 = CHR ''{'' # CHR 0x22 # ''to'' @ CHR 0x22 # '':'' @ CHR 0x22 # ''a@B'' @ CHR 0x22 # '','' @
     CHR 0x22 # ''id'' @ CHR 0x22 # '':0}''"

definition demo_lib :: lib where
  "demo_lib = \<lparr>l_num = zero_num, l_uni = ascii_only, l_fp = exact_fp\<rparr>"

theorem analyse_identifies_witness:
  "\<exists>h i1 i2. analyse demo_lib demo_body1 demo_fields = Inr (h, i1) \<and> analyse demo_lib demo_body2 demo_fields = Inr (h, i2)"
proof -
  have raw: "unmarshal_object zero_num demo_body1 = Inr [(''to'', JStr ''A@b'')]"
      "unmarshal_object zero_num demo_body2 = Inr [(''to'', JStr ''a@B''), (''id'', JNum 0)]" by code_simp+
  have norm: "normalizer_Apply ascii_only ''A@b'' [''lowercase''] = ''a@b''"
      "normalizer_Apply ascii_only ''a@B'' [''lowercase''] = ''a@b''" by code_simp+
  have sel: "selected_fields ascii_only demo_fields [(''to'', JStr ''A@b'')] = [(''to'', JStr ''a@b'')]"
      "selected_fields ascii_only demo_fields [(''to'', JStr ''a@B''), (''id'', JNum 0)] = [(''to'', JStr ''a@b'')]"
    using norm by (simp_all add: selected_fields_def Let_def demo_fields_def normalize_field_def del: normalizer_Apply.simps)
  have u: "valid_utf8 ''to''" "valid_utf8 ''a@b''" by code_simp+
  then have wf: "wf_json zero_num (JObj [(''to'', JStr ''a@b'')])" "json_depth (JObj [(''to'', JStr ''a@b'')]) \<le> 10000" by simp_all
  obtain h where h: "Exact zero_num (JObj [(''to'', JStr ''a@b'')]) = Inr h" using Exact_total [OF wf(1)] by blast
  have ne: "demo_body1 \<noteq> ''''" "demo_body2 \<noteq> ''''" by (simp_all add: demo_body1_def demo_body2_def)
  have l: "l_num demo_lib = zero_num" "l_uni demo_lib = ascii_only" by (simp_all add: demo_lib_def)
  obtain h1 i1 h2 i2 where an: "analyse demo_lib demo_body1 demo_fields = Inr (h1, i1)" "analyse demo_lib demo_body2 demo_fields = Inr (h2, i2)"
    using raw sel h ne by (simp add: analyse_def demo_lib_def Let_def)
  have fv: "field_value ascii_only demo_fields [(''to'', JStr ''A@b'')] k =
      field_value ascii_only demo_fields [(''to'', JStr ''a@B''), (''id'', JNum 0)] k" for k
    using norm by (simp add: field_value_def demo_fields_def normalize_field_def del: normalizer_Apply.simps)
  have det: "x = y" if "canonicalize zero_num v = Inr x" "canonicalize zero_num v = Inr y" "Sum256 x = Sum256 y" for v x y
    using that(1,2) by simp
  have "h1 = h2"
    using analyse_identifies [OF ne, of demo_lib, unfolded l, OF raw an, unfolded sel, OF wf(1) wf(1) wf(2) wf(2)] det fv by blast
  with an show ?thesis by blast
qed

end
