(* ===== verification/Eval.thy ===== *)
theory Eval
  imports Pipeline_Matching Jsonrpc "HOL-Library.Multiset"
begin

text \<open>
  \<open>internal/eval\<close>: the offline measurement of the semantic threshold. Records of a labelled data set
  are paired within a tool, each pair is scored by the normalizer, the fingerprint and the embedder,
  every candidate threshold gets a confusion matrix, and the best one per tool is chosen by F1. The
  second half condenses an audit log into a report per tool.

  A Go map of arguments is shared by all copies of a record and \<open>analyse\<close> normalizes it in place, so
  the arguments live in a store \<open>nat \<Rightarrow> args\<close>, and a record holds an address. Counters are natural
  numbers. Floating point follows theory \<open>Embedding\<close>. The order in which a map is visited is an
  argument where it can be seen in the result.
\<close>

section \<open>Data\<close>

type_synonym args = "(bytes \<times> json) list option"    \<comment> \<open>\<open>None\<close> for the nil map\<close>

record eval_rec =
  rec_ID :: bytes
  rec_Tool :: bytes
  rec_IntentID :: bytes
  rec_Category :: bytes
  rec_Args :: nat

record Pair =
  pr_A :: eval_rec
  pr_B :: eval_rec
  SameIntent :: bool
  pr_Category :: bytes

record Score =
  HashA :: bytes
  HashB :: bytes
  ExactMatch :: bool
  CosineSim :: f32

record Metrics =
  mt_Tool :: bytes
  mt_Threshold :: flt
  TP :: nat
  FP :: nat
  TN :: nat
  FN :: nat

definition f64_of_nat :: "fp_ops \<Rightarrow> nat \<Rightarrow> flt" where "f64_of_nat F n = R64 F (real n)"

definition Precision :: "fp_ops \<Rightarrow> Metrics \<Rightarrow> flt" where
  "Precision F m = (if TP m + FP m = 0 then Fin 0 else f_div (R64 F) (f64_of_nat F (TP m)) (f64_of_nat F (TP m + FP m)))"

definition Recall :: "fp_ops \<Rightarrow> Metrics \<Rightarrow> flt" where
  "Recall F m = (if TP m + FN m = 0 then Fin 0 else f_div (R64 F) (f64_of_nat F (TP m)) (f64_of_nat F (TP m + FN m)))"

definition FalsePositiveRate :: "fp_ops \<Rightarrow> Metrics \<Rightarrow> flt" where
  "FalsePositiveRate F m =
     (if FP m + TN m = 0 then Fin 0 else f_div (R64 F) (f64_of_nat F (FP m)) (f64_of_nat F (FP m + TN m)))"

definition F1 :: "fp_ops \<Rightarrow> Metrics \<Rightarrow> flt" where
  "F1 F m =
     (let p = Precision F m; r = Recall F m in
      if flt_eq (f_add (R64 F) p r) (Fin 0) then Fin 0
      else f_div (R64 F) (f_mul (R64 F) (f_mul (R64 F) (Fin 2) p) r) (f_add (R64 F) p r))"

section \<open>Reading a data set\<close>

record raw_rec =
  rr_rec :: eval_rec
  rr_args :: args

definition args_field :: "json_num \<Rightarrow> bytes \<Rightarrow> args \<Rightarrow> args result" where
  "args_field N v old =
     (if v = ''null'' then Inr None
      else case unmarshal_object N v of
             Inl e \<Rightarrow> Inl e
           | Inr kvs \<Rightarrow> Inr (Some (fold (\<lambda>(k, x). AList.update k x) kvs (case old of Some o1 \<Rightarrow> o1 | None \<Rightarrow> []))))"

definition eval_field :: "json_num \<Rightarrow> bytes \<Rightarrow> bytes \<Rightarrow> raw_rec \<Rightarrow> raw_rec result" where
  "eval_field N k v r =
     (let str = (\<lambda>get put. case string_field v (get (rr_rec r)) of Inl e \<Rightarrow> Inl e | Inr s \<Rightarrow> Inr (r\<lparr>rr_rec := put s (rr_rec r)\<rparr>)) in
      if k = ''id'' then str rec_ID (\<lambda>s. rec_ID_update (\<lambda>_. s))
      else if k = ''tool'' then str rec_Tool (\<lambda>s. rec_Tool_update (\<lambda>_. s))
      else if k = ''intent_id'' then str rec_IntentID (\<lambda>s. rec_IntentID_update (\<lambda>_. s))
      else if k = ''category'' then str rec_Category (\<lambda>s. rec_Category_update (\<lambda>_. s))
      else if k = ''args'' then (case args_field N v (rr_args r) of Inl e \<Rightarrow> Inl e | Inr a \<Rightarrow> Inr (r\<lparr>rr_args := a\<rparr>))
      else Inr r)"

definition zero_rec :: "nat \<Rightarrow> raw_rec" where
  "zero_rec addr = \<lparr>rr_rec = \<lparr>rec_ID = '''', rec_Tool = '''', rec_IntentID = '''', rec_Category = '''', rec_Args = addr\<rparr>, rr_args = None\<rparr>"

text \<open>The lines of the file, and the error the scanner ended with.\<close>

fun readDataset :: "json_num \<Rightarrow> bytes list \<Rightarrow> go_error option \<Rightarrow> raw_rec list \<Rightarrow> raw_rec list result" where
  "readDataset N [] err out = (case err of Some e \<Rightarrow> Inl e | None \<Rightarrow> Inr out)"
| "readDataset N (raw # lines) err out =
     (if length raw = 0 \<or> hd raw = CHR ''#'' then readDataset N lines err out
      else case unmarshal_struct (eval_field N) raw (zero_rec (length out)) of
             Inl e \<Rightarrow> Inl (Wrapped ''line'' e)
           | Inr rec \<Rightarrow>
               if rec_Tool (rr_rec rec) = '''' \<or> rec_IntentID (rr_rec rec) = ''''
               then Inl (ErrMsg ''missing tool or intent_id'')
               else readDataset N lines err (out @ [rec]))"

section \<open>Pairs\<close>

definition pairCategory :: "eval_rec \<Rightarrow> eval_rec \<Rightarrow> bytes" where
  "pairCategory a b =
     (if rec_Category a = '''' \<and> rec_Category b = '''' then
        (if rec_IntentID a = rec_IntentID b then ''same-intent-uncategorized'' else ''different-intent-uncategorized'')
      else if rec_Category a = rec_Category b \<and> rec_Category a \<noteq> '''' then rec_Category a
      else if rec_Category a = ''baseline'' \<and> rec_Category b \<noteq> '''' then rec_Category b
      else if rec_Category b = ''baseline'' \<and> rec_Category a \<noteq> '''' then rec_Category a
      else rec_Category a @ ''+'' @ rec_Category b)"

definition mk_pair :: "eval_rec \<Rightarrow> eval_rec \<Rightarrow> Pair" where
  "mk_pair a b = \<lparr>pr_A = a, pr_B = b, SameIntent = (rec_IntentID a = rec_IntentID b), pr_Category = pairCategory a b\<rparr>"

fun all_pairs :: "eval_rec list \<Rightarrow> Pair list" where
  "all_pairs [] = []"
| "all_pairs (a # rs) = map (mk_pair a) rs @ all_pairs rs"

text \<open>\<open>tools\<close> is the order in which the map \<open>byTool\<close> is visited.\<close>

definition BuildPairs :: "bytes list \<Rightarrow> eval_rec list \<Rightarrow> Pair list" where
  "BuildPairs tools records = concat (map (\<lambda>t. all_pairs (filter (\<lambda>r. rec_Tool r = t) records)) tools)"

section \<open>Scoring\<close>

text \<open>The private copies of \<open>writeScalar\<close> and \<open>buildIntent\<close> in \<open>analyse.go\<close>.\<close>

definition eval_writeScalar :: "json_num \<Rightarrow> json \<Rightarrow> bytes \<Rightarrow> bytes" where
  "eval_writeScalar N v b =
     (case v of
        JStr s \<Rightarrow> b @ s
      | JNum x \<Rightarrow> b @ format_g N x
      | JBool x \<Rightarrow> b @ marshal_bool x
      | JNull \<Rightarrow> b @ ''null''
      | _ \<Rightarrow> (case json_marshal N v of Inr j \<Rightarrow> b @ j @ [CHR 0x0A] | Inl _ \<Rightarrow> b))"

fun eval_intent_loop :: "json_num \<Rightarrow> (bytes \<times> json) list \<Rightarrow> nat \<Rightarrow> bytes list \<Rightarrow> bytes \<Rightarrow> bytes" where
  "eval_intent_loop N m i [] b = b"
| "eval_intent_loop N m i (k # keys) b =
     (let b1 = (if i > 0 then b @ '' '' else b) @ k @ ''=''
      in eval_intent_loop N m (Suc i) keys (eval_writeScalar N (the (map_of m k)) b1))"

definition eval_buildIntent :: "json_num \<Rightarrow> (bytes \<times> json) list \<Rightarrow> bytes" where
  "eval_buildIntent N m = (if length m = 0 then '''' else eval_intent_loop N m 0 (sort (map fst m)) '''')"

definition eval_analyse :: "lib \<Rightarrow> args \<Rightarrow> ToolPolicy \<Rightarrow> (bytes \<times> bytes) result \<times> args" where
  "eval_analyse L a pol =
     (let raw = map (\<lambda>(k, v). (k, normalize_field (l_uni L) pol k v)) (case a of Some kvs \<Rightarrow> kvs | None \<Rightarrow> []);
          selected = (if length (FingerprintFields pol) > 0 then select_fields raw (FingerprintFields pol) [] else raw)
      in ((case Exact (l_num L) (JObj selected) of
             Inl err \<Rightarrow> Inl err
           | Inr hash \<Rightarrow> Inr (hash, eval_buildIntent (l_num L) selected)),
          (case a of Some _ \<Rightarrow> Some raw | None \<Rightarrow> None)))"

type_synonym arg_store = "nat \<Rightarrow> args"

definition eval_Score ::
  "lib \<Rightarrow> Config \<Rightarrow> (bytes \<Rightarrow> f32 list result) \<Rightarrow> Pair \<Rightarrow> arg_store \<Rightarrow> Score result \<times> arg_store" where
  "eval_Score L cfg emb p H =
     (let pol = For cfg (rec_Tool (pr_A p)) in
      case eval_analyse L (H (rec_Args (pr_A p))) pol of
        (Inl err, a') \<Rightarrow> (Inl (Wrapped ''analyse A'' err), H(rec_Args (pr_A p) := a'))
      | (Inr (hashA, intentA), a') \<Rightarrow>
          let H1 = H(rec_Args (pr_A p) := a') in
          (case eval_analyse L (H1 (rec_Args (pr_B p))) pol of
             (Inl err, b') \<Rightarrow> (Inl (Wrapped ''analyse B'' err), H1(rec_Args (pr_B p) := b'))
           | (Inr (hashB, intentB), b') \<Rightarrow>
               let score = (\<lambda>sim. Inr \<lparr>HashA = hashA, HashB = hashB, ExactMatch = (hashA = hashB), CosineSim = sim\<rparr>) in
               ((if intentA \<noteq> '''' \<and> intentB \<noteq> '''' then
                   (case emb intentA of
                      Inl err \<Rightarrow> Inl (Wrapped ''embed A'' err)
                    | Inr va \<Rightarrow>
                        (case emb intentB of
                           Inl err \<Rightarrow> Inl (Wrapped ''embed B'' err)
                         | Inr vb \<Rightarrow>
                             (case Cosine (l_fp L) va vb of
                                Inl err \<Rightarrow> Inl (Wrapped ''cosine'' err)
                              | Inr sim \<Rightarrow> score sim)))
                 else score 0),
                H1(rec_Args (pr_B p) := b'))))"

fun score_all ::
  "lib \<Rightarrow> Config \<Rightarrow> (bytes \<Rightarrow> f32 list result) \<Rightarrow> Pair list \<Rightarrow> arg_store \<Rightarrow> (Pair \<times> Score) list result \<times> arg_store" where
  "score_all L cfg emb [] H = (Inr [], H)"
| "score_all L cfg emb (p # ps) H =
     (case eval_Score L cfg emb p H of
        (Inl err, H1) \<Rightarrow> (Inl err, H1)
      | (Inr s, H1) \<Rightarrow>
          (case score_all L cfg emb ps H1 of
             (Inl err, H2) \<Rightarrow> (Inl err, H2)
           | (Inr ss, H2) \<Rightarrow> (Inr ((p, s) # ss), H2)))"

section \<open>The sweep\<close>

definition candidateThresholds :: "fp_ops \<Rightarrow> flt list" where
  "candidateThresholds F = map (\<lambda>v. f_div (R64 F) (f64_of_nat F v) (Fin 100)) [50..<100]"

definition fires :: "flt \<Rightarrow> Score \<Rightarrow> bool" where
  "fires th s \<longleftrightarrow> ExactMatch s \<or> flt_le th (f32_flt (CosineSim s))"

definition count_pair :: "flt \<Rightarrow> Pair \<times> Score \<Rightarrow> Metrics \<Rightarrow> Metrics" where
  "count_pair th ps m =
     (let f = fires th (snd ps) in
      if SameIntent (fst ps) \<and> f then m\<lparr>TP := TP m + 1\<rparr>
      else if SameIntent (fst ps) \<and> \<not> f then m\<lparr>FN := FN m + 1\<rparr>
      else if f then m\<lparr>FP := FP m + 1\<rparr> else m\<lparr>TN := TN m + 1\<rparr>)"

definition matrix :: "bytes \<Rightarrow> flt \<Rightarrow> (Pair \<times> Score) list \<Rightarrow> Metrics" where
  "matrix tool th items =
     fold (count_pair th) items \<lparr>mt_Tool = tool, mt_Threshold = th, TP = 0, FP = 0, TN = 0, FN = 0\<rparr>"

definition metrics_less :: "Metrics \<Rightarrow> Metrics \<Rightarrow> bool" where
  "metrics_less a b =
     (if mt_Tool a \<noteq> mt_Tool b then mt_Tool a < mt_Tool b else flt_less (mt_Threshold a) (mt_Threshold b))"

text \<open>\<open>sort.Slice\<close>: the keys are distinct, so any sorting algorithm gives this list.\<close>

fun insert_less :: "('a \<Rightarrow> 'a \<Rightarrow> bool) \<Rightarrow> 'a \<Rightarrow> 'a list \<Rightarrow> 'a list" where
  "insert_less lt x [] = [x]"
| "insert_less lt x (y # ys) = (if lt y x then y # insert_less lt x ys else x # y # ys)"

definition sort_Slice :: "('a \<Rightarrow> 'a \<Rightarrow> bool) \<Rightarrow> 'a list \<Rightarrow> 'a list" where
  "sort_Slice lt xs = foldr (insert_less lt) xs []"

definition Evaluate ::
  "lib \<Rightarrow> Config \<Rightarrow> (bytes \<Rightarrow> f32 list result) \<Rightarrow> bytes list \<Rightarrow> Pair list \<Rightarrow> arg_store \<Rightarrow> Metrics list result \<times> arg_store" where
  "Evaluate L cfg emb tools pairs H =
     (case score_all L cfg emb pairs H of
        (Inl err, H1) \<Rightarrow> (Inl err, H1)
      | (Inr scored, H1) \<Rightarrow>
          (Inr (sort_Slice metrics_less
             (concat (map (\<lambda>t. map (\<lambda>th. matrix t th (filter (\<lambda>ps. rec_Tool (pr_A (fst ps)) = t) scored))
                                 (candidateThresholds (l_fp L))) tools))), H1))"

definition better :: "fp_ops \<Rightarrow> Metrics \<Rightarrow> (bytes \<rightharpoonup> Metrics) \<Rightarrow> (bytes \<rightharpoonup> Metrics)" where
  "better F m best =
     (case best (mt_Tool m) of
        None \<Rightarrow> best(mt_Tool m \<mapsto> m)
      | Some cur \<Rightarrow>
          if flt_less (F1 F cur) (F1 F m) then best(mt_Tool m \<mapsto> m)
          else if flt_eq (F1 F m) (F1 F cur) \<and> flt_less (mt_Threshold cur) (mt_Threshold m) then best(mt_Tool m \<mapsto> m)
          else best)"

definition BestThreshold :: "fp_ops \<Rightarrow> Metrics list \<Rightarrow> (bytes \<rightharpoonup> Metrics)" where
  "BestThreshold F ms = fold (better F) ms Map.empty"

section \<open>Audit logs\<close>

record ToolReport =
  tr_Records :: nat
  WouldDecisions :: "(bytes \<times> nat) list"
  UniqueHashes :: nat
  TopRepeatedHash :: bytes
  TopRepeatedCount :: nat
  WouldReplayRate :: flt

definition would :: "Record \<Rightarrow> bytes" where
  "would r = (if a_WouldDecision r = '''' then a_Decision r else a_WouldDecision r)"

definition bump :: "bytes \<Rightarrow> (bytes \<times> nat) list \<Rightarrow> (bytes \<times> nat) list" where
  "bump k m = AList.update k ((case map_of m k of Some n \<Rightarrow> n | None \<Rightarrow> 0) + 1) m"

text \<open>One tool's share of the first loop: its report and its hash counts.\<close>

definition summarize_one :: "Record \<Rightarrow> ToolReport \<times> (bytes \<times> nat) list \<Rightarrow> ToolReport \<times> (bytes \<times> nat) list" where
  "summarize_one r acc =
     (let (tr, counts) = acc in
      (tr\<lparr>tr_Records := tr_Records tr + 1, WouldDecisions := bump (would r) (WouldDecisions tr)\<rparr>,
       if a_Hash r \<noteq> '''' then bump (a_Hash r) counts else counts))"

definition zero_report :: ToolReport where
  "zero_report = \<lparr>tr_Records = 0, WouldDecisions = [], UniqueHashes = 0, TopRepeatedHash = '''', TopRepeatedCount = 0,
     WouldReplayRate = Fin 0\<rparr>"

definition summarize_step ::
  "Record \<Rightarrow> (bytes \<rightharpoonup> ToolReport \<times> (bytes \<times> nat) list) \<Rightarrow> (bytes \<rightharpoonup> ToolReport \<times> (bytes \<times> nat) list)" where
  "summarize_step r out =
     (let acc = (case out (a_Tool r) of Some x \<Rightarrow> x | None \<Rightarrow> (zero_report, []))
      in out(a_Tool r \<mapsto> summarize_one r acc))"

fun top_hash :: "(bytes \<times> nat) list \<Rightarrow> bytes \<times> nat \<Rightarrow> bytes \<times> nat" where
  "top_hash [] cur = cur"
| "top_hash ((h, n) # hs) cur = top_hash hs (if n > snd cur then (h, n) else cur)"

definition finish_report :: "fp_ops \<Rightarrow> ((bytes \<times> nat) list \<Rightarrow> (bytes \<times> nat) list) \<Rightarrow> ToolReport \<times> (bytes \<times> nat) list \<Rightarrow> ToolReport" where
  "finish_report F visit acc =
     (let (tr, counts) = acc; (topH, topN) = top_hash (visit counts) ('''', 0) in
      tr\<lparr>UniqueHashes := length counts, TopRepeatedHash := topH, TopRepeatedCount := topN,
         WouldReplayRate :=
           (if tr_Records tr > 0
            then f_div (R64 F) (f64_of_nat F (case map_of (WouldDecisions tr) ''replay'' of Some n \<Rightarrow> n | None \<Rightarrow> 0)) (f64_of_nat F (tr_Records tr))
            else WouldReplayRate tr)\<rparr>)"

text \<open>\<open>visit\<close> is the order in which a map of hash counts is visited.\<close>

definition Summarize ::
  "fp_ops \<Rightarrow> ((bytes \<times> nat) list \<Rightarrow> (bytes \<times> nat) list) \<Rightarrow> Record list \<Rightarrow> nat \<times> (bytes \<rightharpoonup> ToolReport)" where
  "Summarize F visit records =
     (length records, map_option (finish_report F visit) \<circ> fold summarize_step records Map.empty)"

section \<open>The measured pipeline is the deployed one\<close>

lemma eval_writeScalar_eq: "eval_writeScalar N v b = b @ writeScalar N v"
  by (cases v) (auto simp: eval_writeScalar_def writeScalar_def split: sum.split)

lemma eval_intent_loop_eq:
  "eval_intent_loop N m i keys b = b @ intent_loop N i (map (\<lambda>k. (k, the (map_of m k))) keys)"
  by (induction keys arbitrary: i b) (auto simp: eval_writeScalar_eq Let_def)

lemma sort_map_fst: "sort (map fst m) = map fst (sort_key fst m)"
  by (rule properties_for_sort) simp_all

lemma eval_buildIntent_eq:
  assumes "distinct (map fst m)"
  shows "eval_buildIntent N m = buildIntent N m"
proof -
  have "map (\<lambda>k. (k, the (map_of m k))) (sort (map fst m)) = sort_key fst m"
    using assms by (auto simp: sort_map_fst intro!: map_idI)
  then show ?thesis by (simp add: eval_buildIntent_def buildIntent_def eval_intent_loop_eq)
qed

lemma distinct_fold_update: "distinct (map fst acc) \<Longrightarrow> distinct (map fst (fold (\<lambda>(k, v). AList.update k v) kvs acc))"
  by (induction kvs arbitrary: acc) (auto simp: distinct_update)

lemma parse_object_distinct:
  "parse_value N d s = Some (JObj kvs, r) \<Longrightarrow> distinct (map fst kvs)"
  by (subst (asm) parse_value.simps) (auto simp: distinct_fold_update Let_def split: list.splits if_splits option.splits)

lemma unmarshal_object_distinct:
  assumes "unmarshal_object N s = Inr raw"
  shows "distinct (map fst raw)"
  using assms parse_object_distinct
  by (fastforce simp: unmarshal_object_def parse_json_def split: option.splits json.splits if_splits)

lemma eval_selected:
  assumes "distinct (map fst raw)"
  shows "fst (eval_analyse L (Some raw) pol) =
     (case Exact (l_num L) (JObj (selected_fields (l_uni L) pol raw)) of
        Inl err \<Rightarrow> Inl err
      | Inr hash \<Rightarrow> Inr (hash, buildIntent (l_num L) (selected_fields (l_uni L) pol raw)))"
proof -
  have "map fst (map (\<lambda>(k, v). (k, normalize_field (l_uni L) pol k v)) raw) = map fst raw" by (auto simp: case_prod_unfold)
  then have "distinct (map fst (selected_fields (l_uni L) pol raw))"
    using assms distinct_select_fields [of "[]"] by (simp add: selected_fields_def Let_def del: map_map)
  note eq = eval_buildIntent_eq [OF this, of "l_num L"]
  have "fst (eval_analyse L (Some raw) pol) =
     (case Exact (l_num L) (JObj (selected_fields (l_uni L) pol raw)) of
        Inl err \<Rightarrow> Inl err
      | Inr hash \<Rightarrow> Inr (hash, eval_buildIntent (l_num L) (selected_fields (l_uni L) pol raw)))"
    unfolding eval_analyse_def selected_fields_def Let_def option.case fst_conv ..
  then show ?thesis by (simp only: eq)
qed

text \<open>C38. The harness measures what the proxy does: on the decoded arguments of a call, its private
  copy of \<open>analyse\<close> returns the same fingerprint and the same intent string as the pipeline's on the
  bytes of the call, for every policy.\<close>

theorem eval_analyse_agrees:
  assumes "body \<noteq> ''''" "unmarshal_object (l_num L) body = Inr raw"
  shows "fst (eval_analyse L (Some raw) pol) = analyse L body pol"
  using assms eval_selected [OF unmarshal_object_distinct [OF assms(2)]] by (simp add: analyse_def Let_def)

section \<open>Confusion matrices\<close>

lemma count_pair_simps [simp]:
  "mt_Tool (count_pair th ps m) = mt_Tool m" "mt_Threshold (count_pair th ps m) = mt_Threshold m"
  "TP (count_pair th ps m) = TP m + (if SameIntent (fst ps) \<and> fires th (snd ps) then 1 else 0)"
  "FN (count_pair th ps m) = FN m + (if SameIntent (fst ps) \<and> \<not> fires th (snd ps) then 1 else 0)"
  "FP (count_pair th ps m) = FP m + (if \<not> SameIntent (fst ps) \<and> fires th (snd ps) then 1 else 0)"
  "TN (count_pair th ps m) = TN m + (if \<not> SameIntent (fst ps) \<and> \<not> fires th (snd ps) then 1 else 0)"
  by (simp_all add: count_pair_def Let_def)

lemma fold_count:
  "mt_Tool (fold (count_pair th) items m) = mt_Tool m" "mt_Threshold (fold (count_pair th) items m) = mt_Threshold m"
  "TP (fold (count_pair th) items m) = TP m + length (filter (\<lambda>ps. SameIntent (fst ps) \<and> fires th (snd ps)) items)"
  "FN (fold (count_pair th) items m) = FN m + length (filter (\<lambda>ps. SameIntent (fst ps) \<and> \<not> fires th (snd ps)) items)"
  "FP (fold (count_pair th) items m) = FP m + length (filter (\<lambda>ps. \<not> SameIntent (fst ps) \<and> fires th (snd ps)) items)"
  "TN (fold (count_pair th) items m) = TN m + length (filter (\<lambda>ps. \<not> SameIntent (fst ps) \<and> \<not> fires th (snd ps)) items)"
  by (induction items arbitrary: m) auto

lemma matrix_simps [simp]:
  "mt_Tool (matrix t th items) = t" "mt_Threshold (matrix t th items) = th"
  "TP (matrix t th items) = length (filter (\<lambda>ps. SameIntent (fst ps) \<and> fires th (snd ps)) items)"
  "FN (matrix t th items) = length (filter (\<lambda>ps. SameIntent (fst ps) \<and> \<not> fires th (snd ps)) items)"
  "FP (matrix t th items) = length (filter (\<lambda>ps. \<not> SameIntent (fst ps) \<and> fires th (snd ps)) items)"
  "TN (matrix t th items) = length (filter (\<lambda>ps. \<not> SameIntent (fst ps) \<and> \<not> fires th (snd ps)) items)"
  by (simp_all add: matrix_def fold_count)

lemma insert_less_set [simp]: "set (insert_less lt x xs) = insert x (set xs)"
  by (induction xs) auto

lemma sort_Slice_set [simp]: "set (sort_Slice lt xs) = set xs"
  by (induction xs) (simp_all add: sort_Slice_def)

lemma fires_antitone: "flt_le th th' \<Longrightarrow> fires th' s \<Longrightarrow> fires th s"
  unfolding fires_def using flt_le_trans by blast

lemma filter_length_mono: "(\<And>x. P x \<Longrightarrow> Q x) \<Longrightarrow> length (filter P xs) \<le> length (filter Q xs)"
  by (induction xs) auto

lemma length_split: "length (filter (\<lambda>x. P x \<and> Q x) xs) + length (filter (\<lambda>x. P x \<and> \<not> Q x) xs) = length (filter P xs)"
  by (induction xs) auto

lemma score_all_pairs: "score_all L cfg emb ps H = (Inr ss, H') \<Longrightarrow> map fst ss = ps"
  by (induction ps arbitrary: H ss H') (auto split: prod.splits sum.splits)

lemma Evaluate_metrics:
  assumes "Evaluate L cfg emb tools pairs H = (Inr ms, H')"
  obtains scored where "map fst scored = pairs"
    "\<And>m. m \<in> set ms \<Longrightarrow> m = matrix (mt_Tool m) (mt_Threshold m) (filter (\<lambda>ps. rec_Tool (pr_A (fst ps)) = mt_Tool m) scored)"
proof -
  obtain scored H1 where s: "score_all L cfg emb pairs H = (Inr scored, H1)"
    using assms by (auto simp: Evaluate_def split: prod.splits sum.splits)
  show ?thesis
    by (rule that [OF score_all_pairs [OF s]]) (use assms s in \<open>auto simp: Evaluate_def\<close>)
qed

lemma filter_fst: "length (filter (\<lambda>ps. P (fst ps)) xs) = length (filter P (map fst xs))"
  by (induction xs) auto

lemma Evaluate_rows:
  assumes "Evaluate L cfg emb tools pairs H = (Inr ms, H')" "m \<in> set ms"
  shows "TP m + FN m = length (filter (\<lambda>p. rec_Tool (pr_A p) = mt_Tool m \<and> SameIntent p) pairs)"
    "FP m + TN m = length (filter (\<lambda>p. rec_Tool (pr_A p) = mt_Tool m \<and> \<not> SameIntent p) pairs)"
proof -
  obtain scored where sc: "map fst scored = pairs"
    "m = matrix (mt_Tool m) (mt_Threshold m) (filter (\<lambda>ps. rec_Tool (pr_A (fst ps)) = mt_Tool m) scored)"
    using Evaluate_metrics [OF assms(1)] assms(2) by metis
  have c: "length (filter (\<lambda>ps. Q (fst ps)) (filter (\<lambda>ps. rec_Tool (pr_A (fst ps)) = t) scored)) =
      length (filter (\<lambda>p. rec_Tool (pr_A p) = t \<and> Q p) pairs)" for Q t
    using filter_fst [of "\<lambda>p. rec_Tool (pr_A p) = t \<and> Q p" scored] sc(1) by (simp add: conj_commute)
  show "TP m + FN m = length (filter (\<lambda>p. rec_Tool (pr_A p) = mt_Tool m \<and> SameIntent p) pairs)"
    by (subst (1 2) sc(2)) (simp only: matrix_simps length_split c)
  show "FP m + TN m = length (filter (\<lambda>p. rec_Tool (pr_A p) = mt_Tool m \<and> \<not> SameIntent p) pairs)"
    by (subst (1 2) sc(2)) (simp only: matrix_simps length_split c [of "\<lambda>p. \<not> SameIntent p"])
qed

lemma Evaluate_covers:
  assumes "Evaluate L cfg emb tools pairs H = (Inr ms, H')" "t \<in> set tools"
  obtains m where "m \<in> set ms" "mt_Tool m = t"
proof -
  obtain scored H1 where s: "score_all L cfg emb pairs H = (Inr scored, H1)"
    using assms(1) by (auto simp: Evaluate_def split: prod.splits sum.splits)
  have "50 \<in> set [50..<100::nat]" by simp
  then have "matrix t (f_div (R64 (l_fp L)) (f64_of_nat (l_fp L) 50) (Fin 100)) (filter (\<lambda>ps. rec_Tool (pr_A (fst ps)) = t) scored) \<in> set ms"
    using assms s unfolding Evaluate_def candidateThresholds_def by fastforce
  then show ?thesis using that matrix_simps(1) by blast
qed

text \<open>Every confusion matrix of the sweep accounts for every pair of its tool exactly once, in the
  row its label says, and raising the threshold only moves pairs from fires to does-not-fire: true and
  false positives never grow, false and true negatives never shrink.\<close>

theorem sweep_matrices:
  assumes "Evaluate L cfg emb tools pairs H = (Inr ms, H')" "m \<in> set ms" "m' \<in> set ms"
    and "mt_Tool m' = mt_Tool m" "flt_le (mt_Threshold m) (mt_Threshold m')"
  shows "TP m + FN m = length (filter (\<lambda>p. rec_Tool (pr_A p) = mt_Tool m \<and> SameIntent p) pairs) \<and>
    FP m + TN m = length (filter (\<lambda>p. rec_Tool (pr_A p) = mt_Tool m \<and> \<not> SameIntent p) pairs) \<and>
    TP m' \<le> TP m \<and> FP m' \<le> FP m \<and> FN m \<le> FN m' \<and> TN m \<le> TN m'"
proof -
  obtain scored where sc: "\<And>m. m \<in> set ms \<Longrightarrow>
      m = matrix (mt_Tool m) (mt_Threshold m) (filter (\<lambda>ps. rec_Tool (pr_A (fst ps)) = mt_Tool m) scored)"
    using Evaluate_metrics [OF assms(1)] by blast
  define t th th' i where d: "t = mt_Tool m" "th = mt_Threshold m" "th' = mt_Threshold m'"
    "i = filter (\<lambda>ps. rec_Tool (pr_A (fst ps)) = t) scored"
  have m: "m = matrix t th i" "m' = matrix t th' i" "flt_le th th'"
    using sc [OF assms(2)] sc [OF assms(3)] assms(4,5) by (simp_all add: d)
  have "TP m' \<le> TP m" "FP m' \<le> FP m" "FN m \<le> FN m'" "TN m \<le> TN m'"
    unfolding m(1,2) matrix_simps using fires_antitone [OF m(3)] by (blast intro: filter_length_mono)+
  then show ?thesis using Evaluate_rows [OF assms(1,2)] by simp
qed

definition no_nan :: "fp_ops \<Rightarrow> Metrics \<Rightarrow> bool" where
  "no_nan F m \<longleftrightarrow> F1 F m \<noteq> NaN \<and> mt_Threshold m \<noteq> NaN"

definition best_of :: "fp_ops \<Rightarrow> Metrics list \<Rightarrow> Metrics \<Rightarrow> bool" where
  "best_of F ms b \<longleftrightarrow> b \<in> set ms \<and>
     (\<forall>m \<in> set ms. mt_Tool m = mt_Tool b \<longrightarrow> flt_le (F1 F m) (F1 F b) \<and>
        (flt_eq (F1 F m) (F1 F b) \<longrightarrow> flt_le (mt_Threshold m) (mt_Threshold b)))"

lemma flt_total: "a \<noteq> NaN \<Longrightarrow> b \<noteq> NaN \<Longrightarrow> flt_less a b \<or> flt_eq a b \<or> flt_less b a"
  by (cases a; cases b) auto

lemma flt_order:
  "flt_less a b \<Longrightarrow> flt_le a b" "flt_eq a b \<Longrightarrow> flt_le a b" "a \<noteq> NaN \<Longrightarrow> flt_le a a" "flt_eq a b \<Longrightarrow> flt_eq b a"
  "flt_less a b \<Longrightarrow> flt_le c a \<Longrightarrow> flt_less c b" "flt_less a b \<Longrightarrow> \<not> flt_eq a b" "flt_less a b \<Longrightarrow> \<not> flt_eq b a"
  "flt_eq a b \<Longrightarrow> flt_eq b c \<Longrightarrow> flt_eq a c" "flt_le a b \<Longrightarrow> flt_eq b c \<Longrightarrow> flt_le a c"
  by (cases a; cases b; cases c; auto simp: flt_le_def)+

lemma better_best:
  assumes "no_nan F m" "\<forall>x \<in> set ms. no_nan F x"
    and "\<And>t. (best t = None \<longleftrightarrow> (\<forall>x \<in> set ms. mt_Tool x \<noteq> t)) \<and> (\<forall>b. best t = Some b \<longrightarrow> mt_Tool b = t \<and> best_of F ms b)"
  shows "(better F m best t = None \<longleftrightarrow> (\<forall>x \<in> set (ms @ [m]). mt_Tool x \<noteq> t)) \<and>
    (\<forall>b. better F m best t = Some b \<longrightarrow> mt_Tool b = t \<and> best_of F (ms @ [m]) b)"
proof (cases "t = mt_Tool m")
  case False
  then have "better F m best t = best t" by (auto simp: better_def split: option.splits)
  then show ?thesis using assms(3) [of t] False by (auto simp: best_of_def)
next
  case t: True
  show ?thesis
  proof (cases "best t")
    case None
    then have "better F m best t = Some m" "\<forall>x \<in> set ms. mt_Tool x \<noteq> t" using assms(3) [of t] t by (auto simp: better_def)
    then show ?thesis using t assms(1) by (auto simp: best_of_def no_nan_def flt_order(3))
  next
    case (Some cur)
    then have cur: "mt_Tool cur = t" "best_of F ms cur" using assms(3) [of t] by auto
    then have nc: "no_nan F cur" using assms(2) by (auto simp: best_of_def)
    have nm: "F1 F m \<noteq> NaN" "mt_Threshold m \<noteq> NaN" "F1 F cur \<noteq> NaN" "mt_Threshold cur \<noteq> NaN"
      using assms(1) nc by (simp_all add: no_nan_def)
    note tot = flt_total [OF nm(1,3)] flt_total [OF nm(2,4)]
    have old: "flt_le (F1 F x) (F1 F cur)" "flt_eq (F1 F x) (F1 F cur) \<Longrightarrow> flt_le (mt_Threshold x) (mt_Threshold cur)"
      if "x \<in> set ms" "mt_Tool x = t" for x using cur that by (simp_all add: best_of_def)
    consider "flt_less (F1 F cur) (F1 F m)" | "flt_eq (F1 F m) (F1 F cur)" "flt_less (mt_Threshold cur) (mt_Threshold m)"
      | "flt_less (F1 F m) (F1 F cur)" | "flt_eq (F1 F m) (F1 F cur)" "\<not> flt_less (mt_Threshold cur) (mt_Threshold m)"
      using tot by blast
    then show ?thesis
    proof cases
      case 1
      then have b: "better F m best t = Some m" using Some t by (simp add: better_def)
      have "best_of F (ms @ [m]) m"
      proof -
        have "flt_less (F1 F x) (F1 F m)" if "x \<in> set ms" "mt_Tool x = t" for x by (rule flt_order(5) [OF 1 old(1) [OF that]])
        then show ?thesis using t nm(1,2) flt_order(1,3,6) by (auto simp: best_of_def)
      qed
      then show ?thesis using b t by auto
    next
      case 2
      then have b: "better F m best t = Some m" using Some t by (auto simp: better_def)
      have "best_of F (ms @ [m]) m"
      proof -
        have "flt_le (F1 F x) (F1 F m) \<and> (flt_eq (F1 F x) (F1 F m) \<longrightarrow> flt_le (mt_Threshold x) (mt_Threshold m))"
          if x: "x \<in> set ms" "mt_Tool x = t" for x
          using old [OF x] 2 flt_order(8) [of "F1 F x" "F1 F m" "F1 F cur"] flt_order(9) [of "F1 F x" "F1 F cur" "F1 F m"]
            flt_order(4) [OF 2(1)] flt_order(1) [OF 2(2)] flt_le_trans by blast
        then show ?thesis using t nm(1,2) flt_order(3) by (auto simp: best_of_def)
      qed
      then show ?thesis using b t by auto
    next
      case 3
      then have n: "\<not> flt_less (F1 F cur) (F1 F m)" "\<not> flt_eq (F1 F m) (F1 F cur)" by (cases "F1 F cur"; cases "F1 F m"; auto)+
      then have b: "better F m best t = Some cur" using Some t by (simp add: better_def)
      have "best_of F (ms @ [m]) cur" using n cur t flt_order(1) [OF 3] by (auto simp: best_of_def)
      then show ?thesis using b cur(1) t by (metis append_Cons in_set_conv_decomp option.distinct(1) option.inject)
    next
      case 4
      then have n: "\<not> flt_less (F1 F cur) (F1 F m)" by (cases "F1 F cur"; cases "F1 F m"; auto)
      then have b: "better F m best t = Some cur" using Some t 4 by (simp add: better_def)
      have "flt_le (mt_Threshold m) (mt_Threshold cur)" using 4(2) tot(2) flt_order by blast
      then have "best_of F (ms @ [m]) cur" using cur t flt_order(2) [OF 4(1)] by (auto simp: best_of_def)
      then show ?thesis using b cur(1) t by (metis append_Cons in_set_conv_decomp option.distinct(1) option.inject)
    qed
  qed
qed

lemma BestThreshold_best:
  assumes "\<forall>m \<in> set ms. no_nan F m"
  shows "(BestThreshold F ms t = None \<longleftrightarrow> (\<forall>x \<in> set ms. mt_Tool x \<noteq> t)) \<and>
    (\<forall>b. BestThreshold F ms t = Some b \<longrightarrow> mt_Tool b = t \<and> best_of F ms b)"
  using assms
proof (induction ms arbitrary: t rule: rev_induct)
  case (snoc m ms)
  have "BestThreshold F (ms @ [m]) = better F m (BestThreshold F ms)" by (simp add: BestThreshold_def)
  moreover have n: "no_nan F m" "\<forall>x \<in> set ms. no_nan F x" using snoc.prems by simp_all
  ultimately show ?case using better_best [OF n snoc.IH [OF n(2)], of t] by simp
qed (simp add: BestThreshold_def)

text \<open>The threshold the harness recommends is optimal: every tool of the sweep gets an entry, and it is
  one of its matrices, no matrix of the tool has a higher F1 score, and among those with the same
  score none has a higher threshold.\<close>

theorem BestThreshold_optimal:
  assumes "\<forall>m \<in> set ms. F1 F m \<noteq> NaN \<and> mt_Threshold m \<noteq> NaN" "x \<in> set ms"
  shows "\<exists>b. BestThreshold F ms (mt_Tool x) = Some b \<and> b \<in> set ms \<and> mt_Tool b = mt_Tool x \<and>
    flt_le (F1 F x) (F1 F b) \<and> (flt_eq (F1 F x) (F1 F b) \<longrightarrow> flt_le (mt_Threshold x) (mt_Threshold b))"
proof -
  have n: "\<forall>m \<in> set ms. no_nan F m" using assms(1) by (simp add: no_nan_def)
  obtain b where "BestThreshold F ms (mt_Tool x) = Some b" using BestThreshold_best [OF n, of "mt_Tool x"] assms(2) by auto
  then show ?thesis using BestThreshold_best [OF n, of "mt_Tool x"] assms(2) by (auto simp: best_of_def)
qed

section \<open>Reports\<close>

definition cnt :: "(bytes \<times> nat) list \<Rightarrow> bytes \<Rightarrow> nat" where
  "cnt m k = (case map_of m k of Some n \<Rightarrow> n | None \<Rightarrow> 0)"

lemma bump_cnt [simp]: "cnt (bump k m) k' = cnt m k' + (if k = k' then 1 else 0)"
  by (simp add: cnt_def bump_def AList.update_conv')

lemma bump_keys [simp]: "set (map fst (bump k m)) = insert k (set (map fst m))" "distinct (map fst m) \<Longrightarrow> distinct (map fst (bump k m))"
  by (simp_all add: bump_def dom_update distinct_update)

lemma summarize_fold:
  "fst (fold summarize_one rs (tr, cs)) = (fst (fold summarize_one rs (tr, cs)))\<lparr>UniqueHashes := UniqueHashes tr,
     TopRepeatedHash := TopRepeatedHash tr, TopRepeatedCount := TopRepeatedCount tr, WouldReplayRate := WouldReplayRate tr\<rparr> \<and>
   tr_Records (fst (fold summarize_one rs (tr, cs))) = tr_Records tr + length rs \<and>
   cnt (WouldDecisions (fst (fold summarize_one rs (tr, cs)))) d = cnt (WouldDecisions tr) d + length (filter (\<lambda>r. would r = d) rs) \<and>
   cnt (snd (fold summarize_one rs (tr, cs))) h =
     cnt cs h + length (filter (\<lambda>r. a_Hash r = h \<and> h \<noteq> '''') rs) \<and>
   set (map fst (snd (fold summarize_one rs (tr, cs)))) = set (map fst cs) \<union> (a_Hash ` set rs - {''''}) \<and>
   (distinct (map fst cs) \<longrightarrow> distinct (map fst (snd (fold summarize_one rs (tr, cs)))))"
proof (induction rs arbitrary: tr cs)
  case (Cons r rs)
  let ?tr = "tr\<lparr>tr_Records := tr_Records tr + 1, WouldDecisions := bump (would r) (WouldDecisions tr)\<rparr>"
  let ?cs = "if a_Hash r \<noteq> '''' then bump (a_Hash r) cs else cs"
  have "fold summarize_one (r # rs) (tr, cs) = fold summarize_one rs (?tr, ?cs)" by (simp add: summarize_one_def)
  moreover have "set (map fst ?cs) = set (map fst cs) \<union> ({a_Hash r} - {''''})" "distinct (map fst cs) \<longrightarrow> distinct (map fst ?cs)"
    by (auto simp del: set_map)
  moreover have "cnt ?cs h = cnt cs h + length (filter (\<lambda>r. a_Hash r = h \<and> h \<noteq> '''') [r])" by auto
  ultimately show ?case using Cons.IH [of ?tr ?cs] by (auto simp del: set_map)
qed simp

lemma summarize_tool:
  "fold summarize_step rs out t =
     (if filter (\<lambda>r. a_Tool r = t) rs = [] then out t
      else Some (fold summarize_one (filter (\<lambda>r. a_Tool r = t) rs) (case out t of Some x \<Rightarrow> x | None \<Rightarrow> (zero_report, []))))"
  by (induction rs arbitrary: out) (auto simp: summarize_step_def Let_def)

lemma top_hash_max:
  "snd cur \<le> snd (top_hash hs cur) \<and> (\<forall>(h, n) \<in> set hs. n \<le> snd (top_hash hs cur)) \<and>
     (top_hash hs cur = cur \<or> top_hash hs cur \<in> set hs)"
proof (induction hs arbitrary: cur)
  case (Cons x hs)
  obtain h n where "x = (h, n)" by (cases x)
  then show ?case using Cons [of cur] Cons [of "(h, n)"] by auto
qed simp

lemma cnt_mem: "distinct (map fst m) \<Longrightarrow> (h, n) \<in> set m \<Longrightarrow> cnt m h = n"
  by (simp add: cnt_def)

text \<open>The report of an audit log counts exactly what is in it: for each tool the number of its
  records, the number per (would-be) decision, the number of distinct fingerprints, and a most
  frequent fingerprint with its frequency, in whatever order the maps are visited; a tool without
  records has no report.\<close>

theorem Summarize_exact:
  assumes "\<And>m. set (visit m) = set m"
  shows "let rs = filter (\<lambda>r. a_Tool r = t) records in
    fst (Summarize F visit records) = length records \<and>
    (case snd (Summarize F visit records) t of
       None \<Rightarrow> rs = []
     | Some tr \<Rightarrow> rs \<noteq> [] \<and> tr_Records tr = length rs \<and>
         (\<forall>d. cnt (WouldDecisions tr) d = length (filter (\<lambda>r. would r = d) rs)) \<and>
         UniqueHashes tr = card (a_Hash ` set rs - {''''}) \<and>
         (\<forall>h. h \<noteq> '''' \<longrightarrow> length (filter (\<lambda>r. a_Hash r = h) rs) \<le> TopRepeatedCount tr) \<and>
         (0 < TopRepeatedCount tr \<longrightarrow> length (filter (\<lambda>r. a_Hash r = TopRepeatedHash tr) rs) = TopRepeatedCount tr))"
proof (cases "filter (\<lambda>r. a_Tool r = t) records = []")
  case True
  then show ?thesis by (simp add: Summarize_def summarize_tool)
next
  case False
  define rs where "rs = filter (\<lambda>r. a_Tool r = t) records"
  obtain tr cs where f: "fold summarize_one rs (zero_report, []) = (tr, cs)" by (metis prod.exhaust)
  have sf: "tr_Records tr = length rs" "cnt (WouldDecisions tr) d = length (filter (\<lambda>r. would r = d) rs)"
    "cnt cs h = length (filter (\<lambda>r. a_Hash r = h \<and> h \<noteq> '''') rs)" "set (map fst cs) = a_Hash ` set rs - {''''}"
    "distinct (map fst cs)" for d h
    using summarize_fold [of rs zero_report "[]" d h] unfolding f by (auto simp: zero_report_def cnt_def)
  obtain top topN where tn: "top_hash (visit cs) ('''', 0) = (top, topN)" by (metis prod.exhaust)
  note mx = top_hash_max [of "('''', 0)" "visit cs", unfolded tn assms]
  have eq: "snd (Summarize F visit records) t = Some (finish_report F visit (tr, cs))"
    using False f by (simp add: Summarize_def summarize_tool rs_def)
  have len: "UniqueHashes (finish_report F visit (tr, cs)) = card (a_Hash ` set rs - {''''})"
    using distinct_card [OF sf(5)] sf(4) by (simp add: finish_report_def tn)
  have le: "length (filter (\<lambda>r. a_Hash r = h) rs) \<le> topN" if "h \<noteq> ''''" for h
  proof (cases "map_of cs h")
    case (Some n)
    then show ?thesis using mx sf(3) [of h] that by (auto simp: cnt_def dest: map_of_SomeD)
  qed (use sf(3) [of h] that in \<open>simp add: cnt_def\<close>)
  have tp: "length (filter (\<lambda>r. a_Hash r = top) rs) = topN" if "0 < topN"
  proof -
    have m: "(top, topN) \<in> set cs" using mx that by auto
    then have "top \<noteq> ''''" using sf(4) by force
    then show ?thesis using cnt_mem [OF sf(5) m] sf(3) [of top] by simp
  qed
  show ?thesis
    using eq len le tp sf(1,2) False by (simp add: rs_def [symmetric] finish_report_def tn) (simp add: Summarize_def)
qed

section \<open>Instances\<close>

definition demo_lib :: lib where
  "demo_lib = \<lparr>l_num = zero_num, l_uni = ascii_only, l_fp = exact_fp\<rparr>"

theorem eval_analyse_agrees_witness:
  "unmarshal_object (l_num demo_lib) ''null'' = Inr [] \<and>
   fst (eval_analyse demo_lib (Some []) zero_policy) = analyse demo_lib ''null'' zero_policy"
proof -
  have "parse_value zero_num 10000 (''null'' @ '''') = Some (sort_keys JNull, '''')"
    using reads_literal(1) [of zero_num 10000] delim_simps(1) unfolding reads_def by blast
  then have u: "unmarshal_object (l_num demo_lib) ''null'' = Inr []"
    by (simp add: unmarshal_object_def parse_json_def demo_lib_def skip_ws_def)
  then show ?thesis using eval_analyse_agrees [OF _ u, of zero_policy] by simp
qed

definition demo_rec :: "bytes \<Rightarrow> nat \<Rightarrow> eval_rec" where
  "demo_rec intent a = \<lparr>rec_ID = '''', rec_Tool = ''send'', rec_IntentID = intent, rec_Category = '''', rec_Args = a\<rparr>"

lemma select_none [simp]: "select_fields [] fs [] = []" "eval_buildIntent N [] = ''''"
  by (induction fs) (auto simp: eval_buildIntent_def)

lemma demo_Score:
  obtains h where "eval_Score demo_lib \<lparr>Defaults = zero_policy, Tools = Map.empty\<rparr> emb (mk_pair (demo_rec i 0) (demo_rec j 1)) (\<lambda>_. None) =
    (Inr \<lparr>HashA = h, HashB = h, ExactMatch = True, CosineSim = 0\<rparr>, (\<lambda>_. None))"
proof -
  obtain h where h: "Exact zero_num (JObj []) = Inr h" using Exact_total [of zero_num "JObj []"] by auto
  have "eval_analyse demo_lib None pol = (Inr (h, ''''), None)" for pol
    using h by (auto simp: eval_analyse_def demo_lib_def Let_def)
  then show ?thesis using that [of h] by (auto simp: eval_Score_def Let_def demo_rec_def mk_pair_def fun_eq_iff)
qed

theorem sweep_matrices_witness:
  "\<exists>ms H' m. Evaluate demo_lib \<lparr>Defaults = zero_policy, Tools = Map.empty\<rparr> (\<lambda>_. Inr []) [''send'']
      [mk_pair (demo_rec ''a'' 0) (demo_rec ''a'' 1)] (\<lambda>_. None) = (Inr ms, H') \<and> m \<in> set ms \<and> TP m + FN m = 1 \<and> FP m + TN m = 0"
proof -
  let ?p = "mk_pair (demo_rec ''a'' 0) (demo_rec ''a'' 1)" and ?cfg = "\<lparr>Defaults = zero_policy, Tools = Map.empty\<rparr>"
  obtain h where h: "eval_Score demo_lib ?cfg (\<lambda>_. Inr []) ?p (\<lambda>_. None) =
      (Inr \<lparr>HashA = h, HashB = h, ExactMatch = True, CosineSim = 0\<rparr>, (\<lambda>_. None))" by (rule demo_Score)
  let ?s = "[(?p, \<lparr>HashA = h, HashB = h, ExactMatch = True, CosineSim = 0\<rparr>)]"
  let ?m = "matrix ''send'' (Fin (1 / 2)) ?s"
  obtain ms H' where e: "Evaluate demo_lib ?cfg (\<lambda>_. Inr []) [''send''] [?p] (\<lambda>_. None) = (Inr ms, H')"
    and ms: "set ms = (\<lambda>th. matrix ''send'' th ?s) ` set (candidateThresholds exact_fp)"
    using h by (simp add: Evaluate_def) (simp add: mk_pair_def demo_rec_def demo_lib_def)
  have "Fin (1 / 2) = f_div Fin (Fin (real 50)) (Fin 100)" by simp
  then have "Fin (1 / 2) \<in> set (candidateThresholds exact_fp)"
    by (auto simp: candidateThresholds_def exact_fp_def f64_of_nat_def intro!: image_eqI [of _ _ 50])
  then have m: "?m \<in> set ms" using ms by blast
  have "flt_le (mt_Threshold ?m) (mt_Threshold ?m)" by (simp add: flt_le_def)
  from sweep_matrices [OF e m m refl this] e m show ?thesis
    by (intro exI [of _ ms] exI [of _ H'] exI [of _ ?m]) (simp add: mk_pair_def demo_rec_def)
qed

theorem BestThreshold_optimal_witness:
  "\<exists>b. BestThreshold exact_fp [\<lparr>mt_Tool = ''t'', mt_Threshold = Fin 0.5, TP = 1, FP = 1, TN = 0, FN = 0\<rparr>,
         \<lparr>mt_Tool = ''t'', mt_Threshold = Fin 0.9, TP = 1, FP = 0, TN = 1, FN = 0\<rparr>] ''t'' = Some b \<and> flt_le (Fin 1) (F1 exact_fp b)"
proof -
  let ?x = "\<lparr>mt_Tool = ''t'', mt_Threshold = Fin 0.9, TP = 1, FP = 0, TN = 1, FN = 0\<rparr>"
  let ?ms = "[\<lparr>mt_Tool = ''t'', mt_Threshold = Fin 0.5, TP = 1, FP = 1, TN = 0, FN = 0\<rparr>, ?x]"
  have f: "F1 exact_fp ?x = Fin 1" by (simp add: F1_def Precision_def Recall_def f64_of_nat_def exact_fp_def Let_def)
  have "\<forall>m \<in> set ?ms. F1 exact_fp m \<noteq> NaN \<and> mt_Threshold m \<noteq> NaN"
    by (simp add: F1_def Precision_def Recall_def f64_of_nat_def exact_fp_def Let_def)
  from BestThreshold_optimal [OF this, of ?x] f show ?thesis by auto
qed

definition demo_record :: "bytes \<Rightarrow> bytes \<Rightarrow> Record" where
  "demo_record d h = \<lparr>a_Timestamp = 0, a_Tool = ''send'', a_Mode = '''', a_Decision = d, a_Match = '''', a_Similarity = 0, a_Hash = h,
     a_Protocol = '''', a_Shadow = False, a_WouldDecision = '''', a_TraceID = ''''\<rparr>"

theorem Summarize_exact_witness:
  "\<exists>tr. snd (Summarize exact_fp (\<lambda>m. m) [demo_record ''forward'' ''h'', demo_record ''replay'' ''h'']) ''send'' = Some tr \<and>
     tr_Records tr = 2 \<and> UniqueHashes tr = 1 \<and> 2 \<le> TopRepeatedCount tr"
proof -
  let ?rs = "[demo_record ''forward'' ''h'', demo_record ''replay'' ''h'']"
  have f: "filter (\<lambda>r. a_Tool r = ''send'') ?rs = ?rs" by (simp add: demo_record_def)
  from Summarize_exact [of "\<lambda>m. m" "''send''" "?rs" exact_fp, unfolded Let_def f]
  obtain tr where tr: "snd (Summarize exact_fp (\<lambda>m. m) ?rs) ''send'' = Some tr" "tr_Records tr = 2"
    "UniqueHashes tr = card (a_Hash ` set ?rs - {''''})" "\<forall>h. h \<noteq> '''' \<longrightarrow> length (filter (\<lambda>r. a_Hash r = h) ?rs) \<le> TopRepeatedCount tr"
    by (auto split: option.splits)
  have "a_Hash ` set ?rs - {''''} = {''h''}" "length (filter (\<lambda>r. a_Hash r = ''h'') ?rs) = 2" by (auto simp: demo_record_def)
  then show ?thesis using tr spec [OF tr(4), of "''h''"] by simp
qed

end
