(* ===== verification/Audit_File.thy ===== *)
theory Audit_File
  imports Eval
begin

text \<open>
  The audit log as a file: how \<open>encoding/json\<close> writes an \<open>audit.Record\<close> (\<open>internal/audit/audit.go\<close>)
  and how \<open>internal/eval/audit.go\<close> reads the lines back. \<open>bufio.Scanner\<close> is written out: a line ends at
  a line break, a carriage return before it goes, and a line that does not fit the buffer stops the scan
  with an error. The JSON text of an instant (\<open>time.Time\<close>) and of a \<open>float32\<close> is the parameter
  \<open>audit_codec\<close>; a year out of range and a number that is not finite have none.
\<close>

section \<open>Lines\<close>

definition ErrTooLong :: go_error where "ErrTooLong = ErrMsg ''bufio.Scanner: token too long''"

definition dropCR :: "bytes \<Rightarrow> bytes" where
  "dropCR line = (if line \<noteq> '''' \<and> last line = CHR 0x0D then butlast line else line)"

text \<open>The lines of \<open>data\<close> for a buffer of at most \<open>maxTok\<close> bytes; \<open>ioerr\<close> is the error the reader ends with,
  if it is not the end of the file.\<close>

function scan_lines :: "nat \<Rightarrow> go_error option \<Rightarrow> bytes \<Rightarrow> bytes list \<times> go_error option" where
  "scan_lines maxTok ioerr data =
     (if data = [] then ([], ioerr)
      else case Index data (CHR 0x0A) of
             None \<Rightarrow> if length data < maxTok then ([dropCR data], ioerr) else ([], Some ErrTooLong)
           | Some i \<Rightarrow>
               if i < maxTok
               then (let (ls, err) = scan_lines maxTok ioerr (drop (Suc i) data) in (dropCR (take i data) # ls, err))
               else ([], Some ErrTooLong))"
  by pat_completeness auto
termination
  by (relation "measure (\<lambda>(_, _, d). length d)") auto

declare scan_lines.simps [simp del]

section \<open>Records as JSON\<close>

record audit_codec =
  tm_json :: "time \<Rightarrow> bytes option"
  tm_parse :: "bytes \<Rightarrow> time option"
  f32_json :: "f32 \<Rightarrow> bytes option"
  f32_parse :: "bytes \<Rightarrow> f32 option"

definition f32_zero :: "f32 \<Rightarrow> bool" where "f32_zero x \<longleftrightarrow> x = 0 \<or> x = 0x80000000"

definition omit_string :: "bytes \<Rightarrow> bytes \<Rightarrow> (bytes \<times> bytes) list" where
  "omit_string k s = (if s = '''' then [] else [(k, marshal_string s)])"

definition record_members :: "bytes \<Rightarrow> bytes \<Rightarrow> Record \<Rightarrow> (bytes \<times> bytes) list" where
  "record_members ts sim r =
     [(''ts'', ts), (''tool'', marshal_string (a_Tool r)), (''mode'', marshal_string (a_Mode r)),
      (''decision'', marshal_string (a_Decision r))] @
     omit_string ''match'' (a_Match r) @
     (if f32_zero (a_Similarity r) then [] else [(''similarity'', sim)]) @
     [(''hash'', marshal_string (a_Hash r))] @
     omit_string ''protocol'' (a_Protocol r) @
     (if a_Shadow r then [(''shadow'', marshal_bool True)] else []) @
     omit_string ''would_decision'' (a_WouldDecision r) @
     omit_string ''trace_id'' (a_TraceID r)"

definition marshal_record :: "audit_codec \<Rightarrow> Record \<Rightarrow> bytes option" where
  "marshal_record C r =
     (case (tm_json C (a_Timestamp r), if f32_zero (a_Similarity r) then Some '''' else f32_json C (a_Similarity r)) of
        (Some ts, Some sim) \<Rightarrow> Some (object_text (record_members ts sim r))
      | _ \<Rightarrow> None)"

definition bool_field :: "bytes \<Rightarrow> bool \<Rightarrow> bool result" where
  "bool_field v old =
     (if v = ''null'' then Inr old else if v = ''true'' then Inr True else if v = ''false'' then Inr False
      else Inl (ErrMsg ''json: cannot unmarshal''))"

definition opt_field :: "(bytes \<Rightarrow> 'v option) \<Rightarrow> bytes \<Rightarrow> 'v \<Rightarrow> 'v result" where
  "opt_field parse v old =
     (if v = ''null'' then Inr old
      else case parse v of Some x \<Rightarrow> Inr x | None \<Rightarrow> Inl (ErrMsg ''json: cannot unmarshal''))"

definition set_field :: "'v result \<Rightarrow> ('v \<Rightarrow> 'm) \<Rightarrow> 'm result" where
  "set_field x put = (case x of Inl e \<Rightarrow> Inl e | Inr v \<Rightarrow> Inr (put v))"

definition record_field :: "audit_codec \<Rightarrow> bytes \<Rightarrow> bytes \<Rightarrow> Record \<Rightarrow> Record result" where
  "record_field C k v r =
     (if k = ''ts'' then set_field (opt_field (tm_parse C) v (a_Timestamp r)) (\<lambda>x. r\<lparr>a_Timestamp := x\<rparr>)
      else if k = ''tool'' then set_field (string_field v (a_Tool r)) (\<lambda>x. r\<lparr>a_Tool := x\<rparr>)
      else if k = ''mode'' then set_field (string_field v (a_Mode r)) (\<lambda>x. r\<lparr>a_Mode := x\<rparr>)
      else if k = ''decision'' then set_field (string_field v (a_Decision r)) (\<lambda>x. r\<lparr>a_Decision := x\<rparr>)
      else if k = ''match'' then set_field (string_field v (a_Match r)) (\<lambda>x. r\<lparr>a_Match := x\<rparr>)
      else if k = ''similarity'' then set_field (opt_field (f32_parse C) v (a_Similarity r)) (\<lambda>x. r\<lparr>a_Similarity := x\<rparr>)
      else if k = ''hash'' then set_field (string_field v (a_Hash r)) (\<lambda>x. r\<lparr>a_Hash := x\<rparr>)
      else if k = ''protocol'' then set_field (string_field v (a_Protocol r)) (\<lambda>x. r\<lparr>a_Protocol := x\<rparr>)
      else if k = ''shadow'' then set_field (bool_field v (a_Shadow r)) (\<lambda>x. r\<lparr>a_Shadow := x\<rparr>)
      else if k = ''would_decision'' then set_field (string_field v (a_WouldDecision r)) (\<lambda>x. r\<lparr>a_WouldDecision := x\<rparr>)
      else if k = ''trace_id'' then set_field (string_field v (a_TraceID r)) (\<lambda>x. r\<lparr>a_TraceID := x\<rparr>)
      else Inr r)"

definition zero_record :: Record where
  "zero_record = \<lparr>a_Timestamp = 0, a_Tool = '''', a_Mode = '''', a_Decision = '''', a_Match = '''', a_Similarity = 0, a_Hash = '''',
     a_Protocol = '''', a_Shadow = False, a_WouldDecision = '''', a_TraceID = ''''\<rparr>"

section \<open>Reading the log\<close>

fun audit_lines :: "audit_codec \<Rightarrow> bytes list \<Rightarrow> Record list" where
  "audit_lines C [] = []"
| "audit_lines C (raw # lines) =
     (if length raw = 0 \<or> hd raw = CHR ''#'' then audit_lines C lines
      else case unmarshal_struct (record_field C) raw zero_record of
             Inl _ \<Rightarrow> audit_lines C lines
           | Inr rec \<Rightarrow> rec # audit_lines C lines)"

definition readAuditLog :: "audit_codec \<Rightarrow> bytes \<Rightarrow> go_error option \<Rightarrow> Record list \<times> go_error option" where
  "readAuditLog C data ioerr = (let (ls, err) = scan_lines (2 ^ 20) ioerr data in (audit_lines C ls, err))"

text \<open>\<open>os.Open\<close>, with the content of the file when it opens.\<close>

definition LoadAuditLog :: "audit_codec \<Rightarrow> bytes \<Rightarrow> (bytes \<times> go_error option) result \<Rightarrow> Record list \<times> go_error option" where
  "LoadAuditLog C path file =
     (case file of
        Inl err \<Rightarrow> ([], Some (Wrapped ''open'' err))
      | Inr (data, ioerr) \<Rightarrow> readAuditLog C data ioerr)"

definition SortedTools :: "(bytes \<times> ToolReport) list \<Rightarrow> bytes list" where
  "SortedTools tools = sort (map fst tools)"

section \<open>What is written can be read\<close>

text \<open>What the standard library documents of its encodings: the text is one JSON value on one line, and
  decoding gives the value back.\<close>

definition faithful :: "('v \<Rightarrow> bytes option) \<Rightarrow> (bytes \<Rightarrow> 'v option) \<Rightarrow> bool" where
  "faithful enc dec \<longleftrightarrow> (\<forall>x b. enc x = Some b \<longrightarrow>
     parses 9999 b \<and> CHR 0x0A \<notin> set b \<and> b \<noteq> ''null'' \<and> dec b = Some x)"

definition codec_ok :: "audit_codec \<Rightarrow> bool" where
  "codec_ok C \<longleftrightarrow> faithful (tm_json C) (tm_parse C) \<and> faithful (f32_json C) (f32_parse C)"

definition strings_valid :: "Record \<Rightarrow> bool" where
  "strings_valid r \<longleftrightarrow> valid_utf8 (a_Tool r) \<and> valid_utf8 (a_Mode r) \<and> valid_utf8 (a_Decision r) \<and> valid_utf8 (a_Match r) \<and>
     valid_utf8 (a_Hash r) \<and> valid_utf8 (a_Protocol r) \<and> valid_utf8 (a_WouldDecision r) \<and> valid_utf8 (a_TraceID r)"

definition one_line :: "audit_codec \<Rightarrow> Record \<Rightarrow> bool" where
  "one_line C r \<longleftrightarrow> (\<exists>b. marshal_record C r = Some b \<and> length b < 2 ^ 20) \<and> strings_valid r \<and> a_Similarity r \<noteq> 0x80000000"

lemma field_names [simp]:
  "fold_key ''ts'' = ''ts''" "fold_key ''tool'' = ''tool''" "fold_key ''mode'' = ''mode''" "fold_key ''decision'' = ''decision''"
  "fold_key ''match'' = ''match''" "fold_key ''similarity'' = ''similarity''" "fold_key ''hash'' = ''hash''"
  "fold_key ''protocol'' = ''protocol''" "fold_key ''shadow'' = ''shadow''" "fold_key ''would_decision'' = ''would_decision''"
  "fold_key ''trace_id'' = ''trace_id''"
  by (simp_all add: fold_key_lower)

lemma field_names_valid [simp]:
  "valid_utf8 ''ts''" "valid_utf8 ''tool''" "valid_utf8 ''mode''" "valid_utf8 ''decision''" "valid_utf8 ''match''"
  "valid_utf8 ''similarity''" "valid_utf8 ''hash''" "valid_utf8 ''protocol''" "valid_utf8 ''shadow''"
  "valid_utf8 ''would_decision''" "valid_utf8 ''trace_id''"
  by (simp_all add: ascii_valid)

lemma decode_record:
  assumes C: "codec_ok C" "tm_json C (a_Timestamp r) = Some ts" "strings_valid r"
    and sim: "if f32_zero (a_Similarity r) then a_Similarity r = 0 else f32_json C (a_Similarity r) = Some sim"
  shows "decode_fields (record_field C) (record_members ts sim r) zero_record = Inr r"
proof -
  note simps = record_field_def set_field_def string_field_marshal zero_record_def
  let ?D = "decode_fields (record_field C)"
  let ?r = "zero_record\<lparr>a_Timestamp := a_Timestamp r, a_Tool := a_Tool r, a_Mode := a_Mode r, a_Decision := a_Decision r\<rparr>"
  have v: "valid_utf8 (a_Tool r)" "valid_utf8 (a_Mode r)" "valid_utf8 (a_Decision r)" "valid_utf8 (a_Match r)" "valid_utf8 (a_Hash r)"
    "valid_utf8 (a_Protocol r)" "valid_utf8 (a_WouldDecision r)" "valid_utf8 (a_TraceID r)"
    using C(3) by (simp_all add: strings_valid_def)
  have ts: "opt_field (tm_parse C) ts old = Inr (a_Timestamp r)" for old
    using C by (auto simp: codec_ok_def faithful_def opt_field_def)
  have s: "\<not> f32_zero (a_Similarity r) \<Longrightarrow> opt_field (f32_parse C) sim old = Inr (a_Similarity r)" for old
    using C(1) sim by (auto simp: codec_ok_def faithful_def opt_field_def)
  have head: "?D ([(''ts'', ts), (''tool'', marshal_string (a_Tool r)), (''mode'', marshal_string (a_Mode r)),
      (''decision'', marshal_string (a_Decision r))] @ rest) zero_record = ?D rest ?r" for rest
    using v ts by (simp add: simps)
  have om: "?D (omit_string k x @ rest) m = ?D rest m'"
    if "fold_key k = k" "record_field C k (marshal_string x) m = Inr m'" "x = '''' \<Longrightarrow> m' = m" for k x rest m m'
    using that by (auto simp: omit_string_def)
  let ?r1 = "?r\<lparr>a_Match := a_Match r\<rparr>"
  let ?r2 = "?r1\<lparr>a_Similarity := a_Similarity r\<rparr>"
  let ?r3 = "?r2\<lparr>a_Hash := a_Hash r\<rparr>"
  let ?r4 = "?r3\<lparr>a_Protocol := a_Protocol r\<rparr>"
  let ?r5 = "?r4\<lparr>a_Shadow := a_Shadow r\<rparr>"
  let ?r6 = "?r5\<lparr>a_WouldDecision := a_WouldDecision r\<rparr>"
  have 1: "?D (omit_string ''match'' (a_Match r) @ rest) ?r = ?D rest ?r1" for rest
    using v by (intro om) (simp_all add: simps)
  have 2: "?D ((if f32_zero (a_Similarity r) then [] else [(''similarity'', sim)]) @ rest) ?r1 = ?D rest ?r2" for rest
    using s sim by (auto simp: simps)
  have 3: "?D ([(''hash'', marshal_string (a_Hash r))] @ rest) ?r2 = ?D rest ?r3" for rest
    using v by (simp add: simps)
  have 4: "?D (omit_string ''protocol'' (a_Protocol r) @ rest) ?r3 = ?D rest ?r4" for rest
    using v by (intro om) (simp_all add: simps)
  have 5: "?D ((if a_Shadow r then [(''shadow'', marshal_bool True)] else []) @ rest) ?r4 = ?D rest ?r5" for rest
    by (auto simp: simps bool_field_def marshal_bool_def)
  have 6: "?D (omit_string ''would_decision'' (a_WouldDecision r) @ rest) ?r5 = ?D rest ?r6" for rest
    using v by (intro om) (simp_all add: simps)
  have 7: "?D (omit_string ''trace_id'' (a_TraceID r) @ []) ?r6 = ?D [] r"
    using v by (intro om) (simp_all add: simps)
  show ?thesis unfolding record_members_def head 1 2 3 4 5 6 using 7 by simp
qed

lemma record_members_ok:
  assumes "codec_ok C" "tm_json C (a_Timestamp r) = Some ts" "strings_valid r"
    "f32_zero (a_Similarity r) \<or> f32_json C (a_Similarity r) = Some sim"
  shows "\<forall>(k, c) \<in> set (record_members ts sim r). valid_utf8 k \<and> parses 9999 c" "record_members ts sim r \<noteq> []"
  using assms
  by (auto simp: record_members_def omit_string_def codec_ok_def faithful_def strings_valid_def
      intro: reads_parses [OF reads_string] reads_parses [OF reads_literal(2)])

lemma unmarshal_record:
  assumes "codec_ok C" "marshal_record C r = Some b" "strings_valid r" "a_Similarity r \<noteq> 0x80000000"
  shows "unmarshal_struct (record_field C) b zero_record = Inr r"
proof -
  obtain ts sim where ts: "tm_json C (a_Timestamp r) = Some ts" and b: "b = object_text (record_members ts sim r)"
    and sim: "if f32_zero (a_Similarity r) then a_Similarity r = 0 else f32_json C (a_Similarity r) = Some sim"
    using assms(2,4) by (auto simp: marshal_record_def f32_zero_def split: option.splits if_splits)
  have "f32_zero (a_Similarity r) \<or> f32_json C (a_Similarity r) = Some sim" using sim by (auto split: if_splits)
  from raw_object_text [OF record_members_ok [OF assms(1) ts assms(3) this]]
  show ?thesis using decode_record [OF assms(1) ts assms(3) sim] by (simp add: unmarshal_struct_def b)
qed

text \<open>The encoder leaves no line break in a value.\<close>

lemma multibyte_high:
  assumes "128 \<le> b0"
  shows "\<forall>b \<in> set (take (snd (decode_codes (b0 # t))) (b0 # t)). 128 \<le> b"
proof -
  have "snd3_ok b0 b1 \<Longrightarrow> 128 \<le> b1" "snd4_ok b0 b1 \<Longrightarrow> 128 \<le> b1" "is_cont b1 \<Longrightarrow> 128 \<le> b1" for b1
    by (auto simp: snd3_ok_def snd4_ok_def is_cont_def split: if_splits)
  note high = this
  have not1: "\<not> b0 < 128" using assms by simp
  show ?thesis
  proof (cases t)
    case (Cons b1 t1)
    then show ?thesis using high [of b1] assms
      by (cases t1; cases "tl t1") (simp_all add: not1 high)
  qed (simp add: not1 assms)
qed

lemma u_escape_no_LF: "CHR 0x0A \<notin> set (u_escape n)"
proof -
  have "hex_val (CHR 0x0A) = None" by code_simp
  then have "hex_digit m \<noteq> CHR 0x0A" for m using hex_val_digit [of m] by (metis option.distinct(1))
  then show ?thesis by (auto simp: u_escape_def bs_def dest: sym)
qed

lemma escape_ascii_no_LF: "CHR 0x0A \<notin> set (escape_ascii c)"
  using u_escape_no_LF by (auto simp: escape_ascii_def bs_def dq_def)

lemma escape_string_no_LF: "CHR 0x0A \<notin> set (escape_string s)"
proof (induction s rule: escape_string.induct)
  case (1 s)
  show ?case
  proof (cases s)
    case (Cons c t)

    have "CHR 0x0A \<notin> set (take (snd (decode_rune s)) s)" if "\<not> of_char c < (128 :: nat)"
    proof
      assume "CHR 0x0A \<in> set (take (snd (decode_rune s)) s)"
      then have "of_char (CHR 0x0A) \<in> set (take (snd (decode_rune s)) (map of_char s) :: nat list)"
        by (metis image_eqI list.set_map take_map)
      then show False using multibyte_high [of "of_char c" "map of_char t"] that Cons by (auto simp: decode_rune_def)
    qed
    with 1 u_escape_no_LF Cons escape_ascii_no_LF show ?thesis by (subst escape_string.simps) auto
  qed (simp add: escape_string.simps)
qed

lemma marshal_string_no_LF: "CHR 0x0A \<notin> set (marshal_string s)"
  using escape_string_no_LF by (simp add: marshal_string_def dq_def)

lemma Join_no_LF: "\<forall>x \<in> set xs. CHR 0x0A \<notin> set x \<Longrightarrow> CHR 0x0A \<notin> set (Join '','' xs)"
  by (induction "'',''" xs rule: Join.induct) auto

lemma object_no_LF:
  assumes "\<forall>(k, c) \<in> set ms. CHR 0x0A \<notin> set c"
  shows "CHR 0x0A \<notin> set (object_text ms)"
proof -
  have "\<forall>x \<in> set (map member_text ms). CHR 0x0A \<notin> set x"
    using assms marshal_string_no_LF by fastforce
  from Join_no_LF [OF this] show ?thesis by (auto simp: object_text_def)
qed

lemma marshal_record_line:
  assumes "codec_ok C" "marshal_record C r = Some b"
  shows "CHR 0x0A \<notin> set b" "b \<noteq> ''''" "hd b = CHR ''{''" "dropCR b = b"
proof -
  obtain ts sim where ts: "tm_json C (a_Timestamp r) = Some ts" and b: "b = object_text (record_members ts sim r)"
    and sim: "f32_zero (a_Similarity r) \<or> f32_json C (a_Similarity r) = Some sim"
    using assms(2) by (auto simp: marshal_record_def split: option.splits if_splits)
  have "\<forall>(k, c) \<in> set (record_members ts sim r). CHR 0x0A \<notin> set c"
    using assms(1) ts sim marshal_string_no_LF
    by (auto simp: record_members_def omit_string_def codec_ok_def faithful_def marshal_bool_def)
  from object_no_LF [OF this] show "CHR 0x0A \<notin> set b" by (simp add: b)
  show "b \<noteq> ''''" "hd b = CHR ''{''" "dropCR b = b" by (simp_all add: b object_text_def dropCR_def)
qed

lemma scan_line:
  assumes "CHR 0x0A \<notin> set b" "length b < n"
  shows "scan_lines n e (b @ CHR 0x0A # rest) = (let (ls, err) = scan_lines n e rest in (dropCR b # ls, err))"
proof -
  have "Index (b @ CHR 0x0A # rest) (CHR 0x0A) = Some (length b)"
    using assms by (auto simp: Index_def takeWhile_append)
  then show ?thesis using assms by (subst scan_lines.simps) simp
qed

text \<open>What the sink wrote for records that fit a line is read back as those records, whatever follows.\<close>

lemma read_written:
  assumes "codec_ok C" "\<forall>r \<in> set rs. one_line C r"
  shows "readAuditLog C (concat (map (encode_line (marshal_record C)) rs) @ rest) e =
    (rs @ fst (readAuditLog C rest e), snd (readAuditLog C rest e))"
  using assms(2)
proof (induction rs)
  case (Cons r rs)
  then obtain b where b: "marshal_record C r = Some b" "length b < 2 ^ 20" and v: "strings_valid r" "a_Similarity r \<noteq> 0x80000000"
    by (auto simp: one_line_def)
  note l = marshal_record_line [OF assms(1) b(1)]
  obtain ls err where s: "scan_lines (2 ^ 20) e (concat (map (encode_line (marshal_record C)) rs) @ rest) = (ls, err)"
    by (metis prod.exhaust)
  have "scan_lines (2 ^ 20) e (concat (map (encode_line (marshal_record C)) (r # rs)) @ rest) = (b # ls, err)"
    using scan_line [OF l(1) b(2)] s l(4) b(1) by (simp add: encode_line_def)
  moreover have "audit_lines C (b # ls) = r # audit_lines C ls"
    using unmarshal_record [OF assms(1) b(1) v] l by simp
  ultimately show ?case using Cons s by (simp add: readAuditLog_def split_def)
qed (simp add: readAuditLog_def split_def)

section \<open>Properties\<close>

text \<open>C21. The audit log survives the disk: at any moment of any interleaving of writers, \<open>Close\<close> and the
  writing goroutine, the reader of the evaluation tool gets from the file exactly the records the goroutine
  has taken, in order and unchanged, and no error; and once \<open>Close\<close> has returned it gets every record that
  \<open>Write\<close> accepted. The records are those that fit a line of the reader's buffer and hold text; the
  encodings of instants and numbers are assumed to be inverted by their decoders.\<close>

theorem audit_file_roundtrip:
  assumes "codec_ok C" "fs_reach (marshal_record C) c s" "\<forall>r \<in> set (accepted s). one_line C r"
  shows "readAuditLog C (dst s) None = (handled s, None) \<and> handled s @ ch s = accepted s \<and>
    (fs_Close_result s ctx = Some (Inr ()) \<longrightarrow> readAuditLog C (dst s) None = (accepted s, None))"
proof -
  have i: "handled s @ ch s = accepted s" "dst s = concat (map (encode_line (marshal_record C)) (handled s))"
    "wg_done s \<longrightarrow> ch s = []"
    using fs_inv_reach [OF assms(2)] by (simp_all add: fs_inv_def)
  have "\<forall>r \<in> set (handled s). one_line C r" using assms(3) i(1) [symmetric] by simp
  from read_written [OF assms(1) this, of "[]" None]
  have "readAuditLog C (dst s) None = (handled s, None)"
    by (simp add: i(2) readAuditLog_def scan_lines.simps)
  then show ?thesis using i(1,3) by (auto simp: fs_Close_result_def split: option.splits if_splits)
qed

section \<open>Instances\<close>

definition demo_codec :: audit_codec where
  "demo_codec = \<lparr>tm_json = (\<lambda>t. if in_int64 t then Some (Itoa t) else None),
     tm_parse = (\<lambda>b. case Atoi b of Inr t \<Rightarrow> Some t | Inl _ \<Rightarrow> None), f32_json = (\<lambda>_. None), f32_parse = (\<lambda>_. None)\<rparr>"

lemma Itoa_chars: "c \<in> set (Itoa n) \<Longrightarrow> is_digit c \<or> c = CHR ''-''"
  using nat_digits_props [of "nat n"] nat_digits_props [of "nat (- n)"] by (auto simp: Itoa_def list_all_iff split: if_splits)

lemma demo_codec_ok: "codec_ok demo_codec"
proof -
  have "CHR 0x0A \<notin> set (Itoa n)" "Itoa n \<noteq> ''null''" for n
    using Itoa_chars [of "CHR 0x0A" n] Itoa_chars [of "CHR ''n''" n] by (auto simp: is_digit_def)
  then show ?thesis by (auto simp: codec_ok_def faithful_def demo_codec_def Itoa_parses Atoi_Itoa)
qed

lemma fs_reach_one:
  obtains s where "fs_reach enc 2 s" "handled s = [r]" "accepted s = [r]"
proof -
  let ?s0 = "newFileSinkWriter 2"
  let ?s1 = "?s0\<lparr>calls := (calls ?s0)(0 := Enter r)\<rparr>"
  let ?s2 = "?s1\<lparr>calls := (calls ?s1)(0 := Passed r)\<rparr>"
  let ?s3 = "?s2\<lparr>ch := ch ?s2 @ [r], accepted := accepted ?s2 @ [r], calls := (calls ?s2)(0 := Returned (Inr ()))\<rparr>"
  let ?s4 = "?s3\<lparr>ch := [], dst := dst ?s3 @ encode_line enc r, handled := handled ?s3 @ [r]\<rparr>"
  have d: "?s0 = \<lparr>ch = [], cap = 2, s_closed = False, ch_closed = False, dst = '''', handled = [], accepted = [],
      wg_done = False, calls = (\<lambda>_. Idle)\<rparr>" by (simp add: newFileSinkWriter_def)
  have "fs_reach enc 2 ?s1" by (rule fs_reach.step [OF fs_reach.init fs_step.call]) (simp add: d)
  then have "fs_reach enc 2 ?s2" by (rule fs_reach.step [OF _ fs_step.pass [where r = r]]) (simp_all add: d)
  then have "fs_reach enc 2 ?s3" by (rule fs_reach.step [OF _ fs_step.send]) (simp_all add: d)
  then have "fs_reach enc 2 ?s4" by (rule fs_reach.step [OF _ fs_step.receive]) (simp add: d)
  then show ?thesis by (rule that) (simp_all add: d)
qed

theorem audit_file_roundtrip_witness:
  "\<exists>s. fs_reach (marshal_record demo_codec) 2 s \<and> readAuditLog demo_codec (dst s) None = ([zero_record], None)"
proof -
  obtain s where s: "fs_reach (marshal_record demo_codec) 2 s" "handled s = [zero_record]" "accepted s = [zero_record]"
    by (rule fs_reach_one)
  have n: "nat_digits 0 = ''0''" by (subst nat_digits.simps) code_simp
  have v: "valid_utf8 ''''" by (simp add: ascii_valid)
  have "\<forall>r \<in> set (accepted s). one_line demo_codec r"
    by (simp add: s one_line_def marshal_record_def demo_codec_def zero_record_def strings_valid_def v f32_zero_def in_int64_def
        int64_min_def int64_max_def object_text_def record_members_def omit_string_def Itoa_def n marshal_string_def escape_plain
        escape_ascii_def dq_def bs_def)
  from audit_file_roundtrip [OF demo_codec_ok s(1) this] s show ?thesis by auto
qed

end
