(* ===== verification/Eval_Cli.thy ===== *)
theory Eval_Cli
  imports Audit_File Policy_Loader
begin

text \<open>
  \<open>cmd/potent-eval/main.go\<close>: the command that measures a policy. \<open>run\<close> composes the loader of the data set,
  the policy loader, the embedder, the sweep and the choice of thresholds; with \<open>-from-audit\<close> it condenses an
  audit log instead. A report is modelled as what is handed to the JSON encoder, or as the lines and the
  tables of cells that are printed; the two column layouts (\<open>json.Encoder.SetIndent\<close>, \<open>text/tabwriter\<close>) are
  the library's, and \<open>fixed n\<close> is the verb \<open>%.nf\<close> of \<open>fmt\<close>. The orders in which Go visits maps are arguments.
  The texts of the errors are cut short.
\<close>

section \<open>Loading\<close>

text \<open>\<open>os.Open\<close>, with the content of the file when it opens and the error its reading ends with.\<close>

definition LoadDataset :: "json_num \<Rightarrow> (bytes \<times> go_error option) result \<Rightarrow> raw_rec list result" where
  "LoadDataset N file =
     (case file of
        Inl err \<Rightarrow> Inl (Wrapped ''open'' err)
      | Inr (data, ioerr) \<Rightarrow> (let (lines, err) = scan_lines (2 ^ 20) ioerr data in readDataset N lines err []))"

text \<open>The argument maps of the records, at their addresses.\<close>

definition arguments :: "raw_rec list \<Rightarrow> arg_store" where
  "arguments raws = (\<lambda>a. if a < length raws then rr_args (raws ! a) else None)"

section \<open>Reports\<close>

record thresholdEntry =
  te_Threshold :: flt
  te_Precision :: flt
  te_Recall :: flt
  te_FPR :: flt
  te_F1 :: flt
  te_TP :: nat
  te_FP :: nat
  te_TN :: nat
  te_FN :: nat

record jsonReport =
  jr_Records :: nat
  jr_Pairs :: nat
  jr_Best :: "bytes \<rightharpoonup> thresholdEntry"
  jr_Sweep :: "Metrics list"

datatype printed = Line bytes | Table "bytes list list"

datatype report = JSONReport jsonReport | JSONSummary "nat \<times> (bytes \<rightharpoonup> ToolReport)" | Human "printed list"

definition threshold_entry :: "fp_ops \<Rightarrow> Metrics \<Rightarrow> thresholdEntry" where
  "threshold_entry F m =
     \<lparr>te_Threshold = mt_Threshold m, te_Precision = Precision F m, te_Recall = Recall F m, te_FPR = FalsePositiveRate F m,
      te_F1 = F1 F m, te_TP = TP m, te_FP = FP m, te_TN = TN m, te_FN = FN m\<rparr>"

definition emitJSON :: "fp_ops \<Rightarrow> eval_rec list \<Rightarrow> Pair list \<Rightarrow> Metrics list \<Rightarrow> (bytes \<rightharpoonup> Metrics) \<Rightarrow> bool \<Rightarrow> report" where
  "emitJSON F records pairs ms best verbose =
     JSONReport \<lparr>jr_Records = length records, jr_Pairs = length pairs, jr_Best = map_option (threshold_entry F) \<circ> best,
       jr_Sweep = (if verbose then ms else [])\<rparr>"

definition sortedToolNames :: "((bytes \<rightharpoonup> Metrics) \<Rightarrow> bytes list) \<Rightarrow> (bytes \<rightharpoonup> Metrics) \<Rightarrow> bytes list" where
  "sortedToolNames keys m = sort (keys m)"

type_synonym fixed = "nat \<Rightarrow> flt \<Rightarrow> bytes"

definition curve_row :: "fixed \<Rightarrow> fp_ops \<Rightarrow> bytes \<Rightarrow> Metrics \<Rightarrow> bytes list" where
  "curve_row fixed F nm m =
     [nm, fixed 2 (mt_Threshold m), fixed 3 (Precision F m), fixed 3 (Recall F m), fixed 3 (FalsePositiveRate F m),
      fixed 3 (F1 F m)]"

definition counts_cell :: "Metrics \<Rightarrow> bytes" where
  "counts_cell m = Join ''/'' (map (\<lambda>n. Itoa (int n)) [TP m, FP m, TN m, FN m])"

definition on_grid :: "fp_ops \<Rightarrow> Metrics \<Rightarrow> bool" where
  "on_grid F m \<longleftrightarrow>
     (let rounded = trunc_int (f_add (R64 F) (f_mul (R64 F) (mt_Threshold m) (Fin 100)) (Fin (1 / 2)))
      in rounded - 5 * go_div rounded 5 = 0)"

definition emitHuman ::
  "fixed \<Rightarrow> fp_ops \<Rightarrow> ((bytes \<rightharpoonup> Metrics) \<Rightarrow> bytes list) \<Rightarrow> eval_rec list \<Rightarrow> Pair list \<Rightarrow> Metrics list \<Rightarrow> (bytes \<rightharpoonup> Metrics) \<Rightarrow> bool \<Rightarrow> report" where
  "emitHuman fixed F keys records pairs ms best verbose =
     (let tools = sortedToolNames keys best;
          head = [''tool'', ''threshold'', ''precision'', ''recall'', ''FPR'', ''F1''];
          full = head @ [''TP/FP/TN/FN'']
      in Human
           ([Line (''dataset: '' @ Itoa (int (length records)) @ '' records, '' @ Itoa (int (length pairs)) @ '' same-tool pairs''),
             Line '''', Line ''best F1 per tool'',
             Table (full # map (\<lambda>t. case best t of Some m \<Rightarrow> curve_row fixed F t m @ [counts_cell m] | None \<Rightarrow> []) tools),
             Line '''', Line ''precision/recall curve (every 0.05 step)'',
             Table (head # concat (map (\<lambda>t. map (curve_row fixed F t) (filter (\<lambda>m. mt_Tool m = t \<and> on_grid F m) ms) @ [[]]) tools))] @
            (if verbose
             then [Line '''', Line ''full sweep'', Table (full # map (\<lambda>m. curve_row fixed F (mt_Tool m) m @ [counts_cell m]) ms)]
             else [])))"

definition joinKV :: "bytes list \<Rightarrow> bytes" where
  "joinKV parts = snd (fold (\<lambda>p (i, out). (Suc i, (if 0 < i then out @ '', '' else out) @ p)) parts (0 :: nat, ''''))"

definition summary_row :: "fixed \<Rightarrow> bytes \<Rightarrow> ToolReport \<Rightarrow> bytes list" where
  "summary_row fixed nm tr =
     (let decKeys = sort (map fst (WouldDecisions tr));
          parts = map (\<lambda>k. k @ ''='' @ (case map_of (WouldDecisions tr) k of Some n \<Rightarrow> Itoa (int n) | None \<Rightarrow> ''0'')) decKeys
      in [nm, Itoa (int (tr_Records tr)), fixed 3 (WouldReplayRate tr), Itoa (int (UniqueHashes tr)),
          Itoa (int (TopRepeatedCount tr)), joinKV parts])"

text \<open>\<open>keys\<close> is the order in which the map of the summary is visited, \<open>visit\<close> that of the hash counts.\<close>

definition summarizeAudit ::
  "fixed \<Rightarrow> fp_ops \<Rightarrow> audit_codec \<Rightarrow> ((bytes \<times> nat) list \<Rightarrow> (bytes \<times> nat) list) \<Rightarrow> ((bytes \<rightharpoonup> ToolReport) \<Rightarrow> bytes list) \<Rightarrow>
     bytes \<Rightarrow> (bytes \<times> go_error option) result \<Rightarrow> bool \<Rightarrow> report result" where
  "summarizeAudit fixed F C visit keys path file asJSON =
     (case LoadAuditLog C path file of
        (_, Some err) \<Rightarrow> Inl (Wrapped ''load audit log'' err)
      | (records, None) \<Rightarrow>
          if length records = 0 then Inl (ErrMsg ''audit log is empty'')
          else let summary = Summarize F visit records in
            if asJSON then Inr (JSONSummary summary)
            else Inr (Human
              [Line (''audit log: '' @ Itoa (int (fst summary)) @ '' records, '' @ Itoa (int (length (keys (snd summary)))) @ '' tools''),
               Line '''',
               Table ([''tool'', ''records'', ''would_replay_rate'', ''unique_hashes'', ''top_hash_count'', ''decisions''] #
                 map (\<lambda>t. case snd summary t of Some tr \<Rightarrow> summary_row fixed t tr | None \<Rightarrow> [])
                   (SortedTools (map (\<lambda>t. (t, the (snd summary t))) (keys (snd summary)))))]))"

section \<open>The command\<close>

record eval_flags =
  ef_embedDim :: int
  ef_embedN :: int
  ef_json :: bool
  ef_verbose :: bool
  ef_fromAudit :: bytes

text \<open>What the environment and the libraries answer: the files, the parsers, and the orders of maps.\<close>

record eval_world =
  ew_dataset :: "(bytes \<times> go_error option) result"
  ew_policy :: "bytes result"
  ew_audit :: "(bytes \<times> go_error option) result"
  ew_strconv :: strconv
  ew_lib :: lib
  ew_codec :: audit_codec
  ew_fixed :: fixed
  ew_order :: "Config \<Rightarrow> string list"
  ew_byTool :: "eval_rec list \<Rightarrow> bytes list"
  ew_scored :: "Pair list \<Rightarrow> bytes list"
  ew_best :: "(bytes \<rightharpoonup> Metrics) \<Rightarrow> bytes list"
  ew_visit :: "(bytes \<times> nat) list \<Rightarrow> (bytes \<times> nat) list"
  ew_tools :: "(bytes \<rightharpoonup> ToolReport) \<Rightarrow> bytes list"

definition eval_run :: "eval_flags \<Rightarrow> eval_world \<Rightarrow> report result" where
  "eval_run f W =
     (let L = ew_lib W; F = l_fp L in
      if ef_fromAudit f \<noteq> ''''
      then summarizeAudit (ew_fixed W) F (ew_codec W) (ew_visit W) (ew_tools W) (ef_fromAudit f) (ew_audit W) (ef_json f)
      else case LoadDataset (l_num L) (ew_dataset W) of
        Inl err \<Rightarrow> Inl (Wrapped ''load dataset'' err)
      | Inr raws \<Rightarrow>
          let records = map rr_rec raws in
          if length records = 0 then Inl (ErrMsg ''dataset is empty'')
          else case Load (ew_strconv W) (ew_order W) (ew_policy W) of
            Inl err \<Rightarrow> Inl (Wrapped ''load policy'' err)
          | Inr cfg \<Rightarrow>
              (case NewHashingTFIDF (ef_embedDim f) (ef_embedN f) of
                 Inl err \<Rightarrow> Inl (Wrapped ''embedder'' err)
               | Inr h \<Rightarrow>
                   let pairs = BuildPairs (ew_byTool W records) records in
                   if length pairs = 0 then Inl (ErrMsg ''dataset has no same-tool pairs to evaluate'')
                   else case fst (Evaluate L cfg (Embed F (l_uni L) h) (ew_scored W pairs) pairs (arguments raws)) of
                     Inl err \<Rightarrow> Inl (Wrapped ''evaluate'' err)
                   | Inr ms \<Rightarrow>
                       let best = BestThreshold F ms in
                       Inr (if ef_json f then emitJSON F records pairs ms best (ef_verbose f)
                            else emitHuman (ew_fixed W) F (ew_best W) records pairs ms best (ef_verbose f))))"

section \<open>What the report says\<close>

lemma joinKV_Join: "joinKV parts = Join '', '' parts"
proof -
  have "0 < n \<Longrightarrow> snd (fold (\<lambda>p (i, out). (Suc i, (if 0 < i then out @ '', '' else out) @ p)) ps (n :: nat, acc)) =
      acc @ (if ps = [] then '''' else '', '' @ Join '', '' ps)" for n acc ps
    by (induction ps arbitrary: n acc) (auto simp: neq_Nil_conv)
  then show ?thesis by (cases parts) (auto simp: joinKV_def neq_Nil_conv)
qed

text \<open>The pairs of a tool, counted by the positions of the records.\<close>

definition labelled :: "eval_rec list \<Rightarrow> bytes \<Rightarrow> bool \<Rightarrow> (nat \<times> nat) set" where
  "labelled rs t same = {(i, j). i < j \<and> j < length rs \<and> rec_Tool (rs ! i) = t \<and> rec_Tool (rs ! j) = t \<and>
     (rec_IntentID (rs ! i) = rec_IntentID (rs ! j) \<longleftrightarrow> same)}"

definition index_pairs :: "(eval_rec \<Rightarrow> bool) \<Rightarrow> (Pair \<Rightarrow> bool) \<Rightarrow> eval_rec list \<Rightarrow> (nat \<times> nat) set" where
  "index_pairs T Q rs = {(i, j). i < j \<and> j < length rs \<and> T (rs ! i) \<and> T (rs ! j) \<and> Q (mk_pair (rs ! i) (rs ! j))}"

lemma index_pairs_Cons:
  "index_pairs T Q (a # rs) =
     (if T a then Pair 0 ` Suc ` {j. j < length rs \<and> T (rs ! j) \<and> Q (mk_pair a (rs ! j))} else {}) \<union> map_prod Suc Suc ` index_pairs T Q rs"
proof (rule set_eqI, clarify)
  fix i j
  show "(i, j) \<in> index_pairs T Q (a # rs) \<longleftrightarrow> (i, j) \<in> (if T a then Pair 0 ` Suc ` {j. j < length rs \<and> T (rs ! j) \<and> Q (mk_pair a (rs ! j))} else {})
      \<union> map_prod Suc Suc ` index_pairs T Q rs"
    by (cases i; cases j) (auto simp: index_pairs_def image_iff split: if_splits)
qed

lemma all_pairs_card: "length (filter Q (all_pairs (filter T rs))) = card (index_pairs T Q rs) \<and> finite (index_pairs T Q rs)"
proof (induction rs)
  case (Cons a rs)
  let ?J = "{j. j < length rs \<and> T (rs ! j) \<and> Q (mk_pair a (rs ! j))}"
  have "length (filter Q (map (mk_pair a) (filter T rs))) = card ?J"
    by (simp add: filter_map length_filter_conv_card conj_commute o_def)
  moreover have "card (Pair (0 :: nat) ` Suc ` ?J) = card ?J" by (simp add: card_image inj_on_def)
  moreover have "card (map_prod Suc Suc ` index_pairs T Q rs) = card (index_pairs T Q rs)"
    by (rule card_image) (auto simp: inj_on_def)
  moreover have "card (Pair (0 :: nat) ` Suc ` ?J \<union> map_prod Suc Suc ` index_pairs T Q rs) =
      card (Pair (0 :: nat) ` Suc ` ?J) + card (map_prod Suc Suc ` index_pairs T Q rs)"
    by (rule card_Un_disjoint) (use Cons in auto)
  ultimately have "T a \<Longrightarrow> ?case" "\<not> T a \<Longrightarrow> ?case"
    using Cons by (simp_all only: index_pairs_Cons if_True if_False all_pairs.simps filter.simps filter_append length_append) simp_all
  then show ?case by blast
qed (simp add: index_pairs_def)

lemma all_pairs_mem: "p \<in> set (all_pairs rs) \<Longrightarrow> pr_A p \<in> set rs \<and> pr_B p \<in> set rs"
  by (induction rs) (auto simp: mk_pair_def)

lemma BuildPairs_tool:
  assumes "distinct tools" "t \<in> set tools"
  shows "filter (\<lambda>p. rec_Tool (pr_A p) = t \<and> Q p) (BuildPairs tools rs) = filter Q (all_pairs (filter (\<lambda>r. rec_Tool r = t) rs))"
proof -
  have own: "filter (\<lambda>p. rec_Tool (pr_A p) = t \<and> Q p) (all_pairs (filter (\<lambda>r. rec_Tool r = s) rs)) =
      (if s = t then filter Q (all_pairs (filter (\<lambda>r. rec_Tool r = t) rs)) else [])" for s
    using all_pairs_mem [of _ "filter (\<lambda>r. rec_Tool r = s) rs"] by (auto intro!: filter_cong simp: filter_empty_conv)
  have "filter (\<lambda>p. rec_Tool (pr_A p) = t \<and> Q p) (BuildPairs tools rs) =
      concat (map (\<lambda>s. if s = t then filter Q (all_pairs (filter (\<lambda>r. rec_Tool r = t) rs)) else []) tools)"
    by (simp add: BuildPairs_def filter_concat o_def own)
  also have "\<dots> = filter Q (all_pairs (filter (\<lambda>r. rec_Tool r = t) rs))"
    using assms
  proof (induction tools)
    case (Cons s ts)
    then show ?case by (cases "s = t") (auto simp: concat_eq_Nil_conv)
  qed simp
  finally show ?thesis .
qed

text \<open>Same-tool records make pairs, and the counts of both labels are those of the data set.\<close>

lemma BuildPairs_counts:
  assumes "distinct tools" "t \<in> set tools"
  shows "length (filter (\<lambda>p. rec_Tool (pr_A p) = t \<and> SameIntent p) (BuildPairs tools rs)) = card (labelled rs t True)"
    "length (filter (\<lambda>p. rec_Tool (pr_A p) = t \<and> \<not> SameIntent p) (BuildPairs tools rs)) = card (labelled rs t False)"
  using all_pairs_card [of SameIntent "\<lambda>r. rec_Tool r = t" rs] all_pairs_card [of "\<lambda>p. \<not> SameIntent p" "\<lambda>r. rec_Tool r = t" rs]
  by (simp_all add: BuildPairs_tool [OF assms] labelled_def index_pairs_def mk_pair_def)

lemma Evaluate_thresholds:
  assumes "fst (Evaluate L cfg emb tools pairs H) = Inr ms" "m \<in> set ms"
  shows "mt_Threshold m \<in> set (candidateThresholds (l_fp L))"
proof -
  obtain scored H1 where s: "score_all L cfg emb pairs H = (Inr scored, H1)"
    using assms(1) by (auto simp: Evaluate_def split: prod.splits sum.splits)
  show ?thesis using assms by (auto simp: Evaluate_def s)
qed

lemma Evaluate_sweeps:
  assumes "fst (Evaluate L cfg emb tools pairs H) = Inr ms" "t \<in> set tools" "th \<in> set (candidateThresholds (l_fp L))"
  shows "\<exists>m \<in> set ms. mt_Tool m = t \<and> mt_Threshold m = th"
proof -
  obtain scored H1 where s: "score_all L cfg emb pairs H = (Inr scored, H1)"
    using assms(1) by (auto simp: Evaluate_def split: prod.splits sum.splits)
  have "matrix t th (filter (\<lambda>ps. rec_Tool (pr_A (fst ps)) = t) scored) \<in> set ms"
    using assms s unfolding Evaluate_def by fastforce
  then show ?thesis using matrix_simps(1,2) by blast
qed

section \<open>Properties\<close>

text \<open>C24. What \<open>potent-eval\<close> recommends is right for the data set it read. A tool that has two records gets an entry,
  and the entry is one row of the printed sweep for that tool: its threshold is the threshold of that row, and the
  precision, the recall, the false-positive rate, F1 and the four counts beside it are those of the same row. The row
  accounts for every pair of records of the tool under its label (same intent or not). The sweep has a row of the tool
  for each candidate threshold and no other; none has a better F1, and among the rows with the same F1 none has a
  larger threshold. The sweep is assumed free of NaN, and the maps to be visited each key once.\<close>

theorem eval_recommends:
  assumes "eval_run f W = Inr (JSONReport R)" "ef_verbose f"
    and "LoadDataset (l_num (ew_lib W)) (ew_dataset W) = Inr raws" "rs = map rr_rec raws"
    and "distinct (ew_byTool W rs)" "set (ew_byTool W rs) = rec_Tool ` set rs"
    and "\<And>ps. set (ew_scored W ps) = (rec_Tool \<circ> pr_A) ` set ps"
    and "\<forall>m \<in> set (jr_Sweep R). no_nan (l_fp (ew_lib W)) m"
    and "i < j" "j < length rs" "rec_Tool (rs ! i) = t" "rec_Tool (rs ! j) = t"
  shows "\<exists>m \<in> set (jr_Sweep R). mt_Tool m = t \<and>
    jr_Best R t = Some \<lparr>te_Threshold = mt_Threshold m, te_Precision = Precision (l_fp (ew_lib W)) m,
      te_Recall = Recall (l_fp (ew_lib W)) m, te_FPR = FalsePositiveRate (l_fp (ew_lib W)) m,
      te_F1 = F1 (l_fp (ew_lib W)) m, te_TP = TP m, te_FP = FP m, te_TN = TN m, te_FN = FN m\<rparr> \<and>
    TP m + FN m = card (labelled rs t True) \<and> FP m + TN m = card (labelled rs t False) \<and>
    mt_Threshold ` {m' \<in> set (jr_Sweep R). mt_Tool m' = t} = set (candidateThresholds (l_fp (ew_lib W))) \<and>
    (\<forall>m' \<in> set (jr_Sweep R). mt_Tool m' = t \<longrightarrow> flt_le (F1 (l_fp (ew_lib W)) m') (F1 (l_fp (ew_lib W)) m) \<and>
      (flt_eq (F1 (l_fp (ew_lib W)) m') (F1 (l_fp (ew_lib W)) m) \<longrightarrow> flt_le (mt_Threshold m') (mt_Threshold m)))"
proof -
  define F pairs where "F = l_fp (ew_lib W)" "pairs = BuildPairs (ew_byTool W rs) rs"
  obtain cfg h ms where fe: "fst (Evaluate (ew_lib W) cfg (Embed F (l_uni (ew_lib W)) h) (ew_scored W pairs) pairs (arguments raws)) = Inr ms"
    and R: "R = \<lparr>jr_Records = length rs, jr_Pairs = length pairs, jr_Best = map_option (threshold_entry F) \<circ> BestThreshold F ms, jr_Sweep = ms\<rparr>"
    using assms(1-4)
    by (auto simp: eval_run_def Let_def summarizeAudit_def emitJSON_def emitHuman_def F_pairs_def
        split: if_splits sum.splits prod.splits option.splits)
  obtain H' where e: "Evaluate (ew_lib W) cfg (Embed F (l_uni (ew_lib W)) h) (ew_scored W pairs) pairs (arguments raws) = (Inr ms, H')"
    using fe by (metis prod.collapse)
  have t: "t \<in> set (ew_byTool W rs)" using assms(6,9,10,11) by auto
  have n: "\<forall>m \<in> set ms. no_nan F m" using assms(8) by (simp add: R F_pairs_def)
  let ?in = "\<lambda>r. rec_Tool r = t"
  have "(i, j) \<in> index_pairs ?in (\<lambda>_. True) rs" using assms(9-12) by (simp add: index_pairs_def)
  then have "all_pairs (filter ?in rs) \<noteq> []"
    using all_pairs_card [of "\<lambda>_. True" ?in rs] by (auto simp: card_gt_0_iff)
  then have "filter (\<lambda>p. rec_Tool (pr_A p) = t \<and> True) pairs \<noteq> []"
    unfolding F_pairs_def BuildPairs_tool [OF assms(5) t] by simp
  then have tool: "t \<in> set (ew_scored W pairs)" unfolding assms(7) by (force simp: filter_empty_conv)
  then obtain m where m: "m \<in> set ms" "mt_Tool m = t" using Evaluate_covers [OF e] by metis
  then obtain b where bt: "BestThreshold F ms t = Some b" using BestThreshold_best [OF n, of t] by auto
  then have b: "mt_Tool b = t" "best_of F ms b" "b \<in> set ms" using BestThreshold_best [OF n, of t] by (auto simp: best_of_def)
  note rows = Evaluate_rows [OF e b(3), unfolded b(1) F_pairs_def(2) BuildPairs_counts [OF assms(5) t]]
  have "mt_Threshold ` {m' \<in> set ms. mt_Tool m' = t} = set (candidateThresholds F)"
    using Evaluate_thresholds [OF fe] Evaluate_sweeps [OF fe tool] unfolding F_pairs_def(1) by blast
  moreover have "jr_Best R t = Some (threshold_entry F b)" by (simp add: R bt)
  ultimately show ?thesis using b rows by (intro bexI [of _ b]) (auto simp: R threshold_entry_def best_of_def F_pairs_def)
qed

section \<open>A concrete run\<close>

lemma exact_no_nan: "mt_Threshold m = Fin th \<Longrightarrow> no_nan exact_fp m"
proof -
  have "\<exists>x. Precision exact_fp m = Fin x" "\<exists>x. Recall exact_fp m = Fin x"
    by (auto simp: Precision_def Recall_def f64_of_nat_def exact_fp_def simp flip: of_nat_add)
  then show "mt_Threshold m = Fin th \<Longrightarrow> ?thesis"
    by (auto simp: no_nan_def F1_def exact_fp_def Let_def)
qed

definition demo_line :: bytes where
  "demo_line = object_text [(''tool'', marshal_string ''send''), (''intent_id'', marshal_string ''a'')]"

definition demo_eval :: eval_world where
  "demo_eval = \<lparr>ew_dataset = Inr (demo_line @ [CHR 0x0A] @ demo_line @ [CHR 0x0A], None), ew_policy = Inr '''', ew_audit = Inl ErrNotFound,
     ew_strconv = \<lparr>ParseFloat = (\<lambda>_. None), frac_ns = (\<lambda>_ _. 0)\<rparr>, ew_lib = demo_lib, ew_codec = demo_codec, ew_fixed = (\<lambda>_ _. ''''),
     ew_order = (\<lambda>_. []), ew_byTool = remdups \<circ> map rec_Tool, ew_scored = remdups \<circ> map (rec_Tool \<circ> pr_A), ew_best = (\<lambda>_. []),
     ew_visit = (\<lambda>m. m), ew_tools = (\<lambda>_. [])\<rparr>"

lemma demo_line_field:
  "unmarshal_struct (eval_field N) demo_line (zero_rec n) = Inr \<lparr>rr_rec = demo_rec ''a'' n, rr_args = None\<rparr>"
proof -
  have "raw_object demo_line = Inr [(''tool'', marshal_string ''send''), (''intent_id'', marshal_string ''a'')]"
    unfolding demo_line_def by (rule raw_object_text) (simp_all add: ascii_valid reads_parses [OF reads_string])
  then show ?thesis by (simp add: unmarshal_struct_def eval_field_def zero_rec_def demo_rec_def ascii_valid fold_key_lower)
qed

lemma demo_load: "LoadDataset N (ew_dataset demo_eval) = Inr (map (\<lambda>n. \<lparr>rr_rec = demo_rec ''a'' n, rr_args = None\<rparr>) [0, 1])"
proof -
  have l: "demo_line = ''{'' @ [CHR 0x22] @ ''tool'' @ [CHR 0x22] @ '':'' @ [CHR 0x22] @ ''send'' @ [CHR 0x22] @ '','' @ [CHR 0x22] @
      ''intent_id'' @ [CHR 0x22] @ '':'' @ [CHR 0x22] @ ''a'' @ [CHR 0x22] @ ''}''"
    by (simp add: demo_line_def object_text_def marshal_string_def escape_plain escape_ascii_def dq_def bs_def)
  have "CHR 0x0A \<notin> set demo_line" "length demo_line < 2 ^ 20" "dropCR demo_line = demo_line" "demo_line \<noteq> ''''" "hd demo_line \<noteq> CHR ''#''"
    by (simp_all add: l dropCR_def)
  note d = this
  have "scan_lines (2 ^ 20) None (demo_line @ [CHR 0x0A] @ demo_line @ [CHR 0x0A]) = ([demo_line, demo_line], None)"
    using scan_line [OF d(1,2), of None] by (simp add: d(3) scan_lines.simps [of _ _ "[]"])
  then show ?thesis
    by (simp add: LoadDataset_def demo_eval_def d(4,5) demo_line_field) (simp add: demo_rec_def)
qed

theorem eval_recommends_witness:
  "\<exists>R te m. eval_run \<lparr>ef_embedDim = 384, ef_embedN = 4, ef_json = True, ef_verbose = True, ef_fromAudit = ''''\<rparr> demo_eval = Inr (JSONReport R) \<and>
     m \<in> set (jr_Sweep R) \<and> jr_Best R ''send'' = Some te \<and> te_Threshold te = mt_Threshold m \<and> te_F1 te = F1 exact_fp m \<and>
     te_TP te + te_FN te = 1 \<and> te_FP te + te_TN te = 0 \<and>
     Fin (99 / 100) \<in> mt_Threshold ` {m' \<in> set (jr_Sweep R). mt_Tool m' = ''send''}"
proof -
  let ?f = "\<lparr>ef_embedDim = 384, ef_embedN = 4, ef_json = True, ef_verbose = True, ef_fromAudit = ''''\<rparr>"
  let ?rs = "[demo_rec ''a'' 0, demo_rec ''a'' 1]" and ?p = "mk_pair (demo_rec ''a'' 0) (demo_rec ''a'' 1)"
  define emb where "emb = Embed exact_fp ascii_only \<lparr>dim = 384, nGramN = 4\<rparr>"
  obtain h where h: "eval_Score demo_lib \<lparr>Defaults = zero_policy, Tools = Map.empty\<rparr> emb ?p (\<lambda>_. None) =
      (Inr \<lparr>HashA = h, HashB = h, ExactMatch = True, CosineSim = 0\<rparr>, (\<lambda>_. None))" by (rule demo_Score)
  obtain ms where ms: "fst (Evaluate demo_lib empty_config emb [''send''] [?p] (\<lambda>_. None)) = Inr ms"
    using h by (simp add: Evaluate_def empty_config_def)
  have th: "\<exists>x. mt_Threshold m = Fin x" if "m \<in> set ms" for m
    using Evaluate_thresholds [OF ms that] by (auto simp: candidateThresholds_def demo_lib_def exact_fp_def f64_of_nat_def)
  have b: "BuildPairs (ew_byTool demo_eval ?rs) ?rs = [?p]" "ew_scored demo_eval [?p] = [''send'']"
    by (simp_all add: demo_eval_def BuildPairs_def demo_rec_def mk_pair_def)
  have l: "Load (ew_strconv demo_eval) (ew_order demo_eval) (ew_policy demo_eval) = Inr empty_config"
    by (simp add: demo_eval_def Load_def parse_def TrimSpace_dropWhile)
  have a: "arguments (map (\<lambda>n. \<lparr>rr_rec = demo_rec ''a'' n, rr_args = None\<rparr>) [0, 1]) = (\<lambda>_. None)"
    by (auto simp: arguments_def less_Suc_eq)
  have w: "ew_lib demo_eval = demo_lib" "l_uni demo_lib = ascii_only" "l_fp demo_lib = exact_fp"
    by (simp_all add: demo_eval_def demo_lib_def)
  obtain R where R: "eval_run ?f demo_eval = Inr (JSONReport R)" "jr_Sweep R = ms"
    using ms a by (simp add: eval_run_def Let_def demo_load [of "l_num demo_lib"] w NewHashingTFIDF_def b l emb_def emitJSON_def
        del: One_nat_def)
  have sc: "set (ew_scored demo_eval ps) = (rec_Tool \<circ> pr_A) ` set ps" for ps by (simp add: demo_eval_def)
  have nn: "\<forall>m \<in> set (jr_Sweep R). no_nan (l_fp (ew_lib demo_eval)) m" using th exact_no_nan by (auto simp: R(2) w)
  have lab: "labelled ?rs ''send'' True = {(0, 1)}" "labelled ?rs ''send'' False = {}"
    by (auto simp: labelled_def demo_rec_def less_Suc_eq)
  have "ef_verbose ?f" "?rs = map rr_rec (map (\<lambda>n. \<lparr>rr_rec = demo_rec ''a'' n, rr_args = None\<rparr>) [0, 1])"
    "distinct (ew_byTool demo_eval ?rs)" "set (ew_byTool demo_eval ?rs) = rec_Tool ` set ?rs"
    "(0 :: nat) < 1" "1 < length ?rs" "rec_Tool (?rs ! 0) = ''send''" "rec_Tool (?rs ! 1) = ''send''"
    by (simp_all add: demo_eval_def demo_rec_def)
  note hyps = this
  note best = eval_recommends [OF R(1) hyps(1) demo_load hyps(2-4) sc nn hyps(5-8), unfolded w lab]
  obtain m where m0: "m \<in> set (jr_Sweep R)" "TP m + FN m = card {(0 :: nat, 1 :: nat)}" "FP m + TN m = card ({} :: (nat \<times> nat) set)"
    "mt_Threshold ` {m' \<in> set (jr_Sweep R). mt_Tool m' = ''send''} = set (candidateThresholds exact_fp)"
    "jr_Best R ''send'' = Some \<lparr>te_Threshold = mt_Threshold m, te_Precision = Precision exact_fp m, te_Recall = Recall exact_fp m,
      te_FPR = FalsePositiveRate exact_fp m, te_F1 = F1 exact_fp m, te_TP = TP m, te_FP = FP m, te_TN = TN m, te_FN = FN m\<rparr>"
    using best by (elim bexE conjE)
  then have m: "m \<in> set (jr_Sweep R)" "TP m + FN m = 1" "FP m + TN m = 0"
    "mt_Threshold ` {m' \<in> set (jr_Sweep R). mt_Tool m' = ''send''} = set (candidateThresholds exact_fp)"
    "jr_Best R ''send'' = Some \<lparr>te_Threshold = mt_Threshold m, te_Precision = Precision exact_fp m, te_Recall = Recall exact_fp m,
      te_FPR = FalsePositiveRate exact_fp m, te_F1 = F1 exact_fp m, te_TP = TP m, te_FP = FP m, te_TN = TN m, te_FN = FN m\<rparr>"
    by simp_all
  have "99 \<in> set [50..<100 :: nat]" by simp
  then have "Fin (99 / 100) \<in> set (candidateThresholds exact_fp)"
    unfolding candidateThresholds_def set_map by (rule rev_image_eqI) (simp add: exact_fp_def f64_of_nat_def)
  with m R(1) show ?thesis by (intro exI [of _ R] exI [of _ "threshold_entry exact_fp m"] exI [of _ m]) (simp add: threshold_entry_def)
qed

end
