(* ===== verification/Spec2Isabelle.thy ===== *)
theory Spec2Isabelle
  imports Store_Lifecycle S3_Sink Collectors Stdio_Run Listeners Gateway_Replay Eval_Cli
begin

text \<open>
  \<^bold>\<open>potent, a semantic-idempotency gateway for tool calls\<close>

  The program stands between an agent and its tools. Every call is normalized and hashed; a call equal to an
  earlier one (or similar enough, by an embedding of its text) is answered from a store or refused, as the
  policy of its tool says, and any other call is forwarded once and its response kept. This development
  translates the Go code under \<open>cmd/\<close> and \<open>internal/\<close> into definitions and proves what makes each part, and
  the composition of the parts, correct. Definitions carry the names of the source.

  \<^bold>\<open>Theories, bottom up\<close>

  \<^item> \<open>Go_Base\<close> (errors as values, \<open>result\<close> = error or value, instants and durations of 64 bits, floating-point values
    with NaN and infinities, generic lemmas), \<open>Go_Strings\<close> (UTF-8 decoding, \<open>strings\<close>), \<open>Strconv\<close>, \<open>Sha256\<close> (FIPS 180-4 on
    32-bit words), \<open>Json\<close> and \<open>Json_Roundtrip\<close> (\<open>encoding/json\<close>: decoder with its nesting limit, encoder, round trip),
    \<open>Jsonrpc\<close> (\<open>internal/mcp/jsonrpc.go\<close>, and decoding into structs). Byte strings are \<open>char list\<close>.
  \<^item> \<open>Normalizer\<close> (\<open>internal/normalizer\<close>), \<open>Fingerprint\<close> (\<open>internal/fingerprint\<close>), \<open>Embedding\<close> (\<open>internal/embed\<close>: hashing
    TF-IDF, cosine, HTTP embedder), \<open>Policy\<close> and \<open>Policy_Loader\<close> (\<open>internal/policy\<close>: the record and the indentation parser).
  \<^item> \<open>Store\<close> (the port of \<open>internal/store\<close> as the record \<open>store_ops\<close>, its laws as the locale \<open>store_port\<close>, the in-memory
    adapter), \<open>Store_Bolt\<close>, \<open>Store_Postgres\<close> (the other adapters over the locales of a bucket and of a table), \<open>Store_Engines\<close>
    (instances of those engines), \<open>Store_Properties\<close>, \<open>Store_Lifecycle\<close> (\<open>OpenPostgres\<close>, the background compactor). The three adapters interpret \<open>store_port\<close>; what is
    proved of a client of the port holds for each.
  \<^item> \<open>Tracing\<close> (\<open>internal/tracing\<close>), \<open>Audit_Log\<close> (\<open>internal/audit\<close>: the writer, the file sink as interleaved steps of
    writers, \<open>Close\<close> and the writing goroutine, the loop of the S3 sink), \<open>S3_Sink\<close> (that loop with its callers), \<open>Audit_File\<close> (records as JSON lines, and reading them back).
  \<^item> \<open>Pipeline\<close> (\<open>internal/pipeline\<close>: \<open>Apply\<close>, \<open>Lookup\<close>, \<open>Cache\<close> as state transformers; the state holds store, rate limiters,
    counters, audit log, the table of calls in flight and a log of the forwarder's calls), \<open>Pipeline_Options\<close>, \<open>Pipeline_Properties\<close>,
    \<open>Pipeline_Matching\<close> (semantic search), \<open>Coalescing\<close> (the same code as a step relation on any number of concurrent calls),
    \<open>Collectors\<close> (\<open>internal/metrics\<close>: the Prometheus vectors and what the pipeline's counted events amount to in them).
  \<^item> \<open>Http_Auth\<close> (\<open>internal/auth\<close>, requests and responses, the gate of the adapters), \<open>Http_Mux\<close> (routing and queries),
    \<open>Proxy\<close> (\<open>internal/proxy\<close>), \<open>Mcp_Http\<close>, \<open>Stdio\<close> and \<open>Stdio_Run\<close> (\<open>internal/mcp\<close>; \<open>Stdio\<close> as interleaved steps of both pumps and
    the sweeper, \<open>Stdio_Run\<close> from the start of the child to the end of \<open>Run\<close>), \<open>Admin\<close> (\<open>internal/admin\<close>), \<open>Oidc\<close> (\<open>internal/oidc\<close>).
  \<^item> \<open>Gateway\<close> (\<open>cmd/potent\<close>: from the flags to a service that listens), \<open>Listeners\<close> (its metrics and admin ports, and the end
    of \<open>serveDual\<close>), \<open>Gateway_Replay\<close> (a request through all layers), \<open>Eval\<close> (\<open>internal/eval\<close>), \<open>Eval_Cli\<close> (\<open>cmd/potent-eval\<close>).

  \<^bold>\<open>How state and effects correspond\<close>

  A method with a receiver takes the receiver's record and returns it updated. An error return is \<open>Inl\<close>; a panic, a
  wait without end and a return are constructors of the outcome. What Go leaves open is an argument: the order in
  which a map is visited, the instants a clock returns (the fields of \<open>request\<close>: one while a call is decided, then one for
  each reading), the branch a \<open>select\<close> takes. Where goroutines share state (\<open>Coalescing\<close>, \<open>Audit_Log\<close>, \<open>S3_Sink\<close>, \<open>Stdio\<close>) an inductive relation has
  one rule for each stretch of code between two synchronizations, and the theorems are invariants of what is reachable.
  What the environment does to a waiting call (a context that ends) is a relation of its own. Ghost fields (who was answered, what was
  accepted, how a leader ended) record history and decide nothing.

  \<^bold>\<open>What the theorems show\<close>

  \<^item> The contract of the gateway: a success is replayed to equal calls (\<open>replay_after_forward\<close>; over HTTP and MCP with
    status, body, headers and frame id, \<open>http_replay\<close>, \<open>mcp_replay\<close>; by a started gateway as a whole, through listener, tracing,
    gate, adapter, pipeline and store, \<open>gateway_replay\<close>), a failure never is (\<open>failure_not_cached\<close>), shadow mode
    forwards, no call is forwarded twice (\<open>forward_at_most_once\<close>), the status header says what happened to the upstream
    (\<open>fresh_iff_forwarded\<close>), refused calls leave no trace, an error of the store opens the gate, audit matches outcome and
    the counters match the audit (\<open>metrics_agree_audit\<close>).
  \<^item> Concurrency: among the calls that coalesce there is one leader per fingerprint, beside which calls of mode log_only or
    off and of shadow mode are forwarded (\<open>single_leader\<close>, \<open>log_only_together\<close>); followers get what their leader got
    (\<open>follower_gets_leader\<close>); no interleaving gets stuck or goes on for ever while the metrics take the labels and the upstream
    answers (\<open>coalescing_terminates\<close>). Over stdio the books of accepted and answered calls and of the client's stream
    balance (\<open>stdio_no_call_lost\<close>). The file sink keeps order and drains under every schedule (\<open>fileSink_fifo\<close>,
    \<open>fileSink_drains\<close>; \<open>file_sink_prefix\<close> adds a file that can fail), and the S3 sink is a file sink whose file is the batches it
    hands over, of which those are uploaded whose put succeeds (\<open>s3_refines_fileSink\<close>, by a simulation in both directions).
  \<^item> Identity: equal fingerprints mean equal arguments up to the order of keys and what the policy normalizes away, unless
    SHA-256 collides (\<open>Exact_identifies\<close>, \<open>analyse_identifies\<close>).
  \<^item> Stores: put then get, other keys untouched, expiry, for each adapter; PostgreSQL up to the precision of its columns;
    compaction removes the expired entries and no other (\<open>bolt_compact_exact\<close>).
  \<^item> Access: the gate decides by credentials alone; a token is trusted only under the key its \<open>kid\<close> has in the last key set
    fetched (\<open>Verify_trusts_current_keys\<close>); no admin answer shows a payload; a process that listens off loopback is never
    open, and startup undoes what it did but for a file sink when the S3 sink fails (\<open>exposed_gateway_authenticates\<close>,
    \<open>startup_unwinds\<close>).
  \<^item> Texts: trace headers, JSON-RPC frames, key sets and audit records read back as written.
  \<^item> Measurement: the harness computes what the pipeline computes, and \<open>potent-eval\<close> recommends the threshold of the best
    row of its sweep.

  Where the code falls short of what it means to do, a theorem shows the behaviour: \<open>reforward_race\<close> and
  \<open>cross_tool_coalescing\<close> in \<open>Coalescing\<close>, \<open>stdio_off_mode_coalesces\<close> and \<open>overwritten_call_blocks\<close> in \<open>Stdio\<close>,
  \<open>fileSink_write_close_race\<close> in \<open>Audit_Log\<close>, \<open>s3_same_second_overwrites\<close> in \<open>S3_Sink\<close>, \<open>stranded_blocks\<close> in \<open>Coalescing\<close> and
  \<open>label_panic_strands\<close> in \<open>Collectors\<close>, \<open>demo_sinks_run\<close> in \<open>Gateway\<close>.

  \<^bold>\<open>Parameters and hypotheses\<close>

  Code that is not in the repository is a parameter. The engines of BoltDB and PostgreSQL are locales whose laws are those
  of a transactional map and of a keyed table; \<open>rate_ops\<close> stands for the rate limiter; \<open>fp_ops\<close> for rounding to 64 and to
  32 bits and the logarithm; \<open>unicode\<close> for the case tables beyond ASCII; \<open>json_num\<close> and \<open>strconv\<close> for the conversion between
  decimal text and \<open>float64\<close>; \<open>jwt_parser\<close> for the token library; \<open>client\<close> and \<open>upstream\<close> for \<open>http.Client\<close> and the reverse proxy;
  \<open>reader\<close> for the random source; \<open>accepts\<close> for the label values Prometheus takes; \<open>pg_driver\<close> and \<open>world\<close> for what a starting process finds. Every theorem with a hypothesis on them has
  an instance at concrete functions, its \<open>_witness\<close>.

  \<^bold>\<open>Bounds\<close>

  Loops are structural or come with a measure; no result rests on fuel. The JSON decoder takes a depth of 10000 as its
  library does; the scanners of lines take the limits of the code (1 MiB). Sequences of steps are finite.

  \<^bold>\<open>Not modelled\<close>

  Sockets, signals and timers as such (an expiry is a step, a signal an event), what the child process of stdio does beyond
  the lines it writes, log output, flag parsing, the layout of printed tables and of indented JSON, the exposition format and
  the histogram buckets of Prometheus, and the AWS, BoltDB, PostgreSQL, JWT and rate-limiter libraries beyond their laws; rows of
  a PostgreSQL query that stop coming half-way, and a clock or a context that changes while a call is being decided. Texts of error messages are cut short.
  Memory effects below the level of maps and records (aliasing of byte slices) are not represented, except for the
  argument maps of \<open>Eval\<close>, which the code changes in place.
\<close>

end
